(* ===== verification/Egress_Prelude.thy ===== *)
theory Egress_Prelude
  imports Main "HOL-Library.Word" "HOL-Library.List_Lexorder"
begin

unbundle bit_operations_syntax

text \<open>
  Shared vocabulary of the development: the machine integers and byte strings of the C
  sources, the part of the C string library the sources call, decimal printing as
  \<open>snprintf\<close> does it, the public result enumeration, and the generic lemmas on lists and
  options that the component theories rest on.

  A C string (\<open>char *\<close>, NUL-terminated) is the list of its bytes before the terminator;
  a byte buffer is the list of its valid bytes. A pointer the code tests for NULL is an
  \<open>option\<close>. \<open>size_t\<close> values that index a buffer are \<open>nat\<close>; counters that the code lets
  saturate or wrap are words of their width.
\<close>

named_theorems byte_class \<open>unfolding of the byte classes used by the parsers\<close>
named_theorems codec_simps \<open>rewriting of encoders and decoders\<close>
named_theorems inv_intros \<open>introduction rules of the component invariants\<close>

section \<open>Types\<close>

type_synonym byte = "8 word"
type_synonym bytes = "byte list"
type_synonym u16 = "16 word"
type_synonym u32 = "32 word"
type_synonym u64 = "64 word"

text \<open>\<open>maelys_egress_result_t\<close> of the public header.\<close>

datatype egress_result =
    EGRESS_OK
  | ERR_ARGUMENT
  | ERR_MEMORY
  | ERR_STATE
  | ERR_IO
  | ERR_DENIED
  | ERR_PROTOCOL
  | ERR_TIMEOUT
  | ERR_CANCELLED
  | ERR_UNSUPPORTED
  | ERR_CRYPTO

text \<open>\<open>maelys_egress_protocol_t\<close>; 0 is the value a cleared structure carries.\<close>

datatype egress_protocol =
    PROTOCOL_NONE
  | PROTOCOL_HTTP_CONNECT
  | PROTOCOL_HTTP_FORWARD
  | PROTOCOL_SOCKS5
  | PROTOCOL_CONNECTOR

text \<open>\<open>maelys_egress_quota_scope_t\<close>.\<close>

datatype quota_scope =
    QUOTA_NONE
  | QUOTA_ACTIVE_CONNECTIONS
  | QUOTA_CONNECTION_BYTES
  | QUOTA_EXECUTION_BYTES

section \<open>Characters and string literals\<close>

abbreviation ch :: "char \<Rightarrow> byte" where
  "ch c \<equiv> of_char c"

definition cstr :: "string \<Rightarrow> bytes" where
  "cstr s = map ch s"

lemma cstr_simps [simp]:
  "cstr [] = []"
  "cstr (c # s) = ch c # cstr s"
  by (simp_all add: cstr_def)

lemma length_cstr [simp]: "length (cstr s) = length s"
  by (simp add: cstr_def)

section \<open>The C string library\<close>

text \<open>\<open>strchr\<close> split in the two halves around the first occurrence.\<close>

fun split_first :: "byte \<Rightarrow> bytes \<Rightarrow> (bytes \<times> bytes) option" where
  "split_first c [] = None"
| "split_first c (b # bs) =
     (if b = c then Some ([], bs)
      else map_option (\<lambda>(p, s). (b # p, s)) (split_first c bs))"

text \<open>\<open>strstr\<close> and \<open>find_bytes\<close>: the index of the first occurrence.\<close>

fun find_sub :: "bytes \<Rightarrow> bytes \<Rightarrow> nat option" where
  "find_sub needle [] = (if needle = [] then Some 0 else None)"
| "find_sub needle (b # bs) =
     (if take (length needle) (b # bs) = needle then Some 0
      else map_option Suc (find_sub needle bs))"

text \<open>\<open>memchr\<close>: the index of the first occurrence of a byte.\<close>

fun find_byte :: "byte \<Rightarrow> bytes \<Rightarrow> nat option" where
  "find_byte c [] = None"
| "find_byte c (b # bs) = (if b = c then Some 0 else map_option Suc (find_byte c bs))"

text \<open>The C string that starts at the beginning of a buffer.\<close>

definition c_string :: "bytes \<Rightarrow> bytes" where
  "c_string bs = takeWhile (\<lambda>b. b \<noteq> 0) bs"

text \<open>ASCII classes and case folding, as the sources spell them out.\<close>

definition is_upper :: "byte \<Rightarrow> bool" where
  "is_upper b \<longleftrightarrow> ch (CHR ''A'') \<le> b \<and> b \<le> ch (CHR ''Z'')"

definition is_lower :: "byte \<Rightarrow> bool" where
  "is_lower b \<longleftrightarrow> ch (CHR ''a'') \<le> b \<and> b \<le> ch (CHR ''z'')"

definition is_digit :: "byte \<Rightarrow> bool" where
  "is_digit b \<longleftrightarrow> ch (CHR ''0'') \<le> b \<and> b \<le> ch (CHR ''9'')"

definition ascii_alnum :: "byte \<Rightarrow> bool" where
  "ascii_alnum b \<longleftrightarrow> is_upper b \<or> is_lower b \<or> is_digit b"

definition to_lower :: "byte \<Rightarrow> byte" where
  "to_lower b = (if is_upper b then b + (ch (CHR ''a'') - ch (CHR ''A'')) else b)"

lemmas byte_class_defs [byte_class] =
  is_upper_def is_lower_def is_digit_def ascii_alnum_def to_lower_def

text \<open>\<open>strcasecmp (a, b) == 0\<close> and \<open>strncasecmp (a, b, n) == 0\<close> in the C locale.\<close>

definition strcasecmp_eq :: "bytes \<Rightarrow> bytes \<Rightarrow> bool" where
  "strcasecmp_eq a b \<longleftrightarrow> map to_lower a = map to_lower b"

definition strncasecmp_eq :: "bytes \<Rightarrow> bytes \<Rightarrow> nat \<Rightarrow> bool" where
  "strncasecmp_eq a b n \<longleftrightarrow> map to_lower (take n a) = map to_lower (take n b)"

text \<open>The value of a decimal digit.\<close>

definition digit_value :: "byte \<Rightarrow> nat" where
  "digit_value b = unat (b - ch (CHR ''0''))"

text \<open>\<open>%u\<close> and \<open>%llu\<close> of \<open>snprintf\<close>.\<close>

fun dec :: "nat \<Rightarrow> bytes" where
  "dec n = (if n < 10 then [ch (CHR ''0'') + of_nat n]
            else dec (n div 10) @ [ch (CHR ''0'') + of_nat (n mod 10)])"

declare dec.simps [simp del]

text \<open>The number a run of decimal digits denotes.\<close>

definition dec_value :: "bytes \<Rightarrow> nat" where
  "dec_value bs = foldl (\<lambda>v b. v * 10 + digit_value b) 0 bs"

section \<open>Lemmas\<close>

lemma split_first_Some:
  "split_first c xs = Some (p, s) \<longleftrightarrow> xs = p @ c # s \<and> c \<notin> set p"
proof (induction xs arbitrary: p)
  case (Cons b bs)
  show ?case by (cases p) (auto simp: Cons.IH)
qed simp

lemma split_first_None [simp]: "split_first c xs = None \<longleftrightarrow> c \<notin> set xs"
  by (induction xs) auto

lemma split_first_append [simp]:
  "c \<notin> set p \<Longrightarrow> split_first c (p @ c # s) = Some (p, s)"
  by (simp add: split_first_Some)

lemma find_byte_Some:
  "find_byte c xs = Some i \<longleftrightarrow> i < length xs \<and> xs ! i = c \<and> c \<notin> set (take i xs)"
proof (induction xs arbitrary: i)
  case (Cons b bs)
  then show ?case by (cases i) auto
qed simp

lemma find_byte_None [simp]: "find_byte c xs = None \<longleftrightarrow> c \<notin> set xs"
  by (induction xs) auto

lemma find_sub_bound:
  "find_sub n xs = Some i \<Longrightarrow> i + length n \<le> length xs"
proof (induction xs arbitrary: i)
  case (Cons b bs)
  show ?case
  proof (cases "take (length n) (b # bs) = n")
    case True
    then have "length n \<le> length (b # bs)"
      by (metis length_take min.cobounded1)
    with True Cons.prems show ?thesis by simp
  next
    case False
    with Cons show ?thesis by auto
  qed
qed (auto split: if_splits)

lemma find_sub_Some_take:
  "find_sub n xs = Some i \<Longrightarrow> take (length n) (drop i xs) = n"
  by (induction xs arbitrary: i) (auto split: if_splits)

text \<open>The first occurrence does not move when bytes are added at the end.\<close>

lemma find_sub_append:
  "find_sub n xs = Some i \<Longrightarrow> find_sub n (xs @ ys) = Some i"
proof (induction xs arbitrary: i)
  case (Cons b bs)
  show ?case
  proof (cases "take (length n) (b # bs) = n")
    case True
    then have "length n \<le> length (b # bs)"
      by (metis length_take min.cobounded1)
    then have "take (length n) (b # bs @ ys) = take (length n) (b # bs)"
      by (cases "length n") auto
    with True Cons.prems show ?thesis by simp
  next
    case False
    with Cons.prems obtain j where j: "find_sub n bs = Some j" "i = Suc j"
      by auto
    from find_sub_bound [OF j(1)] False
    have "take (length n) (b # bs @ ys) \<noteq> n"
      by (cases "length n") auto
    with j Cons.IH [OF j(1)] show ?thesis by simp
  qed
next
  case Nil
  then show ?case by (cases ys) (auto split: if_splits)
qed

lemma find_sub_take:
  "find_sub n xs = Some i \<Longrightarrow> i + length n \<le> k \<Longrightarrow> find_sub n (take k xs) = Some i"
proof (induction xs arbitrary: i k)
  case (Cons b bs)
  show ?case
  proof (cases "take (length n) (b # bs) = n")
    case True
    with Cons.prems have "length n \<le> k" by simp
    then have "take (length n) (take k (b # bs)) = take (length n) (b # bs)"
      by (simp add: min_absorb1 del: take_Cons)
    with True Cons.prems \<open>length n \<le> k\<close> show ?thesis
      by (cases k) simp_all
  next
    case False
    with Cons.prems obtain j k' where j: "find_sub n bs = Some j" "i = Suc j" "k = Suc k'"
      by (cases k) auto
    with Cons.prems have "j + length n \<le> k'" by simp
    moreover from this j have "take (length n) (take k (b # bs)) = take (length n) (b # bs)"
      by (subst take_take) (simp add: min_absorb1)
    ultimately show ?thesis using j False Cons.IH [of j k'] by simp
  qed
qed (auto split: if_splits)

lemma c_string_no_nul [simp]: "0 \<notin> set (c_string bs)"
  by (auto simp: c_string_def dest: set_takeWhileD)

lemma c_string_id [simp]: "0 \<notin> set bs \<Longrightarrow> c_string bs = bs"
  by (auto simp: c_string_def takeWhile_eq_all_conv)

lemma length_c_string_le: "length (c_string bs) \<le> length bs"
  by (simp add: c_string_def length_takeWhile_le)

text \<open>Words read as numbers.\<close>

lemma unat_drop: "unat (drop_bit n a) = unat a div 2 ^ n"
  by (subst unat_drop_bit_eq, subst drop_bit_eq_div) (rule refl)

lemma unat_ucast_mod: "unat (ucast a :: 'b::len word) = unat a mod 2 ^ LENGTH('b)"
  by (simp only: unsigned_ucast_eq take_bit_eq_mod)

lemma unat_and_255: "unat (a AND 0xff :: u32) = unat a mod 256"
proof -
  have "(255 :: u32) = mask 8" by (simp add: mask_eq_exp_minus_1)
  then have "a AND 0xff = take_bit 8 a" by (simp only: take_bit_eq_mask)
  then have "unat (a AND 0xff) = take_bit 8 (unat a)" by (simp only: unsigned_take_bit_eq)
  then show ?thesis by (simp add: take_bit_eq_mod)
qed

lemma xor_zero_iff: "(a :: 'a::len word) XOR b = 0 \<longleftrightarrow> a = b"
  by (metis xor_self_eq xor.assoc xor.left_neutral xor.right_neutral)

lemma ucast_byte_zero: "(ucast (b :: byte) :: u32) = 0 \<longleftrightarrow> b = 0"
  by (transfer, simp add: take_bit_take_bit)

lemma not_upper_add_32: "is_upper b \<Longrightarrow> \<not> is_upper (b + 32)"
  by (auto simp: is_upper_def word_le_nat_alt unat_plus_if')

lemma to_lower_idem [simp]: "to_lower (to_lower b) = to_lower b"
  by (simp add: to_lower_def not_upper_add_32)

lemma is_digit_value: "is_digit b \<Longrightarrow> digit_value b < 10"
  by (auto simp: digit_value_def byte_class word_le_nat_alt unat_sub_if')

lemma dec_nonempty [simp]: "dec n \<noteq> []"
  by (subst dec.simps) simp

lemma dec_small: "n < 10 \<Longrightarrow> dec n = [ch (CHR ''0'') + of_nat n]"
  by (subst dec.simps) simp

lemma dec_step: "10 \<le> n \<Longrightarrow> dec n = dec (n div 10) @ [ch (CHR ''0'') + of_nat (n mod 10)]"
  by (subst dec.simps) simp

lemma unat_byte_less: "unat (b :: byte) < 256"
  using unsigned_less[where 'a = nat, of b] by simp

lemma unat_of_nat_byte: "n < 256 \<Longrightarrow> unat (of_nat n :: byte) = n"
  by (simp add: unat_of_nat take_bit_nat_eq_self)

lemma digit_byte: "n < 10 \<Longrightarrow> is_digit (48 + of_nat n) \<and> digit_value (48 + of_nat n) = n"
  by (simp add: is_digit_def digit_value_def word_le_nat_alt unat_plus_if' unat_of_nat_byte)

lemma digit_byte_inverse: "is_digit b \<Longrightarrow> 48 + of_nat (digit_value b) = b"
  by (simp add: digit_value_def)

lemma dec_digits: "list_all is_digit (dec n)"
proof (induction n rule: dec.induct)
  case (1 n)
  show ?case
  proof (cases "n < 10")
    case True
    then show ?thesis by (simp add: dec_small digit_byte)
  next
    case False
    with 1 have "list_all is_digit (dec (n div 10))" by simp
    with False show ?thesis by (simp add: dec_step digit_byte)
  qed
qed

lemma dec_value_append: "dec_value (xs @ [b]) = dec_value xs * 10 + digit_value b"
  by (simp add: dec_value_def)

lemma dec_value_dec [simp]: "dec_value (dec n) = n"
proof (induction n rule: dec.induct)
  case (1 n)
  show ?case
  proof (cases "n < 10")
    case True
    then show ?thesis by (simp add: dec_small digit_byte dec_value_def)
  next
    case False
    with 1 have "dec_value (dec (n div 10)) = n div 10" by simp
    with False show ?thesis by (simp add: dec_step digit_byte dec_value_append)
  qed
qed

lemma dec_inject [simp]: "dec m = dec n \<longleftrightarrow> m = n"
  by (metis dec_value_dec)

text \<open>Digits without a superfluous leading zero are what \<open>dec\<close> prints for their value.\<close>

lemma dec_dec_value:
  assumes "bs \<noteq> []" "list_all is_digit bs" "1 < length bs \<longrightarrow> hd bs \<noteq> 48"
  shows "dec (dec_value bs) = bs \<and> (hd bs \<noteq> 48 \<longrightarrow> 0 < dec_value bs)"
  using assms
proof (induction bs rule: rev_induct)
  case (snoc b bs)
  have d: "is_digit b" "digit_value b < 10"
    using snoc.prems by (simp_all add: is_digit_value)
  show ?case
  proof (cases "bs = []")
    case True
    have "b \<noteq> 48 \<longrightarrow> 0 < digit_value b"
      using d(1) by (auto simp: digit_value_def is_digit_def word_neq_0_conv unat_gt_0)
    with True d show ?thesis
      by (simp add: dec_value_def dec_small digit_byte_inverse)
  next
    case False
    with snoc.prems have nz: "hd bs \<noteq> 48" by (cases bs) auto
    with snoc False have IH: "dec (dec_value bs) = bs" "0 < dec_value bs" by auto
    then have "dec (dec_value bs * 10 + digit_value b) = bs @ [b]"
      using d by (simp add: dec_step digit_byte_inverse div_mult_self3)
    with IH False show ?thesis by (simp add: dec_value_append)
  qed
qed simp

lemma hd_dec: "hd (dec n) = 48 \<longleftrightarrow> n = 0"
proof (induction n rule: dec.induct)
  case (1 n)
  show ?case
  proof (cases "n < 10")
    case True
    then have "(48 + of_nat n = (48 :: byte)) = (n = 0)"
      by (auto simp: word_unat_eq_iff unat_plus_if' unat_of_nat_byte)
    with True show ?thesis by (simp add: dec_small)
  next
    case False
    with 1 show ?thesis by (simp add: dec_step)
  qed
qed

lemma length_dec: "n < 10 ^ k \<Longrightarrow> 0 < k \<Longrightarrow> length (dec n) \<le> k"
proof (induction n arbitrary: k rule: dec.induct)
  case (1 n)
  show ?case
  proof (cases "n < 10")
    case True
    with 1 show ?thesis by (simp add: dec_small)
  next
    case False
    from 1 obtain m where k: "k = Suc m" by (cases k) auto
    with 1 False have "0 < m" by (cases m) auto
    with 1 k have "n div 10 < 10 ^ m" by auto
    with 1 False k \<open>0 < m\<close> show ?thesis by (simp add: dec_step)
  qed
qed

text \<open>Text in lines or fields: the separator does not occur in the pieces.\<close>

lemma sep_inject:
  assumes "(c :: byte) \<notin> set x" "c \<notin> set y"
  shows "x @ c # s = y @ c # t \<longleftrightarrow> x = y \<and> s = t"
proof
  assume eq: "x @ c # s = y @ c # t"
  have "Some (x, s) = split_first c (x @ c # s)" by (simp only: split_first_append[OF assms(1)])
  also have "\<dots> = Some (y, t)" unfolding eq by (simp only: split_first_append[OF assms(2)])
  finally show "x = y \<and> s = t" by simp
qed simp

lemma lines_inject:
  "\<forall>l\<in>set xs. (c :: byte) \<notin> set l \<Longrightarrow> \<forall>l\<in>set ys. c \<notin> set l \<Longrightarrow>
   concat (map (\<lambda>l. l @ [c]) xs) = concat (map (\<lambda>l. l @ [c]) ys) \<Longrightarrow> xs = ys"
proof (induction xs arbitrary: ys)
  case Nil
  then show ?case by (cases ys) auto
next
  case (Cons x xs)
  show ?case
  proof (cases ys)
    case ys: (Cons y zs)
    with Cons.prems have "x @ c # concat (map (\<lambda>l. l @ [c]) xs) = y @ c # concat (map (\<lambda>l. l @ [c]) zs)"
      by simp
    then have "x = y" "concat (map (\<lambda>l. l @ [c]) xs) = concat (map (\<lambda>l. l @ [c]) zs)"
      using Cons.prems ys by (simp_all add: sep_inject)
    moreover from this Cons.prems ys have "xs = zs" by (intro Cons.IH) auto
    ultimately show ?thesis using ys by simp
  qed (use Cons.prems in simp)
qed

text \<open>A list cut in groups that each start with a marked element.\<close>

lemma groups_inject:
  assumes "\<forall>g\<in>set xs. g \<noteq> [] \<and> P (hd g) \<and> (\<forall>e\<in>set (tl g). \<not> P e)"
    and "\<forall>g\<in>set ys. g \<noteq> [] \<and> P (hd g) \<and> (\<forall>e\<in>set (tl g). \<not> P e)"
    and "concat xs = concat ys"
  shows "xs = ys"
  using assms
proof (induction xs arbitrary: ys)
  case Nil
  then show ?case by (cases ys) auto
next
  case (Cons x xs)
  from Cons.prems obtain y zs where ys: "ys = y # zs" by (cases ys) auto
  have split: "takeWhile (\<lambda>e. \<not> P e) (t @ concat gs) = t"
    if "\<forall>e\<in>set t. \<not> P e" "\<forall>g\<in>set gs. g \<noteq> [] \<and> P (hd g)" for t gs
  proof (cases gs)
    case (Cons g gs')
    with that have "takeWhile (\<lambda>e. \<not> P e) (concat gs) = []"
      by (simp add: takeWhile_eq_Nil_iff)
    with that show ?thesis by (simp add: takeWhile_append2)
  qed (use that in \<open>simp add: takeWhile_eq_all_conv\<close>)
  from Cons.prems ys obtain h t where x: "x = h # t" by (cases x) auto
  from Cons.prems ys obtain k u where y: "y = k # u" by (cases y) auto
  have eq: "h = k" "t @ concat xs = u @ concat zs" using Cons.prems(3) ys x y by simp_all
  have "takeWhile (\<lambda>e. \<not> P e) (t @ concat xs) = t" "takeWhile (\<lambda>e. \<not> P e) (u @ concat zs) = u"
    by (rule split; use Cons.prems ys x y in auto)+
  with eq(2) have "t = u" by simp
  with eq(2) have tails: "t = u" "concat xs = concat zs" by simp_all
  have "xs = zs" using Cons.prems ys tails(2) by (intro Cons.IH) auto
  with eq tails show ?case using ys x y by simp
qed

end
