(* ===== verification/Egress_Host.thy ===== *)
theory Egress_Host
  imports Egress_Prelude
begin

text \<open>
  \<^verbatim>\<open>src/src/core/common.c\<close>: the canonical form of a destination host, the constant-time
  comparison of credentials and the classification of an address as private.

  \<open>inet_pton\<close> and \<open>inet_ntop\<close> are the C library's; they are modelled here by the textual
  forms POSIX gives them (dotted quads without leading zeros, RFC 4291 groups with at most
  one \<open>::\<close> and an optional embedded IPv4 tail), so that everything built on them computes.
\<close>

section \<open>Addresses\<close>

text \<open>
  A \<open>struct sockaddr\<close> by family. The address bytes are in network order, so the word is the
  value \<open>ntohl\<close> gives for IPv4 and the 16 bytes read big-endian for IPv6.
\<close>

datatype sockaddr =
    Sockaddr_in (in_port: u16) (in_addr: u32)
  | Sockaddr_in6 (in6_port: u16) (in6_flowinfo: u32) (in6_addr: "128 word") (in6_scope: u32)
  | Sockaddr_other (other_family: nat)

definition octet4 :: "u32 \<Rightarrow> nat \<Rightarrow> byte" where
  "octet4 a i = ucast (drop_bit (8 * (3 - i)) a)"

definition octet6 :: "128 word \<Rightarrow> nat \<Rightarrow> byte" where
  "octet6 a i = ucast (drop_bit (8 * (15 - i)) a)"

section \<open>The C library's textual addresses\<close>

text \<open>The dot-separated labels of a name; never the empty list.\<close>

fun labels :: "bytes \<Rightarrow> bytes list" where
  "labels [] = [[]]"
| "labels (b # bs) =
     (if b = ch (CHR ''.'') then [] # labels bs
      else case labels bs of [] \<Rightarrow> [[b]] | l # ls \<Rightarrow> (b # l) # ls)"

definition quad_octet :: "bytes \<Rightarrow> bool" where
  "quad_octet l \<longleftrightarrow> l \<noteq> [] \<and> length l \<le> 3 \<and> (1 < length l \<longrightarrow> hd l \<noteq> ch (CHR ''0'')) \<and>
     list_all is_digit l \<and> dec_value l \<le> 255"

definition inet_pton4 :: "bytes \<Rightarrow> bytes option" where
  "inet_pton4 s =
     (let ls = labels s in
      if length ls = 4 \<and> list_all quad_octet ls then Some (map (\<lambda>l. of_nat (dec_value l)) ls)
      else None)"

definition inet_ntop4 :: "byte \<Rightarrow> byte \<Rightarrow> byte \<Rightarrow> byte \<Rightarrow> bytes" where
  "inet_ntop4 a b c d =
     dec (unat a) @ cstr ''.'' @ dec (unat b) @ cstr ''.'' @ dec (unat c) @ cstr ''.'' @
     dec (unat d)"

definition hex_value :: "byte \<Rightarrow> nat option" where
  "hex_value b =
     (if is_digit b then Some (digit_value b)
      else if ch (CHR ''a'') \<le> b \<and> b \<le> ch (CHR ''f'') then Some (10 + unat (b - ch (CHR ''a'')))
      else if ch (CHR ''A'') \<le> b \<and> b \<le> ch (CHR ''F'') then Some (10 + unat (b - ch (CHR ''A'')))
      else None)"

text \<open>
  The groups of an IPv6 literal: the input left, the start of the current token (for an
  embedded IPv4 tail), the bytes produced, the position of \<open>::\<close> among them, the number of
  hexadecimal digits of the current group and its value.
\<close>

fun pton6_groups ::
  "bytes \<Rightarrow> bytes \<Rightarrow> bytes \<Rightarrow> nat option \<Rightarrow> nat \<Rightarrow> nat \<Rightarrow> (bytes \<times> nat option) option" where
  "pton6_groups [] tok out gap seen val =
     (if 0 < seen then
        (if length out + 2 \<le> 16 then Some (out @ [of_nat (val div 256), of_nat val], gap) else None)
      else Some (out, gap))"
| "pton6_groups (b # rest) tok out gap seen val =
     (case hex_value b of
        Some d \<Rightarrow>
          if seen = 4 then None else pton6_groups rest tok out gap (Suc seen) (val * 16 + d)
      | None \<Rightarrow>
          if b = ch (CHR '':'') then
            (if seen = 0 then
               (if gap \<noteq> None then None
                else pton6_groups rest rest out (Some (length out)) 0 0)
             else if rest = [] then None
             else if length out + 2 \<le> 16 then
               pton6_groups rest rest (out @ [of_nat (val div 256), of_nat val]) gap 0 0
             else None)
          else if b = ch (CHR ''.'') \<and> length out + 4 \<le> 16 then
            (case inet_pton4 tok of Some q \<Rightarrow> Some (out @ q, gap) | None \<Rightarrow> None)
          else None)"

definition pton6_start :: "bytes \<Rightarrow> bytes option" where
  "pton6_start s =
     (if s = [] then None
      else if hd s \<noteq> ch (CHR '':'') then Some s
      else if take 2 s = cstr ''::'' then Some (tl s) else None)"

definition inet_pton6 :: "bytes \<Rightarrow> bytes option" where
  "inet_pton6 s =
     (case pton6_start s of
        None \<Rightarrow> None
      | Some src \<Rightarrow>
          (case pton6_groups src src [] None 0 0 of
             None \<Rightarrow> None
           | Some (out, None) \<Rightarrow> if length out = 16 then Some out else None
           | Some (out, Some g) \<Rightarrow>
               if length out < 16
               then Some (take g out @ replicate (16 - length out) 0 @ drop g out)
               else None))"

fun hex_digits :: "nat \<Rightarrow> bytes" where
  "hex_digits n =
     (if n < 16 then [cstr ''0123456789abcdef'' ! n]
      else hex_digits (n div 16) @ [cstr ''0123456789abcdef'' ! (n mod 16)])"

declare hex_digits.simps [simp del]

text \<open>Length of the run of zero groups that starts at a group.\<close>

fun zero_run :: "u16 list \<Rightarrow> nat" where
  "zero_run [] = 0"
| "zero_run (w # ws) = (if w = 0 then Suc (zero_run ws) else 0)"

text \<open>The first longest run of at least two zero groups: its base and its length.\<close>

definition best_run :: "u16 list \<Rightarrow> (nat \<times> nat) option" where
  "best_run ws =
     foldl (\<lambda>best i. let n = zero_run (drop i ws) in
              if 2 \<le> n \<and> (case best of None \<Rightarrow> True | Some (_, m) \<Rightarrow> m < n) then Some (i, n) else best)
       None [0..<length ws]"

definition group6 :: "128 word \<Rightarrow> nat \<Rightarrow> u16" where
  "group6 a i = ucast (drop_bit (16 * (7 - i)) a)"

fun ntop6_from :: "128 word \<Rightarrow> (nat \<times> nat) option \<Rightarrow> nat list \<Rightarrow> bytes" where
  "ntop6_from a best [] = []"
| "ntop6_from a best (i # is) =
     (let in_run = (case best of None \<Rightarrow> False | Some (b, n) \<Rightarrow> b \<le> i \<and> i < b + n) in
      if in_run then
        (if best = Some (i, snd (the best)) then cstr '':'' else []) @ ntop6_from a best is
      else
        (if i \<noteq> 0 then cstr '':'' else []) @
        (if i = 6 \<and> (best = Some (0, 6) \<or> (best = Some (0, 5) \<and> group6 a 5 = 0xffff)) then
           inet_ntop4 (octet6 a 12) (octet6 a 13) (octet6 a 14) (octet6 a 15)
         else hex_digits (unat (group6 a i)) @ ntop6_from a best is))"

definition inet_ntop6 :: "128 word \<Rightarrow> bytes" where
  "inet_ntop6 a =
     (let best = best_run (map (group6 a) [0..<8]) in
      ntop6_from a best [0..<8] @
      (case best of Some (b, n) \<Rightarrow> if b + n = 8 then cstr '':'' else [] | None \<Rightarrow> []))"

section \<open>The canonical host\<close>

definition EGRESS_MAX_HOST :: nat where
  "EGRESS_MAX_HOST = 253"

definition numeric_label :: "bytes \<Rightarrow> bool" where
  "numeric_label label =
     (if length label = 0 then False
      else
        let hexadecimal = 2 < length label \<and> label ! 0 = ch (CHR ''0'') \<and>
              (label ! 1 = ch (CHR ''x'') \<or> label ! 1 = ch (CHR ''X''));
            first = (if hexadecimal then 2 else 0)
        in list_all (\<lambda>b. is_digit b \<or>
             (hexadecimal \<and> ((ch (CHR ''a'') \<le> b \<and> b \<le> ch (CHR ''f'')) \<or>
                             (ch (CHR ''A'') \<le> b \<and> b \<le> ch (CHR ''F''))))) (drop first label))"

text \<open>
  \<open>strict_ipv4\<close>: the loop over the input with the bytes of the current octet and the octets
  completed; the end of the input ends an octet as a dot does.
\<close>

fun octet_digits :: "bytes \<Rightarrow> nat \<Rightarrow> nat option" where
  "octet_digits [] value = Some value"
| "octet_digits (b # bs) value =
     (if \<not> is_digit b then None else octet_digits bs (value * 10 + digit_value b))"

definition octet_ends :: "bytes \<Rightarrow> nat \<Rightarrow> nat option" where
  "octet_ends seg octets =
     (let size = length seg in
      if size = 0 \<or> 3 < size \<or> (1 < size \<and> seg ! 0 = ch (CHR ''0'')) then None
      else case octet_digits seg 0 of
             None \<Rightarrow> None
           | Some value \<Rightarrow> if 255 < value \<or> 4 < octets + 1 then None else Some (octets + 1))"

fun strict_ipv4_loop :: "bytes \<Rightarrow> bytes \<Rightarrow> nat \<Rightarrow> bool" where
  "strict_ipv4_loop [] seg octets =
     (case octet_ends seg octets of None \<Rightarrow> False | Some n \<Rightarrow> n = 4)"
| "strict_ipv4_loop (b # rest) seg octets =
     (if b \<noteq> ch (CHR ''.'') then strict_ipv4_loop rest (seg @ [b]) octets
      else case octet_ends seg octets of
             None \<Rightarrow> False
           | Some n \<Rightarrow> strict_ipv4_loop rest [] n)"

definition strict_ipv4 :: "bytes \<Rightarrow> bool" where
  "strict_ipv4 input = strict_ipv4_loop input [] 0"

text \<open>
  The loop of \<open>egress_canonical_host\<close> over the bytes of a name: the bytes left, the index,
  the start of the current label and the output written so far.
\<close>

fun canonical_loop :: "bytes \<Rightarrow> nat \<Rightarrow> nat \<Rightarrow> bytes \<Rightarrow> (nat \<times> bytes) option" where
  "canonical_loop [] i label_start out = Some (label_start, out)"
| "canonical_loop (b # rest) i label_start out =
     (if b = ch (CHR ''.'') then
        (let label_length = i - label_start in
         if label_length = 0 \<or> 63 < label_length \<or>
            out ! label_start = ch (CHR ''-'') \<or> out ! (i - 1) = ch (CHR ''-'') then None
         else canonical_loop rest (i + 1) (i + 1) (out @ [ch (CHR ''.'')]))
      else if \<not> (ascii_alnum b \<or> b = ch (CHR ''-'')) then None
      else canonical_loop rest (i + 1) label_start (out @ [to_lower b]))"

fun egress_canonical_host :: "bytes option \<Rightarrow> bytes option" where
  "egress_canonical_host None = None"
| "egress_canonical_host (Some input) =
     (if length input = 0 \<or> EGRESS_MAX_HOST < length input then None
      else if ch (CHR '':'') \<in> set input \<and> inet_pton6 input \<noteq> None then Some input
      else case canonical_loop input 0 0 [] of
             None \<Rightarrow> None
           | Some (label_start, out) \<Rightarrow>
               (let final_length = length input - label_start in
                if final_length = 0 \<or> 63 < final_length \<or>
                   out ! label_start = ch (CHR ''-'') \<or> out ! (length input - 1) = ch (CHR ''-'')
                then None
                else if numeric_label (drop label_start input) \<and> \<not> strict_ipv4 input then None
                else Some out))"

declare egress_canonical_host.simps(2) [simp del]

section \<open>Constant-time comparison\<close>

definition padded :: "bytes \<Rightarrow> nat \<Rightarrow> byte" where
  "padded s i = (if i < length s then s ! i else 0)"

definition egress_constant_time_equal :: "bytes option \<Rightarrow> bytes option \<Rightarrow> bool" where
  "egress_constant_time_equal left_string right_string =
     (case (left_string, right_string) of
        (Some left, Some right) \<Rightarrow>
          (let left_length = length left; right_length = length right;
               maximum = (if right_length < left_length then left_length else right_length);
               difference = (ucast ((of_nat left_length :: u64) XOR of_nat right_length) :: u32)
           in foldl (\<lambda>difference i. difference OR ucast (padded left i XOR padded right i))
                difference [0..<maximum] = 0)
      | _ \<Rightarrow> False)"

section \<open>Private addresses\<close>

definition ipv4_private :: "u32 \<Rightarrow> bool" where
  "ipv4_private host =
     (let first = drop_bit 24 host; second = drop_bit 16 host AND 0xff in
      if first = 0 \<or> first = 10 \<or> first = 127 \<or> 224 \<le> first then True
      else if first = 100 \<and> 64 \<le> second \<and> second \<le> 127 then True
      else if first = 169 \<and> second = 254 then True
      else if first = 172 \<and> 16 \<le> second \<and> second \<le> 31 then True
      else if first = 192 \<and> (second = 0 \<or> second = 168) then True
      else if first = 192 \<and> second = 88 then True
      else if first = 198 \<and> (second = 18 \<or> second = 19) then True
      else if (first = 192 \<and> second = 0) \<or> (first = 198 \<and> second = 51) \<or>
              (first = 203 \<and> second = 0) then True
      else False)"

definition egress_address_is_private :: "sockaddr option \<Rightarrow> bool" where
  "egress_address_is_private address =
     (case address of
        None \<Rightarrow> True
      | Some (Sockaddr_in _ a) \<Rightarrow> ipv4_private a
      | Some (Sockaddr_in6 _ _ a _) \<Rightarrow>
          (let b = octet6 a; head = map b [0..<12] in
           if head = [0, 0, 0, 0, 0, 0, 0, 0, 0, 0, 0xff, 0xff] then ipv4_private (ucast a)
           else if head = [0x00, 0x64, 0xff, 0x9b, 0, 0, 0, 0, 0, 0, 0, 0] then
             ipv4_private (ucast a)
           else if b 0 AND 0xe0 \<noteq> 0x20 then True
           else if (b 0 = 0x20 \<and> b 1 = 0x01 \<and> b 2 \<le> 0x01) \<or> (b 0 = 0x20 \<and> b 1 = 0x02) \<or>
                   (b 0 = 0x3f \<and> b 1 = 0xff \<and> b 2 AND 0xf0 = 0) then True
           else if b 0 = 0x20 \<and> b 1 = 0x01 \<and> b 2 = 0x0d \<and> b 3 = 0xb8 then True
           else False)
      | Some (Sockaddr_other _) \<Rightarrow> True)"

section \<open>Result strings\<close>

fun maelys_egress_result_string :: "egress_result \<Rightarrow> string" where
  "maelys_egress_result_string EGRESS_OK = ''ok''"
| "maelys_egress_result_string ERR_ARGUMENT = ''invalid argument''"
| "maelys_egress_result_string ERR_MEMORY = ''out of memory''"
| "maelys_egress_result_string ERR_STATE = ''invalid state''"
| "maelys_egress_result_string ERR_IO = ''I/O error''"
| "maelys_egress_result_string ERR_DENIED = ''denied''"
| "maelys_egress_result_string ERR_PROTOCOL = ''protocol error''"
| "maelys_egress_result_string ERR_TIMEOUT = ''timeout''"
| "maelys_egress_result_string ERR_CANCELLED = ''cancelled''"
| "maelys_egress_result_string ERR_UNSUPPORTED = ''unsupported''"
| "maelys_egress_result_string ERR_CRYPTO = ''crypto''"

section \<open>The grammar of host names\<close>

text \<open>
  The specification of a host name, label by label, that the single pass of the code is
  measured against.
\<close>

definition label_byte :: "byte \<Rightarrow> bool" where
  "label_byte b \<longleftrightarrow> ascii_alnum b \<or> b = ch (CHR ''-'')"

definition label_shape :: "bytes \<Rightarrow> bool" where
  "label_shape l \<longleftrightarrow> l \<noteq> [] \<and> length l \<le> 63 \<and> list_all label_byte l \<and>
     hd l \<noteq> ch (CHR ''-'') \<and> last l \<noteq> ch (CHR ''-'')"

definition dotted_quad :: "bytes \<Rightarrow> bool" where
  "dotted_quad s \<longleftrightarrow> length (labels s) = 4 \<and> list_all quad_octet (labels s)"

definition dns_name :: "bytes \<Rightarrow> bool" where
  "dns_name s \<longleftrightarrow> list_all label_shape (labels s) \<and>
     (numeric_label (last (labels s)) \<longrightarrow> dotted_quad s)"

lemma labels_not_Nil [simp]: "labels s \<noteq> []"
  by (cases s) (auto split: list.splits)

lemma labels_no_dot: "46 \<notin> set s \<Longrightarrow> labels s = [s]"
  by (induction s) auto

lemma labels_append_dot: "labels (s @ 46 # t) = labels s @ labels t"
  by (induction s) (auto split: list.splits)

lemma labels_dot_free: "list_all (\<lambda>l. 46 \<notin> set l) (labels s)"
  by (induction s) (auto split: list.splits)

lemma labels_hd_append:
  "46 \<notin> set seg \<Longrightarrow> labels (seg @ s) = (seg @ hd (labels s)) # tl (labels s)"
  by (induction seg) (auto split: list.splits)

lemma concat_labels:
  "labels s = ls \<Longrightarrow> s = concat (map (\<lambda>l. l @ cstr ''.'') (butlast ls)) @ last ls"
  by (induction s arbitrary: ls) (auto split: list.splits if_splits)

text \<open>The loop of \<open>strict_ipv4\<close> and the reference reading of a dotted quad.\<close>

lemma octet_digits_value:
  "octet_digits l v =
     (if list_all is_digit l then Some (foldl (\<lambda>v b. v * 10 + digit_value b) v l) else None)"
  by (induction l arbitrary: v) auto

lemma octet_ends_quad:
  "octet_ends seg n = (if quad_octet seg \<and> n < 4 then Some (Suc n) else None)"
  by (cases seg) (auto simp: octet_ends_def quad_octet_def octet_digits_value dec_value_def Let_def)

lemma strict_ipv4_loop_labels:
  "46 \<notin> set seg \<Longrightarrow>
   strict_ipv4_loop s seg n \<longleftrightarrow>
     list_all quad_octet (labels (seg @ s)) \<and> n + length (labels (seg @ s)) = 4"
proof (induction s seg n rule: strict_ipv4_loop.induct)
  case (1 seg n)
  then show ?case by (auto simp: octet_ends_quad labels_no_dot)
next
  case (2 b rest seg n)
  show ?case
  proof (cases "b = 46")
    case True
    with 2 have "labels (seg @ b # rest) = seg # labels rest"
      by (simp add: labels_append_dot labels_no_dot)
    moreover have "0 < length (labels rest)" by simp
    ultimately show ?thesis using 2 True by (auto simp: octet_ends_quad)
  next
    case False
    with 2 show ?thesis by simp
  qed
qed

lemma strict_ipv4_dotted_quad: "strict_ipv4 s \<longleftrightarrow> dotted_quad s"
  by (auto simp: strict_ipv4_def strict_ipv4_loop_labels dotted_quad_def)

lemma quad_octet_dec: "quad_octet l \<longleftrightarrow> (\<exists>b :: byte. l = dec (unat b))"
proof
  assume q: "quad_octet l"
  then have "dec (dec_value l) = l"
    using dec_dec_value[of l] by (auto simp: quad_octet_def)
  moreover have "unat (of_nat (dec_value l) :: byte) = dec_value l"
    using q by (simp add: quad_octet_def unat_of_nat_byte)
  ultimately have "l = dec (unat (of_nat (dec_value l) :: byte))" by simp
  then show "\<exists>b :: byte. l = dec (unat b)" ..
next
  assume "\<exists>b :: byte. l = dec (unat b)"
  then obtain b :: byte where l: "l = dec (unat b)" ..
  have b: "unat b < 256" by (rule unat_byte_less)
  then have "length l \<le> 3" using l length_dec[of "unat b" 3] by simp
  moreover have "1 < length l \<longrightarrow> hd l \<noteq> 48"
    using l by (cases "unat b = 0") (auto simp: hd_dec dec_small)
  ultimately show "quad_octet l" using l b by (auto simp: quad_octet_def dec_digits)
qed

text \<open>The loop of \<open>egress_canonical_host\<close> and the grammar.\<close>

lemma to_lower_const [simp]:
  "to_lower b = 45 \<longleftrightarrow> b = 45" "to_lower b = 46 \<longleftrightarrow> b = 46"
  "to_lower b = 58 \<longleftrightarrow> b = 58" "to_lower 45 = 45" "to_lower 46 = 46"
  by (auto simp: byte_class word_le_nat_alt word_unat_eq_iff unat_plus_if')

lemma label_byte_dot [simp]: "\<not> label_byte 46" "\<not> label_byte 58"
  by (auto simp: label_byte_def byte_class)

lemma canonical_loop_labels:
  "\<lbrakk>46 \<notin> set seg; list_all label_byte seg\<rbrakk> \<Longrightarrow>
   canonical_loop s (length (pre @ seg)) (length pre) (map to_lower (pre @ seg)) =
     (let ls = labels (seg @ s) in
      if list_all label_shape (butlast ls) \<and> list_all label_byte (last ls)
      then Some (length (pre @ seg @ s) - length (last ls), map to_lower (pre @ seg @ s))
      else None)"
proof (induction s arbitrary: pre seg)
  case Nil
  then show ?case by (simp add: labels_no_dot)
next
  case (Cons b s)
  show ?case
  proof (cases "b = 46")
    case True
    with Cons.prems have ls: "labels (seg @ b # s) = seg # labels s"
      by (simp add: labels_append_dot labels_no_dot)
    have shape: "label_shape seg \<longleftrightarrow> \<not> (length seg = 0 \<or> 63 < length seg \<or>
        map to_lower (pre @ seg) ! length pre = 45 \<or> map to_lower (pre @ seg) ! (length (pre @ seg) - 1) = 45)"
      using Cons.prems
      by (cases seg) (auto simp: label_shape_def nth_append last_conv_nth nth_Cons')
    have "canonical_loop s (length ((pre @ seg @ [46]) @ [])) (length (pre @ seg @ [46]))
        (map to_lower ((pre @ seg @ [46]) @ [])) =
      (let ls = labels ([] @ s) in
       if list_all label_shape (butlast ls) \<and> list_all label_byte (last ls)
       then Some (length ((pre @ seg @ [46]) @ [] @ s) - length (last ls),
              map to_lower ((pre @ seg @ [46]) @ [] @ s)) else None)"
      by (rule Cons.IH) simp_all
    with True shape ls show ?thesis by (simp add: Let_def)
  next
    case False
    then show ?thesis
    proof (cases "label_byte b")
      case lb: True
      have "canonical_loop s (length (pre @ seg @ [b])) (length pre) (map to_lower (pre @ seg @ [b])) =
        (let ls = labels ((seg @ [b]) @ s) in
         if list_all label_shape (butlast ls) \<and> list_all label_byte (last ls)
         then Some (length (pre @ (seg @ [b]) @ s) - length (last ls),
                map to_lower (pre @ (seg @ [b]) @ s)) else None)"
        using Cons.IH[of "seg @ [b]" pre] Cons.prems False lb by simp
      with False lb show ?thesis using label_byte_def[of b] by (simp add: Let_def)
    next
      case lb: False
      have "\<not> (list_all label_shape (butlast (labels (seg @ b # s))) \<and>
          list_all label_byte (last (labels (seg @ b # s))))"
        using False lb Cons.prems labels_hd_append[of "seg @ [b]" s]
        by (cases "tl (labels s)") (auto simp: label_shape_def)
      with False lb show ?thesis using label_byte_def[of b] by (auto simp: Let_def)
    qed
  qed
qed

lemma canonical_host_name:
  "canonical_loop s 0 0 [] =
     (if list_all label_shape (butlast (labels s)) \<and> list_all label_byte (last (labels s))
      then Some (length s - length (last (labels s)), map to_lower s) else None)"
  using canonical_loop_labels[of "[]" s "[]"] by (simp add: Let_def)

lemma last_label_split: "\<exists>p. s = p @ last (labels s)"
  using concat_labels[OF refl, of s] by blast

lemma suffix_index:
  assumes "s = p @ l"
  shows "drop (length s - length l) s = l" "length l \<le> length s"
    "l \<noteq> [] \<Longrightarrow> s ! (length s - length l) = hd l" "l \<noteq> [] \<Longrightarrow> s ! (length s - 1) = last l"
  using assms last_conv_nth[of s] by (auto simp: nth_append hd_conv_nth)

lemma last_label_suffix: "drop (length s - length (last (labels s))) s = last (labels s)"
  and last_label_length: "length (last (labels s)) \<le> length s"
  and last_label_ends:
    "last (labels s) \<noteq> [] \<Longrightarrow> s ! (length s - length (last (labels s))) = hd (last (labels s))"
    "last (labels s) \<noteq> [] \<Longrightarrow> s ! (length s - 1) = last (last (labels s))"
proof -
  obtain p where p: "s = p @ last (labels s)" using last_label_split ..
  show "drop (length s - length (last (labels s))) s = last (labels s)"
    "length (last (labels s)) \<le> length s"
    "last (labels s) \<noteq> [] \<Longrightarrow> s ! (length s - length (last (labels s))) = hd (last (labels s))"
    "last (labels s) \<noteq> [] \<Longrightarrow> s ! (length s - 1) = last (last (labels s))"
    by (fact suffix_index[OF p])+
qed

lemma list_all_labels: "list_all P (labels s) \<longleftrightarrow> list_all P (butlast (labels s)) \<and> P (last (labels s))"
  by (metis append_butlast_last_id labels_not_Nil list.pred_inject list_all_append)

lemma labels_bytes: "b \<in> set s \<Longrightarrow> b = 46 \<or> (\<exists>l\<in>set (labels s). b \<in> set l)"
  by (induction s) (auto split: list.splits)

lemma dns_name_no_colon: "list_all label_shape (labels s) \<Longrightarrow> 58 \<notin> set s"
  using labels_bytes[of 58 s] label_byte_dot(2) unfolding list_all_iff label_shape_def by fastforce

lemma canonical_host_grammar:
  "egress_canonical_host (Some s) = Some h \<longleftrightarrow>
     0 < length s \<and> length s \<le> 253 \<and>
     ((58 \<in> set s \<and> inet_pton6 s \<noteq> None \<and> h = s) \<or> (dns_name s \<and> h = map to_lower s))"
proof -
  let ?l = "last (labels s)"
  have shape: "label_shape ?l \<longleftrightarrow> \<not> (length ?l = 0 \<or> 63 < length ?l \<or>
      map to_lower s ! (length s - length ?l) = 45 \<or> map to_lower s ! (length s - 1) = 45)"
    if "list_all label_byte ?l"
  proof (cases "?l = []")
    case False
    then have "length s - length ?l < length s" "length s - 1 < length s"
      using last_label_length[of s] by (cases "last (labels s)"; simp)+
    with False that last_label_ends[OF False] show ?thesis by (auto simp: label_shape_def)
  qed (simp add: label_shape_def)
  have "length s - (length s - length ?l) = length ?l"
    using last_label_length[of s] by simp
  moreover have "label_shape ?l \<Longrightarrow> list_all label_byte ?l" by (simp add: label_shape_def)
  ultimately show ?thesis
    using shape dns_name_no_colon[of s]
    by (auto simp: egress_canonical_host.simps canonical_host_name EGRESS_MAX_HOST_def Let_def
        last_label_suffix strict_ipv4_dotted_quad dns_name_def list_all_labels[of label_shape])
qed

text \<open>Canonical names are fixed points.\<close>

lemma labels_to_lower: "labels (map to_lower s) = map (map to_lower) (labels s)"
  by (induction s) (auto split: list.splits)

lemma alnum_to_lower [simp]: "ascii_alnum (to_lower b) = ascii_alnum b"
  by (auto simp: byte_class word_le_nat_alt unat_plus_if')

lemma label_shape_to_lower [simp]: "label_shape (map to_lower l) = label_shape l"
  by (cases "l = []")
    (auto simp: label_shape_def label_byte_def list_all_iff hd_map last_map)

lemma digit_to_lower [simp]: "is_digit (to_lower b) = is_digit b"
  and to_lower_digit: "is_digit b \<Longrightarrow> to_lower b = b"
  by (auto simp: byte_class word_le_nat_alt unat_plus_if')

lemma hex_to_lower:
  "is_digit b \<or> (97 \<le> to_lower b \<and> to_lower b \<le> 102) \<or> (65 \<le> to_lower b \<and> to_lower b \<le> 70)
   \<longleftrightarrow> is_digit b \<or> (97 \<le> b \<and> b \<le> 102) \<or> (65 \<le> b \<and> b \<le> 70)"
  by (auto simp: byte_class word_le_nat_alt unat_plus_if')

lemma to_lower_0x [simp]: "to_lower b = 48 \<longleftrightarrow> b = 48"
  "to_lower b = 120 \<or> to_lower b = 88 \<longleftrightarrow> b = 120 \<or> b = 88"
  by (auto simp: byte_class word_le_nat_alt word_unat_eq_iff unat_plus_if')

lemma numeric_label_to_lower [simp]: "numeric_label (map to_lower l) = numeric_label l"
proof (cases "2 < length l")
  case True
  then have "0 < length l" "1 < length l" by linarith+
  then have "map to_lower l ! 0 = to_lower (l ! 0)" "map to_lower l ! 1 = to_lower (l ! 1)"
    by (simp_all only: nth_map)
  with True show ?thesis
    by (cases "l ! 0 = 48 \<and> (l ! 1 = 120 \<or> l ! 1 = 88)")
      (auto simp: numeric_label_def Let_def list.pred_map comp_def drop_map hex_to_lower)
qed (auto simp: numeric_label_def list_all_iff)

lemma dotted_quad_to_lower:
  assumes "dotted_quad s"
  shows "map to_lower s = s"
proof (rule map_idI)
  fix b
  assume "b \<in> set s"
  then have "b = 46 \<or> is_digit b"
    using labels_bytes[of b s] assms by (auto simp: dotted_quad_def quad_octet_def list_all_iff)
  then show "to_lower b = b" by (auto simp: to_lower_digit)
qed

lemma dns_name_to_lower: "dns_name s \<Longrightarrow> dns_name (map to_lower s)"
  using dotted_quad_to_lower[of s]
  by (auto simp: dns_name_def labels_to_lower list.pred_map last_map comp_def)

lemma canonical_host_fixpoint:
  "egress_canonical_host i = Some h \<Longrightarrow> egress_canonical_host (Some h) = Some h"
  by (cases i) (auto simp: canonical_host_grammar dns_name_to_lower)

section \<open>The comparison of credentials\<close>

lemma foldl_or_eq_0:
  "foldl (\<lambda>d i. d OR f i) (d :: u32) is = 0 \<longleftrightarrow> d = 0 \<and> (\<forall>i\<in>set is. f i = 0)"
  by (induction "is" arbitrary: d) (auto simp: or_eq_0_iff)

lemma padded_eq:
  assumes "0 \<notin> set l" "0 \<notin> set r" "\<forall>i < max (length l) (length r). padded l i = padded r i"
  shows "l = r"
proof (rule nth_equalityI)
  have *: "length r \<le> length l"
    if "0 \<notin> set r" "\<forall>i < max (length l) (length r). padded l i = padded r i" for l r
  proof (rule ccontr)
    assume "\<not> length r \<le> length l"
    then have "length l < length r" by simp
    with that(2) have "padded l (length l) = padded r (length l)" by simp
    with \<open>length l < length r\<close> have "r ! length l = 0" by (simp add: padded_def)
    with that(1) \<open>length l < length r\<close> show False by (metis nth_mem)
  qed
  show len: "length l = length r"
    using *[of r l, OF assms(2,3)] *[of l r] assms(1,3) by (simp add: max.commute eq_commute)
  show "l ! i = r ! i" if "i < length l" for i
    using assms(3) that len by (auto simp: padded_def)
qed

lemma constant_time_equal_padded:
  "egress_constant_time_equal (Some l) (Some r) \<longleftrightarrow>
     (ucast ((of_nat (length l) :: u64) XOR of_nat (length r)) :: u32) = 0 \<and>
     (\<forall>i < max (length l) (length r). padded l i = padded r i)"
  unfolding egress_constant_time_equal_def option.case prod.case Let_def foldl_or_eq_0
  by (auto simp: max_def ucast_byte_zero xor_zero_iff)

lemma constant_time_equal_iff:
  "0 \<notin> set l \<Longrightarrow> 0 \<notin> set r \<Longrightarrow> egress_constant_time_equal (Some l) (Some r) \<longleftrightarrow> l = r"
  using padded_eq[of l r] by (auto simp: constant_time_equal_padded)

section \<open>Private address blocks\<close>

text \<open>The blocks of addresses the classification stands for, in CIDR form.\<close>

definition in_block4 :: "u32 \<Rightarrow> u32 \<times> nat \<Rightarrow> bool" where
  "in_block4 a = (\<lambda>(net, prefix). drop_bit (32 - prefix) a = drop_bit (32 - prefix) net)"

definition quad :: "nat \<Rightarrow> nat \<Rightarrow> nat \<Rightarrow> nat \<Rightarrow> u32" where
  "quad a b c d = of_nat (((a * 256 + b) * 256 + c) * 256 + d)"

definition private_blocks4 :: "(u32 \<times> nat) list" where
  "private_blocks4 =
     [(quad 0 0 0 0, 8), (quad 10 0 0 0, 8), (quad 127 0 0 0, 8), (quad 224 0 0 0, 3),
      (quad 100 64 0 0, 10), (quad 169 254 0 0, 16), (quad 172 16 0 0, 12),
      (quad 192 0 0 0, 16), (quad 192 168 0 0, 16), (quad 192 88 0 0, 16),
      (quad 198 18 0 0, 15), (quad 198 51 0 0, 16), (quad 203 0 0 0, 16)]"

lemma div_eq_range: "0 < (n :: nat) \<Longrightarrow> s div n = q \<longleftrightarrow> q * n \<le> s \<and> s < Suc q * n"
  by (metis div_nat_eqI div_times_less_eq_dividend dividend_less_times_div mult.commute mult_Suc)

lemma base_digits:
  fixes t k :: nat
  assumes "t < k" "d < k"
  shows "k * f + t = k * c + d \<longleftrightarrow> f = c \<and> t = d"
proof
  assume "k * f + t = k * c + d"
  then have "(k * f + t) mod k = (k * c + d) mod k" "(k * f + t) div k = (k * c + d) div k"
    by simp_all
  with assms show "f = c \<and> t = d" by simp
qed simp

lemma div_split:
  fixes q n m :: nat
  assumes "0 < n"
  shows "q div n = m * (q div (n * m)) + q mod (n * m) div n"
  using assms by (simp add: div_mult2_eq mod_mult2_eq)

lemma quad_digits:
  fixes x :: nat
  defines "f \<equiv> x div 2 ^ 24" and "s \<equiv> x div 2 ^ 16 mod 256"
  shows "x div 2 ^ 22 = 4 * f + s div 64" "x div 2 ^ 20 = 16 * f + s div 16"
    "x div 2 ^ 16 = 256 * f + s" "x div 2 ^ 17 = 128 * f + s div 2" "x div 2 ^ 29 = f div 32"
proof -
  define q where "q = x div 2 ^ 16"
  have q: "x div 2 ^ 22 = q div 64" "x div 2 ^ 20 = q div 16" "x div 2 ^ 17 = q div 2"
    "f = q div 256" "s = q mod 256" "x div 2 ^ 29 = f div 32"
    by (simp_all add: q_def f_def s_def div_mult2_eq [symmetric])
  show "x div 2 ^ 22 = 4 * f + s div 64" "x div 2 ^ 20 = 16 * f + s div 16"
    "x div 2 ^ 16 = 256 * f + s" "x div 2 ^ 17 = 128 * f + s div 2" "x div 2 ^ 29 = f div 32"
    unfolding q q_def[symmetric]
    using div_split[of 64 q 4] div_split[of 16 q 16] div_split[of 2 q 128] by simp_all
qed

lemma ipv4_private_blocks: "ipv4_private a \<longleftrightarrow> (\<exists>b\<in>set private_blocks4. in_block4 a b)"
proof -
  define f where "f = unat a div 2 ^ 24"
  define s where "s = unat a div 2 ^ 16 mod 256"
  have bound: "f < 256" "s < 256"
    using unsigned_less[where 'a = nat, of a] by (simp_all add: f_def s_def less_mult_imp_div_less)
  have digits: "unat (drop_bit 24 a) = f" "unat (drop_bit 16 a AND 0xff) = s"
    "unat (drop_bit 22 a) = 4 * f + s div 64" "unat (drop_bit 20 a) = 16 * f + s div 16"
    "unat (drop_bit 16 a) = 256 * f + s" "unat (drop_bit 17 a) = 128 * f + s div 2"
    "unat (drop_bit 29 a) = f div 32"
    unfolding unat_and_255 unat_drop f_def s_def by (rule refl quad_digits)+
  have pair: "256 * f + s = n \<longleftrightarrow> f = n div 256 \<and> s = n mod 256" for n
    using base_digits[of s 256 "n mod 256" f "n div 256"] bound(2) by simp
  have split: "4 * f + s div 64 = 401 \<longleftrightarrow> f = 100 \<and> s div 64 = 1"
    "16 * f + s div 16 = 2753 \<longleftrightarrow> f = 172 \<and> s div 16 = 1"
    "128 * f + s div 2 = 25353 \<longleftrightarrow> f = 198 \<and> s div 2 = 9"
    using base_digits[of "s div 64" 4 1 f 100] base_digits[of "s div 16" 16 1 f 172]
      base_digits[of "s div 2" 128 9 f 198] bound(2) by simp_all
  have range: "f div 32 = 7 \<longleftrightarrow> 224 \<le> f" "s div 64 = 1 \<longleftrightarrow> 64 \<le> s \<and> s \<le> 127"
    "s div 16 = 1 \<longleftrightarrow> 16 \<le> s \<and> s \<le> 31" "s div 2 = 9 \<longleftrightarrow> s = 18 \<or> s = 19"
    using bound(1) div_eq_range[of 32 f 7] div_eq_range[of 64 s 1] div_eq_range[of 16 s 1]
      div_eq_range[of 2 s 9] by auto
  have "(\<exists>b\<in>set private_blocks4. in_block4 a b) \<longleftrightarrow>
      f = 0 \<or> f = 10 \<or> f = 127 \<or> f div 32 = 7 \<or> 4 * f + s div 64 = 401 \<or>
      256 * f + s = 43518 \<or> 16 * f + s div 16 = 2753 \<or> 256 * f + s = 49152 \<or>
      256 * f + s = 49320 \<or> 256 * f + s = 49240 \<or> 128 * f + s div 2 = 25353 \<or>
      256 * f + s = 50739 \<or> 256 * f + s = 51968"
    by (simp add: private_blocks4_def in_block4_def quad_def word_unat_eq_iff digits)
  also have "\<dots> \<longleftrightarrow>
      f = 0 \<or> f = 10 \<or> f = 127 \<or> 224 \<le> f \<or> f = 100 \<and> 64 \<le> s \<and> s \<le> 127 \<or>
      f = 169 \<and> s = 254 \<or> f = 172 \<and> 16 \<le> s \<and> s \<le> 31 \<or> f = 192 \<and> s = 0 \<or>
      f = 192 \<and> s = 168 \<or> f = 192 \<and> s = 88 \<or> f = 198 \<and> (s = 18 \<or> s = 19) \<or>
      f = 198 \<and> s = 51 \<or> f = 203 \<and> s = 0"
    unfolding pair split range by simp
  also have "\<dots> \<longleftrightarrow> ipv4_private a"
    by (auto simp: ipv4_private_def Let_def word_unat_eq_iff word_le_nat_alt digits)
  finally show ?thesis ..
qed

definition in_block6 :: "128 word \<Rightarrow> 128 word \<times> nat \<Rightarrow> bool" where
  "in_block6 a = (\<lambda>(net, prefix). drop_bit (128 - prefix) a = drop_bit (128 - prefix) net)"

definition special_blocks6 :: "(128 word \<times> nat) list" where
  "special_blocks6 =
     [(0x20010000000000000000000000000000, 23), (0x20020000000000000000000000000000, 16),
      (0x3fff0000000000000000000000000000, 20), (0x20010db8000000000000000000000000, 32)]"

definition mapped_block6 :: "128 word \<times> nat" where
  "mapped_block6 = (0x00000000000000000000ffff00000000, 96)"

definition nat64_block6 :: "128 word \<times> nat" where
  "nat64_block6 = (0x0064ff9b000000000000000000000000, 96)"

definition global_block6 :: "128 word \<times> nat" where
  "global_block6 = (0x20000000000000000000000000000000, 3)"

lemma bit_octet6: "bit (octet6 a i) m \<longleftrightarrow> m < 8 \<and> bit a (8 * (15 - i) + m)"
  by (simp only: octet6_def bit_unsigned_iff bit_drop_bit_eq possible_bit_word)
    (auto simp: add.commute)

lemma octet_index:
  fixes m k :: nat
  assumes "m < 128" "k \<le> m div 8"
  shows "15 - m div 8 < 16 - k" "8 * (15 - (15 - m div 8)) + m mod 8 = m"
proof -
  have d: "m div 8 < 16" using assms(1) by (simp add: less_mult_imp_div_less)
  then have e: "15 - (15 - m div 8) = m div 8" by simp
  show "8 * (15 - (15 - m div 8)) + m mod 8 = m" unfolding e by simp
  show "15 - m div 8 < 16 - k" using assms(2) d by linarith
qed

lemma drop_bit_octets6:
  "drop_bit (8 * k) a = drop_bit (8 * k) b \<longleftrightarrow> (\<forall>i < 16 - k. octet6 a i = octet6 b i)"
proof
  assume eq: "drop_bit (8 * k) a = drop_bit (8 * k) b"
  have same: "bit a n = bit b n" if "8 * k \<le> n" for n
    using arg_cong[OF eq, of "\<lambda>w. bit w (n - 8 * k)"] that by (simp add: bit_drop_bit_eq)
  show "\<forall>i < 16 - k. octet6 a i = octet6 b i"
  proof (intro allI impI bit_eqI)
    fix i n
    assume "i < 16 - k"
    then have "8 * k \<le> 8 * (15 - i) + n" by linarith
    then show "bit (octet6 a i) n = bit (octet6 b i) n" unfolding bit_octet6 by (simp only: same)
  qed
next
  assume eq: "\<forall>i < 16 - k. octet6 a i = octet6 b i"
  have same: "bit a (8 * k + n) = bit b (8 * k + n)" for n
  proof (cases "8 * k + n < 128")
    case True
    have "k \<le> (8 * k + n) div 8" by simp
    note index = octet_index[OF True this]
    from eq index(1) have "bit (octet6 a (15 - (8 * k + n) div 8)) ((8 * k + n) mod 8) =
      bit (octet6 b (15 - (8 * k + n) div 8)) ((8 * k + n) mod 8)" by simp
    then show ?thesis unfolding bit_octet6 index(2) by simp
  next
    case False
    then show ?thesis using bit_imp_le_length[of a "8 * k + n"] bit_imp_le_length[of b "8 * k + n"] by auto
  qed
  show "drop_bit (8 * k) a = drop_bit (8 * k) b"
    by (rule bit_eqI) (simp only: bit_drop_bit_eq o_def same)
qed

lemma unat_and_not_mask: "unat (b AND NOT (mask n) :: byte) = 2 ^ n * (unat b div 2 ^ n)"
proof -
  have "b AND NOT (mask n) = push_bit n (drop_bit n b)"
    by (rule bit_eqI) (auto simp: bit_simps)
  moreover have "2 ^ n * (unat b div 2 ^ n) < 256"
    using unat_byte_less[of b] by (meson le_less_trans times_div_less_eq_dividend)
  ultimately show ?thesis
    by (simp only: unsigned_push_bit_eq unat_drop push_bit_eq_mult[where 'a = nat]
        take_bit_eq_mod[where 'a = nat] mult.commute) simp
qed

lemma octet6_digits:
  fixes a :: "128 word"
  defines "o0 \<equiv> unat (octet6 a 0)" and "o1 \<equiv> unat (octet6 a 1)" and "o2 \<equiv> unat (octet6 a 2)"
  shows "unat (drop_bit 125 a) = o0 div 32" "unat (drop_bit 112 a) = 256 * o0 + o1"
    "unat (drop_bit 105 a) = 128 * (256 * o0 + o1) + o2 div 2"
    "unat (drop_bit 108 a) = 16 * (256 * o0 + o1) + o2 div 16"
proof -
  define x where "x = unat a"
  have x: "x div 2 ^ 120 < 256"
    using unsigned_less[where 'a = nat, of a] by (simp add: x_def less_mult_imp_div_less)
  have o: "o0 = x div 2 ^ 120" "o1 = x div 2 ^ 112 mod 256" "o2 = x div 2 ^ 104 mod 256"
    using x by (simp_all add: o0_def o1_def o2_def octet6_def unat_ucast_mod unat_drop x_def)
  have d: "x div 2 ^ 105 = x div 2 ^ 104 div 2" "x div 2 ^ 108 = x div 2 ^ 104 div 16"
    "x div 2 ^ 112 = x div 2 ^ 104 div 256" "x div 2 ^ 120 = x div 2 ^ 112 div 256"
    "x div 2 ^ 125 = x div 2 ^ 120 div 32"
    by (simp_all add: div_mult2_eq [symmetric])
  have p: "256 * o0 + o1 = x div 2 ^ 112" unfolding o d(4) by simp
  show "unat (drop_bit 125 a) = o0 div 32" unfolding unat_drop x_def[symmetric] o d(5) ..
  show "unat (drop_bit 112 a) = 256 * o0 + o1" unfolding unat_drop x_def[symmetric] p ..
  show "unat (drop_bit 105 a) = 128 * (256 * o0 + o1) + o2 div 2"
    unfolding unat_drop x_def[symmetric] p o(3) d(1,3) using div_split[of 2 "x div 2 ^ 104" 128] by simp
  show "unat (drop_bit 108 a) = 16 * (256 * o0 + o1) + o2 div 16"
    unfolding unat_drop x_def[symmetric] p o(3) d(2,3) using div_split[of 16 "x div 2 ^ 104" 16] by simp
qed

lemma octet_masks:
  "b AND 0xe0 = 0x20 \<longleftrightarrow> unat (b :: byte) div 32 = 1" "b AND 0xf0 = 0 \<longleftrightarrow> unat b div 16 = 0"
proof -
  have m: "(0xe0 :: byte) = NOT (mask 5)" "(0xf0 :: byte) = NOT (mask 4)"
    by (simp_all add: mask_eq_exp_minus_1 word_unat_eq_iff)
  show "b AND 0xe0 = 0x20 \<longleftrightarrow> unat b div 32 = 1" "b AND 0xf0 = 0 \<longleftrightarrow> unat b div 16 = 0"
    unfolding m word_unat_eq_iff unat_and_not_mask by simp_all
qed

lemma in_block6_head:
  "in_block6 a (net, 96) \<longleftrightarrow> map (octet6 a) [0..<12] = map (octet6 net) [0..<12]"
  using drop_bit_octets6[of 4 a net] by (auto simp: in_block6_def)

lemma all_less_4: "(\<forall>i < (16 - 12 :: nat). P i) \<longleftrightarrow> P 0 \<and> P 1 \<and> P 2 \<and> P 3"
  by (simp add: numeral_eq_Suc All_less_Suc2)

lemma address_is_private6_blocks:
  "egress_address_is_private (Some (Sockaddr_in6 p f a sc)) \<longleftrightarrow>
     (if in_block6 a mapped_block6 \<or> in_block6 a nat64_block6 then ipv4_private (ucast a)
      else \<not> in_block6 a global_block6 \<or> (\<exists>b\<in>set special_blocks6. in_block6 a b))"
proof -
  let ?o = "octet6 a"
  have nets: "map (octet6 0x00000000000000000000ffff00000000) [0..<12] =
      [0, 0, 0, 0, 0, 0, 0, 0, 0, 0, 0xff, 0xff]"
    "map (octet6 0x0064ff9b000000000000000000000000) [0..<12] =
      [0x00, 0x64, 0xff, 0x9b, 0, 0, 0, 0, 0, 0, 0, 0]" by code_simp+
  have heads: "in_block6 a mapped_block6 \<longleftrightarrow>
      map ?o [0..<12] = [0, 0, 0, 0, 0, 0, 0, 0, 0, 0, 0xff, 0xff]"
    "in_block6 a nat64_block6 \<longleftrightarrow>
      map ?o [0..<12] = [0x00, 0x64, 0xff, 0x9b, 0, 0, 0, 0, 0, 0, 0, 0]"
    unfolding mapped_block6_def nat64_block6_def in_block6_head nets by (rule refl)+
  have global: "in_block6 a global_block6 \<longleftrightarrow> ?o 0 AND 0xe0 = 0x20"
    unfolding octet_masks by (simp add: global_block6_def in_block6_def word_unat_eq_iff octet6_digits)
  have small: "unat (?o 1) < 256" "unat (?o 2) div 2 < 128" "unat (?o 2) div 16 < 16"
    using unat_byte_less[of "?o 1"] unat_byte_less[of "?o 2"] by simp_all
  note split = base_digits[OF small(1)] base_digits[OF small(2)] base_digits[OF small(3)]
  have b23: "in_block6 a (0x20010000000000000000000000000000, 23) \<longleftrightarrow>
      ?o 0 = 0x20 \<and> ?o 1 = 1 \<and> ?o 2 \<le> 1"
    using split(2)[of 0 "256 * unat (?o 0) + unat (?o 1)" 8193] split(1)[of 1 "unat (?o 0)" 32]
    by (auto simp add: in_block6_def word_unat_eq_iff octet6_digits word_le_nat_alt)
  have b16: "in_block6 a (0x20020000000000000000000000000000, 16) \<longleftrightarrow> ?o 0 = 0x20 \<and> ?o 1 = 2"
    using split(1)[of 2 "unat (?o 0)" 32]
    by (auto simp add: in_block6_def word_unat_eq_iff octet6_digits)
  have b20: "in_block6 a (0x3fff0000000000000000000000000000, 20) \<longleftrightarrow>
      ?o 0 = 0x3f \<and> ?o 1 = 0xff \<and> ?o 2 AND 0xf0 = 0"
    using split(3)[of 0 "256 * unat (?o 0) + unat (?o 1)" 16383] split(1)[of 255 "unat (?o 0)" 63]
    unfolding octet_masks by (auto simp add: in_block6_def word_unat_eq_iff octet6_digits)
  have c4: "octet6 0x20010db8000000000000000000000000 0 = 0x20"
    "octet6 0x20010db8000000000000000000000000 1 = 1"
    "octet6 0x20010db8000000000000000000000000 2 = 0x0d"
    "octet6 0x20010db8000000000000000000000000 3 = 0xb8"
    by code_simp+
  have b32: "in_block6 a (0x20010db8000000000000000000000000, 32) \<longleftrightarrow>
      ?o 0 = 0x20 \<and> ?o 1 = 1 \<and> ?o 2 = 0x0d \<and> ?o 3 = 0xb8"
    using drop_bit_octets6[of 12 a "0x20010db8000000000000000000000000"]
    unfolding in_block6_def all_less_4 c4[symmetric] by simp
  show ?thesis
    by (simp add: egress_address_is_private_def Let_def heads global special_blocks6_def
        b23 b16 b20 b32 del: upt_Suc)
qed
section \<open>Hosts and printed addresses are plain text\<close>

text \<open>
  Neither tabulations, newlines, quotes, backslashes, commas nor vertical bars: the
  separators of the texts that hosts and addresses are written in.
\<close>

definition plain_byte :: "byte \<Rightarrow> bool" where
  "plain_byte b \<longleftrightarrow> b \<noteq> 9 \<and> b \<noteq> 10 \<and> b \<noteq> 34 \<and> b \<noteq> 44 \<and> b \<noteq> 92 \<and> b \<noteq> 124 \<and> b \<noteq> 0"

lemma plain_class [simp]:
  "is_digit b \<Longrightarrow> plain_byte b" "ascii_alnum b \<Longrightarrow> plain_byte b" "label_byte b \<Longrightarrow> plain_byte b"
  by (auto simp: plain_byte_def byte_class label_byte_def)

lemma plain_const [simp]: "plain_byte 45" "plain_byte 46" "plain_byte 58"
  by (simp_all add: plain_byte_def)

lemma plain_to_lower [simp]: "plain_byte b \<Longrightarrow> plain_byte (to_lower b)"
  by (auto simp: plain_byte_def byte_class word_le_nat_alt word_unat_eq_iff unat_plus_if')

lemma list_all_plain_digits: "list_all is_digit l \<Longrightarrow> list_all plain_byte l"
  by (auto simp: list_all_iff)

lemma plain_dec [simp]: "list_all plain_byte (dec n)"
  by (rule list_all_plain_digits) (rule dec_digits)

lemma plain_inet_ntop4 [simp]: "list_all plain_byte (inet_ntop4 a b c d)"
  by (simp add: inet_ntop4_def)

lemma plain_hex_digit: "k < 16 \<Longrightarrow> plain_byte (cstr ''0123456789abcdef'' ! k)"
proof -
  have "\<forall>k<16. plain_byte (cstr ''0123456789abcdef'' ! k)" by code_simp
  then show "k < 16 \<Longrightarrow> plain_byte (cstr ''0123456789abcdef'' ! k)" by blast
qed

lemma plain_hex_digits [simp]: "list_all plain_byte (hex_digits n)"
proof (induction n rule: hex_digits.induct)
  case (1 n)
  show ?case
  proof (cases "n < 16")
    case True
    then show ?thesis by (subst hex_digits.simps) (simp only: plain_hex_digit if_True list.pred_inject simp_thms)
  next
    case False
    with 1 have "list_all plain_byte (hex_digits (n div 16))" by simp
    moreover have "plain_byte (cstr ''0123456789abcdef'' ! (n mod 16))" by (rule plain_hex_digit) simp
    ultimately show ?thesis using False
      by (subst hex_digits.simps) (simp only: if_False list_all_append list.pred_inject simp_thms)
  qed
qed

lemma plain_ntop6_from [simp]: "list_all plain_byte (ntop6_from a best is)"
  by (induction a best "is" rule: ntop6_from.induct) (simp_all add: Let_def)

lemma plain_inet_ntop6 [simp]: "list_all plain_byte (inet_ntop6 a)"
  by (simp add: inet_ntop6_def Let_def split: option.splits)

lemma hex_value_plain: "hex_value b = Some d \<Longrightarrow> plain_byte b"
  by (auto simp: plain_byte_def hex_value_def is_digit_def split: if_splits)

lemma inet_pton4_plain:
  assumes "inet_pton4 s = Some q" "b \<in> set s"
  shows "plain_byte b"
proof -
  from assms(1) have "list_all quad_octet (labels s)"
    by (auto simp: inet_pton4_def Let_def split: if_splits)
  with labels_bytes[OF assms(2)] show ?thesis
    by (auto simp: list_all_iff quad_octet_def)
qed

lemma pton6_groups_plain:
  "pton6_groups s tok out gap seen val = Some r \<Longrightarrow> set s \<subseteq> set tok \<Longrightarrow> \<forall>b\<in>set s. plain_byte b"
proof (induction s tok out gap seen val rule: pton6_groups.induct)
  case (2 b rest tok out gap seen val)
  show ?case
  proof (cases "hex_value b")
    case (Some d)
    with 2 show ?thesis by (auto simp: hex_value_plain split: if_splits)
  next
    case None
    show ?thesis
    proof (cases "b = 58")
      case True
      with None 2 show ?thesis by (auto split: if_splits)
    next
      case False
      with None "2.prems"(1) obtain q where "inet_pton4 tok = Some q"
        by (auto split: if_splits option.splits)
      with "2.prems"(2) show ?thesis using inet_pton4_plain by blast
    qed
  qed
qed simp

lemma pton6_start_Some: "pton6_start s = Some t \<Longrightarrow> s = t \<or> s = 58 # t"
  by (cases s) (auto simp: pton6_start_def split: if_splits)

lemma inet_pton6_plain:
  assumes "inet_pton6 s \<noteq> None"
  shows "list_all plain_byte s"
proof -
  from assms obtain t where t: "pton6_start s = Some t" by (auto simp: inet_pton6_def split: option.splits)
  with assms obtain r where "pton6_groups t t [] None 0 0 = Some r"
    by (auto simp: inet_pton6_def split: option.splits)
  then have "list_all plain_byte t" using pton6_groups_plain[of t t] by (simp add: list_all_iff)
  with pton6_start_Some[OF t] show ?thesis by auto
qed

lemma dns_name_plain: "dns_name s \<Longrightarrow> list_all plain_byte s"
  using labels_bytes[of _ s] by (fastforce simp: dns_name_def label_shape_def list_all_iff)

lemma canonical_host_plain: "egress_canonical_host i = Some h \<Longrightarrow> list_all plain_byte h"
  using inet_pton6_plain[of h]
  by (cases i) (auto simp: canonical_host_grammar list.pred_map list_all_iff dest!: dns_name_plain)

text \<open>The length of a printed IPv6 address.\<close>

lemma length_hex_digits: "n < 16 ^ Suc k \<Longrightarrow> length (hex_digits n) \<le> Suc k"
proof (induction k arbitrary: n)
  case 0
  then show ?case by (subst hex_digits.simps) simp
next
  case (Suc k)
  then have "n div 16 < 16 ^ Suc k" by auto
  with Suc.IH have "length (hex_digits (n div 16)) \<le> Suc k" by blast
  then show ?case by (subst hex_digits.simps) simp
qed

lemma length_inet_ntop4: "length (inet_ntop4 a b c d) \<le> 15"
proof -
  have "length (dec (unat x)) \<le> 3" for x :: byte
    using length_dec[of "unat x" 3] unat_byte_less[of x] by simp
  from this[of a] this[of b] this[of c] this[of d] show ?thesis by (simp add: inet_ntop4_def)
qed

lemma length_ntop6_from: "length (ntop6_from a best is) \<le> 5 * length is + 11"
proof (induction "is")
  case (Cons i "is")
  have "unat (group6 a i) < 65536" using unsigned_less[where 'a = nat, of "group6 a i"] by simp
  then have "length (hex_digits (unat (group6 a i))) \<le> 4" using length_hex_digits[of _ 3] by simp
  with Cons show ?case
    using length_inet_ntop4[of "octet6 a 12" "octet6 a 13" "octet6 a 14" "octet6 a 15"]
    by (auto simp: Let_def)
qed simp

lemma length_inet_ntop6: "length (inet_ntop6 a) \<le> 52"
  using length_ntop6_from[of a "best_run (map (group6 a) [0..<8])" "[0..<8]"]
  by (auto simp: inet_ntop6_def Let_def split: option.splits)

lemma labels_quad: "labels (inet_ntop4 a b c d) = [dec (unat a), dec (unat b), dec (unat c), dec (unat d)]"
proof -
  have dot: "46 \<notin> set (dec n)" for n
    using dec_digits[of n] by (auto simp: list_all_iff is_digit_def)
  have "inet_ntop4 a b c d = dec (unat a) @ 46 # dec (unat b) @ 46 # dec (unat c) @ 46 # dec (unat d)"
    by (simp add: inet_ntop4_def)
  then show ?thesis by (simp add: labels_append_dot labels_no_dot dot)
qed

lemma dotted_quad_printed: "dotted_quad s \<longleftrightarrow> (\<exists>a b c d. s = inet_ntop4 a b c d)"
proof
  assume q: "dotted_quad s"
  then obtain w x y z where ls: "labels s = [w, x, y, z]"
    by (auto simp: dotted_quad_def length_Suc_conv numeral_eq_Suc)
  with q obtain a b c d :: byte
    where "w = dec (unat a)" "x = dec (unat b)" "y = dec (unat c)" "z = dec (unat d)"
    by (auto simp: dotted_quad_def quad_octet_dec)
  with concat_labels[OF ls] show "\<exists>a b c d. s = inet_ntop4 a b c d"
    by (auto simp: inet_ntop4_def)
next
  assume "\<exists>a b c d. s = inet_ntop4 a b c d"
  then show "dotted_quad s" by (auto simp: dotted_quad_def labels_quad quad_octet_dec)
qed

section \<open>Properties\<close>

text \<open>
  C14: \<open>egress_canonical_host\<close> accepts exactly the inputs of 1 to 253 bytes that are either an IPv6
  literal, which it returns unchanged, or a host name (labels of 1 to 63 letters, digits and
  hyphens, no hyphen at either end, and a numeric last label only in a dotted quad), which it
  returns in lower case; a missing input is refused.
\<close>

theorem canonical_host_accepts:
  "egress_canonical_host None = None \<and>
   (egress_canonical_host (Some s) = Some h \<longleftrightarrow>
     0 < length s \<and> length s \<le> EGRESS_MAX_HOST \<and>
     ((ch (CHR '':'') \<in> set s \<and> inet_pton6 s \<noteq> None \<and> h = s) \<or> (dns_name s \<and> h = map to_lower s)))"
  by (simp add: canonical_host_grammar EGRESS_MAX_HOST_def)

text \<open>
  a canonical host is canonical: canonicalising it again returns it unchanged, so hosts
  can be compared byte by byte once canonical. It holds none of the bytes that separate fields
  in policy digests, receipts and audit records.
\<close>

theorem canonical_host_stable:
  assumes "egress_canonical_host i = Some h"
  shows "egress_canonical_host (Some h) = Some h \<and> list_all plain_byte h"
  using canonical_host_fixpoint[OF assms] canonical_host_plain[OF assms] ..

theorem canonical_host_stable_witness:
  "egress_canonical_host (Some (cstr ''GitHub.COM'')) = Some (cstr ''github.com'') \<and>
   egress_canonical_host (Some (cstr ''github.com'')) = Some (cstr ''github.com'') \<and>
   list_all plain_byte (cstr ''github.com'')"
proof -
  have "egress_canonical_host (Some (cstr ''GitHub.COM'')) = Some (cstr ''github.com'')" by code_simp
  with canonical_host_stable[OF this] show ?thesis by simp
qed

text \<open>
  \<open>strict_ipv4\<close> accepts exactly the texts \<open>inet_ntop\<close> prints for an IPv4 address: no other
  spelling of an address (leading zeros, fewer parts, hexadecimal) passes as one.
\<close>

theorem strict_ipv4_printed: "strict_ipv4 s \<longleftrightarrow> (\<exists>a b c d. s = inet_ntop4 a b c d)"
  by (simp add: strict_ipv4_dotted_quad dotted_quad_printed)

text \<open>
  C20: on C strings, which hold no NUL, the constant-time comparison of two secrets is equality,
  although it folds the lengths through 32 bits; a missing string equals nothing.
\<close>

theorem constant_time_equal_is_equality:
  assumes "0 \<notin> set l" "0 \<notin> set r"
  shows "(egress_constant_time_equal (Some l) (Some r) \<longleftrightarrow> l = r) \<and>
    \<not> egress_constant_time_equal None x \<and> \<not> egress_constant_time_equal x None"
  using constant_time_equal_iff[OF assms]
  by (simp add: egress_constant_time_equal_def split: option.splits)

theorem constant_time_equal_is_equality_witness:
  "egress_constant_time_equal (Some (cstr ''s3cret'')) (Some (cstr ''s3cret'')) \<and>
   \<not> egress_constant_time_equal (Some (cstr ''s3cret'')) (Some (cstr ''s3crets''))"
  using constant_time_equal_is_equality[of "cstr ''s3cret''" "cstr ''s3cret''"]
    constant_time_equal_is_equality[of "cstr ''s3cret''" "cstr ''s3crets''"] by simp

text \<open>
  C18: the classification of addresses is by blocks. An IPv4 address is private exactly in the
  thirteen listed blocks. An IPv6 address that embeds an IPv4 one (mapped or NAT64) is
  classified as that one; any other is public only inside 2000::/3 and outside the four special
  blocks. A missing address and every other family are private.
\<close>

theorem private_address_blocks:
  "egress_address_is_private address =
     (case address of
        None \<Rightarrow> True
      | Some (Sockaddr_in _ a) \<Rightarrow> list_ex (in_block4 a) private_blocks4
      | Some (Sockaddr_in6 _ _ a _) \<Rightarrow>
          if in_block6 a mapped_block6 \<or> in_block6 a nat64_block6
          then list_ex (in_block4 (ucast a)) private_blocks4
          else if in_block6 a global_block6 then list_ex (in_block6 a) special_blocks6 else True
      | Some (Sockaddr_other _) \<Rightarrow> True)"
proof -
  have v4: "ipv4_private a = list_ex (in_block4 a) private_blocks4" for a
    by (simp add: ipv4_private_blocks list_ex_iff)
  have "egress_address_is_private (Some (Sockaddr_in q a)) = list_ex (in_block4 a) private_blocks4" for q a
    by (simp add: egress_address_is_private_def v4)
  moreover have "egress_address_is_private None" "egress_address_is_private (Some (Sockaddr_other f))" for f
    by (simp_all add: egress_address_is_private_def)
  ultimately show ?thesis
    by (simp add: address_is_private6_blocks v4 list_ex_iff split: option.split sockaddr.split)
qed

end
