(* ===== verification/Egress_Sha256.thy ===== *)
theory Egress_Sha256
  imports Egress_Prelude
begin

text \<open>
  \<^verbatim>\<open>src/src/core/sha256.c\<close>, and the HMAC built on it in \<^verbatim>\<open>src/src/audit.c\<close>: the streaming
  hash that policy digests, channel digests and the audit chain rest on. The streaming
  update is related to the padded-block definition of FIPS 180-4.
\<close>

section \<open>The model\<close>

text \<open>The first \<open>block_length\<close> bytes of \<open>block\<close> are kept; the rest are never read.\<close>

record sha256_context =
  sha_state :: "u32 list"
  bit_count :: u64
  sha_block :: bytes

definition rotate_right :: "u32 \<Rightarrow> nat \<Rightarrow> u32" where
  "rotate_right value count = drop_bit count value OR push_bit (32 - count) value"

definition load_be32 :: "bytes \<Rightarrow> u32" where
  "load_be32 b = push_bit 24 (ucast (b ! 0)) OR push_bit 16 (ucast (b ! 1)) OR
     push_bit 8 (ucast (b ! 2)) OR ucast (b ! 3)"

definition store_be32 :: "u32 \<Rightarrow> bytes" where
  "store_be32 value =
     [ucast (drop_bit 24 value), ucast (drop_bit 16 value), ucast (drop_bit 8 value), ucast value]"

text \<open>The table, in the eight rows the source writes it in.\<close>

text \<open>The table of \<open>transform\<close>, row by row as the source lays it out.\<close>

definition sha256_constants :: "u32 list" where
  "sha256_constants = concat
     [[0x428a2f98, 0x71374491, 0xb5c0fbcf, 0xe9b5dba5, 0x3956c25b, 0x59f111f1, 0x923f82a4, 0xab1c5ed5],
      [0xd807aa98, 0x12835b01, 0x243185be, 0x550c7dc3, 0x72be5d74, 0x80deb1fe, 0x9bdc06a7, 0xc19bf174],
      [0xe49b69c1, 0xefbe4786, 0x0fc19dc6, 0x240ca1cc, 0x2de92c6f, 0x4a7484aa, 0x5cb0a9dc, 0x76f988da],
      [0x983e5152, 0xa831c66d, 0xb00327c8, 0xbf597fc7, 0xc6e00bf3, 0xd5a79147, 0x06ca6351, 0x14292967],
      [0x27b70a85, 0x2e1b2138, 0x4d2c6dfc, 0x53380d13, 0x650a7354, 0x766a0abb, 0x81c2c92e, 0x92722c85],
      [0xa2bfe8a1, 0xa81a664b, 0xc24b8b70, 0xc76c51a3, 0xd192e819, 0xd6990624, 0xf40e3585, 0x106aa070],
      [0x19a4c116, 0x1e376c08, 0x2748774c, 0x34b0bcb5, 0x391c0cb3, 0x4ed8aa4a, 0x5b9cca4f, 0x682e6ff3],
      [0x748f82ee, 0x78a5636f, 0x84c87814, 0x8cc70208, 0x90befffa, 0xa4506ceb, 0xbef9a3f7, 0xc67178f2]]"

definition schedule_step :: "u32 list \<Rightarrow> nat \<Rightarrow> u32 list" where
  "schedule_step words i =
     (let s0 = rotate_right (words ! (i - 15)) 7 XOR rotate_right (words ! (i - 15)) 18 XOR
               drop_bit 3 (words ! (i - 15));
          s1 = rotate_right (words ! (i - 2)) 17 XOR rotate_right (words ! (i - 2)) 19 XOR
               drop_bit 10 (words ! (i - 2))
      in words @ [words ! (i - 16) + s0 + words ! (i - 7) + s1])"

definition message_words :: "bytes \<Rightarrow> u32 list" where
  "message_words block =
     foldl schedule_step (map (\<lambda>i. load_be32 (drop (i * 4) block)) [0..<16]) [16..<64]"

fun sha256_round :: "u32 list \<Rightarrow> u32 list \<Rightarrow> nat \<Rightarrow> u32 list" where
  "sha256_round words [a, b, c, d, e, f, g, h] i =
     (let s1 = rotate_right e 6 XOR rotate_right e 11 XOR rotate_right e 25;
          choice = (e AND f) XOR (NOT e AND g);
          first = h + s1 + choice + sha256_constants ! i + words ! i;
          s0 = rotate_right a 2 XOR rotate_right a 13 XOR rotate_right a 22;
          majority = (a AND b) XOR (a AND c) XOR (b AND c);
          second = s0 + majority
      in [first + second, a, b, c, d + first, e, f, g])"
| "sha256_round words _ i = []"

definition transform :: "u32 list \<Rightarrow> bytes \<Rightarrow> u32 list" where
  "transform st block =
     (let words = message_words block in
      map2 (+) st (foldl (sha256_round words) st [0..<64]))"

text \<open>
  The loop of \<open>update\<close>. The block never holds 64 bytes between two rounds, so the test on
  it, which makes the recursion total, is never the reason to stop.
\<close>

function update_loop :: "sha256_context \<Rightarrow> bytes \<Rightarrow> sha256_context" where
  "update_loop context bs =
     (if bs = [] \<or> 64 \<le> length (sha_block context) then context
      else
        let available = 64 - length (sha_block context);
            count = (if length bs < available then length bs else available);
            filled = sha_block context @ take count bs
        in if length filled = 64
           then update_loop (context\<lparr>sha_state := transform (sha_state context) filled, sha_block := []\<rparr>)
                  (drop count bs)
           else update_loop (context\<lparr>sha_block := filled\<rparr>) (drop count bs))"
  by pat_completeness auto
termination
  by (relation "measure (length \<circ> snd)") (auto simp: Let_def)

declare update_loop.simps [simp del]

definition sha256_update :: "sha256_context \<Rightarrow> bytes \<Rightarrow> sha256_context" where
  "sha256_update context bs =
     update_loop (context\<lparr>bit_count := bit_count context + of_nat (length bs) * 8\<rparr>) bs"

definition sha256_start :: sha256_context where
  "sha256_start =
     \<lparr>sha_state = [0x6a09e667, 0xbb67ae85, 0x3c6ef372, 0xa54ff53a,
                   0x510e527f, 0x9b05688c, 0x1f83d9ab, 0x5be0cd19],
      bit_count = 0, sha_block = []\<rparr>"

definition egress_sha256 :: "bytes \<Rightarrow> bytes" where
  "egress_sha256 data =
     (let context = sha256_update sha256_start data;
          block_length = length (sha_block context);
          pad_length = (if block_length < 56 then 56 - block_length else 120 - block_length);
          original_bits = bit_count context;
          context = sha256_update context (take pad_length (0x80 # replicate 127 0));
          length_bytes = map (\<lambda>i. ucast (drop_bit (8 * (7 - i)) original_bits)) [0..<8];
          context = sha256_update context length_bytes
      in concat (map store_be32 (sha_state context)))"

definition hex_pair :: "byte \<Rightarrow> bytes" where
  "hex_pair b =
     [cstr ''0123456789abcdef'' ! unat (drop_bit 4 b), cstr ''0123456789abcdef'' ! unat (b AND 0x0f)]"

definition hex_encode :: "bytes \<Rightarrow> bytes" where
  "hex_encode bs = concat (map hex_pair bs)"

definition egress_sha256_hex :: "bytes \<Rightarrow> bytes" where
  "egress_sha256_hex data = hex_encode (egress_sha256 data)"

text \<open>\<open>alloc_ok\<close> is the outcome of the one \<open>malloc\<close>. The result is the return value and \<open>output\<close>.\<close>

definition egress_hmac_sha256 :: "bool \<Rightarrow> bytes \<Rightarrow> bytes \<Rightarrow> bool \<times> bytes" where
  "egress_hmac_sha256 alloc_ok key data =
     (let normalized = (if 64 < length key then egress_sha256 key @ replicate 32 0
                        else key @ replicate (64 - length key) 0);
          inner_pad = map (\<lambda>b. b XOR 0x36) normalized;
          outer_pad = map (\<lambda>b. b XOR 0x5c) normalized
      in if 2 ^ 64 - 1 - 64 < length data then (False, replicate 32 0)
         else if \<not> alloc_ok then (False, replicate 32 0)
         else (True, egress_sha256 (outer_pad @ egress_sha256 (inner_pad @ data))))"

section \<open>The specification\<close>

text \<open>
  FIPS 180-4: the padded message, cut in blocks of 64 bytes, is folded with the compression
  function; the message schedule and the compression are written as the standard does,
  with rotations as rotations and the schedule as a recurrence.
\<close>

definition small_sigma0 :: "u32 \<Rightarrow> u32" where
  "small_sigma0 x = word_rotr 7 x XOR word_rotr 18 x XOR drop_bit 3 x"

definition small_sigma1 :: "u32 \<Rightarrow> u32" where
  "small_sigma1 x = word_rotr 17 x XOR word_rotr 19 x XOR drop_bit 10 x"

fun fips_schedule :: "bytes \<Rightarrow> nat \<Rightarrow> u32" where
  "fips_schedule block t =
     (if t < 16 then load_be32 (drop (t * 4) block)
      else small_sigma1 (fips_schedule block (t - 2)) + fips_schedule block (t - 7) +
           small_sigma0 (fips_schedule block (t - 15)) + fips_schedule block (t - 16))"

declare fips_schedule.simps [simp del]

fun fips_round :: "bytes \<Rightarrow> u32 list \<Rightarrow> nat \<Rightarrow> u32 list" where
  "fips_round block [a, b, c, d, e, f, g, h] t =
     (let t1 = h + (word_rotr 6 e XOR word_rotr 11 e XOR word_rotr 25 e) +
               ((e AND f) XOR (NOT e AND g)) + sha256_constants ! t + fips_schedule block t;
          t2 = (word_rotr 2 a XOR word_rotr 13 a XOR word_rotr 22 a) +
               ((a AND b) XOR (a AND c) XOR (b AND c))
      in [t1 + t2, a, b, c, d + t1, e, f, g])"
| "fips_round block _ t = []"

definition fips_compress :: "u32 list \<Rightarrow> bytes \<Rightarrow> u32 list" where
  "fips_compress st block = map2 (+) st (foldl (fips_round block) st [0..<64])"

definition sha256_pad :: "bytes \<Rightarrow> bytes" where
  "sha256_pad m =
     m @ [0x80] @ replicate ((119 - length m mod 64) mod 64) 0 @
     map (\<lambda>i. ucast (drop_bit (8 * (7 - i)) (of_nat (8 * length m) :: u64))) [0..<8]"

function blocks64 :: "bytes \<Rightarrow> bytes list" where
  "blocks64 m = (if length m < 64 then [] else take 64 m # blocks64 (drop 64 m))"
  by pat_completeness auto
termination
  by (relation "measure length") auto

declare blocks64.simps [simp del]

definition sha256_spec :: "bytes \<Rightarrow> bytes" where
  "sha256_spec m =
     concat (map store_be32 (foldl fips_compress (sha_state sha256_start) (blocks64 (sha256_pad m))))"

section \<open>The streaming update absorbs blocks\<close>

fun feed :: "u32 list \<times> bytes \<Rightarrow> byte \<Rightarrow> u32 list \<times> bytes" where
  "feed (st, blk) b =
     (if length blk = 63 then (transform st (blk @ [b]), []) else (st, blk @ [b]))"

lemma feed_short:
  "length blk + length xs < 64 \<Longrightarrow> foldl feed (st, blk) xs = (st, blk @ xs)"
  by (induction xs arbitrary: blk) auto

lemma feed_full:
  assumes "length blk + length xs = 64" "length blk < 64"
  shows "foldl feed (st, blk) xs = (transform st (blk @ xs), [])"
proof (cases xs rule: rev_cases)
  case (snoc ys y)
  then show ?thesis using assms by (simp add: feed_short)
qed (use assms in simp)

lemma update_loop_Nil [simp]: "update_loop c [] = c"
  by (subst update_loop.simps) simp

lemma update_loop_short:
  assumes "length (sha_block c) + length bs < 64"
  shows "update_loop c bs = c\<lparr>sha_block := sha_block c @ bs\<rparr>"
  using assms by (subst update_loop.simps) (auto simp: Let_def)

lemma update_loop_full:
  assumes "length (sha_block c) < 64" "64 \<le> length (sha_block c) + length bs"
  defines "n \<equiv> 64 - length (sha_block c)"
  shows "update_loop c bs =
    update_loop (c\<lparr>sha_state := transform (sha_state c) (sha_block c @ take n bs), sha_block := []\<rparr>)
      (drop n bs)"
proof -
  have "\<not> (bs = [] \<or> 64 \<le> length (sha_block c))"
    "(if length bs < 64 - length (sha_block c) then length bs else 64 - length (sha_block c)) = n"
    "length (sha_block c @ take n bs) = 64"
    using assms by auto
  then show ?thesis by (subst update_loop.simps) (simp only: Let_def if_False if_True simp_thms)
qed

lemma update_loop_feed:
  "length (sha_block c) < 64 \<Longrightarrow>
   (sha_state (update_loop c bs), sha_block (update_loop c bs)) =
     foldl feed (sha_state c, sha_block c) bs \<and>
   bit_count (update_loop c bs) = bit_count c \<and> length (sha_block (update_loop c bs)) < 64"
proof (induction "length bs" arbitrary: c bs rule: less_induct)
  case less
  show ?case
  proof (cases "length (sha_block c) + length bs < 64")
    case True
    then show ?thesis by (simp add: update_loop_short feed_short)
  next
    case False
    define n where "n = 64 - length (sha_block c)"
    have n: "0 < n" "n \<le> length bs" using less.prems False by (auto simp: n_def)
    have "foldl feed (sha_state c, sha_block c) (take n bs) =
        (transform (sha_state c) (sha_block c @ take n bs), [])"
      using less.prems False by (intro feed_full) (auto simp: n_def)
    then have "foldl feed (sha_state c, sha_block c) bs =
        foldl feed (transform (sha_state c) (sha_block c @ take n bs), []) (drop n bs)"
      by (metis append_take_drop_id foldl_append)
    moreover have "length (drop n bs) < length bs" using n by simp
    ultimately show ?thesis
      using less.hyps[of "drop n bs"
          "c\<lparr>sha_state := transform (sha_state c) (sha_block c @ take n bs), sha_block := []\<rparr>"]
        less.prems False update_loop_full[of c bs] by (simp add: n_def)
  qed
qed

lemma blocks64_append: "length b = 64 \<Longrightarrow> blocks64 (b @ m) = b # blocks64 m"
  by (subst blocks64.simps) simp

lemma feed_blocks:
  "length m mod 64 = 0 \<Longrightarrow> foldl feed (st, []) m = (foldl transform st (blocks64 m), [])"
proof (induction "length m" arbitrary: st m rule: less_induct)
  case less
  show ?case
  proof (cases "m = []")
    case True
    then show ?thesis by (simp add: blocks64.simps)
  next
    case False
    with less.prems have len: "64 \<le> length m" by (metis length_0_conv mod_less not_less)
    have m: "m = take 64 m @ drop 64 m" by simp
    have "foldl feed (st, []) (take 64 m) = (transform st (take 64 m), [])"
      using feed_full[of "[]" "take 64 m" st] len by simp
    then have "foldl feed (st, []) m = foldl feed (transform st (take 64 m), []) (drop 64 m)"
      by (metis m foldl_append)
    also have "\<dots> = (foldl transform (transform st (take 64 m)) (blocks64 (drop 64 m)), [])"
      using less.hyps[of "drop 64 m"] less.prems len by (simp add: mod_eq_0_iff_dvd)
    also have "\<dots> = (foldl transform st (blocks64 m), [])"
      using len by (subst (2) blocks64.simps) simp
    finally show ?thesis .
  qed
qed

lemma feed_rest: "length blk < 64 \<Longrightarrow>
    length (snd (foldl feed (st, blk) m)) = (length blk + length m) mod 64"
proof (induction m arbitrary: st blk)
  case (Cons b m)
  then show ?case by (cases "length blk = 63") auto
qed simp

section \<open>The compression function\<close>

lemma rotate_right_rotr:
  assumes "0 < n" "n < 32"
  shows "rotate_right x n = word_rotr n x"
proof (rule bit_eqI)
  fix k
  assume "possible_bit TYPE(32 word) k"
  then have k: "k < 32" by simp
  show "bit (rotate_right x n) k = bit (word_rotr n x) k"
  proof (cases "k + n < 32")
    case True
    then have "\<not> 32 - n \<le> k" by linarith
    with True k assms show ?thesis
      by (simp add: rotate_right_def bit_or_iff bit_drop_bit_eq bit_push_bit_iff bit_word_rotr_iff
          add.commute)
  next
    case False
    then have "(n + k) mod 32 = k - (32 - n)" using k assms by (simp add: mod_if add.commute)
    with False k assms show ?thesis
      using bit_imp_le_length[of x "n + k"]
      by (auto simp: rotate_right_def bit_or_iff bit_drop_bit_eq bit_push_bit_iff bit_word_rotr_iff
          add.commute)
  qed
qed

lemma schedule_words:
  "k \<le> 64 \<Longrightarrow> 16 \<le> k \<Longrightarrow>
   foldl schedule_step (map (\<lambda>i. load_be32 (drop (i * 4) block)) [0..<16]) [16..<k] =
     map (fips_schedule block) [0..<k]"
proof (induction k)
  case (Suc k)
  show ?case
  proof (cases "Suc k = 16")
    case True
    have "map (\<lambda>i. load_be32 (drop (i * 4) block)) [0..<16] = map (fips_schedule block) [0..<16]"
      by (rule map_cong) (simp_all add: fips_schedule.simps)
    with True show ?thesis by simp
  next
    case False
    with Suc.prems have k: "16 \<le> k" by simp
    then have "[16..<Suc k] = [16..<k] @ [k]" by simp
    moreover have "fips_schedule block k =
        small_sigma1 (fips_schedule block (k - 2)) + fips_schedule block (k - 7) +
        small_sigma0 (fips_schedule block (k - 15)) + fips_schedule block (k - 16)"
      using k by (subst fips_schedule.simps) simp
    ultimately show ?thesis
      using Suc k by (simp add: schedule_step_def rotate_right_rotr Let_def nth_append
          small_sigma0_def small_sigma1_def algebra_simps)
  qed
qed simp

lemma message_words_nth: "i < 64 \<Longrightarrow> message_words block ! i = fips_schedule block i"
  unfolding message_words_def by (subst schedule_words) simp_all

lemma sha256_round_fips: "i < 64 \<Longrightarrow> sha256_round (message_words block) st i = fips_round block st i"
  by (cases "(block, st, i)" rule: fips_round.cases)
    (simp_all add: rotate_right_rotr message_words_nth Let_def)

lemma transform_fips: "transform st block = fips_compress st block"
proof -
  have "foldl (sha256_round (message_words block)) st [0..<64] = foldl (fips_round block) st [0..<64]"
    by (rule foldl_cong) (simp_all add: sha256_round_fips)
  then show ?thesis by (simp add: transform_def fips_compress_def Let_def)
qed

section \<open>The digest\<close>

lemma update_feed:
  assumes "length (sha_block c) < 64"
  shows "(sha_state (sha256_update c bs), sha_block (sha256_update c bs)) =
      foldl feed (sha_state c, sha_block c) bs"
    and "bit_count (sha256_update c bs) = bit_count c + of_nat (length bs) * 8"
    and "length (sha_block (sha256_update c bs)) < 64"
  using update_loop_feed[of "c\<lparr>bit_count := bit_count c + of_nat (length bs) * 8\<rparr>" bs] assms
  by (simp_all add: sha256_update_def)

lemma pad_bytes:
  assumes "r < 64"
  shows "take (if r < 56 then 56 - r else 120 - r) (x # replicate 127 y) =
    x # replicate ((119 - r) mod 64) y"
proof (cases "r < 56")
  case True
  then have "(119 - r) mod 64 = 55 - r" "56 - r = Suc (55 - r)" by (simp_all add: mod_if)
  with True show ?thesis by simp
next
  case False
  then have "(119 - r) mod 64 = 119 - r" "120 - r = Suc (119 - r)" using assms by simp_all
  with False show ?thesis by simp
qed

lemma length_sha256_pad: "length (sha256_pad m) mod 64 = 0"
proof -
  have "length (sha256_pad m) = length m + 9 + (119 - length m mod 64) mod 64"
    by (simp add: sha256_pad_def)
  moreover have "r < 64 \<Longrightarrow> (64 * q + r + 9 + (119 - r) mod 64) mod 64 = 0" for q r :: nat
    by (cases "r < 56") (auto simp: mod_if[of "119 - r"] mod_eq_0_iff_dvd)
  from this[of "length m mod 64" "length m div 64"]
  have "(length m + 9 + (119 - length m mod 64) mod 64) mod 64 = 0" by (simp add: mult.commute)
  ultimately show ?thesis by simp
qed

lemma sha256_matches_spec: "egress_sha256 m = sha256_spec m"
proof -
  define c1 where "c1 = sha256_update sha256_start m"
  define pad where "pad = (if length (sha_block c1) < 56 then 56 - length (sha_block c1)
    else 120 - length (sha_block c1))"
  define c2 where "c2 = sha256_update c1 (take pad (0x80 # replicate 127 0))"
  define len where "len = map (\<lambda>i. ucast (drop_bit (8 * (7 - i)) (bit_count c1)) :: byte) [0..<8]"
  define c3 where "c3 = sha256_update c2 len"
  have s: "length (sha_block sha256_start) < 64" by (simp add: sha256_start_def)
  note u1 = update_feed[OF s, of m, folded c1_def]
  note u2 = update_feed[OF u1(3), of "take pad (0x80 # replicate 127 0)", folded c2_def]
  note u3 = update_feed[OF u2(3), of len, folded c3_def]
  have rest: "length (sha_block c1) = length m mod 64"
    using feed_rest[OF s] u1(1) by (metis add_0 list.size(3) sha256_start_def snd_conv sha256_context.select_convs(3))
  have pad: "take pad (0x80 # replicate 127 0) =
      0x80 # replicate ((119 - length m mod 64) mod 64) (0 :: byte)"
    unfolding pad_def rest by (rule pad_bytes) simp
  moreover have "bit_count c1 = of_nat (8 * length m)"
    using u1(2) by (simp add: sha256_start_def)
  ultimately have pad: "m @ take pad (0x80 # replicate 127 0) @ len = sha256_pad m"
    by (simp add: sha256_pad_def len_def)
  have "(sha_state c3, sha_block c3) = foldl feed (sha_state sha256_start, []) (sha256_pad m)"
    using u1(1) u2(1) u3(1) unfolding pad[symmetric] by (simp add: sha256_start_def)
  then have "sha_state c3 = foldl transform (sha_state sha256_start) (blocks64 (sha256_pad m))"
    using feed_blocks[OF length_sha256_pad] by simp
  moreover have "egress_sha256 m = concat (map store_be32 (sha_state c3))"
    unfolding egress_sha256_def c3_def len_def c2_def pad_def c1_def Let_def by (rule refl)
  moreover have "transform = fips_compress" by (intro ext) (rule transform_fips)
  ultimately show ?thesis by (simp add: sha256_spec_def)
qed

text \<open>A hash is 32 bytes and its hexadecimal form 64 digits.\<close>

lemma length_sha256_round: "length st = 8 \<Longrightarrow> length (sha256_round w st i) = 8"
  by (cases "(w, st, i)" rule: sha256_round.cases) (auto simp: Let_def)

lemma length_transform: "length st = 8 \<Longrightarrow> length (transform st b) = 8"
proof -
  have "length (foldl (sha256_round w) st is) = 8" if "length st = 8" for w st "is"
    using that by (induction "is" arbitrary: st) (auto simp: length_sha256_round)
  then show "length st = 8 \<Longrightarrow> length (transform st b) = 8" by (simp add: transform_def Let_def)
qed

lemma length_egress_sha256 [simp]: "length (egress_sha256 m) = 32"
proof -
  have "length (foldl fips_compress st bs) = 8" if "length st = 8" for st bs
    using that by (induction bs arbitrary: st) (auto simp: length_transform[unfolded transform_fips])
  then have "length (foldl fips_compress (sha_state sha256_start) (blocks64 (sha256_pad m))) = 8"
    by (simp add: sha256_start_def)
  then show ?thesis
    by (simp add: sha256_matches_spec sha256_spec_def length_concat store_be32_def comp_def
        sum_list_triv)
qed

lemma length_hex_encode [simp]: "length (hex_encode bs) = 2 * length bs"
  by (induction bs) (simp_all add: hex_encode_def hex_pair_def)

lemma length_sha256_hex [simp]: "length (egress_sha256_hex m) = 64"
  by (simp add: egress_sha256_hex_def)

lemma length_hmac [simp]: "length (snd (egress_hmac_sha256 ok k d)) = 32"
  by (simp add: egress_hmac_sha256_def Let_def)

lemma sha256_hex_nonempty [simp]: "egress_sha256_hex m \<noteq> []"
  by (metis length_sha256_hex list.size(3) zero_neq_numeral)

section \<open>Properties\<close>

text \<open>
  C19: the streaming hash, which fills its 64-byte block piece by piece and pads in two more
  updates, is SHA-256 as FIPS 180-4 defines it: the padded message cut in blocks, each
  compressed with the schedule given by its recurrence. It returns 32 bytes for every input.
\<close>

theorem sha256_is_fips: "egress_sha256 m = sha256_spec m \<and> length (egress_sha256 m) = 32"
  by (simp add: sha256_matches_spec[symmetric])

text \<open>The example of FIPS 180-4, appendix B.1, which fixes the constants.\<close>

lemma sha256_abc:
  "egress_sha256_hex (cstr ''abc'') =
     cstr ''ba7816bf8f01cfea414140de5dae2223b00361a396177a9cb410ff61f20015ad''"
  by code_simp

end
