(* ===== verification/Egress_Policy.thy ===== *)
theory Egress_Policy
  imports Egress_Host Egress_Sha256 "HOL-Library.Product_Lexorder"
begin

text \<open>
  \<^verbatim>\<open>src/src/core/policy.c\<close>: the set of allowed destinations, mutable until it is sealed.
  Sealing sorts the destinations, resolves and pins their addresses and digests the result.

  \<open>getaddrinfo\<close> is a parameter: a resolver takes a host and a port and returns the list of
  addresses, or None when the lookup fails. The outcomes of \<open>realloc\<close>, \<open>strdup\<close> and \<open>malloc\<close>
  are boolean arguments. \<open>qsort\<close> sorts by the key its comparison function orders; which of
  two equal keys comes first is not specified by C, and no two destinations of a policy
  have equal keys.
\<close>

section \<open>The model\<close>

definition EGRESS_MAX_DESTINATIONS :: nat where
  "EGRESS_MAX_DESTINATIONS = 256"

definition EGRESS_MAX_PINNED_ADDRESSES :: nat where
  "EGRESS_MAX_PINNED_ADDRESSES = 16"

definition AF_INET :: nat where
  "AF_INET = 2"

definition AF_INET6 :: nat where
  "AF_INET6 = 10"

fun sa_family :: "sockaddr \<Rightarrow> nat" where
  "sa_family (Sockaddr_in _ _) = AF_INET"
| "sa_family (Sockaddr_in6 _ _ _ _) = AF_INET6"
| "sa_family (Sockaddr_other f) = f"

record egress_address =
  addr_storage :: sockaddr
  addr_length :: nat

record addrinfo =
  ai_family :: nat
  ai_addrlen :: nat
  ai_addr :: sockaddr

type_synonym resolver = "bytes \<Rightarrow> u16 \<Rightarrow> addrinfo list option"

record egress_destination =
  dest_host :: bytes
  dest_port :: u16
  allow_private :: bool
  require_tls_sni :: bool
  addresses :: "egress_address list"

record egress_policy =
  destinations :: "egress_destination list"
  pol_capacity :: nat
  sealed :: bool
  digest_hex :: bytes

definition maelys_egress_policy_create :: "bool \<Rightarrow> egress_result \<times> egress_policy option" where
  "maelys_egress_policy_create alloc_ok =
     (if \<not> alloc_ok then (ERR_MEMORY, None)
      else (EGRESS_OK, Some \<lparr>destinations = [], pol_capacity = 0, sealed = False, digest_hex = []\<rparr>))"

definition dest_matches :: "bytes \<Rightarrow> u16 \<Rightarrow> egress_destination \<Rightarrow> bool" where
  "dest_matches host port d \<longleftrightarrow> dest_port d = port \<and> dest_host d = host"

fun find_index :: "('a \<Rightarrow> bool) \<Rightarrow> 'a list \<Rightarrow> nat option" where
  "find_index P [] = None"
| "find_index P (x # xs) = (if P x then Some 0 else map_option Suc (find_index P xs))"

definition find_mutable_destination :: "egress_policy \<Rightarrow> bytes \<Rightarrow> u16 \<Rightarrow> nat option" where
  "find_mutable_destination policy host port =
     (if sealed policy then None else find_index (dest_matches host port) (destinations policy))"

definition numeric_host :: "bytes \<Rightarrow> bool" where
  "numeric_host host \<longleftrightarrow> inet_pton4 host \<noteq> None \<or> inet_pton6 host \<noteq> None"

definition maelys_egress_policy_require_tls_sni ::
  "egress_policy \<Rightarrow> bytes option \<Rightarrow> u16 \<Rightarrow> egress_result \<times> egress_policy" where
  "maelys_egress_policy_require_tls_sni policy canonical_host port =
     (if sealed policy \<or> canonical_host = None \<or> port = 0 then (ERR_ARGUMENT, policy)
      else case egress_canonical_host canonical_host of
             None \<Rightarrow> (ERR_ARGUMENT, policy)
           | Some host \<Rightarrow>
               if numeric_host host then (ERR_ARGUMENT, policy)
               else case find_mutable_destination policy host port of
                      None \<Rightarrow> (ERR_ARGUMENT, policy)
                    | Some i \<Rightarrow>
                        (EGRESS_OK, policy\<lparr>destinations :=
                           (destinations policy)[i := (destinations policy ! i)\<lparr>require_tls_sni := True\<rparr>]\<rparr>))"

definition maelys_egress_policy_allow_tcp ::
  "bool \<Rightarrow> bool \<Rightarrow> egress_policy \<Rightarrow> bytes option \<Rightarrow> u16 \<Rightarrow> bool \<Rightarrow> egress_result \<times> egress_policy" where
  "maelys_egress_policy_allow_tcp realloc_ok strdup_ok policy canonical_host port allow_private_addresses =
     (if sealed policy \<or> canonical_host = None \<or> port = 0 then (ERR_ARGUMENT, policy)
      else case egress_canonical_host canonical_host of
             None \<Rightarrow> (ERR_ARGUMENT, policy)
           | Some host \<Rightarrow>
               if list_ex (dest_matches host port) (destinations policy) then (ERR_ARGUMENT, policy)
               else if EGRESS_MAX_DESTINATIONS \<le> length (destinations policy) then (ERR_ARGUMENT, policy)
               else if length (destinations policy) = pol_capacity policy \<and> \<not> realloc_ok
                 then (ERR_MEMORY, policy)
               else
                 let policy = (if length (destinations policy) = pol_capacity policy
                               then policy\<lparr>pol_capacity :=
                                 (if pol_capacity policy \<noteq> 0 then pol_capacity policy * 2 else 8)\<rparr>
                               else policy)
                 in if \<not> strdup_ok then (ERR_MEMORY, policy)
                    else (EGRESS_OK, policy\<lparr>destinations := destinations policy @
                      [\<lparr>dest_host = host, dest_port = port, allow_private = allow_private_addresses,
                        require_tls_sni = False, addresses = []\<rparr>]\<rparr>))"

text \<open>
  \<open>memcmp\<close> over the bytes of the two structures; \<open>getaddrinfo\<close> fills every byte of them, the
  padding of \<open>sockaddr_in\<close> with zeros.
\<close>

definition address_equal :: "egress_address \<Rightarrow> egress_address \<Rightarrow> bool" where
  "address_equal left right \<longleftrightarrow>
     addr_length left = addr_length right \<and> addr_storage left = addr_storage right"

fun address_value :: "sockaddr \<Rightarrow> nat" where
  "address_value (Sockaddr_in _ a) = unat a"
| "address_value (Sockaddr_in6 _ _ a _) = unat a"
| "address_value (Sockaddr_other _) = 0"

text \<open>The key \<open>address_compare\<close> orders: the family, then the bytes of the address.\<close>

definition address_key :: "egress_address \<Rightarrow> nat \<times> nat" where
  "address_key a = (sa_family (addr_storage a), address_value (addr_storage a))"

fun pin_addresses ::
  "egress_destination \<Rightarrow> addrinfo list \<Rightarrow> egress_result \<times> egress_destination" where
  "pin_addresses destination [] = (EGRESS_OK, destination)"
| "pin_addresses destination (address # rest) =
     (if 128 < ai_addrlen address \<or> (ai_family address \<noteq> AF_INET \<and> ai_family address \<noteq> AF_INET6)
      then pin_addresses destination rest
      else if \<not> allow_private destination \<and> egress_address_is_private (Some (ai_addr address))
      then (ERR_DENIED, destination)
      else
        let candidate = \<lparr>addr_storage = ai_addr address, addr_length = ai_addrlen address\<rparr> in
        if list_ex (address_equal candidate) (addresses destination)
        then pin_addresses destination rest
        else if EGRESS_MAX_PINNED_ADDRESSES \<le> length (addresses destination)
        then (ERR_ARGUMENT, destination)
        else pin_addresses (destination\<lparr>addresses := addresses destination @ [candidate]\<rparr>) rest)"

definition resolve_destination ::
  "resolver \<Rightarrow> egress_destination \<Rightarrow> egress_result \<times> egress_destination" where
  "resolve_destination getaddrinfo destination =
     (case getaddrinfo (dest_host destination) (dest_port destination) of
        None \<Rightarrow> (ERR_IO, destination)
      | Some infos \<Rightarrow>
          (case pin_addresses destination infos of
             (EGRESS_OK, d) \<Rightarrow>
               let d = d\<lparr>addresses := sort_key address_key (addresses d)\<rparr>
               in if addresses d = [] then (ERR_IO, d) else (EGRESS_OK, d)
           | (r, d) \<Rightarrow> (r, d)))"

text \<open>The key \<open>destination_compare\<close> orders: the host as \<open>strcmp\<close> does, then the port.\<close>

definition destination_key :: "egress_destination \<Rightarrow> bytes \<times> nat" where
  "destination_key d = (dest_host d, unat (dest_port d))"

definition flag_digit :: "bool \<Rightarrow> bytes" where
  "flag_digit b = (if b then cstr ''1'' else cstr ''0'')"

definition destination_line :: "egress_destination \<Rightarrow> bytes" where
  "destination_line d =
     cstr ''tcp'' @ [9] @ dest_host d @ [9] @ dec (unat (dest_port d)) @ [9] @
     flag_digit (allow_private d) @ [9] @ flag_digit (require_tls_sni d) @ [10]"

fun address_line :: "sockaddr \<Rightarrow> bytes option" where
  "address_line (Sockaddr_in _ a) =
     Some (cstr ''addr'' @ [9] @ cstr ''4'' @ [9] @
       inet_ntop4 (octet4 a 0) (octet4 a 1) (octet4 a 2) (octet4 a 3) @ [10])"
| "address_line (Sockaddr_in6 _ _ a _) =
     Some (cstr ''addr'' @ [9] @ cstr ''6'' @ [9] @ inet_ntop6 a @ [10])"
| "address_line (Sockaddr_other _) = None"

text \<open>\<open>snprintf\<close> into what is left of the buffer: None when the text does not fit.\<close>

definition print_bounded :: "nat \<Rightarrow> bytes \<Rightarrow> bytes \<Rightarrow> bytes option" where
  "print_bounded capacity used written =
     (if capacity - length used \<le> length written then None else Some (used @ written))"

fun digest_addresses :: "nat \<Rightarrow> bytes \<Rightarrow> egress_address list \<Rightarrow> bytes option" where
  "digest_addresses capacity used [] = Some used"
| "digest_addresses capacity used (a # rest) =
     (case address_line (addr_storage a) of
        None \<Rightarrow> None
      | Some line \<Rightarrow>
          (case print_bounded capacity used line of
             None \<Rightarrow> None
           | Some used \<Rightarrow> digest_addresses capacity used rest))"

fun digest_destinations :: "nat \<Rightarrow> bytes \<Rightarrow> egress_destination list \<Rightarrow> bytes option" where
  "digest_destinations capacity used [] = Some used"
| "digest_destinations capacity used (d # rest) =
     (case print_bounded capacity used (destination_line d) of
        None \<Rightarrow> None
      | Some used \<Rightarrow>
          (case digest_addresses capacity used (addresses d) of
             None \<Rightarrow> None
           | Some used \<Rightarrow> digest_destinations capacity used rest))"

definition digest_capacity :: "egress_destination list \<Rightarrow> nat" where
  "digest_capacity ds =
     16 + sum_list (map (\<lambda>d. length (dest_host d) + 32 + length (addresses d) * (46 + 16)) ds)"

definition egress_policy_compute_digest :: "bool \<Rightarrow> egress_policy \<Rightarrow> egress_policy" where
  "egress_policy_compute_digest alloc_ok policy =
     (if \<not> alloc_ok then policy\<lparr>digest_hex := []\<rparr>
      else case digest_destinations (digest_capacity (destinations policy)) [] (destinations policy) of
             None \<Rightarrow> policy\<lparr>digest_hex := []\<rparr>
           | Some canonical \<Rightarrow> policy\<lparr>digest_hex := egress_sha256_hex canonical\<rparr>)"

fun resolve_all ::
  "resolver \<Rightarrow> egress_destination list \<Rightarrow> egress_result \<times> egress_destination list" where
  "resolve_all getaddrinfo [] = (EGRESS_OK, [])"
| "resolve_all getaddrinfo (d # rest) =
     (case resolve_destination getaddrinfo d of
        (EGRESS_OK, d') \<Rightarrow> (case resolve_all getaddrinfo rest of (r, rest') \<Rightarrow> (r, d' # rest'))
      | (r, d') \<Rightarrow> (r, d' # rest))"

definition maelys_egress_policy_seal ::
  "resolver \<Rightarrow> bool \<Rightarrow> egress_policy \<Rightarrow> egress_result \<times> egress_policy" where
  "maelys_egress_policy_seal getaddrinfo alloc_ok policy =
     (if sealed policy \<or> destinations policy = [] then (ERR_ARGUMENT, policy)
      else
        case resolve_all getaddrinfo (sort_key destination_key (destinations policy)) of
          (EGRESS_OK, ds) \<Rightarrow>
            let policy = egress_policy_compute_digest alloc_ok (policy\<lparr>destinations := ds\<rparr>)
            in if digest_hex policy = [] then (ERR_MEMORY, policy)
               else (EGRESS_OK, policy\<lparr>sealed := True\<rparr>)
        | (r, ds) \<Rightarrow> (r, policy\<lparr>destinations := ds\<rparr>))"

text \<open>
  The copying loop of \<open>maelys_egress_policy_reseal\<close>; \<open>mem i\<close> are the outcomes of \<open>realloc\<close> and
  \<open>strdup\<close> for the \<open>i\<close>-th destination.
\<close>

fun reseal_copy ::
  "(nat \<Rightarrow> bool \<times> bool) \<Rightarrow> nat \<Rightarrow> egress_policy \<Rightarrow> egress_destination list \<Rightarrow> egress_result \<times> egress_policy" where
  "reseal_copy mem i copy [] = (EGRESS_OK, copy)"
| "reseal_copy mem i copy (d # rest) =
     (case maelys_egress_policy_allow_tcp (fst (mem i)) (snd (mem i)) copy (Some (dest_host d))
             (dest_port d) (allow_private d) of
        (EGRESS_OK, copy) \<Rightarrow>
          if require_tls_sni d then
            (case maelys_egress_policy_require_tls_sni copy (Some (dest_host d)) (dest_port d) of
               (EGRESS_OK, copy) \<Rightarrow> reseal_copy mem (Suc i) copy rest
             | (r, copy) \<Rightarrow> (r, copy))
          else reseal_copy mem (Suc i) copy rest
      | (r, copy) \<Rightarrow> (r, copy))"

definition maelys_egress_policy_reseal ::
  "resolver \<Rightarrow> bool \<Rightarrow> (nat \<Rightarrow> bool \<times> bool) \<Rightarrow> bool \<Rightarrow> egress_policy \<Rightarrow> egress_result \<times> egress_policy option" where
  "maelys_egress_policy_reseal getaddrinfo create_ok mem alloc_ok source =
     (if \<not> sealed source then (ERR_ARGUMENT, None)
      else case maelys_egress_policy_create create_ok of
             (r, None) \<Rightarrow> (r, None)
           | (r, Some copy) \<Rightarrow>
               (case reseal_copy mem 0 copy (destinations source) of
                  (EGRESS_OK, copy) \<Rightarrow>
                    (case maelys_egress_policy_seal getaddrinfo alloc_ok copy of
                       (EGRESS_OK, copy) \<Rightarrow> (EGRESS_OK, Some copy)
                     | (r, _) \<Rightarrow> (r, None))
                | (r, _) \<Rightarrow> (r, None)))"

definition maelys_egress_policy_is_sealed :: "egress_policy option \<Rightarrow> bool" where
  "maelys_egress_policy_is_sealed policy = (case policy of None \<Rightarrow> False | Some p \<Rightarrow> sealed p)"

definition maelys_egress_policy_digest_hex :: "egress_policy option \<Rightarrow> bytes option" where
  "maelys_egress_policy_digest_hex policy =
     (case policy of None \<Rightarrow> None | Some p \<Rightarrow> if sealed p then Some (digest_hex p) else None)"

fun find_sorted :: "egress_destination list \<Rightarrow> bytes \<Rightarrow> u16 \<Rightarrow> egress_destination option" where
  "find_sorted [] host port = None"
| "find_sorted (d # rest) host port =
     (if host = dest_host d \<and> port = dest_port d then Some d
      else if host < dest_host d then None
      else find_sorted rest host port)"

definition egress_policy_find :: "egress_policy \<Rightarrow> bytes option \<Rightarrow> u16 \<Rightarrow> egress_destination option" where
  "egress_policy_find policy host_arg port =
     (case host_arg of
        None \<Rightarrow> None
      | Some host \<Rightarrow>
          if \<not> sealed policy \<or> port = 0 then None else find_sorted (destinations policy) host port)"

section \<open>The invariant\<close>

definition destination_ok :: "egress_destination \<Rightarrow> bool" where
  "destination_ok d \<longleftrightarrow>
     egress_canonical_host (Some (dest_host d)) = Some (dest_host d) \<and> dest_port d \<noteq> 0 \<and>
     length (addresses d) \<le> EGRESS_MAX_PINNED_ADDRESSES \<and>
     (\<not> allow_private d \<longrightarrow>
        list_all (\<lambda>a. \<not> egress_address_is_private (Some (addr_storage a))) (addresses d)) \<and>
     (require_tls_sni d \<longrightarrow> \<not> numeric_host (dest_host d))"

text \<open>The canonical text a digest is the hash of.\<close>

definition destination_text :: "egress_destination \<Rightarrow> bytes" where
  "destination_text d =
     destination_line d @ concat (map (\<lambda>a. the (address_line (addr_storage a))) (addresses d))"

definition policy_text :: "egress_destination list \<Rightarrow> bytes" where
  "policy_text ds = concat (map destination_text ds)"

text \<open>Every pinned address is of one of the two internet families.\<close>

definition inet_only :: "egress_destination \<Rightarrow> bool" where
  "inet_only d \<longleftrightarrow> list_all (\<lambda>a. address_line (addr_storage a) \<noteq> None) (addresses d)"

definition sealed_ok :: "egress_policy \<Rightarrow> bool" where
  "sealed_ok p \<longleftrightarrow>
     destinations p \<noteq> [] \<and> sorted (map destination_key (destinations p)) \<and>
     list_all (\<lambda>d. addresses d \<noteq> []) (destinations p) \<and> list_all inet_only (destinations p) \<and>
     digest_hex p = egress_sha256_hex (policy_text (destinations p))"

definition policy_inv :: "egress_policy \<Rightarrow> bool" where
  "policy_inv p \<longleftrightarrow>
     list_all destination_ok (destinations p) \<and> distinct (map destination_key (destinations p)) \<and>
     length (destinations p) \<le> EGRESS_MAX_DESTINATIONS \<and>
     length (destinations p) \<le> pol_capacity p \<and> (sealed p \<longrightarrow> sealed_ok p)"

lemma destination_key_eq: "destination_key d = (h, unat q) \<longleftrightarrow> dest_matches h q d"
  by (auto simp: destination_key_def dest_matches_def word_unat_eq_iff)

lemma find_index_Some:
  "find_index P xs = Some i \<longleftrightarrow> i < length xs \<and> P (xs ! i) \<and> (\<forall>j < i. \<not> P (xs ! j))"
proof (induction xs arbitrary: i)
  case (Cons x xs)
  then show ?case by (cases i) (auto simp: less_Suc_eq_0_disj)
qed simp

lemma find_index_None: "find_index P xs = None \<longleftrightarrow> \<not> list_ex P xs"
  by (induction xs) auto

subsection \<open>Mutation\<close>

lemma create_inv: "maelys_egress_policy_create ok = (r, Some p) \<Longrightarrow> policy_inv p \<and> \<not> sealed p"
  by (auto simp: maelys_egress_policy_create_def policy_inv_def split: if_splits)

lemma allow_tcp_inv:
  assumes "policy_inv p" "maelys_egress_policy_allow_tcp ra sd p h q ap = (r, p')"
  shows "policy_inv p'"
proof -
  have "destination_ok \<lparr>dest_host = hh, dest_port = q, allow_private = ap, require_tls_sni = False,
      addresses = []\<rparr>" if "egress_canonical_host h = Some hh" "q \<noteq> 0" for hh
    using that canonical_host_fixpoint[of h hh] by (simp add: destination_ok_def)
  moreover have "(hh, unat q) \<notin> destination_key ` set (destinations p)"
    if "\<not> list_ex (dest_matches hh q) (destinations p)" for hh
    using that by (auto simp: list_ex_iff destination_key_def dest_matches_def word_unat_eq_iff)
  ultimately show ?thesis
    using assms
    by (auto simp: maelys_egress_policy_allow_tcp_def policy_inv_def Let_def destination_key_def
        split: if_splits option.splits)
qed

lemma map_update_key: "i < length xs \<Longrightarrow> f y = f (xs ! i) \<Longrightarrow> map f (xs[i := y]) = map f xs"
  by (metis list_update_id map_update)

lemma list_all_update: "list_all P xs \<Longrightarrow> P y \<Longrightarrow> list_all P (xs[i := y])"
  by (auto simp: list_all_iff dest: set_update_subset_insert[THEN subsetD])

lemma require_tls_sni_inv:
  assumes "policy_inv p" "maelys_egress_policy_require_tls_sni p h q = (r, p')"
  shows "policy_inv p'"
proof -
  have "destination_ok ((destinations p ! i)\<lparr>require_tls_sni := True\<rparr>) \<and>
      map destination_key ((destinations p)[i := (destinations p ! i)\<lparr>require_tls_sni := True\<rparr>]) =
      map destination_key (destinations p)"
    if "find_mutable_destination p hh q = Some i" "\<not> numeric_host hh" for hh i
  proof -
    from that have i: "i < length (destinations p)" "dest_host (destinations p ! i) = hh"
      by (auto simp: find_mutable_destination_def find_index_Some dest_matches_def split: if_splits)
    with assms(1) have "destination_ok (destinations p ! i)"
      by (simp add: policy_inv_def list_all_length)
    with i that show ?thesis
      by (auto simp: destination_ok_def destination_key_def intro!: map_update_key)
  qed
  then show ?thesis
    using assms
    by (auto simp: maelys_egress_policy_require_tls_sni_def policy_inv_def list_all_update
        split: if_splits option.splits)
qed

subsection \<open>Sealing\<close>

lemma pin_addresses_ok:
  "pin_addresses d infos = (r, d') \<Longrightarrow> destination_ok d \<Longrightarrow>
   destination_ok d' \<and> destination_key d' = destination_key d \<and>
   allow_private d' = allow_private d \<and> require_tls_sni d' = require_tls_sni d"
proof (induction d infos rule: pin_addresses.induct)
  case (2 d a rest)
  then show ?case
    by (auto simp: Let_def destination_ok_def destination_key_def split: if_splits)
qed (auto)

lemma resolve_destination_ok:
  assumes "resolve_destination ga d = (r, d')" "destination_ok d"
  shows "destination_ok d' \<and> destination_key d' = destination_key d \<and>
    allow_private d' = allow_private d \<and> require_tls_sni d' = require_tls_sni d \<and>
    (r = EGRESS_OK \<longrightarrow> addresses d' \<noteq> [])"
proof (cases "ga (dest_host d) (dest_port d)")
  case None
  with assms show ?thesis by (auto simp: resolve_destination_def)
next
  case (Some infos)
  obtain r1 d1 where p: "pin_addresses d infos = (r1, d1)" by (cases "pin_addresses d infos")
  note ok = pin_addresses_ok[OF p assms(2)]
  then have "destination_ok (d1\<lparr>addresses := sort_key address_key (addresses d1)\<rparr>)"
    by (simp add: destination_ok_def list_all_iff)
  with ok Some p assms show ?thesis
    by (cases r1) (auto simp: resolve_destination_def Let_def destination_key_def split: if_splits)
qed

definition same_rules :: "egress_destination \<Rightarrow> egress_destination \<Rightarrow> bool" where
  "same_rules d e \<longleftrightarrow> destination_key d = destination_key e \<and>
     allow_private d = allow_private e \<and> require_tls_sni d = require_tls_sni e"

lemma resolve_all_ok:
  "resolve_all ga ds = (r, ds') \<Longrightarrow> list_all destination_ok ds \<Longrightarrow>
   list_all destination_ok ds' \<and> list_all2 same_rules ds' ds \<and>
   (r = EGRESS_OK \<longrightarrow> list_all (\<lambda>d. addresses d \<noteq> []) ds')"
proof (induction ds arbitrary: r ds')
  case (Cons d ds)
  obtain r1 d1 where d: "resolve_destination ga d = (r1, d1)" by (cases "resolve_destination ga d")
  obtain r2 ds2 where ds: "resolve_all ga ds = (r2, ds2)" by (cases "resolve_all ga ds")
  have ok: "destination_ok d1" "same_rules d1 d" "r1 = EGRESS_OK \<Longrightarrow> addresses d1 \<noteq> []"
    using resolve_destination_ok[OF d] Cons.prems(2) by (auto simp: same_rules_def)
  have "list_all2 same_rules ds ds" by (simp add: list_all2_refl same_rules_def)
  with Cons.IH[OF ds] Cons.prems ok d ds show ?case by (cases r1) auto
qed simp

lemma same_rules_keys: "list_all2 same_rules xs ys \<Longrightarrow> map destination_key xs = map destination_key ys"
  by (induction rule: list_all2_induct) (auto simp: same_rules_def)

lemma digest_addresses_text:
  "digest_addresses c u as = Some t \<Longrightarrow>
   t = u @ concat (map (\<lambda>a. the (address_line (addr_storage a))) as) \<and>
   list_all (\<lambda>a. address_line (addr_storage a) \<noteq> None) as"
proof (induction as arbitrary: u)
  case (Cons a as)
  then obtain l where "address_line (addr_storage a) = Some l" "digest_addresses c (u @ l) as = Some t"
    by (auto simp: print_bounded_def split: option.splits if_splits)
  with Cons.IH[of "u @ l"] show ?case by simp
qed simp

lemma digest_destinations_text:
  "digest_destinations c u ds = Some t \<Longrightarrow> t = u @ policy_text ds \<and> list_all inet_only ds"
proof (induction ds arbitrary: u)
  case (Cons d ds)
  then obtain v where v: "digest_addresses c (u @ destination_line d) (addresses d) = Some v"
    "digest_destinations c v ds = Some t"
    by (auto simp: print_bounded_def split: option.splits if_splits)
  with Cons.IH[of v] digest_addresses_text[OF v(1)] show ?case
    by (simp add: policy_text_def destination_text_def inet_only_def)
qed (simp add: policy_text_def)

lemma compute_digest_text:
  assumes "egress_policy_compute_digest ok p = p'" "digest_hex p' \<noteq> []"
  shows "digest_hex p' = egress_sha256_hex (policy_text (destinations p)) \<and>
    list_all inet_only (destinations p)"
  using assms by (auto simp: egress_policy_compute_digest_def split: if_splits option.splits
      dest: digest_destinations_text)

lemma compute_digest_fields [simp]:
  "destinations (egress_policy_compute_digest ok p) = destinations p"
  "sealed (egress_policy_compute_digest ok p) = sealed p"
  "pol_capacity (egress_policy_compute_digest ok p) = pol_capacity p"
  by (auto simp: egress_policy_compute_digest_def split: option.splits)

lemma seal_inv:
  assumes inv: "policy_inv p" and seal: "maelys_egress_policy_seal ga ok p = (r, p')"
  shows "policy_inv p'"
proof (cases "sealed p \<or> destinations p = []")
  case True
  with assms show ?thesis by (auto simp: maelys_egress_policy_seal_def)
next
  case False
  define ds where "ds = sort_key destination_key (destinations p)"
  obtain r1 ds1 where all: "resolve_all ga ds = (r1, ds1)" by (cases "resolve_all ga ds")
  have "list_all destination_ok ds" using inv by (simp add: ds_def policy_inv_def list_all_iff)
  note ok = resolve_all_ok[OF all this]
  then have keys: "map destination_key ds1 = map destination_key ds" by (blast intro: same_rules_keys)
  then have len: "length ds1 = length (destinations p)" by (metis ds_def length_map length_sort)
  have "distinct (map destination_key ds)" using inv
    by (simp add: ds_def policy_inv_def distinct_map inj_on_def)
  moreover have "sorted (map destination_key ds)" by (simp add: ds_def)
  moreover have "ds1 \<noteq> []" using False len by auto
  ultimately show ?thesis
    using False inv seal all ok keys len compute_digest_text[OF refl, of ok "p\<lparr>destinations := ds1\<rparr>"]
    by (cases r1) (auto simp: maelys_egress_policy_seal_def policy_inv_def sealed_ok_def Let_def ds_def
        split: if_splits)
qed

section \<open>Lookup\<close>

text \<open>
  The loop of \<open>egress_policy_find\<close> stops at the first host past the one looked for; on
  sorted destinations nothing is missed.
\<close>

lemma find_sorted_Some:
  "sorted (map destination_key ds) \<Longrightarrow> distinct (map destination_key ds) \<Longrightarrow>
   find_sorted ds h q = Some d \<longleftrightarrow> d \<in> set ds \<and> dest_host d = h \<and> dest_port d = q"
proof (induction ds)
  case (Cons e ds)
  have above: "dest_host e \<le> dest_host x" if "x \<in> set ds" for x
    using that Cons.prems(1) by (auto simp: destination_key_def less_eq_prod_def)
  have other: "destination_key x \<noteq> destination_key e" if "x \<in> set ds" for x
    using that Cons.prems(2) by (auto simp: image_iff)
  consider "h = dest_host e" "q = dest_port e" | "h < dest_host e"
    | "\<not> (h = dest_host e \<and> q = dest_port e)" "\<not> h < dest_host e" by blast
  then show ?case
  proof cases
    case 1
    then have "d \<in> set ds \<Longrightarrow> \<not> (dest_host d = h \<and> dest_port d = q)"
      using other[of d] by (auto simp: destination_key_def)
    with 1 show ?thesis by auto
  next
    case 2
    then show ?thesis using above by (auto simp: not_less[symmetric])
  next
    case 3
    then have "find_sorted (e # ds) h q = find_sorted ds h q" by auto
    with Cons 3 show ?thesis by auto
  qed
qed simp

lemma policy_find_Some:
  assumes "policy_inv p"
  shows "egress_policy_find p (Some h) q = Some d \<longleftrightarrow>
    sealed p \<and> d \<in> set (destinations p) \<and> dest_host d = h \<and> dest_port d = q"
  using assms find_sorted_Some[of "destinations p" h q d]
  by (auto simp: egress_policy_find_def policy_inv_def sealed_ok_def destination_ok_def list_all_iff)

lemma policy_find_ok:
  assumes "policy_inv p" "egress_policy_find p h q = Some d"
  shows "destination_ok d" "addresses d \<noteq> []" "h = Some (dest_host d)" "dest_port d = q"
proof -
  from assms(2) obtain hh where h: "h = Some hh" by (cases h) (auto simp: egress_policy_find_def)
  with assms policy_find_Some[OF assms(1), of hh q d]
  show "destination_ok d" "addresses d \<noteq> []" "h = Some (dest_host d)" "dest_port d = q"
    by (auto simp: policy_inv_def sealed_ok_def list_all_iff)
qed

section \<open>Every history of a policy\<close>

datatype policy_op =
    Op_allow bool bool "bytes option" u16 bool
  | Op_require_sni "bytes option" u16
  | Op_seal resolver bool

fun policy_exec :: "egress_policy \<Rightarrow> policy_op \<Rightarrow> egress_policy" where
  "policy_exec p (Op_allow ra sd h q ap) = snd (maelys_egress_policy_allow_tcp ra sd p h q ap)"
| "policy_exec p (Op_require_sni h q) = snd (maelys_egress_policy_require_tls_sni p h q)"
| "policy_exec p (Op_seal ga ok) = snd (maelys_egress_policy_seal ga ok p)"

definition empty_policy :: egress_policy where
  "empty_policy = \<lparr>destinations = [], pol_capacity = 0, sealed = False, digest_hex = []\<rparr>"

lemma policy_exec_inv: "policy_inv p \<Longrightarrow> policy_inv (policy_exec p op)"
  by (cases op)
    (auto intro: allow_tcp_inv require_tls_sni_inv seal_inv simp: prod_eq_iff)

lemma policy_history_inv: "policy_inv p \<Longrightarrow> policy_inv (foldl policy_exec p ops)"
  by (induction ops arbitrary: p) (auto simp: policy_exec_inv)

lemma policy_exec_sealed: "sealed p \<Longrightarrow> policy_exec p op = p"
  by (cases op)
    (auto simp: maelys_egress_policy_allow_tcp_def maelys_egress_policy_require_tls_sni_def
      maelys_egress_policy_seal_def)

lemma policy_history_sealed: "sealed p \<Longrightarrow> foldl policy_exec p ops = p"
  by (induction ops) (auto simp: policy_exec_sealed)

section \<open>Resealing\<close>

lemma allow_tcp_OK:
  assumes "maelys_egress_policy_allow_tcp ra sd p (Some h) q ap = (EGRESS_OK, p')"
    and "egress_canonical_host (Some h) = Some h"
  shows "destinations p' = destinations p @
      [\<lparr>dest_host = h, dest_port = q, allow_private = ap, require_tls_sni = False, addresses = []\<rparr>]"
    and "sealed p' = sealed p" and "\<not> list_ex (dest_matches h q) (destinations p)"
  using assms
  by (auto simp: maelys_egress_policy_allow_tcp_def Let_def split: if_splits)

lemma require_tls_sni_OK:
  assumes "maelys_egress_policy_require_tls_sni p (Some h) q = (EGRESS_OK, p')"
    and "egress_canonical_host (Some h) = Some h" "destinations p = ds @ [d]"
    and "\<not> list_ex (dest_matches h q) ds" "dest_matches h q d"
  shows "destinations p' = ds @ [d\<lparr>require_tls_sni := True\<rparr>]" "sealed p' = sealed p"
proof -
  have "find_index (dest_matches h q) (ds @ [d]) = Some (length ds)"
    using assms(4,5) by (auto simp: find_index_Some nth_append list_ex_length)
  then show "destinations p' = ds @ [d\<lparr>require_tls_sni := True\<rparr>]" "sealed p' = sealed p"
    using assms by (auto simp: maelys_egress_policy_require_tls_sni_def find_mutable_destination_def
        split: if_splits)
qed

lemma reseal_copy_rules:
  "reseal_copy mem i p ds = (EGRESS_OK, p') \<Longrightarrow> list_all destination_ok ds \<Longrightarrow>
   \<exists>es. destinations p' = destinations p @ es \<and> list_all2 same_rules es ds \<and> sealed p' = sealed p"
proof (induction mem i p ds rule: reseal_copy.induct)
  case (2 mem i p d ds)
  let ?d = "\<lparr>dest_host = dest_host d, dest_port = dest_port d, allow_private = allow_private d,
    require_tls_sni = False, addresses = []\<rparr>"
  have host: "egress_canonical_host (Some (dest_host d)) = Some (dest_host d)"
    and ok: "list_all destination_ok ds"
    using 2(4) destination_ok_def[of d] by simp_all
  obtain r1 p1 where a: "maelys_egress_policy_allow_tcp (fst (mem i)) (snd (mem i)) p
      (Some (dest_host d)) (dest_port d) (allow_private d) = (r1, p1)" by fastforce
  with 2(3) have r1: "r1 = EGRESS_OK" by (cases r1) auto
  note p1 = allow_tcp_OK[OF a[unfolded r1] host]
  have rules: "same_rules (?d\<lparr>require_tls_sni := require_tls_sni d\<rparr>) d"
    by (simp add: same_rules_def destination_key_def)
  show ?case
  proof (cases "require_tls_sni d")
    case False
    then obtain es where "destinations p' = destinations p1 @ es" "list_all2 same_rules es ds"
      "sealed p' = sealed p1"
      using 2(2)[OF a[symmetric] r1 _ _ ok] 2(3) a r1 by (auto split: if_splits)
    then show ?thesis using p1 False rules by (intro exI[of _ "?d # es"]) auto
  next
    case True
    obtain r2 p2 where b: "maelys_egress_policy_require_tls_sni p1 (Some (dest_host d)) (dest_port d) =
        (r2, p2)" by fastforce
    with 2(3) a r1 True have r2: "r2 = EGRESS_OK" by (cases r2) auto
    have p2: "destinations p2 = destinations p @ [?d\<lparr>require_tls_sni := True\<rparr>]" "sealed p2 = sealed p1"
      using require_tls_sni_OK[OF b[unfolded r2] host p1(1,3)] by (simp_all add: dest_matches_def)
    obtain es where "destinations p' = destinations p2 @ es" "list_all2 same_rules es ds"
      "sealed p' = sealed p2"
      using 2(1)[OF a[symmetric] r1 True b[symmetric] r2 _ ok] 2(3) a r1 b r2 True by auto
    then show ?thesis using p1 p2 True rules
      by (intro exI[of _ "?d\<lparr>require_tls_sni := True\<rparr> # es"]) auto
  qed
qed simp

lemma sort_key_sorted_id: "sorted (map f xs) \<Longrightarrow> sort_key f xs = xs"
  by (induction xs) (auto intro: insort_is_Cons)

lemma same_rules_trans: "list_all2 same_rules xs ys \<Longrightarrow> list_all2 same_rules ys zs \<Longrightarrow> list_all2 same_rules xs zs"
  by (erule (1) list_all2_trans[rotated]) (auto simp: same_rules_def)

lemma seal_OK_rules:
  assumes "policy_inv p" "maelys_egress_policy_seal ga ok p = (EGRESS_OK, p')"
  shows "sealed p'" "list_all2 same_rules (destinations p') (sort_key destination_key (destinations p))"
proof -
  obtain r ds where all: "resolve_all ga (sort_key destination_key (destinations p)) = (r, ds)"
    by fastforce
  have "list_all destination_ok (sort_key destination_key (destinations p))"
    using assms(1) by (simp add: policy_inv_def list_all_iff)
  from resolve_all_ok[OF all this] assms(2) all
  show "sealed p'" "list_all2 same_rules (destinations p') (sort_key destination_key (destinations p))"
    by (cases r; auto simp: maelys_egress_policy_seal_def Let_def split: if_splits)+
qed

lemma reseal_copy_inv:
  "reseal_copy mem i p ds = (r, p') \<Longrightarrow> policy_inv p \<Longrightarrow> policy_inv p'"
proof (induction mem i p ds rule: reseal_copy.induct)
  case (2 mem i p d ds)
  obtain r1 p1 where a: "maelys_egress_policy_allow_tcp (fst (mem i)) (snd (mem i)) p
      (Some (dest_host d)) (dest_port d) (allow_private d) = (r1, p1)" by fastforce
  have i1: "policy_inv p1" using allow_tcp_inv[OF 2(4) a] .
  obtain r2 p2 where b: "maelys_egress_policy_require_tls_sni p1 (Some (dest_host d)) (dest_port d) =
      (r2, p2)" by fastforce
  have i2: "policy_inv p2" using require_tls_sni_inv[OF i1 b] .
  show ?case
  proof (cases "r1 = EGRESS_OK")
    case False
    with 2(3) a i1 show ?thesis by (cases r1) auto
  next
    case r1: True
    show ?thesis
    proof (cases "require_tls_sni d")
      case False
      with 2(3) a r1 2(2)[OF a[symmetric] r1 False _ i1] show ?thesis by simp
    next
      case True
      show ?thesis
      proof (cases "r2 = EGRESS_OK")
        case r2: True
        with 2(3) a b r1 True 2(1)[OF a[symmetric] r1 True b[symmetric] r2 _ i2] show ?thesis by simp
      next
        case False
        with 2(3) a b r1 True i2 show ?thesis by (cases r2) auto
      qed
    qed
  qed
qed simp

lemma reseal_OK:
  assumes inv: "policy_inv p" and "maelys_egress_policy_reseal ga co mem ok p = (EGRESS_OK, Some p')"
  shows "policy_inv p'" "sealed p'" "list_all2 same_rules (destinations p') (destinations p)"
proof -
  from assms(2) obtain q1 q2 where p: "sealed p"
    and create: "maelys_egress_policy_create co = (EGRESS_OK, Some q1)"
    and copy: "reseal_copy mem 0 q1 (destinations p) = (EGRESS_OK, q2)"
    and seal: "maelys_egress_policy_seal ga ok q2 = (EGRESS_OK, p')"
    by (auto simp: maelys_egress_policy_reseal_def maelys_egress_policy_create_def
        split: if_splits prod.splits egress_result.splits option.splits)
  have q1: "destinations q1 = []" "policy_inv q1"
    using create create_inv[OF create] by (auto simp: maelys_egress_policy_create_def split: if_splits)
  have q2: "policy_inv q2" using reseal_copy_inv[OF copy q1(2)] .
  have src: "list_all destination_ok (destinations p)" "sorted (map destination_key (destinations p))"
    using inv p by (auto simp: policy_inv_def sealed_ok_def)
  from reseal_copy_rules[OF copy src(1)] q1
  have rules: "list_all2 same_rules (destinations q2) (destinations p)" by auto
  with src(2) have "sort_key destination_key (destinations q2) = destinations q2"
    by (intro sort_key_sorted_id) (simp add: same_rules_keys)
  with seal_OK_rules[OF q2 seal] rules
  show "sealed p'" "list_all2 same_rules (destinations p') (destinations p)"
    by (auto intro: same_rules_trans)
  show "policy_inv p'" using seal_inv[OF q2 seal] .
qed

section \<open>What the digest binds\<close>

text \<open>
  The text that is hashed determines every rule: hosts, ports, both flags and the printed
  form of every pinned address, in order.
\<close>

fun printed_address :: "sockaddr \<Rightarrow> bytes \<times> bytes" where
  "printed_address (Sockaddr_in _ v) =
     (cstr ''4'', inet_ntop4 (octet4 v 0) (octet4 v 1) (octet4 v 2) (octet4 v 3))"
| "printed_address (Sockaddr_in6 _ _ v _) = (cstr ''6'', inet_ntop6 v)"
| "printed_address (Sockaddr_other _) = ([], [])"

definition rule_view :: "egress_destination \<Rightarrow> bytes \<times> u16 \<times> bool \<times> bool \<times> (bytes \<times> bytes) list" where
  "rule_view d = (dest_host d, dest_port d, allow_private d, require_tls_sni d,
     map (\<lambda>a. printed_address (addr_storage a)) (addresses d))"

definition dest_fields :: "egress_destination \<Rightarrow> bytes" where
  "dest_fields d =
     cstr ''tcp'' @ 9 # dest_host d @ 9 # dec (unat (dest_port d)) @ 9 #
     flag_digit (allow_private d) @ 9 # flag_digit (require_tls_sni d)"

definition addr_fields :: "egress_address \<Rightarrow> bytes" where
  "addr_fields a = cstr ''addr'' @ 9 # fst (printed_address (addr_storage a)) @ 9 #
     snd (printed_address (addr_storage a))"

definition rule_lines :: "egress_destination \<Rightarrow> bytes list" where
  "rule_lines d = dest_fields d # map addr_fields (addresses d)"

lemma plain_flag_digit [simp]: "list_all plain_byte (flag_digit b)"
  by (simp add: flag_digit_def plain_byte_def)

lemma plain_printed [simp]:
  "list_all plain_byte (fst (printed_address a))" "list_all plain_byte (snd (printed_address a))"
  by (cases a; simp add: plain_byte_def)+

lemma plain_not_sep: "list_all plain_byte l \<Longrightarrow> 9 \<notin> set l \<and> 10 \<notin> set l"
  by (auto simp: list_all_iff plain_byte_def)

lemma address_line_fields:
  "address_line (addr_storage a) \<noteq> None \<Longrightarrow> the (address_line (addr_storage a)) = addr_fields a @ [10]"
  by (cases "addr_storage a") (simp_all add: addr_fields_def)

lemma destination_text_lines:
  assumes "inet_only d"
  shows "destination_text d = concat (map (\<lambda>l. l @ [10]) (rule_lines d))"
proof -
  have "concat (map (\<lambda>a. the (address_line (addr_storage a))) (addresses d)) =
      concat (map ((\<lambda>l. l @ [10]) \<circ> addr_fields) (addresses d))"
    using assms by (intro arg_cong[where f = concat])
      (auto simp: inet_only_def list_all_iff address_line_fields)
  then show ?thesis
    by (simp add: destination_text_def rule_lines_def dest_fields_def destination_line_def)
qed

lemma policy_text_lines:
  "list_all inet_only ds \<Longrightarrow>
   policy_text ds = concat (map (\<lambda>l. l @ [10]) (concat (map rule_lines ds)))"
  by (induction ds) (simp_all add: policy_text_def destination_text_lines)

lemma flag_digit_inject [simp]: "flag_digit a = flag_digit b \<longleftrightarrow> a = b"
  by (auto simp: flag_digit_def)

lemma dest_fields_inject:
  assumes "list_all plain_byte (dest_host d)" "list_all plain_byte (dest_host e)"
    "dest_fields d = dest_fields e"
  shows "dest_host d = dest_host e \<and> dest_port d = dest_port e \<and>
    allow_private d = allow_private e \<and> require_tls_sni d = require_tls_sni e"
  using assms plain_not_sep[OF plain_dec, of "unat (dest_port d)"]
    plain_not_sep[OF plain_dec, of "unat (dest_port e)"]
    plain_not_sep[OF plain_flag_digit, of "allow_private d"]
    plain_not_sep[OF plain_flag_digit, of "allow_private e"]
    plain_not_sep[of "dest_host d"] plain_not_sep[of "dest_host e"]
  by (simp add: dest_fields_def sep_inject word_unat_eq_iff)

lemma addr_fields_inject:
  assumes "addr_fields a = addr_fields b"
  shows "printed_address (addr_storage a) = printed_address (addr_storage b)"
  using assms plain_not_sep[OF plain_printed(1), of "addr_storage a"]
    plain_not_sep[OF plain_printed(1), of "addr_storage b"]
  by (simp add: addr_fields_def sep_inject prod_eq_iff)

lemma rule_lines_inject:
  assumes "list_all plain_byte (dest_host d)" "list_all plain_byte (dest_host e)"
    "rule_lines d = rule_lines e"
  shows "rule_view d = rule_view e"
proof -
  have f: "dest_fields d = dest_fields e" and "map addr_fields (addresses d) = map addr_fields (addresses e)"
    using assms(3) by (simp_all add: rule_lines_def)
  from this(2) have "map (\<lambda>a. printed_address (addr_storage a)) (addresses d) =
      map (\<lambda>a. printed_address (addr_storage a)) (addresses e)"
    by (auto simp: list_eq_iff_nth_eq intro: addr_fields_inject)
  with dest_fields_inject[OF assms(1,2) f] show ?thesis by (simp add: rule_view_def)
qed

lemma map_eq_weaken:
  "map f xs = map f ys \<Longrightarrow> (\<And>x y. x \<in> set xs \<Longrightarrow> y \<in> set ys \<Longrightarrow> f x = f y \<Longrightarrow> g x = g y) \<Longrightarrow>
   map g xs = map g ys"
proof (induction xs arbitrary: ys)
  case (Cons x xs)
  then show ?case by (cases ys) auto
qed simp

lemma policy_text_inject:
  assumes ds: "list_all destination_ok ds" "list_all inet_only ds"
    and es: "list_all destination_ok es" "list_all inet_only es"
    and eq: "policy_text ds = policy_text es"
  shows "map rule_view ds = map rule_view es"
proof -
  have plain: "list_all plain_byte (dest_host d)" if "destination_ok d" for d
    using that by (auto simp: destination_ok_def intro: canonical_host_plain)
  have no_newline: "\<forall>l\<in>set (concat (map rule_lines xs)). 10 \<notin> set l" if "list_all destination_ok xs" for xs
  proof -
    have "10 \<notin> set l" if "d \<in> set xs" "l \<in> set (rule_lines d)" for d l
    proof -
      have "list_all plain_byte (dest_host d)"
        using \<open>list_all destination_ok xs\<close> that(1) plain by (auto simp: list_all_iff)
      with that(2) show ?thesis
        using plain_not_sep[of "dest_host d"] plain_not_sep[OF plain_dec, of "unat (dest_port d)"]
          plain_not_sep[OF plain_flag_digit] plain_not_sep[OF plain_printed(1)]
          plain_not_sep[OF plain_printed(2)]
        by (auto simp: rule_lines_def dest_fields_def addr_fields_def)
    qed
    then show ?thesis by auto
  qed
  have "concat (map rule_lines ds) = concat (map rule_lines es)"
    using eq no_newline[OF ds(1)] no_newline[OF es(1)]
    unfolding policy_text_lines[OF ds(2)] policy_text_lines[OF es(2)] by (intro lines_inject)
  moreover have groups: "\<forall>g\<in>set (map rule_lines xs). g \<noteq> [] \<and> hd (hd g) = 116 \<and> (\<forall>e\<in>set (tl g). hd e \<noteq> 116)" for xs
    by (auto simp: rule_lines_def dest_fields_def addr_fields_def)
  ultimately have "map rule_lines ds = map rule_lines es"
    by (intro groups_inject[where P = "\<lambda>l. hd l = 116"]) auto
  then show ?thesis
  proof (rule map_eq_weaken)
    fix d e
    assume "d \<in> set ds" "e \<in> set es" and lines: "rule_lines d = rule_lines e"
    then have "destination_ok d" "destination_ok e" using ds(1) es(1) by (simp_all add: list_all_iff)
    then show "rule_view d = rule_view e" using lines by (intro rule_lines_inject plain)
  qed
qed

section \<open>Sealing succeeds\<close>

text \<open>
  What the code asks of the resolver for a destination: at least one TCP address of the two internet
  families, at most 16 together with the addresses that an attempt to seal in vain left behind, whose structures say the
  family they were returned with, and none of them private unless the destination opts in.
\<close>

definition resolves_to :: "egress_destination \<Rightarrow> addrinfo list \<Rightarrow> bool" where
  "resolves_to d infos \<longleftrightarrow> infos \<noteq> [] \<and> length (addresses d) + length infos \<le> EGRESS_MAX_PINNED_ADDRESSES \<and>
     list_all (\<lambda>a. ai_addrlen a \<le> 128 \<and> (ai_family a = AF_INET \<or> ai_family a = AF_INET6) \<and>
       sa_family (ai_addr a) = ai_family a \<and> address_line (ai_addr a) \<noteq> None \<and>
       (\<not> allow_private d \<longrightarrow> \<not> egress_address_is_private (Some (ai_addr a)))) infos"

lemma pin_addresses_succeeds:
  assumes "length (addresses d) + length infos \<le> EGRESS_MAX_PINNED_ADDRESSES"
    "list_all (\<lambda>a. ai_addrlen a \<le> 128 \<and> (ai_family a = AF_INET \<or> ai_family a = AF_INET6) \<and>
       (\<not> allow_private d \<longrightarrow> \<not> egress_address_is_private (Some (ai_addr a)))) infos"
  shows "\<exists>d'. pin_addresses d infos = (EGRESS_OK, d') \<and>
    (infos \<noteq> [] \<or> addresses d \<noteq> [] \<longrightarrow> addresses d' \<noteq> []) \<and>
    set (addresses d') \<subseteq> set (addresses d) \<union> (\<lambda>a. \<lparr>addr_storage = ai_addr a, addr_length = ai_addrlen a\<rparr>) ` set infos"
  using assms
proof (induction d infos rule: pin_addresses.induct)
  case (2 d a rest)
  let ?c = "\<lparr>addr_storage = ai_addr a, addr_length = ai_addrlen a\<rparr>"
  show ?case
  proof (cases "list_ex (address_equal ?c) (addresses d)")
    case True
    then have "addresses d \<noteq> []" by auto
    moreover have "\<exists>d'. pin_addresses d rest = (EGRESS_OK, d') \<and>
        (rest \<noteq> [] \<or> addresses d \<noteq> [] \<longrightarrow> addresses d' \<noteq> []) \<and>
        set (addresses d') \<subseteq> set (addresses d) \<union> (\<lambda>a. \<lparr>addr_storage = ai_addr a, addr_length = ai_addrlen a\<rparr>) ` set rest"
      using 2 True by (intro "2.IH"(2)) auto
    ultimately show ?thesis using True "2.prems" by (auto simp: Let_def)
  next
    case False
    moreover have "\<exists>d'. pin_addresses (d\<lparr>addresses := addresses d @ [?c]\<rparr>) rest = (EGRESS_OK, d') \<and>
        addresses d' \<noteq> [] \<and> set (addresses d') \<subseteq> set (addresses d @ [?c]) \<union>
          (\<lambda>a. \<lparr>addr_storage = ai_addr a, addr_length = ai_addrlen a\<rparr>) ` set rest"
      using 2 False "2.IH"(3)[of ?c] by auto
    ultimately show ?thesis using "2.prems" by (auto simp: Let_def)
  qed
qed auto

lemma address_line_length: "address_line a = Some l \<Longrightarrow> length l \<le> 62"
proof (cases a)
  case (Sockaddr_in p v)
  then show "address_line a = Some l \<Longrightarrow> length l \<le> 62"
    using length_inet_ntop4[of "octet4 v 0" "octet4 v 1" "octet4 v 2" "octet4 v 3"] by auto
next
  case (Sockaddr_in6 p f v sc)
  then show "address_line a = Some l \<Longrightarrow> length l \<le> 62"
    using length_inet_ntop6[of v] by auto
qed simp

lemma digest_addresses_fits:
  assumes "list_all (\<lambda>a. address_line (addr_storage a) \<noteq> None) as" "length u + 62 * length as < c"
  shows "\<exists>t. digest_addresses c u as = Some t \<and> length t \<le> length u + 62 * length as"
  using assms
proof (induction as arbitrary: u)
  case (Cons a as)
  then obtain l where l: "address_line (addr_storage a) = Some l" by auto
  from address_line_length[OF this] Cons.prems(2) have "length (u @ l) + 62 * length as < c" by simp
  from Cons.IH[OF _ this] Cons.prems(1) obtain t
    where "digest_addresses c (u @ l) as = Some t" "length t \<le> length (u @ l) + 62 * length as" by auto
  with l address_line_length[OF l] Cons.prems show ?case by (auto simp: print_bounded_def)
qed simp

lemma destination_line_length: "length (destination_line d) \<le> length (dest_host d) + 15"
proof -
  have "unat (dest_port d) < 10 ^ 5" using unsigned_less[where 'a = nat, of "dest_port d"] by simp
  then have "length (dec (unat (dest_port d))) \<le> 5" by (rule length_dec) simp
  then show ?thesis by (simp add: destination_line_def flag_digit_def)
qed

lemma digest_destinations_fits:
  assumes "list_all inet_only ds" "length u + digest_capacity ds \<le> c + 16" "length u < c"
  shows "\<exists>t. digest_destinations c u ds = Some t"
  using assms
proof (induction ds arbitrary: u)
  case (Cons d ds)
  let ?u = "u @ destination_line d"
  have cap: "digest_capacity (d # ds) =
      digest_capacity ds + length (dest_host d) + 32 + 62 * length (addresses d)"
    by (simp add: digest_capacity_def)
  have len: "length ?u + 62 * length (addresses d) + 17 \<le> length u + (digest_capacity (d # ds) - digest_capacity ds)"
    using destination_line_length[of d] unfolding cap by simp
  moreover have "16 \<le> digest_capacity ds" by (simp add: digest_capacity_def)
  ultimately have "length ?u + 62 * length (addresses d) < c" using Cons.prems(2) cap by simp
  from digest_addresses_fits[OF _ this] Cons.prems(1) obtain t
    where t: "digest_addresses c ?u (addresses d) = Some t" "length t \<le> length ?u + 62 * length (addresses d)"
    by (auto simp: inet_only_def)
  have "length t + digest_capacity ds \<le> c + 16" "length t < c"
    using t(2) len Cons.prems(2) cap \<open>length ?u + 62 * length (addresses d) < c\<close> by simp_all
  from Cons.IH[OF _ this] Cons.prems(1) obtain r where "digest_destinations c t ds = Some r" by auto
  moreover have "length (destination_line d) < c - length u"
    using \<open>length ?u + 62 * length (addresses d) < c\<close> by simp
  ultimately show ?case using t(1) by (auto simp: print_bounded_def)
qed simp

lemma resolve_destination_succeeds:
  assumes "inet_only d" "ga (dest_host d) (dest_port d) = Some infos" "resolves_to d infos"
  shows "\<exists>d'. resolve_destination ga d = (EGRESS_OK, d') \<and> inet_only d'"
proof -
  have "length (addresses d) + length infos \<le> EGRESS_MAX_PINNED_ADDRESSES"
    "list_all (\<lambda>a. ai_addrlen a \<le> 128 \<and> (ai_family a = AF_INET \<or> ai_family a = AF_INET6) \<and>
       (\<not> allow_private d \<longrightarrow> \<not> egress_address_is_private (Some (ai_addr a)))) infos"
    using assms by (auto simp: resolves_to_def list_all_iff)
  from pin_addresses_succeeds[OF this] assms(3) obtain d' where
    d': "pin_addresses d infos = (EGRESS_OK, d')" "addresses d' \<noteq> []"
    and sub: "set (addresses d') \<subseteq> set (addresses d) \<union> (\<lambda>a. \<lparr>addr_storage = ai_addr a, addr_length = ai_addrlen a\<rparr>) ` set infos"
    by (auto simp: resolves_to_def)
  have "list_all (\<lambda>a. address_line (addr_storage a) \<noteq> None) (addresses d')"
    using sub assms(1,3) by (fastforce simp: resolves_to_def inet_only_def list_all_iff)
  with d' assms(2) show ?thesis
    by (auto simp: resolve_destination_def Let_def inet_only_def list_all_iff)
      (metis length_0_conv length_sort)
qed

lemma resolve_all_succeeds:
  "\<forall>d\<in>set ds. inet_only d \<and> (\<exists>infos. ga (dest_host d) (dest_port d) = Some infos \<and> resolves_to d infos) \<Longrightarrow>
   \<exists>ds'. resolve_all ga ds = (EGRESS_OK, ds') \<and> list_all inet_only ds'"
proof (induction ds)
  case (Cons d ds)
  then obtain ds' where ds': "resolve_all ga ds = (EGRESS_OK, ds')" "list_all inet_only ds'" by auto
  from Cons.prems obtain d' where "resolve_destination ga d = (EGRESS_OK, d')" "inet_only d'"
    using resolve_destination_succeeds[of d ga] by auto
  with ds' show ?case by auto
qed simp

lemma seal_succeeds:
  assumes "\<not> sealed p" "destinations p \<noteq> []"
    and resolve: "\<forall>d\<in>set (destinations p). inet_only d \<and>
      (\<exists>infos. ga (dest_host d) (dest_port d) = Some infos \<and> resolves_to d infos)"
  shows "\<exists>p'. maelys_egress_policy_seal ga True p = (EGRESS_OK, p') \<and> sealed p'"
proof -
  from resolve obtain ds where ds: "resolve_all ga (sort_key destination_key (destinations p)) = (EGRESS_OK, ds)"
    "list_all inet_only ds"
    using resolve_all_succeeds[of "sort_key destination_key (destinations p)" ga] by auto
  from digest_destinations_fits[OF ds(2), of "[]" "digest_capacity ds"] obtain t
    where "digest_destinations (digest_capacity ds) [] ds = Some t"
    by (auto simp: digest_capacity_def)
  then show ?thesis
    using assms(1,2) ds(1) by (simp add: maelys_egress_policy_seal_def egress_policy_compute_digest_def Let_def)
qed

section \<open>Properties\<close>

text \<open>A policy with one destination, and a resolver that knows it.\<close>

definition demo_address :: sockaddr where
  "demo_address = Sockaddr_in 443 0x8c527003"

definition demo_resolver :: resolver where
  "demo_resolver h q =
     (if h = cstr ''github.com'' then Some [\<lparr>ai_family = AF_INET, ai_addrlen = 16, ai_addr = demo_address\<rparr>]
      else None)"

definition demo_ops :: "policy_op list" where
  "demo_ops = [Op_allow True True (Some (cstr ''GitHub.com'')) 443 False, Op_seal demo_resolver True]"

definition demo_destination :: egress_destination where
  "demo_destination = \<lparr>dest_host = cstr ''github.com'', dest_port = 443, allow_private = False,
     require_tls_sni = False, addresses = [\<lparr>addr_storage = demo_address, addr_length = 16\<rparr>]\<rparr>"

definition demo_policy :: egress_policy where
  "demo_policy = \<lparr>destinations = [demo_destination], pol_capacity = 8, sealed = True,
     digest_hex = egress_sha256_hex (policy_text [demo_destination])\<rparr>"

lemma demo_facts:
  "egress_canonical_host (Some (cstr ''GitHub.com'')) = Some (cstr ''github.com'')"
  "egress_canonical_host (Some (cstr ''github.com'')) = Some (cstr ''github.com'')"
  "\<not> egress_address_is_private (Some demo_address)"
  "address_line demo_address \<noteq> None" "\<not> numeric_host (cstr ''github.com'')"
  by code_simp+

lemma demo_seal:
  "maelys_egress_policy_seal demo_resolver True
     \<lparr>destinations = [demo_destination\<lparr>addresses := []\<rparr>], pol_capacity = 8, sealed = False, digest_hex = []\<rparr> =
   (EGRESS_OK, demo_policy)"
proof -
  let ?d = "demo_destination\<lparr>addresses := []\<rparr>"
  have r: "resolve_destination demo_resolver ?d = (EGRESS_OK, demo_destination)"
    by (simp add: resolve_destination_def demo_resolver_def demo_destination_def Let_def demo_facts
        AF_INET_def EGRESS_MAX_PINNED_ADDRESSES_def)
  have "inet_only demo_destination"
    using demo_facts(4) by (simp add: inet_only_def demo_destination_def)
  then obtain t where t: "digest_destinations (digest_capacity [demo_destination]) [] [demo_destination] = Some t"
    using digest_destinations_fits[of "[demo_destination]" "[]" "digest_capacity [demo_destination]"]
    by (auto simp: digest_capacity_def)
  with digest_destinations_text[OF t] r show ?thesis
    by (simp add: maelys_egress_policy_seal_def egress_policy_compute_digest_def Let_def demo_policy_def)
qed

lemma demo_history: "foldl policy_exec empty_policy demo_ops = demo_policy"
proof -
  have "policy_exec empty_policy (Op_allow True True (Some (cstr ''GitHub.com'')) 443 False) =
      \<lparr>destinations = [demo_destination\<lparr>addresses := []\<rparr>], pol_capacity = 8, sealed = False, digest_hex = []\<rparr>"
    by (simp add: maelys_egress_policy_allow_tcp_def empty_policy_def demo_facts[simplified]
        EGRESS_MAX_DESTINATIONS_def demo_destination_def Let_def)
  then show ?thesis by (simp add: demo_ops_def demo_seal)
qed

text \<open>
  C13: every history of a policy keeps its invariant: at most 256 destinations, all canonical,
  with a port and pairwise distinct, at most 16 pinned addresses each, none of them private
  unless the destination opts in, no name requirement on a numeric host; and once sealed, the
  destinations are sorted, each has an address, and the digest is the hash of the policy's text.
\<close>

theorem policy_always_valid: "policy_inv (foldl policy_exec empty_policy ops)"
  by (rule policy_history_inv) (simp add: policy_inv_def empty_policy_def)

text \<open>
  C12: the lookup, which stops at the first greater host, is exact for every history of a policy:
  it returns a destination if and only if the policy is sealed and the destination is in it with
  that host and port.
\<close>

theorem policy_find_exact:
  "egress_policy_find (foldl policy_exec empty_policy ops) (Some h) q = Some d \<longleftrightarrow>
     sealed (foldl policy_exec empty_policy ops) \<and>
     d \<in> set (destinations (foldl policy_exec empty_policy ops)) \<and> dest_host d = h \<and> dest_port d = q"
  by (intro policy_find_Some policy_history_inv) (simp add: policy_inv_def empty_policy_def)

text \<open>
  A destination that a lookup returns has between 1 and 16 pinned addresses, none of which is
  private unless the destination was allowed to be, and a non-zero port.
\<close>

theorem policy_find_pinned:
  assumes "egress_policy_find (foldl policy_exec empty_policy ops) h q = Some d"
  shows "0 < length (addresses d) \<and> length (addresses d) \<le> EGRESS_MAX_PINNED_ADDRESSES \<and> q \<noteq> 0 \<and>
    (allow_private d \<or> list_all (\<lambda>a. \<not> egress_address_is_private (Some (addr_storage a))) (addresses d))"
proof -
  have "policy_inv (foldl policy_exec empty_policy ops)"
    by (rule policy_history_inv) (simp add: policy_inv_def empty_policy_def)
  from policy_find_ok[OF this assms] show ?thesis by (auto simp: destination_ok_def)
qed

theorem policy_find_pinned_witness:
  "egress_policy_find (foldl policy_exec empty_policy demo_ops) (Some (cstr ''github.com'')) 443 =
     Some demo_destination \<and> 0 < length (addresses demo_destination)"
proof -
  have "egress_policy_find (foldl policy_exec empty_policy demo_ops) (Some (cstr ''github.com'')) 443 =
      Some demo_destination"
    by (simp add: demo_history egress_policy_find_def demo_policy_def demo_destination_def)
  with policy_find_pinned[OF this] show ?thesis by simp
qed

text \<open>A sealed policy never changes: every operation on it fails and leaves it as it is.\<close>

theorem sealed_policy_immutable:
  assumes "sealed p"
  shows "foldl policy_exec p ops = p \<and>
    fst (maelys_egress_policy_allow_tcp ra sd p h q ap) = ERR_ARGUMENT \<and>
    fst (maelys_egress_policy_require_tls_sni p h q) = ERR_ARGUMENT \<and>
    fst (maelys_egress_policy_seal ga ok p) = ERR_ARGUMENT"
  using assms policy_history_sealed[OF assms]
  by (simp add: maelys_egress_policy_allow_tcp_def maelys_egress_policy_require_tls_sni_def
      maelys_egress_policy_seal_def)

theorem sealed_policy_immutable_witness:
  "foldl policy_exec demo_policy demo_ops = demo_policy \<and> sealed demo_policy"
proof -
  have "sealed demo_policy" by (simp add: demo_policy_def)
  with sealed_policy_immutable[OF this, of demo_ops] show ?thesis by blast
qed

text \<open>
  C16: sealing succeeds on every non-empty mutable policy whose destinations resolve, when memory for
  the digest is available: the digest buffer, sized in advance, is always large enough. A destination resolves when the resolver
  returns at least one address, all of the two internet families and admitted by its opt-in. Addresses that an earlier attempt to seal left
  behind are counted: they and the new ones are at most 16 for each destination, and they are of the internet families as well
  (a policy that was never sealed in vain has none).
\<close>

theorem policy_seal_succeeds:
  assumes "\<not> sealed p" "destinations p \<noteq> []"
    and "\<forall>d\<in>set (destinations p). inet_only d \<and>
      (\<exists>infos. ga (dest_host d) (dest_port d) = Some infos \<and> resolves_to d infos)"
  shows "\<exists>p'. maelys_egress_policy_seal ga True p = (EGRESS_OK, p') \<and> sealed p'"
  using assms by (rule seal_succeeds)

theorem policy_seal_succeeds_witness:
  "\<exists>p'. maelys_egress_policy_seal demo_resolver True
     \<lparr>destinations = [demo_destination\<lparr>addresses := []\<rparr>], pol_capacity = 8, sealed = False, digest_hex = []\<rparr> =
     (EGRESS_OK, p') \<and> sealed p'"
proof -
  have "\<exists>infos. demo_resolver (cstr ''github.com'') 443 = Some infos \<and>
      resolves_to (demo_destination\<lparr>addresses := []\<rparr>) infos"
    using demo_facts by (simp add: demo_resolver_def resolves_to_def demo_destination_def
        AF_INET_def EGRESS_MAX_PINNED_ADDRESSES_def demo_address_def)
  then show ?thesis
    by (intro policy_seal_succeeds) (simp_all add: demo_destination_def inet_only_def)
qed

text \<open>
  C17: resealing a sealed policy yields a valid sealed policy with the same rules in the same
  order: hosts, ports, private opt-ins and name requirements; only the addresses are new.
\<close>

theorem reseal_keeps_rules:
  assumes "maelys_egress_policy_reseal ga co mem ok (foldl policy_exec empty_policy ops) = (EGRESS_OK, Some p')"
  shows "policy_inv p' \<and> sealed p' \<and>
    map (\<lambda>d. (dest_host d, dest_port d, allow_private d, require_tls_sni d)) (destinations p') =
    map (\<lambda>d. (dest_host d, dest_port d, allow_private d, require_tls_sni d))
      (destinations (foldl policy_exec empty_policy ops))"
proof -
  have inv: "policy_inv (foldl policy_exec empty_policy ops)"
    by (rule policy_history_inv) (simp add: policy_inv_def empty_policy_def)
  have "list_all2 same_rules xs ys \<Longrightarrow>
      map (\<lambda>d. (dest_host d, dest_port d, allow_private d, require_tls_sni d)) xs =
      map (\<lambda>d. (dest_host d, dest_port d, allow_private d, require_tls_sni d)) ys" for xs ys
    by (induction rule: list_all2_induct) (auto simp: same_rules_def destination_key_def word_unat_eq_iff)
  with reseal_OK[OF inv assms] show ?thesis by blast
qed

theorem reseal_keeps_rules_witness:
  "maelys_egress_policy_reseal demo_resolver True (\<lambda>_. (True, True)) True
     (foldl policy_exec empty_policy demo_ops) = (EGRESS_OK, Some demo_policy) \<and> policy_inv demo_policy"
proof -
  have "reseal_copy (\<lambda>_. (True, True)) 0
        \<lparr>destinations = [], pol_capacity = 0, sealed = False, digest_hex = []\<rparr> [demo_destination] =
      (EGRESS_OK, \<lparr>destinations = [demo_destination\<lparr>addresses := []\<rparr>], pol_capacity = 8, sealed = False,
        digest_hex = []\<rparr>)"
    by (simp add: maelys_egress_policy_allow_tcp_def empty_policy_def demo_facts[simplified]
        EGRESS_MAX_DESTINATIONS_def demo_destination_def Let_def)
  then have "maelys_egress_policy_reseal demo_resolver True (\<lambda>_. (True, True)) True
      (foldl policy_exec empty_policy demo_ops) = (EGRESS_OK, Some demo_policy)"
    using demo_seal by (simp add: demo_history maelys_egress_policy_reseal_def
        maelys_egress_policy_create_def demo_policy_def del: reseal_copy.simps)
  with reseal_keeps_rules[OF this] show ?thesis by blast
qed

text \<open>
  C15: two sealed policies with the same digest have the same rules and the same printed pinned
  addresses in the same order, unless two different texts, named here, collide under SHA-256.
\<close>

theorem digest_binds_rules:
  fixes ops ops'
  defines "p \<equiv> foldl policy_exec empty_policy ops" and "q \<equiv> foldl policy_exec empty_policy ops'"
  assumes "sealed p" "sealed q" "digest_hex p = digest_hex q"
    and "\<not> (policy_text (destinations p) \<noteq> policy_text (destinations q) \<and>
      egress_sha256_hex (policy_text (destinations p)) = egress_sha256_hex (policy_text (destinations q)))"
  shows "map rule_view (destinations p) = map rule_view (destinations q)"
proof -
  have "policy_inv p" "policy_inv q"
    unfolding p_def q_def by (rule policy_history_inv, simp add: policy_inv_def empty_policy_def)+
  with assms show ?thesis
    by (intro policy_text_inject) (auto simp: policy_inv_def sealed_ok_def)
qed

theorem digest_binds_rules_witness:
  "map rule_view (destinations (foldl policy_exec empty_policy demo_ops)) =
   map rule_view (destinations (foldl policy_exec empty_policy (Op_require_sni None 1 # demo_ops)))"
proof -
  have "foldl policy_exec empty_policy (Op_require_sni None 1 # demo_ops) = demo_policy"
    by (simp add: demo_history maelys_egress_policy_require_tls_sni_def)
  then show ?thesis
    using digest_binds_rules[of demo_ops "Op_require_sni None 1 # demo_ops"]
    by (simp add: demo_history demo_policy_def)
qed

end
