(* ===== verification/Egress_ClientHello.thy ===== *)
theory Egress_ClientHello
  imports Egress_Host
begin

text \<open>
  \<^verbatim>\<open>src/src/core/clienthello.c\<close>: the check that the first TLS flight of a client names the
  destination the policy admitted. A pointer and the count of bytes left at it are one list.
  The theory also holds the interface of the parsers that read a growing input, which the
  SOCKS parser implements too.
\<close>

section \<open>The model\<close>

definition EGRESS_HANDSHAKE_MAX :: nat where
  "EGRESS_HANDSHAKE_MAX = 16384"

definition read_u16 :: "bytes \<Rightarrow> nat" where
  "read_u16 p = unat (p ! 0) * 256 + unat (p ! 1)"

definition read_u24 :: "bytes \<Rightarrow> nat" where
  "read_u24 p = unat (p ! 0) * 65536 + unat (p ! 1) * 256 + unat (p ! 2)"

text \<open>The return value: 0, 1, or -1 with the reason of the error message (\<^verbatim>\<open>fail\<close>).\<close>

datatype hello_result =
    Hello_incomplete
  | Hello_match
  | Hello_rejected string

text \<open>
  One round of the loop over the records: the loop's exit, or the length of the record, the
  handshake bytes gathered and the count needed.
\<close>

datatype gather_result =
    Gather_incomplete
  | Gather_rejected string
  | Gather_done bytes nat

definition next_record :: "bytes \<Rightarrow> gather_result + nat" where
  "next_record rest =
     (if length rest < 5 then Inl Gather_incomplete
      else if rest ! 0 \<noteq> 22 \<or> rest ! 1 \<noteq> 3 then
        Inl (Gather_rejected ''first TLS flight is not a handshake record'')
      else
        let record_length = read_u16 (drop 3 rest) in
        if record_length = 0 \<or> EGRESS_HANDSHAKE_MAX < record_length then
          Inl (Gather_rejected ''invalid record length'')
        else if length rest - 5 < record_length then Inl Gather_incomplete
        else Inr record_length)"

definition gather_round :: "bytes \<Rightarrow> bytes \<Rightarrow> nat \<Rightarrow> gather_result + nat \<times> bytes \<times> nat" where
  "gather_round rest handshake needed =
     (case next_record rest of
        Inl r \<Rightarrow> Inl r
      | Inr record_length \<Rightarrow>
          if EGRESS_HANDSHAKE_MAX - length handshake < record_length then
            Inl (Gather_rejected ''handshake exceeds the configured bound'')
          else
            let handshake = handshake @ take record_length (drop 5 rest) in
            if 4 \<le> length handshake then
              (if handshake ! 0 \<noteq> 1 then Inl (Gather_rejected ''first handshake is not ClientHello'')
               else
                 let body_length = read_u24 (drop 1 handshake) in
                 if EGRESS_HANDSHAKE_MAX - 4 < body_length then
                   Inl (Gather_rejected ''ClientHello exceeds the configured bound'')
                 else Inr (record_length, handshake, body_length + 4))
            else Inr (record_length, handshake, needed))"

lemma next_record_Inr:
  "next_record bs = Inr l \<longleftrightarrow> 5 \<le> length bs \<and> bs ! 0 = 22 \<and> bs ! 1 = 3 \<and> l = read_u16 (drop 3 bs) \<and>
     0 < l \<and> l \<le> EGRESS_HANDSHAKE_MAX \<and> l \<le> length bs - 5"
  by (auto simp: next_record_def Let_def)

lemma gather_round_Inr_next:
  "gather_round bs hs n = Inr (l, hs', n') \<Longrightarrow> next_record bs = Inr l \<and> hs' = hs @ take l (drop 5 bs)"
  by (auto simp: gather_round_def Let_def split: sum.splits if_splits)

function gather_records :: "bytes \<Rightarrow> bytes \<Rightarrow> nat \<Rightarrow> gather_result" where
  "gather_records rest handshake needed =
     (if needed \<le> length handshake then Gather_done handshake needed
      else case gather_round rest handshake needed of
             Inl r \<Rightarrow> r
           | Inr (record_length, handshake', needed') \<Rightarrow>
               gather_records (drop (5 + record_length) rest) handshake' needed')"
  by pat_completeness auto
termination
  by (relation "measure (\<lambda>(rest, _, _). length rest)")
    (auto dest!: gather_round_Inr_next simp: next_record_Inr)

declare gather_records.simps [simp del]

text \<open>
  One name of a server_name extension: the message of the failure, or what is left of the list
  and the number of DNS names so far. The loop returns None when it runs to its end.
\<close>

definition server_name_round :: "bytes \<Rightarrow> bytes \<Rightarrow> nat \<Rightarrow> string + bytes \<times> nat" where
  "server_name_round expected_host name dns_names =
     (if length name < 3 then Inl ''truncated server_name''
      else
        let name_type = name ! 0; name_length = read_u16 (drop 1 name); name = drop 3 name in
        if name_length = 0 \<or> length name < name_length then Inl ''invalid server_name length''
        else if name_type = 0 then
          (if dns_names + 1 \<noteq> 1 \<or> EGRESS_MAX_HOST < name_length then
             Inl ''multiple or oversized DNS server names''
           else if 0 \<in> set (take name_length name) then
             Inl ''server_name contains an embedded NUL''
           else if egress_canonical_host (Some (take name_length name)) \<noteq> Some expected_host then
             Inl ''server_name does not match the sealed destination''
           else Inr (drop name_length name, dns_names + 1))
        else Inr (drop name_length name, dns_names))"

function server_names :: "bytes \<Rightarrow> bytes \<Rightarrow> nat \<Rightarrow> nat \<Rightarrow> string option" where
  "server_names expected_host name dns_names total_names =
     (if name = [] then
        (if dns_names \<noteq> 1 \<or> total_names \<noteq> 1 then Some ''exactly one DNS server_name is required''
         else None)
      else case server_name_round expected_host name dns_names of
             Inl message \<Rightarrow> Some message
           | Inr (name', dns_names') \<Rightarrow> server_names expected_host name' dns_names' (total_names + 1))"
  by pat_completeness auto
termination
  by (relation "measure (\<lambda>(_, name, _, _). length name)")
    (auto simp: server_name_round_def Let_def split: if_splits)

declare server_names.simps [simp del]

definition extension_round :: "bytes \<Rightarrow> bytes \<Rightarrow> bool \<Rightarrow> string + bytes \<times> bool" where
  "extension_round expected_host p seen_sni =
     (if length p < 4 then Inl ''truncated extension''
      else
        let type = read_u16 p; extension_length = read_u16 (drop 2 p); p = drop 4 p in
        if length p < extension_length then Inl ''truncated extension body''
        else if type = 0xfe0d \<or> type = 0xffce then
          Inl ''ECH is incompatible with cleartext SNI enforcement''
        else if type = 0 then
          (if seen_sni then Inl ''duplicate server_name extension''
           else if extension_length < 2 \<or> read_u16 p \<noteq> extension_length - 2 then
             Inl ''invalid server_name list''
           else
             case server_names expected_host (drop 2 (take extension_length p)) 0 0 of
               Some message \<Rightarrow> Inl message
             | None \<Rightarrow> Inr (drop extension_length p, True))
        else Inr (drop extension_length p, seen_sni))"

function hello_extensions :: "bytes \<Rightarrow> bytes \<Rightarrow> bool \<Rightarrow> hello_result" where
  "hello_extensions expected_host p seen_sni =
     (if p = [] then
        (if seen_sni then Hello_match else Hello_rejected ''server_name extension is required'')
      else case extension_round expected_host p seen_sni of
             Inl message \<Rightarrow> Hello_rejected message
           | Inr (p', seen_sni') \<Rightarrow> hello_extensions expected_host p' seen_sni')"
  by pat_completeness auto
termination
  by (relation "measure (\<lambda>(_, p, _). length p)")
    (auto simp: extension_round_def Let_def split: if_splits option.splits)

declare hello_extensions.simps [simp del]

definition hello_body :: "bytes \<Rightarrow> bytes \<Rightarrow> hello_result" where
  "hello_body expected_host p =
     (if length p < 2 + 32 + 1 then Hello_rejected ''truncated fixed fields''
      else
        let p = drop 34 p; session_id_length = unat (p ! 0); p = drop 1 p in
        if length p < session_id_length then Hello_rejected ''truncated session id''
        else
          let p = drop session_id_length p in
          if length p < 2 then Hello_rejected ''missing cipher suites''
          else
            let cipher_length = read_u16 p; p = drop 2 p in
            if cipher_length < 2 \<or> cipher_length mod 2 = 1 \<or> length p < cipher_length then
              Hello_rejected ''invalid cipher suites''
            else
              let p = drop cipher_length p in
              if length p < 1 then Hello_rejected ''missing compression methods''
              else
                let compression_length = unat (p ! 0); p = drop 1 p in
                if compression_length = 0 \<or> length p < compression_length then
                  Hello_rejected ''invalid compression methods''
                else
                  let p = drop compression_length p in
                  if length p < 2 then Hello_rejected ''missing extensions''
                  else
                    let extensions_length = read_u16 p; p = drop 2 p in
                    if extensions_length \<noteq> length p then Hello_rejected ''invalid extensions length''
                    else hello_extensions expected_host p False)"

definition egress_tls_client_hello_matches :: "bytes option \<Rightarrow> bytes option \<Rightarrow> hello_result" where
  "egress_tls_client_hello_matches input host =
     (case (input, host) of
        (Some bs, Some expected_host) \<Rightarrow>
          (case gather_records bs [] 4 of
             Gather_incomplete \<Rightarrow> Hello_incomplete
           | Gather_rejected message \<Rightarrow> Hello_rejected message
           | Gather_done handshake needed \<Rightarrow>
               hello_body expected_host (take (needed - 4) (drop 4 handshake)))
      | _ \<Rightarrow> Hello_rejected ''missing input or expected host'')"

section \<open>Parsers of a growing input\<close>

text \<open>
  The server calls a parser on everything received so far, again and again, until it stops
  answering that the input is incomplete. The promise of such a parser is that an answer is
  not revised by bytes that follow; the client's lemma is that the answer then depends on the
  bytes alone, not on how the network cut them in segments.
\<close>

locale incremental_parser =
  fixes parse :: "bytes \<Rightarrow> 'r" and incomplete :: "'r \<Rightarrow> bool"
  assumes stable: "\<not> incomplete (parse bs) \<Longrightarrow> parse (bs @ more) = parse bs"
begin

fun parse_segments :: "bytes \<Rightarrow> bytes list \<Rightarrow> 'r" where
  "parse_segments received [] = parse received"
| "parse_segments received (segment # segments) =
     (if incomplete (parse received) then parse_segments (received @ segment) segments
      else parse received)"

lemma parse_segments_concat:
  "parse_segments received segments = parse (received @ concat segments)"
proof (induction segments arbitrary: received)
  case (Cons s ss)
  then show ?case by (cases "incomplete (parse received)") (auto simp: stable)
qed simp

lemma segmentation_irrelevant:
  "concat ss = concat ts \<Longrightarrow> parse_segments [] ss = parse_segments [] ts"
  by (simp add: parse_segments_concat)

lemma incomplete_prefix: "incomplete (parse (bs @ more)) \<Longrightarrow> incomplete (parse bs)"
  using stable[of bs more] by (cases "incomplete (parse bs)") auto

end

lemma read_u16_append: "2 \<le> length p \<Longrightarrow> read_u16 (p @ q) = read_u16 p"
  by (auto simp: read_u16_def nth_append)

lemma read_u24_append: "3 \<le> length p \<Longrightarrow> read_u24 (p @ q) = read_u24 p"
  by (auto simp: read_u24_def nth_append)

lemma next_record_stable:
  assumes "next_record bs \<noteq> Inl Gather_incomplete"
  shows "next_record (bs @ more) = next_record bs"
proof -
  have "5 \<le> length bs" using assms by (auto simp: next_record_def split: if_splits)
  then have "read_u16 (drop 3 (bs @ more)) = read_u16 (drop 3 bs)" "(bs @ more) ! 0 = bs ! 0"
    "(bs @ more) ! 1 = bs ! 1"
    using read_u16_append[of "drop 3 bs" more] by (auto simp: nth_append)
  with assms show ?thesis by (auto simp: next_record_def Let_def split: if_splits)
qed

lemma gather_round_stable:
  assumes "gather_round bs hs n \<noteq> Inl Gather_incomplete"
  shows "gather_round (bs @ more) hs n = gather_round bs hs n"
proof -
  have "next_record bs \<noteq> Inl Gather_incomplete"
    using assms by (auto simp: gather_round_def)
  note same = next_record_stable[OF this]
  show ?thesis
  proof (cases "next_record bs")
    case (Inr l)
    then have "take l (drop 5 (bs @ more)) = take l (drop 5 bs)" by (auto simp: next_record_Inr)
    with same Inr show ?thesis by (simp add: gather_round_def del: drop_append take_append)
  qed (use same in \<open>simp add: gather_round_def\<close>)
qed

lemma gather_records_stable:
  "gather_records bs hs n \<noteq> Gather_incomplete \<Longrightarrow>
   gather_records (bs @ more) hs n = gather_records bs hs n"
proof (induction bs hs n rule: gather_records.induct)
  case (1 bs hs n)
  show ?case
  proof (cases "n \<le> length hs")
    case True
    then show ?thesis by (simp add: gather_records.simps[of _ hs])
  next
    case False
    then have "gather_round bs hs n \<noteq> Inl Gather_incomplete"
      using "1.prems" by (auto simp: gather_records.simps[of bs])
    note round = gather_round_stable[OF this, of more]
    show ?thesis
    proof (cases "gather_round bs hs n")
      case (Inl r)
      with False round show ?thesis by (simp add: gather_records.simps[of _ hs n])
    next
      case (Inr x)
      obtain l hs' n' where x: "x = (l, hs', n')" by (cases x)
      with Inr have "5 + l \<le> length bs"
        by (auto dest!: gather_round_Inr_next simp: next_record_Inr)
      then have "drop (5 + l) (bs @ more) = drop (5 + l) bs @ more" by simp
      with "1.IH"[OF False Inr x[symmetric] refl] "1.prems" False Inr x round show ?thesis
        by (simp add: gather_records.simps[of _ hs n])
    qed
  qed
qed

definition hello_incomplete :: "hello_result \<Rightarrow> bool" where
  "hello_incomplete r \<longleftrightarrow> r = Hello_incomplete"

lemma hello_extensions_complete: "hello_extensions h p seen \<noteq> Hello_incomplete"
proof (induction h p seen rule: hello_extensions.induct)
  case (1 h p seen)
  then show ?case
    by (subst hello_extensions.simps) (auto split: sum.splits)
qed

lemma hello_body_complete: "hello_body h p \<noteq> Hello_incomplete"
  by (simp add: hello_body_def Let_def hello_extensions_complete)

interpretation hello: incremental_parser
  "\<lambda>bs. egress_tls_client_hello_matches (Some bs) (Some h)" hello_incomplete
proof
  fix bs more
  assume "\<not> hello_incomplete (egress_tls_client_hello_matches (Some bs) (Some h))"
  then have "gather_records bs [] 4 \<noteq> Gather_incomplete"
    by (auto simp: hello_incomplete_def egress_tls_client_hello_matches_def)
  from gather_records_stable[OF this]
  show "egress_tls_client_hello_matches (Some (bs @ more)) (Some h) =
      egress_tls_client_hello_matches (Some bs) (Some h)"
    by (simp add: egress_tls_client_hello_matches_def)
qed

section \<open>The grammar of a ClientHello\<close>

text \<open>The encoder of RFC 8446 section 4.1.2 and RFC 6066 section 3 that the parser inverts.\<close>

definition be16 :: "nat \<Rightarrow> bytes" where
  "be16 n = [of_nat (n div 256), of_nat n]"

definition be24 :: "nat \<Rightarrow> bytes" where
  "be24 n = [of_nat (n div 65536), of_nat (n div 256), of_nat n]"

type_synonym hello_extension = "nat \<times> bytes"

definition encode_extension :: "hello_extension \<Rightarrow> bytes" where
  "encode_extension e = be16 (fst e) @ be16 (length (snd e)) @ snd e"

definition encode_extensions :: "hello_extension list \<Rightarrow> bytes" where
  "encode_extensions es = concat (map encode_extension es)"

definition encode_sni :: "bytes \<Rightarrow> bytes" where
  "encode_sni name = be16 (length name + 3) @ 0 # be16 (length name) @ name"

record client_hello =
  hello_fixed :: bytes
  hello_session :: bytes
  hello_ciphers :: bytes
  hello_compression :: bytes
  hello_extension_list :: "hello_extension list"

definition encode_hello :: "client_hello \<Rightarrow> bytes" where
  "encode_hello c =
     hello_fixed c @ of_nat (length (hello_session c)) # hello_session c @
     be16 (length (hello_ciphers c)) @ hello_ciphers c @
     of_nat (length (hello_compression c)) # hello_compression c @
     be16 (length (encode_extensions (hello_extension_list c))) @
     encode_extensions (hello_extension_list c)"

definition extension_wf :: "hello_extension \<Rightarrow> bool" where
  "extension_wf e \<longleftrightarrow> fst e < 65536 \<and> length (snd e) < 65536 \<and> fst e \<noteq> 0xfe0d \<and> fst e \<noteq> 0xffce"

text \<open>The name a server_name extension gives is the host, written in any case.\<close>

definition names_host :: "bytes \<Rightarrow> bytes \<Rightarrow> bool" where
  "names_host host d \<longleftrightarrow> (\<exists>name. d = encode_sni name \<and> name \<noteq> [] \<and> length name \<le> EGRESS_MAX_HOST \<and>
     0 \<notin> set name \<and> egress_canonical_host (Some name) = Some host)"

definition extensions_ok :: "bytes \<Rightarrow> bool \<Rightarrow> hello_extension list \<Rightarrow> bool" where
  "extensions_ok host seen es \<longleftrightarrow> list_all extension_wf es \<and>
     length (filter (\<lambda>e. fst e = 0) es) = (if seen then 0 else 1) \<and>
     list_all (\<lambda>e. fst e = 0 \<longrightarrow> names_host host (snd e)) es"

definition hello_wf :: "bytes \<Rightarrow> client_hello \<Rightarrow> bool" where
  "hello_wf host c \<longleftrightarrow> length (hello_fixed c) = 34 \<and> length (hello_session c) < 256 \<and>
     2 \<le> length (hello_ciphers c) \<and> even (length (hello_ciphers c)) \<and> length (hello_ciphers c) < 65536 \<and>
     0 < length (hello_compression c) \<and> length (hello_compression c) < 256 \<and>
     length (encode_extensions (hello_extension_list c)) < 65536 \<and>
     extensions_ok host False (hello_extension_list c)"

lemma length_be16 [simp]: "length (be16 n) = 2"
  by (simp add: be16_def)

lemma read_be16 [simp]: "n < 65536 \<Longrightarrow> read_u16 (be16 n @ q) = n"
  by (simp add: be16_def read_u16_def unat_of_nat take_bit_eq_mod less_mult_imp_div_less)

lemma length_be24 [simp]: "length (be24 n) = 3"
  by (simp add: be24_def)

lemma read_be24 [simp]:
  assumes "n < 16777216"
  shows "read_u24 (be24 n @ q) = n"
proof -
  have "n div 256 = n div 65536 * 256 + n div 256 mod 256"
    using div_mult_mod_eq[of "n div 256" 256] by (simp add: div_mult2_eq[symmetric])
  then have "n = n div 65536 * 65536 + n div 256 mod 256 * 256 + n mod 256"
    using div_mult_mod_eq[of n 256] by linarith
  then show ?thesis
    using assms by (simp add: be24_def read_u24_def unat_of_nat take_bit_eq_mod less_mult_imp_div_less)
qed

lemma read_u16_less: "read_u16 p < 65536"
  using unat_byte_less[of "p ! 0"] unat_byte_less[of "p ! 1"] by (simp add: read_u16_def)

lemma be16_read:
  assumes "2 \<le> length p"
  shows "p = be16 (read_u16 p) @ drop 2 p"
proof -
  obtain a b q where p: "p = a # b # q"
    using assms by (cases p; cases "tl p") auto
  have "(of_nat (unat a * 256 + unat b) :: byte) = of_nat (unat b)"
    unfolding word_unat_eq_iff unat_of_nat take_bit_eq_mod by simp
  moreover have "(unat a * 256 + unat b) div 256 = unat a" using unat_byte_less[of b] by simp
  ultimately show ?thesis by (simp add: p be16_def read_u16_def)
qed

lemma be24_read:
  assumes "3 \<le> length p"
  shows "p = be24 (read_u24 p) @ drop 3 p"
proof -
  obtain a b c q where p: "p = a # b # c # q"
    using assms by (cases p; cases "tl p"; cases "tl (tl p)") auto
  define n where "n = unat a * 65536 + unat b * 256 + unat c"
  have "n div 65536 = unat a" "n div 256 = unat a * 256 + unat b"
    using unat_byte_less[of b] unat_byte_less[of c] by (simp_all add: n_def)
  moreover have "n mod 256 = unat c"
    using unat_byte_less[of c] by (simp add: n_def mod_add_eq[symmetric] mod_mult_right_eq[of _ 65536, symmetric])
  ultimately have "(of_nat (n div 65536) :: byte) = a" "(of_nat (n div 256) :: byte) = b" "(of_nat n :: byte) = c"
    unfolding word_unat_eq_iff unat_of_nat take_bit_eq_mod using unat_byte_less[of a] unat_byte_less[of b]
    by simp_all
  then show ?thesis by (simp add: p be24_def read_u24_def n_def[symmetric])
qed

lemma server_names_Nil [simp]: "server_names h [] d t = None \<longleftrightarrow> d = 1 \<and> t = 1"
  by (subst server_names.simps) auto

lemma hello_extensions_Nil [simp]: "hello_extensions h [] seen = Hello_match \<longleftrightarrow> seen"
  by (subst hello_extensions.simps) auto

lemma server_names_total: "server_names h p d t = None \<Longrightarrow> t \<le> 1 \<and> (t = 1 \<longrightarrow> p = [] \<and> d = 1)"
proof (induction h p d t rule: server_names.induct)
  case (1 h p d t)
  show ?case
  proof (cases "p = []")
    case True
    with "1.prems" show ?thesis by simp
  next
    case False
    with "1.prems" obtain q d' where "server_name_round h p d = Inr (q, d')"
      "server_names h q d' (t + 1) = None"
      by (subst (asm) server_names.simps) (auto split: sum.splits)
    with "1.IH"[OF False, of "(q, d')" q d'] show ?thesis by simp
  qed
qed

lemma server_names_one:
  "server_names h p 0 0 = None \<longleftrightarrow>
     (\<exists>name. p = 0 # be16 (length name) @ name \<and> name \<noteq> [] \<and> length name \<le> EGRESS_MAX_HOST \<and>
        0 \<notin> set name \<and> egress_canonical_host (Some name) = Some h)"
proof
  assume none: "server_names h p 0 0 = None"
  then have "p \<noteq> []" by auto
  with none obtain q d where round: "server_name_round h p 0 = Inr (q, d)" and "server_names h q d 1 = None"
    by (subst (asm) server_names.simps) (auto split: sum.splits)
  with server_names_total[of h q d 1] have last: "q = []" "d = 1" by simp_all
  let ?n = "read_u16 (drop 1 p)"
  have len: "3 \<le> length p" and "p ! 0 = 0" "0 < ?n" "?n = length (drop 3 p)" "?n \<le> EGRESS_MAX_HOST"
    "0 \<notin> set (drop 3 p)" "egress_canonical_host (Some (drop 3 p)) = Some h"
    using round last by (auto simp: server_name_round_def Let_def split: if_splits)
  moreover have "p = p ! 0 # be16 ?n @ drop 3 p"
    using len be16_read[of "drop 1 p"] by (cases p) auto
  ultimately show "\<exists>name. p = 0 # be16 (length name) @ name \<and> name \<noteq> [] \<and> length name \<le> EGRESS_MAX_HOST \<and>
      0 \<notin> set name \<and> egress_canonical_host (Some name) = Some h"
    by (intro exI[of _ "drop 3 p"]) auto
next
  assume "\<exists>name. p = 0 # be16 (length name) @ name \<and> name \<noteq> [] \<and> length name \<le> EGRESS_MAX_HOST \<and>
      0 \<notin> set name \<and> egress_canonical_host (Some name) = Some h"
  then obtain name where p: "p = 0 # be16 (length name) @ name" and ok: "name \<noteq> []"
    "length name \<le> EGRESS_MAX_HOST" "0 \<notin> set name" "egress_canonical_host (Some name) = Some h" by blast
  have "read_u16 (be16 (length name) @ name) = length name"
    using ok(2) by (simp add: EGRESS_MAX_HOST_def)
  moreover have "drop 1 p = be16 (length name) @ name" "drop 3 p = name" "p ! 0 = 0" "3 \<le> length p"
    by (simp_all add: p be16_def)
  ultimately have "server_name_round h p 0 = Inr ([], 1)"
    using ok by (simp add: server_name_round_def Let_def)
  then show "server_names h p 0 0 = None"
    using p by (subst server_names.simps) simp
qed

lemma extension_round_Inr:
  assumes "extension_round h p seen = Inr (q, seen')"
  shows "\<exists>e. p = encode_extension e @ q \<and> extension_wf e \<and> (fst e = 0 \<longrightarrow> \<not> seen \<and> names_host h (snd e)) \<and>
    seen' = (seen \<or> fst e = 0)"
proof -
  let ?t = "read_u16 p" and ?n = "read_u16 (drop 2 p)"
  let ?d = "take ?n (drop 4 p)"
  have len: "4 \<le> length p" "?n \<le> length (drop 4 p)" "q = drop ?n (drop 4 p)"
    and type: "?t \<noteq> 0xfe0d" "?t \<noteq> 0xffce"
    and sni: "?t = 0 \<Longrightarrow> \<not> seen \<and> 2 \<le> ?n \<and> read_u16 (drop 4 p) = ?n - 2 \<and>
      server_names h (drop 2 ?d) 0 0 = None"
    and seen: "seen' = (seen \<or> ?t = 0)"
    using assms by (auto simp: extension_round_def Let_def split: if_splits option.splits)
  have "p = be16 ?t @ drop 2 p" using len by (intro be16_read) simp
  moreover have "drop 2 p = be16 ?n @ drop 4 p" using len be16_read[of "drop 2 p"] by simp
  moreover have "length ?d = ?n" using len by simp
  moreover have "drop 4 p = ?d @ q" unfolding len(3) by (rule append_take_drop_id[symmetric])
  ultimately have "p = encode_extension (?t, ?d) @ q"
    unfolding encode_extension_def fst_conv snd_conv append_assoc by metis
  moreover have "extension_wf (?t, ?d)"
    using type \<open>length ?d = ?n\<close> read_u16_less[of p] read_u16_less[of "drop 2 p"]
    by (simp add: extension_wf_def)
  moreover have "names_host h ?d" if "?t = 0"
  proof -
    from sni[OF that] obtain name where name: "drop 2 ?d = 0 # be16 (length name) @ name" "name \<noteq> []"
      "length name \<le> EGRESS_MAX_HOST" "0 \<notin> set name" "egress_canonical_host (Some name) = Some h"
      by (auto simp: server_names_one)
    have "read_u16 ?d = read_u16 (drop 4 p)"
      using sni[OF that] len read_u16_append[of ?d "drop ?n (drop 4 p)"] by (simp del: drop_drop)
    moreover have "?n = length name + 5"
      using arg_cong[OF name(1), of length] sni[OF that] len by simp
    ultimately have "?d = encode_sni name"
      using be16_read[of ?d] name(1) sni[OF that] \<open>length ?d = ?n\<close> by (simp add: encode_sni_def add.commute)
    with name show ?thesis by (auto simp: names_host_def)
  qed
  ultimately show ?thesis using sni seen by (intro exI[of _ "(?t, ?d)"]) auto
qed

lemma extension_round_encode:
  assumes "extension_wf e" "fst e = 0 \<Longrightarrow> \<not> seen \<and> names_host h (snd e)"
  shows "extension_round h (encode_extension e @ q) seen = Inr (q, seen \<or> fst e = 0)"
proof -
  define P where "P = encode_extension e @ q"
  have heads: "read_u16 P = fst e" "drop 4 P = snd e @ q" "read_u16 (drop 2 P) = length (snd e)"
    using assms(1) by (simp_all add: P_def encode_extension_def extension_wf_def)
  have "\<not> length P < 4" by (simp add: P_def encode_extension_def)
  moreover have "2 \<le> length (snd e) \<and> read_u16 (snd e @ q) = length (snd e) - 2 \<and>
      server_names h (drop 2 (snd e)) 0 0 = None" if zero: "fst e = 0"
  proof -
    from assms(2)[OF zero] obtain name where name: "snd e = encode_sni name" "name \<noteq> []"
      "length name \<le> EGRESS_MAX_HOST" "0 \<notin> set name" "egress_canonical_host (Some name) = Some h"
      by (auto simp: names_host_def)
    then have "server_names h (drop 2 (snd e)) 0 0 = None"
      by (auto simp: server_names_one encode_sni_def)
    moreover have "read_u16 (snd e @ q) = length name + 3"
      using name(3) by (simp add: name(1) encode_sni_def EGRESS_MAX_HOST_def)
    ultimately show ?thesis by (simp add: name(1) encode_sni_def)
  qed
  ultimately show ?thesis
    using assms unfolding P_def[symmetric]
    by (cases "fst e = 0") (auto simp: extension_round_def Let_def heads extension_wf_def)
qed

lemma hello_extensions_match:
  "hello_extensions h p seen = Hello_match \<longleftrightarrow> (\<exists>es. p = encode_extensions es \<and> extensions_ok h seen es)"
proof
  show "hello_extensions h p seen = Hello_match \<Longrightarrow> \<exists>es. p = encode_extensions es \<and> extensions_ok h seen es"
  proof (induction h p seen rule: hello_extensions.induct)
    case (1 h p seen)
    show ?case
    proof (cases "p = []")
      case True
      with "1.prems" show ?thesis
        by (intro exI[of _ "[]"]) (simp add: encode_extensions_def extensions_ok_def)
    next
      case False
      with "1.prems" obtain q s where round: "extension_round h p seen = Inr (q, s)"
        "hello_extensions h q s = Hello_match"
        by (subst (asm) hello_extensions.simps) (auto split: sum.splits)
      from "1.IH"[OF False round(1) refl round(2)] obtain es
        where es: "q = encode_extensions es" "extensions_ok h s es" by blast
      from extension_round_Inr[OF round(1)] obtain e where e: "p = encode_extension e @ q" "extension_wf e"
        "fst e = 0 \<longrightarrow> \<not> seen \<and> names_host h (snd e)" "s = (seen \<or> fst e = 0)"
        by (elim exE conjE)
      have "p = encode_extensions (e # es)" by (simp add: e(1) es(1) encode_extensions_def)
      moreover have "extensions_ok h seen (e # es)"
        using es(2) e(2-4) by (cases "fst e = 0") (auto simp: extensions_ok_def split: if_splits)
      ultimately show ?thesis by blast
    qed
  qed
next
  assume "\<exists>es. p = encode_extensions es \<and> extensions_ok h seen es"
  then obtain es where "p = encode_extensions es" "extensions_ok h seen es" by blast
  then show "hello_extensions h p seen = Hello_match"
  proof (induction es arbitrary: p seen)
    case Nil
    then show ?case by (simp add: encode_extensions_def extensions_ok_def split: if_splits)
  next
    case (Cons e es)
    let ?q = "encode_extensions es"
    have p: "p = encode_extension e @ ?q" using Cons.prems by (simp add: encode_extensions_def)
    have ok: "extension_wf e" "fst e = 0 \<Longrightarrow> \<not> seen \<and> names_host h (snd e)"
      using Cons.prems by (auto simp: extensions_ok_def split: if_splits)
    have "extensions_ok h (seen \<or> fst e = 0) es"
      using Cons.prems by (auto simp: extensions_ok_def split: if_splits)
    with Cons.IH[OF refl] have "hello_extensions h ?q (seen \<or> fst e = 0) = Hello_match" by blast
    moreover have "p \<noteq> []" by (simp add: p encode_extension_def be16_def)
    ultimately show ?case
      using extension_round_encode[OF ok, of ?q] by (subst hello_extensions.simps) (simp add: p)
  qed
qed

lemma hello_body_encode:
  assumes "hello_wf h c"
  shows "hello_body h (encode_hello c) = Hello_match"
proof -
  let ?x = "encode_extensions (hello_extension_list c)"
  let ?p1 = "of_nat (length (hello_session c)) # hello_session c @
     be16 (length (hello_ciphers c)) @ hello_ciphers c @
     of_nat (length (hello_compression c)) # hello_compression c @ be16 (length ?x) @ ?x"
  have "drop 34 (encode_hello c) = ?p1" "\<not> length (encode_hello c) < 2 + 32 + 1"
    using assms by (simp_all add: encode_hello_def hello_wf_def)
  moreover have "hello_extensions h ?x False = Hello_match"
    using assms by (auto simp: hello_extensions_match hello_wf_def)
  ultimately show ?thesis
    using assms by (simp add: hello_body_def Let_def hello_wf_def unat_of_nat_byte even_iff_mod_2_eq_zero)
qed

lemma hello_body_match:
  assumes "hello_body h p = Hello_match"
  shows "\<exists>c. p = encode_hello c \<and> hello_wf h c"
proof -
  define p1 where "p1 = drop 1 (drop 34 p)"
  define s where "s = unat (drop 34 p ! 0)"
  define p2 where "p2 = drop s p1"
  define n where "n = read_u16 p2"
  define p3 where "p3 = drop 2 p2"
  define p4 where "p4 = drop n p3"
  define m where "m = unat (p4 ! 0)"
  define p5 where "p5 = drop 1 p4"
  define p6 where "p6 = drop m p5"
  define p7 where "p7 = drop 2 p6"
  have conds: "35 \<le> length p" "s \<le> length p1" "2 \<le> length p2" "2 \<le> n" "even n" "n \<le> length p3"
    "p4 \<noteq> []" "0 < m" "m \<le> length p5" "2 \<le> length p6" "read_u16 p6 = length p7"
    "hello_extensions h p7 False = Hello_match"
    using assms
    unfolding hello_body_def Let_def s_def[symmetric] p1_def[symmetric] p2_def[symmetric] n_def[symmetric]
      p3_def[symmetric] p4_def[symmetric] m_def[symmetric] p5_def[symmetric] p6_def[symmetric] p7_def[symmetric]
    by (simp_all add: not_less even_iff_mod_2_eq_zero split: if_splits)
  then obtain es where es: "p7 = encode_extensions es" "extensions_ok h False es"
    by (auto simp: hello_extensions_match)
  define c where "c = \<lparr>hello_fixed = take 34 p, hello_session = take s p1, hello_ciphers = take n p3,
    hello_compression = take m p5, hello_extension_list = es\<rparr>"
  have "p = take 34 p @ drop 34 p ! 0 # p1"
    using id_take_nth_drop[of 34 p] conds(1) by (simp add: p1_def)
  also have "p1 = take s p1 @ p2" by (simp add: p2_def)
  also have "p2 = be16 n @ p3" using be16_read[OF conds(3)] by (simp add: n_def p3_def)
  also have "p3 = take n p3 @ p4" by (simp add: p4_def)
  also have "p4 = p4 ! 0 # p5" using conds(7) by (cases p4) (auto simp: p5_def)
  also have "p5 = take m p5 @ p6" by (simp add: p6_def)
  also have "p6 = be16 (length p7) @ p7" using be16_read[OF conds(10)] conds(11) by (simp add: p7_def)
  finally have "p = encode_hello c"
    using conds es(1) by (simp add: encode_hello_def c_def s_def m_def min_absorb2)
  moreover have "hello_wf h c"
    using conds es read_u16_less[of p2] read_u16_less[of p6] unat_byte_less[of "drop 34 p ! 0"] unat_byte_less[of "p4 ! 0"]
    by (simp add: hello_wf_def c_def n_def s_def m_def)
  ultimately show ?thesis by blast
qed

section \<open>Records\<close>

text \<open>A TLS record of the handshake type: its minor version and its fragment.\<close>

definition encode_record :: "byte \<times> bytes \<Rightarrow> bytes" where
  "encode_record r = [22, 3, fst r] @ be16 (length (snd r)) @ snd r"

definition encode_records :: "(byte \<times> bytes) list \<Rightarrow> bytes" where
  "encode_records rs = concat (map encode_record rs)"

definition fragments :: "(byte \<times> bytes) list \<Rightarrow> bytes" where
  "fragments rs = concat (map snd rs)"

definition gather_inv :: "bytes \<Rightarrow> nat \<Rightarrow> bool" where
  "gather_inv hs n \<longleftrightarrow> (if length hs < 4 then n = 4
     else hs ! 0 = 1 \<and> n = read_u24 (drop 1 hs) + 4 \<and> n \<le> EGRESS_HANDSHAKE_MAX)"

lemma split_three: "3 \<le> length bs \<Longrightarrow> bs = bs ! 0 # bs ! 1 # bs ! 2 # drop 3 bs"
  by (intro nth_equalityI) (auto simp: nth_Cons numeral_3_eq_3 numeral_2_eq_2 split: nat.splits)

lemma gather_round_Inr:
  assumes "gather_round bs hs n = Inr (l, hs', n')" "gather_inv hs n"
  shows "\<exists>r. length (snd r) = l \<and> bs = encode_record r @ drop (5 + l) bs \<and> hs' = hs @ snd r \<and>
    snd r \<noteq> [] \<and> gather_inv hs' n'"
proof -
  let ?r = "(bs ! 2, take l (drop 5 bs))"
  have bs: "5 \<le> length bs" "bs ! 0 = 22" "bs ! 1 = 3" and l: "l = read_u16 (drop 3 bs)" "0 < l"
    "l \<le> length bs - 5" and hs': "hs' = hs @ take l (drop 5 bs)" and nr: "next_record bs = Inr l"
    using gather_round_Inr_next[OF assms(1)] by (simp_all add: next_record_Inr)
  have inv: "gather_inv hs' n'"
    using assms unfolding gather_round_def nr sum.case Let_def hs'[symmetric]
    by (auto simp: gather_inv_def hs' split: if_splits)
  have "bs = bs ! 0 # bs ! 1 # bs ! 2 # drop 3 bs" using bs(1) by (intro split_three) simp
  also have "drop 3 bs = be16 l @ drop 5 bs" using be16_read[of "drop 3 bs"] bs(1) l by simp
  also have "drop 5 bs = take l (drop 5 bs) @ drop (5 + l) bs"
    by (metis append_take_drop_id drop_drop add.commute)
  finally have "bs = encode_record ?r @ drop (5 + l) bs"
    using bs l by (simp add: encode_record_def min_absorb2)
  with l hs' inv bs show ?thesis by (intro exI[of _ ?r]) auto
qed

lemma gather_round_not_done: "gather_round bs hs n \<noteq> Inl (Gather_done H N)"
  by (auto simp: gather_round_def next_record_def Let_def split: sum.splits if_splits)

lemma gather_records_done:
  "gather_records bs hs n = Gather_done H N \<Longrightarrow> gather_inv hs n \<Longrightarrow>
   \<exists>rs rest. bs = encode_records rs @ rest \<and> H = hs @ fragments rs \<and> N \<le> length H \<and> gather_inv H N"
proof (induction bs hs n rule: gather_records.induct)
  case (1 bs hs n)
  show ?case
  proof (cases "n \<le> length hs")
    case True
    then have "H = hs" "N = n" using "1.prems"(1) by (auto simp: gather_records.simps[of bs])
    with True "1.prems"(2) show ?thesis
      by (intro exI[of _ "[]"] exI[of _ bs]) (simp add: encode_records_def fragments_def)
  next
    case False
    with "1.prems"(1) obtain l hs' n' where round: "gather_round bs hs n = Inr (l, hs', n')"
      and rest: "gather_records (drop (5 + l) bs) hs' n' = Gather_done H N"
      using gather_round_not_done[of bs hs n] by (subst (asm) gather_records.simps) (auto split: sum.splits)
    from gather_round_Inr[OF round "1.prems"(2)] obtain r where r: "bs = encode_record r @ drop (5 + l) bs"
      "hs' = hs @ snd r" "gather_inv hs' n'" by (elim exE conjE)
    from "1.IH"[OF False round refl refl rest r(3)] obtain rs rest'
      where "drop (5 + l) bs = encode_records rs @ rest'" "H = hs' @ fragments rs" "N \<le> length H" "gather_inv H N"
      by (elim exE conjE)
    with r show ?thesis
      by (intro exI[of _ "r # rs"] exI[of _ rest']) (simp add: encode_records_def fragments_def)
  qed
qed

text \<open>The handshake message that carries a ClientHello, and the header a prefix of it shows.\<close>

definition hello_message :: "client_hello \<Rightarrow> bytes" where
  "hello_message c = 1 # be24 (length (encode_hello c)) @ encode_hello c"

lemma hello_message_prefix:
  assumes "hs @ xs = hello_message c" "length (hello_message c) \<le> EGRESS_HANDSHAKE_MAX"
  shows "gather_inv hs (if length hs < 4 then 4 else length (hello_message c))"
proof (cases "length hs < 4")
  case False
  then have "hs ! 0 = hello_message c ! 0" "read_u24 (drop 1 hs) = read_u24 (drop 1 (hello_message c))"
    using read_u24_append[of "drop 1 hs" xs] by (auto simp: assms(1)[symmetric] nth_append)
  moreover have "length (encode_hello c) < 16777216"
    using assms(2) by (simp add: hello_message_def EGRESS_HANDSHAKE_MAX_def)
  ultimately show ?thesis
    using False assms(2) by (simp add: gather_inv_def hello_message_def)
qed (simp add: gather_inv_def)

lemma gather_inv_unique: "gather_inv hs n \<Longrightarrow> gather_inv hs m \<Longrightarrow> n = m"
  by (auto simp: gather_inv_def split: if_splits)

lemma next_record_encode:
  "snd r \<noteq> [] \<Longrightarrow> length (snd r) \<le> EGRESS_HANDSHAKE_MAX \<Longrightarrow>
   next_record (encode_record r @ rest) = Inr (length (snd r))"
  by (auto simp: next_record_Inr encode_record_def EGRESS_HANDSHAKE_MAX_def)

lemma gather_round_encode:
  assumes "snd r \<noteq> []" "hs @ snd r @ xs = hello_message c" "length (hello_message c) \<le> EGRESS_HANDSHAKE_MAX"
    "gather_inv hs n"
  shows "gather_round (encode_record r @ rest) hs n =
    Inr (length (snd r), hs @ snd r, if length (hs @ snd r) < 4 then 4 else length (hello_message c))"
proof -
  have len: "length hs + length (snd r) \<le> EGRESS_HANDSHAKE_MAX"
    using assms(2,3) by (metis append_assoc le_trans length_append le_add1)
  have "drop 5 (encode_record r @ rest) = snd r @ rest" by (simp add: encode_record_def be16_def)
  moreover have "gather_inv (hs @ snd r) (if length (hs @ snd r) < 4 then 4 else length (hello_message c))"
    using assms(2,3) by (intro hello_message_prefix[of _ xs]) auto
  ultimately show ?thesis
    using assms len next_record_encode[of r rest]
    by (auto simp: gather_round_def gather_inv_def Let_def EGRESS_HANDSHAKE_MAX_def simp del: drop_append
        split: if_splits)
qed

lemma gather_records_encode:
  "list_all (\<lambda>r. snd r \<noteq> []) rs \<Longrightarrow> hs @ fragments rs = hello_message c \<Longrightarrow>
   length (hello_message c) \<le> EGRESS_HANDSHAKE_MAX \<Longrightarrow> gather_inv hs n \<Longrightarrow>
   gather_records (encode_records rs @ rest) hs n = Gather_done (hello_message c) (length (hello_message c))"
proof (induction rs arbitrary: hs n)
  case Nil
  then have hs: "hs = hello_message c" by (simp add: fragments_def)
  then have "n = length (hello_message c)"
    using hello_message_prefix[of hs "[]" c] gather_inv_unique[OF Nil(4)] Nil(3)
    by (simp add: hello_message_def)
  with hs show ?case by (simp add: gather_records.simps)
next
  case (Cons r rs)
  have step: "(hs @ snd r) @ fragments rs = hello_message c" "hs @ snd r @ fragments rs = hello_message c"
    using Cons.prems(2) by (simp_all add: fragments_def)
  let ?n = "if length (hs @ snd r) < 4 then 4 else length (hello_message c)"
  have n: "n = (if length hs < 4 then 4 else length (hello_message c))"
    using hello_message_prefix[OF step(2) Cons.prems(3)] gather_inv_unique[OF Cons.prems(4)] by blast
  have nonempty: "snd r \<noteq> []" using Cons.prems(1) by simp
  then have "length hs < length (hello_message c)"
    by (subst step(2)[symmetric]) simp
  with n have more_needed: "\<not> n \<le> length hs" by (simp split: if_splits)
  have IH: "gather_records (encode_records rs @ rest) (hs @ snd r) ?n =
      Gather_done (hello_message c) (length (hello_message c))"
    using Cons.prems(1) hello_message_prefix[OF step(1) Cons.prems(3)]
    by (intro Cons.IH[OF _ step(1) Cons.prems(3)]) auto
  have "drop (5 + length (snd r)) (encode_record r @ encode_records rs @ rest) = encode_records rs @ rest"
    unfolding drop_drop[symmetric] add.commute[of 5] by (simp add: encode_record_def be16_def)
  with IH more_needed gather_round_encode[OF nonempty step(2) Cons.prems(3,4), of "encode_records rs @ rest"]
  show ?case
    by (subst gather_records.simps) (simp add: encode_records_def)
qed

lemma encoded_records_match:
  assumes "hello_wf h c" "length (hello_message c) \<le> EGRESS_HANDSHAKE_MAX"
    "list_all (\<lambda>r. snd r \<noteq> []) rs" "fragments rs = hello_message c"
  shows "egress_tls_client_hello_matches (Some (encode_records rs @ rest)) (Some h) = Hello_match"
proof -
  have "gather_inv [] 4" by (simp add: gather_inv_def)
  from gather_records_encode[OF assms(3) _ assms(2) this, of rest] assms(4)
  have "gather_records (encode_records rs @ rest) [] 4 =
      Gather_done (hello_message c) (length (hello_message c))" by simp
  moreover have "drop 4 (hello_message c) = encode_hello c" "length (hello_message c) - 4 = length (encode_hello c)"
    by (simp_all add: hello_message_def be24_def)
  ultimately show ?thesis
    using hello_body_encode[OF assms(1)] unfolding egress_tls_client_hello_matches_def by simp
qed

text \<open>An example: a ClientHello for \<^verbatim>\<open>a.io\<close>, sent in two records as \<^verbatim>\<open>A.io\<close>.\<close>

definition demo_hello_host :: bytes where
  "demo_hello_host = [97, 46, 105, 111]"

definition demo_hello :: client_hello where
  "demo_hello = \<lparr>hello_fixed = replicate 34 3, hello_session = [], hello_ciphers = [19, 1],
     hello_compression = [0], hello_extension_list = [(43, [2, 3, 4]), (0, encode_sni [65, 46, 105, 111])]\<rparr>"

definition demo_records :: "(byte \<times> bytes) list" where
  "demo_records = [(1, take 3 (hello_message demo_hello)), (3, drop 3 (hello_message demo_hello))]"

lemma demo_canonical: "egress_canonical_host (Some [65, 46, 105, 111]) = Some demo_hello_host"
  by code_simp

lemma demo_hello_wf: "hello_wf demo_hello_host demo_hello"
proof -
  have "names_host demo_hello_host (encode_sni [65, 46, 105, 111])"
    using demo_canonical by (auto simp: names_host_def EGRESS_MAX_HOST_def intro!: exI[of _ "[65, 46, 105, 111]"])
  then show ?thesis
    by (simp add: hello_wf_def demo_hello_def extensions_ok_def extension_wf_def encode_extensions_def
        encode_extension_def encode_sni_def)
qed

lemma demo_records_fragments:
  "list_all (\<lambda>r. snd r \<noteq> []) demo_records" "fragments demo_records = hello_message demo_hello"
  "length (hello_message demo_hello) \<le> EGRESS_HANDSHAKE_MAX"
  by (simp_all add: demo_records_def fragments_def)
    (simp_all add: hello_message_def encode_hello_def demo_hello_def encode_extensions_def encode_extension_def
      encode_sni_def EGRESS_HANDSHAKE_MAX_def)

lemma hello_match_sound:
  assumes "egress_tls_client_hello_matches (Some bs) (Some h) = Hello_match"
  shows "\<exists>rs rest c trailing. bs = encode_records rs @ rest \<and> fragments rs = hello_message c @ trailing \<and>
    hello_wf h c"
proof -
  from assms obtain H N where gathered: "gather_records bs [] 4 = Gather_done H N"
    and body: "hello_body h (take (N - 4) (drop 4 H)) = Hello_match"
    by (auto simp: egress_tls_client_hello_matches_def split: gather_result.splits)
  from gather_records_done[OF gathered] obtain rs rest where rs: "bs = encode_records rs @ rest"
    "H = fragments rs" "N \<le> length H" "gather_inv H N" by (auto simp: gather_inv_def)
  from hello_body_match[OF body] obtain c where c: "take (N - 4) (drop 4 H) = encode_hello c" "hello_wf h c"
    by blast
  have len: "4 \<le> length H" "H ! 0 = 1" "N = read_u24 (drop 1 H) + 4"
    using rs(3,4) by (auto simp: gather_inv_def split: if_splits)
  then have "length (encode_hello c) = read_u24 (drop 1 H)"
    using rs(3) arg_cong[OF c(1), of length] by simp
  then have "drop 1 H = be24 (length (encode_hello c)) @ drop 4 H"
    using be24_read[of "drop 1 H"] len(1) by simp
  moreover have "drop 4 H = encode_hello c @ drop N H"
    using c(1) len append_take_drop_id[of "N - 4" "drop 4 H"] by simp
  ultimately have "H = hello_message c @ drop N H"
    using len by (cases H) (simp_all add: hello_message_def)
  with rs c(2) show ?thesis by blast
qed

section \<open>Properties\<close>

text \<open>C21: A first flight that passes is a sequence of TLS handshake records carrying a well-formed
  ClientHello that names the destination: exactly one server_name extension, exactly one DNS name
  in it, canonically equal to the sealed host, and no Encrypted ClientHello extension.\<close>
theorem client_hello_sound:
  assumes "egress_tls_client_hello_matches (Some bs) (Some h) = Hello_match"
  shows "\<exists>rs rest c trailing. bs = encode_records rs @ rest \<and> fragments rs = hello_message c @ trailing \<and>
    hello_wf h c"
  using assms by (rule hello_match_sound)

theorem client_hello_sound_witness:
  "egress_tls_client_hello_matches (Some (encode_records demo_records)) (Some demo_hello_host) = Hello_match \<and>
   (\<exists>rs rest c trailing. encode_records demo_records = encode_records rs @ rest \<and>
      fragments rs = hello_message c @ trailing \<and> hello_wf demo_hello_host c)"
proof -
  have matches: "egress_tls_client_hello_matches (Some (encode_records demo_records)) (Some demo_hello_host) = Hello_match"
    using encoded_records_match[OF demo_hello_wf demo_records_fragments(3,1,2), of "[]"] by simp
  with client_hello_sound[OF matches] show ?thesis by blast
qed

text \<open>C22: Every well-formed ClientHello that names the destination passes, however it is split in
  records and whatever follows it, as long as it fits the handshake bound.\<close>
theorem client_hello_complete:
  assumes "hello_wf h c" "length (hello_message c) \<le> EGRESS_HANDSHAKE_MAX"
    "list_all (\<lambda>r. snd r \<noteq> []) rs" "fragments rs = hello_message c"
  shows "egress_tls_client_hello_matches (Some (encode_records rs @ rest)) (Some h) = Hello_match"
  using assms by (rule encoded_records_match)

theorem client_hello_complete_witness:
  "hello_wf demo_hello_host demo_hello \<and> fragments demo_records = hello_message demo_hello \<and>
   egress_tls_client_hello_matches (Some (encode_records demo_records @ [23])) (Some demo_hello_host) = Hello_match"
  using client_hello_complete[OF demo_hello_wf demo_records_fragments(3,1,2)] demo_hello_wf demo_records_fragments
  by blast

text \<open>C23: The answer the client gets does not depend on how the network segments its first
  flight: checking after every segment until the answer is not "incomplete" gives the answer for
  all the bytes at once.\<close>
theorem client_hello_segments:
  "hello.parse_segments h [] segments = egress_tls_client_hello_matches (Some (concat segments)) (Some h)"
  by (simp add: hello.parse_segments_concat)

end
