(* ===== verification/Egress_Receipt.thy ===== *)
theory Egress_Receipt
  imports Egress_Host
begin

text \<open>
  Receipts: the structures of \<^verbatim>\<open>src/src/internal.h\<close>, the accessors of \<^verbatim>\<open>src/src/config.c\<close> and the
  canonical encoding of \<^verbatim>\<open>src/src/core/receipt.c\<close>, which the attestor signs and the audit journal
  records. The encoding is shown to fit its buffer and to determine every field it prints.
\<close>

section \<open>Structures\<close>

record egress_receipt =
  receipt_id :: u64
  receipt_protocol :: egress_protocol
  receipt_host :: bytes
  receipt_port :: u16
  receipt_result :: egress_result
  started_unix_ms :: u64
  duration_ms :: u64
  bytes_from_client :: u64
  bytes_to_client :: u64
  receipt_quota_scope :: quota_scope
  quota_connection_max_bytes :: u64
  quota_execution_max_bytes :: u64
  quota_connection_observed_bytes :: u64
  quota_execution_before_bytes :: u64
  quota_execution_after_bytes :: u64
  policy_digest_hex :: bytes
  receipt_invocation_id :: bytes
  tls_sni_verified :: bool
  receipt_principal :: bytes
  policy_generation :: u64
  receipt_attestor :: bytes
  attestation_key_id :: bytes
  attestation_hex :: bytes
  upstream_address :: bytes

record egress_metrics =
  metric_accepted :: u64
  metric_active :: u64
  metric_admitted :: u64
  metric_denied :: u64
  metric_auth_failures :: u64
  metric_quota_denials :: u64
  metric_bytes_from_clients :: u64
  metric_bytes_to_clients :: u64
  metric_receipts :: u64
  metric_policy_generation :: u64
  metric_reload_failures :: u64
  metric_audit_failures :: u64

section \<open>Accessors\<close>

text \<open>A NULL handle yields the default; an empty optional string yields NULL.\<close>

abbreviation receipt_get :: "'a \<Rightarrow> (egress_receipt \<Rightarrow> 'a) \<Rightarrow> egress_receipt option \<Rightarrow> 'a" where
  "receipt_get z f receipt \<equiv> (case receipt of None \<Rightarrow> z | Some r \<Rightarrow> f r)"

abbreviation nonempty :: "bytes \<Rightarrow> bytes option" where
  "nonempty s \<equiv> (if s = [] then None else Some s)"

definition maelys_egress_receipt_id :: "egress_receipt option \<Rightarrow> u64" where
  "maelys_egress_receipt_id receipt = receipt_get 0 (\<lambda>r. receipt_id r) receipt"

definition maelys_egress_receipt_protocol :: "egress_receipt option \<Rightarrow> egress_protocol" where
  "maelys_egress_receipt_protocol receipt = receipt_get PROTOCOL_NONE (\<lambda>r. receipt_protocol r) receipt"

definition maelys_egress_receipt_host :: "egress_receipt option \<Rightarrow> bytes option" where
  "maelys_egress_receipt_host receipt = receipt_get None (\<lambda>r. Some (receipt_host r)) receipt"

definition maelys_egress_receipt_port :: "egress_receipt option \<Rightarrow> u16" where
  "maelys_egress_receipt_port receipt = receipt_get 0 (\<lambda>r. receipt_port r) receipt"

definition maelys_egress_receipt_result :: "egress_receipt option \<Rightarrow> egress_result" where
  "maelys_egress_receipt_result receipt = receipt_get ERR_ARGUMENT (\<lambda>r. receipt_result r) receipt"

definition maelys_egress_receipt_started_unix_ms :: "egress_receipt option \<Rightarrow> u64" where
  "maelys_egress_receipt_started_unix_ms receipt = receipt_get 0 (\<lambda>r. started_unix_ms r) receipt"

definition maelys_egress_receipt_duration_ms :: "egress_receipt option \<Rightarrow> u64" where
  "maelys_egress_receipt_duration_ms receipt = receipt_get 0 (\<lambda>r. duration_ms r) receipt"

definition maelys_egress_receipt_bytes_from_client :: "egress_receipt option \<Rightarrow> u64" where
  "maelys_egress_receipt_bytes_from_client receipt = receipt_get 0 (\<lambda>r. bytes_from_client r) receipt"

definition maelys_egress_receipt_bytes_to_client :: "egress_receipt option \<Rightarrow> u64" where
  "maelys_egress_receipt_bytes_to_client receipt = receipt_get 0 (\<lambda>r. bytes_to_client r) receipt"

definition maelys_egress_receipt_policy_digest_hex :: "egress_receipt option \<Rightarrow> bytes option" where
  "maelys_egress_receipt_policy_digest_hex receipt = receipt_get None (\<lambda>r. Some (policy_digest_hex r)) receipt"

definition maelys_egress_receipt_invocation_id :: "egress_receipt option \<Rightarrow> bytes option" where
  "maelys_egress_receipt_invocation_id receipt = receipt_get None (\<lambda>r. nonempty (receipt_invocation_id r)) receipt"

definition maelys_egress_receipt_tls_sni_verified :: "egress_receipt option \<Rightarrow> bool" where
  "maelys_egress_receipt_tls_sni_verified receipt = receipt_get False (\<lambda>r. tls_sni_verified r) receipt"

definition maelys_egress_receipt_principal :: "egress_receipt option \<Rightarrow> bytes option" where
  "maelys_egress_receipt_principal receipt = receipt_get None (\<lambda>r. nonempty (receipt_principal r)) receipt"

definition maelys_egress_receipt_policy_generation :: "egress_receipt option \<Rightarrow> u64" where
  "maelys_egress_receipt_policy_generation receipt = receipt_get 0 (\<lambda>r. policy_generation r) receipt"

definition maelys_egress_receipt_attestor :: "egress_receipt option \<Rightarrow> bytes option" where
  "maelys_egress_receipt_attestor receipt = receipt_get None (\<lambda>r. nonempty (receipt_attestor r)) receipt"

definition maelys_egress_receipt_attestation_key_id :: "egress_receipt option \<Rightarrow> bytes option" where
  "maelys_egress_receipt_attestation_key_id receipt = receipt_get None (\<lambda>r. nonempty (attestation_key_id r)) receipt"

definition maelys_egress_receipt_attestation_hex :: "egress_receipt option \<Rightarrow> bytes option" where
  "maelys_egress_receipt_attestation_hex receipt = receipt_get None (\<lambda>r. nonempty (attestation_hex r)) receipt"

definition maelys_egress_receipt_quota_scope :: "egress_receipt option \<Rightarrow> quota_scope" where
  "maelys_egress_receipt_quota_scope receipt = receipt_get QUOTA_NONE (\<lambda>r. receipt_quota_scope r) receipt"

definition maelys_egress_receipt_quota_connection_max_bytes :: "egress_receipt option \<Rightarrow> u64" where
  "maelys_egress_receipt_quota_connection_max_bytes receipt = receipt_get 0 (\<lambda>r. quota_connection_max_bytes r) receipt"

definition maelys_egress_receipt_quota_execution_max_bytes :: "egress_receipt option \<Rightarrow> u64" where
  "maelys_egress_receipt_quota_execution_max_bytes receipt = receipt_get 0 (\<lambda>r. quota_execution_max_bytes r) receipt"

definition maelys_egress_receipt_quota_connection_observed_bytes :: "egress_receipt option \<Rightarrow> u64" where
  "maelys_egress_receipt_quota_connection_observed_bytes receipt = receipt_get 0 (\<lambda>r. quota_connection_observed_bytes r) receipt"

definition maelys_egress_receipt_quota_execution_before_bytes :: "egress_receipt option \<Rightarrow> u64" where
  "maelys_egress_receipt_quota_execution_before_bytes receipt = receipt_get 0 (\<lambda>r. quota_execution_before_bytes r) receipt"

definition maelys_egress_receipt_quota_execution_after_bytes :: "egress_receipt option \<Rightarrow> u64" where
  "maelys_egress_receipt_quota_execution_after_bytes receipt = receipt_get 0 (\<lambda>r. quota_execution_after_bytes r) receipt"

definition maelys_egress_receipt_upstream_address :: "egress_receipt option \<Rightarrow> bytes option" where
  "maelys_egress_receipt_upstream_address receipt = receipt_get None (\<lambda>r. nonempty (upstream_address r)) receipt"

abbreviation metric_get :: "(egress_metrics \<Rightarrow> u64) \<Rightarrow> egress_metrics option \<Rightarrow> u64" where
  "metric_get f metrics \<equiv> (case metrics of None \<Rightarrow> 0 | Some m \<Rightarrow> f m)"

definition maelys_egress_metrics_accepted :: "egress_metrics option \<Rightarrow> u64" where
  "maelys_egress_metrics_accepted metrics = metric_get metric_accepted metrics"

definition maelys_egress_metrics_active :: "egress_metrics option \<Rightarrow> u64" where
  "maelys_egress_metrics_active metrics = metric_get metric_active metrics"

definition maelys_egress_metrics_admitted :: "egress_metrics option \<Rightarrow> u64" where
  "maelys_egress_metrics_admitted metrics = metric_get metric_admitted metrics"

definition maelys_egress_metrics_denied :: "egress_metrics option \<Rightarrow> u64" where
  "maelys_egress_metrics_denied metrics = metric_get metric_denied metrics"

definition maelys_egress_metrics_auth_failures :: "egress_metrics option \<Rightarrow> u64" where
  "maelys_egress_metrics_auth_failures metrics = metric_get metric_auth_failures metrics"

definition maelys_egress_metrics_quota_denials :: "egress_metrics option \<Rightarrow> u64" where
  "maelys_egress_metrics_quota_denials metrics = metric_get metric_quota_denials metrics"

definition maelys_egress_metrics_bytes_from_clients :: "egress_metrics option \<Rightarrow> u64" where
  "maelys_egress_metrics_bytes_from_clients metrics = metric_get metric_bytes_from_clients metrics"

definition maelys_egress_metrics_bytes_to_clients :: "egress_metrics option \<Rightarrow> u64" where
  "maelys_egress_metrics_bytes_to_clients metrics = metric_get metric_bytes_to_clients metrics"

definition maelys_egress_metrics_receipts :: "egress_metrics option \<Rightarrow> u64" where
  "maelys_egress_metrics_receipts metrics = metric_get metric_receipts metrics"

definition maelys_egress_metrics_policy_generation :: "egress_metrics option \<Rightarrow> u64" where
  "maelys_egress_metrics_policy_generation metrics = metric_get metric_policy_generation metrics"

definition maelys_egress_metrics_reload_failures :: "egress_metrics option \<Rightarrow> u64" where
  "maelys_egress_metrics_reload_failures metrics = metric_get metric_reload_failures metrics"

definition maelys_egress_metrics_audit_failures :: "egress_metrics option \<Rightarrow> u64" where
  "maelys_egress_metrics_audit_failures metrics = metric_get metric_audit_failures metrics"

section \<open>The canonical encoding\<close>

text \<open>The values of the enumerations.\<close>

fun protocol_code :: "egress_protocol \<Rightarrow> nat" where
  "protocol_code PROTOCOL_NONE = 0"
| "protocol_code PROTOCOL_HTTP_CONNECT = 1"
| "protocol_code PROTOCOL_HTTP_FORWARD = 2"
| "protocol_code PROTOCOL_SOCKS5 = 3"
| "protocol_code PROTOCOL_CONNECTOR = 4"

fun result_code :: "egress_result \<Rightarrow> nat" where
  "result_code EGRESS_OK = 0"
| "result_code ERR_ARGUMENT = 1"
| "result_code ERR_MEMORY = 2"
| "result_code ERR_STATE = 3"
| "result_code ERR_IO = 4"
| "result_code ERR_DENIED = 5"
| "result_code ERR_PROTOCOL = 6"
| "result_code ERR_TIMEOUT = 7"
| "result_code ERR_CANCELLED = 8"
| "result_code ERR_UNSUPPORTED = 9"
| "result_code ERR_CRYPTO = 10"

fun scope_code :: "quota_scope \<Rightarrow> nat" where
  "scope_code QUOTA_NONE = 0"
| "scope_code QUOTA_ACTIVE_CONNECTIONS = 1"
| "scope_code QUOTA_CONNECTION_BYTES = 2"
| "scope_code QUOTA_EXECUTION_BYTES = 3"

text \<open>The pieces of the format string with the value printed after each.\<close>

definition canonical_labels :: "string list" where
  "canonical_labels = [''id='',
     ''|principal='',
     ''|invocation='',
     ''|protocol='',
     ''|host='',
     ''|port='',
     ''|result='',
     ''|started='',
     ''|duration='',
     ''|from='',
     ''|to='',
     ''|policy='',
     ''|generation='',
     ''|sni='',
     ''|quota-scope='',
     ''|quota-connection-max='',
     ''|quota-execution-max='',
     ''|quota-connection-observed='',
     ''|quota-execution-before='',
     ''|quota-execution-after='',
     ''|address='']"

definition canonical_values :: "egress_receipt \<Rightarrow> bytes list" where
  "canonical_values r = [
     dec (unat (receipt_id r)),
     receipt_principal r,
     receipt_invocation_id r,
     dec (protocol_code (receipt_protocol r)),
     receipt_host r,
     dec (unat (receipt_port r)),
     dec (result_code (receipt_result r)),
     dec (unat (started_unix_ms r)),
     dec (unat (duration_ms r)),
     dec (unat (bytes_from_client r)),
     dec (unat (bytes_to_client r)),
     policy_digest_hex r,
     dec (unat (policy_generation r)),
     dec (if tls_sni_verified r then 1 else 0),
     dec (scope_code (receipt_quota_scope r)),
     dec (unat (quota_connection_max_bytes r)),
     dec (unat (quota_execution_max_bytes r)),
     dec (unat (quota_connection_observed_bytes r)),
     dec (unat (quota_execution_before_bytes r)),
     dec (unat (quota_execution_after_bytes r)),
     upstream_address r]"

definition labelled :: "string list \<Rightarrow> bytes list \<Rightarrow> bytes" where
  "labelled ls vs = concat (map2 (\<lambda>l v. cstr l @ v) ls vs)"

text \<open>The C function returns the length of the text, or -1; the model returns the text.\<close>

definition egress_receipt_canonical :: "egress_receipt option \<Rightarrow> nat \<Rightarrow> bytes option" where
  "egress_receipt_canonical receipt capacity =
     (case receipt of
        None \<Rightarrow> None
      | Some r \<Rightarrow>
          if capacity = 0 then None
          else
            let text = labelled canonical_labels (canonical_values r) in
            if capacity \<le> length text then None else Some text)"

section \<open>Bounds and injectivity\<close>

text \<open>What the code that fills a receipt guarantees of its strings: their bounds and no separator.\<close>

definition receipt_wf :: "egress_receipt \<Rightarrow> bool" where
  "receipt_wf r \<longleftrightarrow>
     length (receipt_principal r) \<le> 63 \<and> length (receipt_invocation_id r) \<le> 127 \<and>
     length (receipt_host r) \<le> 253 \<and> length (policy_digest_hex r) \<le> 64 \<and> length (upstream_address r) \<le> 45 \<and>
     (\<forall>s\<in>{receipt_principal r, receipt_invocation_id r, receipt_host r, policy_digest_hex r, upstream_address r}.
        ch (CHR ''|'') \<notin> set s)"

lemma labelled_simps [simp]:
  "labelled [] vs = []"
  "labelled ls [] = []"
  "labelled (l # ls) (v # vs) = cstr l @ v @ labelled ls vs"
  by (simp_all add: labelled_def)

lemma dec_u64_length: "length (dec (unat (n :: u64))) \<le> 20"
  using unsigned_less[where 'a = nat, of n] by (intro length_dec) simp_all

lemma dec_u16_length: "length (dec (unat (n :: u16))) \<le> 5"
  using unsigned_less[where 'a = nat, of n] by (intro length_dec) simp_all

lemma dec_code_length:
  "length (dec (protocol_code p)) \<le> 1" "length (dec (result_code e)) \<le> 2" "length (dec (scope_code q)) \<le> 1"
  by (cases p; cases e; cases q; intro length_dec; simp)+

lemma canonical_length:
  assumes "receipt_wf r"
  shows "length (labelled canonical_labels (canonical_values r)) \<le> 1060"
proof -
  note u64 = dec_u64_length[of "receipt_id r"] dec_u64_length[of "started_unix_ms r"]
    dec_u64_length[of "duration_ms r"] dec_u64_length[of "bytes_from_client r"]
    dec_u64_length[of "bytes_to_client r"] dec_u64_length[of "policy_generation r"]
    dec_u64_length[of "quota_connection_max_bytes r"] dec_u64_length[of "quota_execution_max_bytes r"]
    dec_u64_length[of "quota_connection_observed_bytes r"] dec_u64_length[of "quota_execution_before_bytes r"]
    dec_u64_length[of "quota_execution_after_bytes r"]
  have "length (dec (if tls_sni_verified r then 1 else 0)) \<le> 1" by (intro length_dec) auto
  with u64 dec_u16_length[of "receipt_port r"] dec_code_length(1)[of "receipt_protocol r"]
    dec_code_length(2)[of "receipt_result r"] dec_code_length(3)[of "receipt_quota_scope r"] assms
  show ?thesis
    by (simp add: canonical_labels_def canonical_values_def receipt_wf_def)
qed

text \<open>Values without the separator are determined by the text, when every label starts with it.\<close>

definition bar_labels :: "string list \<Rightarrow> bool" where
  "bar_labels ls \<longleftrightarrow> list_all (\<lambda>l. l \<noteq> [] \<and> hd l = CHR ''|'') ls"

definition bar_free :: "bytes \<Rightarrow> bool" where
  "bar_free s \<longleftrightarrow> ch (CHR ''|'') \<notin> set s"

lemma takeWhile_value:
  assumes "bar_free v" "bar_labels ls"
  shows "takeWhile (\<lambda>b. b \<noteq> ch (CHR ''|'')) (v @ labelled ls vs) = v"
proof -
  have "takeWhile (\<lambda>b. b \<noteq> ch (CHR ''|'')) (labelled ls vs) = []"
  proof (cases ls)
    case (Cons l ls')
    with assms(2) obtain l' where "l = CHR ''|'' # l'" by (cases l) (auto simp: bar_labels_def)
    with Cons show ?thesis by (cases vs) simp_all
  qed simp
  with assms(1) show ?thesis
    by (subst takeWhile_append2) (auto simp: bar_free_def)
qed

lemma labelled_inject:
  "length vs = length ls \<Longrightarrow> length ws = length ls \<Longrightarrow> bar_labels (tl ls) \<Longrightarrow>
   list_all bar_free vs \<Longrightarrow> list_all bar_free ws \<Longrightarrow>
   labelled ls vs = labelled ls ws \<Longrightarrow> vs = ws"
proof (induction ls arbitrary: vs ws)
  case (Cons l ls)
  from Cons.prems obtain v vs' w ws' where vs: "vs = v # vs'" and ws: "ws = w # ws'"
    by (cases vs; cases ws) auto
  have eq: "v @ labelled ls vs' = w @ labelled ls ws'" using Cons.prems(6) vs ws by simp
  then have "takeWhile (\<lambda>b. b \<noteq> ch (CHR ''|'')) (v @ labelled ls vs') =
      takeWhile (\<lambda>b. b \<noteq> ch (CHR ''|'')) (w @ labelled ls ws')" by simp
  with Cons.prems(3-5) vs ws have "v = w" by (simp only: takeWhile_value list.pred_inject list.sel)
  moreover have "bar_labels (tl ls)" using Cons.prems(3) by (cases ls) (auto simp: bar_labels_def)
  then have "vs' = ws'" using Cons.prems vs ws eq \<open>v = w\<close> by (intro Cons.IH) auto
  ultimately show ?case using vs ws by simp
qed simp

lemma labelled_append:
  "length vs = length ls \<Longrightarrow> labelled (ls @ ls') (vs @ vs') = labelled ls vs @ labelled ls' vs'"
  by (simp add: labelled_def)

lemma bar_free_dec [simp]: "bar_free (dec n)"
proof -
  have "\<not> is_digit (ch (CHR ''|''))" by (simp add: is_digit_def)
  with dec_digits[of n] show ?thesis by (auto simp: bar_free_def list_all_iff)
qed

lemma canonical_values_bar_free: "receipt_wf r \<Longrightarrow> list_all bar_free (canonical_values r)"
  by (simp add: canonical_values_def) (simp add: receipt_wf_def bar_free_def)

lemma canonical_labels_bar [simp]: "bar_labels (tl canonical_labels)"
  by (simp add: canonical_labels_def bar_labels_def)

lemma canonical_counts [simp]: "length canonical_labels = 21" "length (canonical_values r) = 21"
  by (simp_all add: canonical_labels_def canonical_values_def)

text \<open>The receipt without the three attestation fields, which the canonical text leaves out.\<close>

definition attested_part :: "egress_receipt \<Rightarrow> egress_receipt" where
  "attested_part r = r\<lparr>receipt_attestor := [], attestation_key_id := [], attestation_hex := []\<rparr>"

lemma code_inject [simp]:
  "protocol_code p = protocol_code p' \<longleftrightarrow> p = p'"
  "result_code e = result_code e' \<longleftrightarrow> e = e'"
  "scope_code q = scope_code q' \<longleftrightarrow> q = q'"
proof -
  show "protocol_code p = protocol_code p' \<longleftrightarrow> p = p'" by (cases p; cases p') simp_all
  show "result_code e = result_code e' \<longleftrightarrow> e = e'" by (cases e; cases e') simp_all
  show "scope_code q = scope_code q' \<longleftrightarrow> q = q'" by (cases q; cases q') simp_all
qed

lemma canonical_values_inject:
  "canonical_values r = canonical_values r' \<Longrightarrow> attested_part r = attested_part r'"
  by (cases r; cases r') (auto simp: canonical_values_def attested_part_def word_unat_eq_iff[symmetric] split: if_splits)

text \<open>An example receipt, with a signature.\<close>

definition demo_receipt :: egress_receipt where
  "demo_receipt = \<lparr>receipt_id = 7, receipt_protocol = PROTOCOL_SOCKS5, receipt_host = cstr ''a.io'',
     receipt_port = 443, receipt_result = EGRESS_OK, started_unix_ms = 1700000000000, duration_ms = 25,
     bytes_from_client = 517, bytes_to_client = 4096, receipt_quota_scope = QUOTA_NONE,
     quota_connection_max_bytes = 0, quota_execution_max_bytes = 0, quota_connection_observed_bytes = 0,
     quota_execution_before_bytes = 0, quota_execution_after_bytes = 0, policy_digest_hex = replicate 64 48,
     receipt_invocation_id = cstr ''run/1'', tls_sni_verified = True, receipt_principal = cstr ''alice'',
     policy_generation = 1, receipt_attestor = cstr ''hsm'', attestation_key_id = cstr ''k1'',
     attestation_hex = cstr ''00ff'', upstream_address = cstr ''192.0.2.1''\<rparr>"

lemma demo_receipt_wf: "receipt_wf demo_receipt" "receipt_wf (attested_part demo_receipt)"
  by (simp_all add: receipt_wf_def demo_receipt_def attested_part_def)

lemma canonical_total:
  "receipt_wf r \<Longrightarrow> egress_receipt_canonical (Some r) 2048 = Some (labelled canonical_labels (canonical_values r))"
  using canonical_length by (fastforce simp: egress_receipt_canonical_def Let_def)

text \<open>C27: Two well-formed receipts with the same canonical encoding agree on every field the
  encoding covers: what the attestor signs determines the receipt.\<close>
theorem receipt_canonical_inject:
  assumes "receipt_wf r" "receipt_wf r'" "egress_receipt_canonical (Some r) n = Some text"
    "egress_receipt_canonical (Some r') n' = Some text"
  shows "attested_part r = attested_part r'"
proof -
  have "labelled canonical_labels (canonical_values r) = labelled canonical_labels (canonical_values r')"
    using assms(3,4) by (auto simp: egress_receipt_canonical_def Let_def split: if_splits)
  then have "canonical_values r = canonical_values r'"
    using canonical_values_bar_free[OF assms(1)] canonical_values_bar_free[OF assms(2)]
    by (intro labelled_inject[of _ canonical_labels]) simp_all
  then show ?thesis by (rule canonical_values_inject)
qed

theorem receipt_canonical_inject_witness:
  "\<exists>t. egress_receipt_canonical (Some demo_receipt) 2048 = Some t \<and>
     egress_receipt_canonical (Some (attested_part demo_receipt)) 2048 = Some t \<and>
     demo_receipt \<noteq> attested_part demo_receipt \<and>
     attested_part demo_receipt = attested_part (attested_part demo_receipt)"
proof -
  have "canonical_values (attested_part demo_receipt) = canonical_values demo_receipt"
    by (simp add: canonical_values_def attested_part_def)
  then obtain t where enc: "egress_receipt_canonical (Some demo_receipt) 2048 = Some t"
    "egress_receipt_canonical (Some (attested_part demo_receipt)) 2048 = Some t"
    using canonical_total[OF demo_receipt_wf(1)] canonical_total[OF demo_receipt_wf(2)] by simp
  have "demo_receipt \<noteq> attested_part demo_receipt"
    by (simp add: demo_receipt_def attested_part_def)
  with enc receipt_canonical_inject[OF demo_receipt_wf enc] show ?thesis by blast
qed

text \<open>The canonical encoding of a receipt whose strings respect their bounds takes at most
  1060 bytes, as the comment in the audit journal says, so encoding it in the 2048-byte buffers
  of the attestation and of the journal always succeeds.\<close>
theorem receipt_canonical_fits:
  assumes "receipt_wf r"
  shows "\<exists>text. egress_receipt_canonical (Some r) 2048 = Some text \<and> length text \<le> 1060"
  using canonical_length[OF assms] canonical_total[OF assms] by simp

theorem receipt_canonical_fits_witness:
  "receipt_wf demo_receipt \<and> (\<exists>text. egress_receipt_canonical (Some demo_receipt) 2048 = Some text \<and> length text \<le> 1060)"
  using receipt_canonical_fits[OF demo_receipt_wf(1)] demo_receipt_wf(1) by simp

end
