(* ===== verification/Egress_Shared.thy ===== *)
theory Egress_Shared
  imports Egress_Host "HOL-Library.Multiset"
begin

text \<open>
  Reference-counted objects: the TLS providers of \<^verbatim>\<open>src/src/core/tls.c\<close> and the receipt
  attestors of \<^verbatim>\<open>src/src/core/attestor.c\<close>. Objects live in a store from addresses to values,
  because a configuration and its callers share them; the store also lists the contexts whose
  release function was called, in order. The theory holds the contract that retain and release
  give their holders, which the audit journal implements too.
\<close>

section \<open>The contract of a shared object\<close>

type_synonym pointer = "nat option"

locale shared_object =
  fixes refs :: "'s \<Rightarrow> nat \<Rightarrow> u32 option"
    and retain :: "'s \<Rightarrow> nat option \<Rightarrow> 's"
    and release :: "'s \<Rightarrow> nat option \<Rightarrow> 's"
  assumes retain_null: "retain s None = s"
    and release_null: "release s None = s"
    and refs_retain: "refs (retain s (Some a)) b = (if a = b then map_option (\<lambda>n. n + 1) (refs s b) else refs s b)"
    and refs_release: "refs (release s (Some a)) b =
      (if a = b then (case refs s b of None \<Rightarrow> None | Some n \<Rightarrow> if n = 1 then None else Some (n - 1)) else refs s b)"
begin

text \<open>The counts are exact when they are the numbers of holders: an object without a holder is freed.\<close>

definition refcount :: "'s \<Rightarrow> nat \<Rightarrow> nat" where
  "refcount s a = (case refs s a of None \<Rightarrow> 0 | Some n \<Rightarrow> unat n)"

definition counted :: "'s \<Rightarrow> nat multiset \<Rightarrow> bool" where
  "counted s holders \<longleftrightarrow> (\<forall>a. refs s a \<noteq> Some 0 \<and> refcount s a = count holders a)"

definition swap :: "'s \<Rightarrow> nat option \<Rightarrow> nat option \<Rightarrow> 's" where
  "swap s old new = release (retain s new) old"

definition holder :: "nat option \<Rightarrow> nat multiset" where
  "holder p = (case p of None \<Rightarrow> {#} | Some a \<Rightarrow> {#a#})"

lemma counted_live: "counted s holders \<Longrightarrow> a \<in># holders \<longleftrightarrow> refs s a \<noteq> None"
  by (auto simp: counted_def refcount_def count_greater_zero_iff[symmetric] unat_gt_0[symmetric]
      simp del: count_greater_zero_iff unat_gt_0 split: option.splits dest!: spec[of _ a])

lemma counted_retain:
  assumes "counted s holders" "set_mset (holder p) \<subseteq> set_mset holders" "\<And>a. count holders a < 2 ^ 32 - 1"
  shows "counted (retain s p) (holders + holder p)"
proof (cases p)
  case (Some a)
  then obtain n where n: "refs s a = Some n" "unat n = count holders a"
    using assms(1,2) counted_live[OF assms(1), of a]
    by (auto simp: counted_def refcount_def holder_def dest!: spec[of _ a])
  have "unat n < 2 ^ 32 - 1" using n(2) assms(3)[of a] by simp
  then have "unat (n + 1) = Suc (count holders a)" using n(2) by (simp add: unat_word_ariths)
  moreover from this have "n + 1 \<noteq> 0" by auto
  ultimately show ?thesis
    using Some n assms(1) by (auto simp: counted_def refcount_def refs_retain holder_def split: option.splits)
qed (use assms in \<open>simp add: retain_null holder_def\<close>)

lemma counted_release:
  assumes "counted s holders"
  shows "counted (release s p) (holders - holder p)"
proof (cases p)
  case (Some a)
  have pred: "unat (n - 1) = unat n - 1" if "n \<noteq> 0" for n :: u32
    using that by (simp add: unat_sub word_le_nat_alt Suc_le_eq unat_gt_0)
  have "refs (release s p) b \<noteq> Some 0 \<and> refcount (release s p) b = count (holders - holder p) b" for b
    using spec[OF assms[unfolded counted_def], of b] Some pred[of "the (refs s b)"]
    by (auto simp: refcount_def refs_release holder_def split: option.splits)
  then show ?thesis by (simp add: counted_def)
qed (use assms in \<open>simp add: release_null holder_def\<close>)

text \<open>Handing a slot from one object to another: the new one is retained before the old one is released.\<close>

lemma counted_swap:
  assumes "counted s holders" "set_mset (holder new) \<subseteq> set_mset holders" "\<And>a. count holders a < 2 ^ 32 - 1"
  shows "counted (swap s old new) (holders + holder new - holder old)"
  unfolding swap_def by (intro counted_release counted_retain assms)

end

section \<open>Stores\<close>

text \<open>
  The store of one kind of object. Calling \<^verbatim>\<open>retain\<close> or \<^verbatim>\<open>release\<close> on an address that holds no
  object would be undefined behaviour; the model then leaves the store as it is.
\<close>

record 'o store =
  objects :: "nat \<Rightarrow> 'o option"
  released :: "pointer list"

definition put_object :: "'o store \<Rightarrow> nat \<Rightarrow> 'o option \<Rightarrow> 'o store" where
  "put_object s a v = s\<lparr>objects := (objects s)(a := v)\<rparr>"

lemma objects_put_object [simp]: "objects (put_object s a v) b = (if a = b then v else objects s b)"
  by (simp add: put_object_def)

section \<open>TLS providers\<close>

record tls_ops =
  abi_version :: u32
  ops_name :: "bytes option"
  ops_session_create :: pointer
  ops_handshake :: pointer
  ops_read :: pointer
  ops_write :: pointer
  ops_shutdown :: pointer
  ops_last_error :: pointer
  ops_session_release :: pointer

record tls_provider =
  provider_references :: u32
  provider_ops :: tls_ops
  provider_name :: bytes
  provider_context :: pointer
  provider_release_context :: pointer

definition MAELYS_EGRESS_TLS_ABI_VERSION :: u32 where
  "MAELYS_EGRESS_TLS_ABI_VERSION = 1"

definition visible_ascii :: "byte \<Rightarrow> bool" where
  "visible_ascii b \<longleftrightarrow> 0x21 \<le> b \<and> b \<le> 0x7e"

text \<open>The outcomes of \<^verbatim>\<open>calloc\<close> and \<^verbatim>\<open>strdup\<close> are arguments.\<close>

definition maelys_egress_tls_provider_create ::
  "bool \<Rightarrow> bool \<Rightarrow> tls_ops option \<Rightarrow> pointer \<Rightarrow> pointer \<Rightarrow> egress_result \<times> tls_provider option" where
  "maelys_egress_tls_provider_create calloc_ok strdup_ok ops_pointer context release_context =
     (case ops_pointer of
        None \<Rightarrow> (ERR_ARGUMENT, None)
      | Some ops \<Rightarrow>
          (case ops_name ops of
             None \<Rightarrow> (ERR_ARGUMENT, None)
           | Some name \<Rightarrow>
               if name = [] \<or> 63 < length name then (ERR_ARGUMENT, None)
               else if \<not> list_all visible_ascii name then (ERR_ARGUMENT, None)
               else if abi_version ops \<noteq> MAELYS_EGRESS_TLS_ABI_VERSION then (ERR_UNSUPPORTED, None)
               else if ops_session_create ops = None \<or> ops_handshake ops = None \<or> ops_read ops = None \<or>
                 ops_write ops = None \<or> ops_shutdown ops = None \<or> ops_last_error ops = None \<or>
                 ops_session_release ops = None then (ERR_ARGUMENT, None)
               else if \<not> calloc_ok then (ERR_MEMORY, None)
               else if \<not> strdup_ok then (ERR_MEMORY, None)
               else
                 (EGRESS_OK, Some \<lparr>provider_references = 1, provider_ops = ops\<lparr>ops_name := Some name\<rparr>,
                    provider_name = name, provider_context = context,
                    provider_release_context = release_context\<rparr>)))"

definition maelys_egress_tls_provider_name :: "tls_provider option \<Rightarrow> bytes option" where
  "maelys_egress_tls_provider_name provider =
     (case provider of None \<Rightarrow> None | Some p \<Rightarrow> ops_name (provider_ops p))"

definition maelys_egress_tls_provider_retain :: "tls_provider store \<Rightarrow> pointer \<Rightarrow> tls_provider store" where
  "maelys_egress_tls_provider_retain s provider =
     (case provider of
        None \<Rightarrow> s
      | Some a \<Rightarrow>
          (case objects s a of
             None \<Rightarrow> s
           | Some p \<Rightarrow> put_object s a (Some (p\<lparr>provider_references := provider_references p + 1\<rparr>))))"

definition maelys_egress_tls_provider_release :: "tls_provider store \<Rightarrow> pointer \<Rightarrow> tls_provider store" where
  "maelys_egress_tls_provider_release s provider =
     (case provider of
        None \<Rightarrow> s
      | Some a \<Rightarrow>
          (case objects s a of
             None \<Rightarrow> s
           | Some p \<Rightarrow>
               if provider_references p \<noteq> 1 then
                 put_object s a (Some (p\<lparr>provider_references := provider_references p - 1\<rparr>))
               else
                 let s = (if provider_release_context p \<noteq> None
                          then s\<lparr>released := released s @ [provider_context p]\<rparr> else s) in
                 put_object s a None))"

definition provider_refs :: "tls_provider store \<Rightarrow> nat \<Rightarrow> u32 option" where
  "provider_refs s a = map_option provider_references (objects s a)"

interpretation provider: shared_object provider_refs maelys_egress_tls_provider_retain
  maelys_egress_tls_provider_release
  by unfold_locales
    (auto simp: provider_refs_def maelys_egress_tls_provider_retain_def
      maelys_egress_tls_provider_release_def Let_def put_object_def split: option.splits)

section \<open>Receipt attestors\<close>

definition EGRESS_MAX_ATTESTATION_BYTES :: nat where
  "EGRESS_MAX_ATTESTATION_BYTES = 512"

text \<open>\<open>snprintf (buffer, size, "%s", s)\<close>: what the buffer then holds as a C string.\<close>

definition snprintf_s :: "nat \<Rightarrow> bytes \<Rightarrow> bytes" where
  "snprintf_s cap s = take (cap - 1) s"

lemma snprintf_s_fits [simp]: "length s < cap \<Longrightarrow> snprintf_s cap s = s"
  by (simp add: snprintf_s_def)

lemma length_snprintf_s: "0 < cap \<Longrightarrow> length (snprintf_s cap s) < cap"
  by (auto simp: snprintf_s_def min_def)

record attestor =
  attestor_references :: u32
  attestor_name :: bytes
  attestor_key_id :: bytes
  max_signature_bytes :: nat
  attest :: pointer
  attestor_context :: pointer
  attestor_release_context :: pointer

definition identity_char :: "byte \<Rightarrow> bool" where
  "identity_char b \<longleftrightarrow> is_lower b \<or> is_upper b \<or> is_digit b \<or>
     b \<in> {ch (CHR ''-''), ch (CHR ''_''), ch (CHR ''.''), ch (CHR '':''), ch (CHR ''/'')}"

definition safe_identity :: "bytes option \<Rightarrow> nat \<Rightarrow> bool" where
  "safe_identity value maximum =
     (case value of
        None \<Rightarrow> False
      | Some v \<Rightarrow> if v = [] \<or> maximum \<le> length v then False else list_all identity_char v)"

definition maelys_egress_attestor_create ::
  "bool \<Rightarrow> bytes option \<Rightarrow> bytes option \<Rightarrow> nat \<Rightarrow> pointer \<Rightarrow> pointer \<Rightarrow> pointer \<Rightarrow>
     egress_result \<times> attestor option" where
  "maelys_egress_attestor_create calloc_ok name key_id max_bytes attest_fn context release_context =
     (if \<not> safe_identity name 64 \<or> \<not> safe_identity key_id 128 \<or> max_bytes = 0 \<or>
        EGRESS_MAX_ATTESTATION_BYTES < max_bytes \<or> attest_fn = None then (ERR_ARGUMENT, None)
      else if \<not> calloc_ok then (ERR_MEMORY, None)
      else
        (EGRESS_OK, Some \<lparr>attestor_references = 1, attestor_name = snprintf_s 64 (the name),
           attestor_key_id = snprintf_s 128 (the key_id), max_signature_bytes = max_bytes, attest = attest_fn,
           attestor_context = context, attestor_release_context = release_context\<rparr>))"

definition maelys_egress_attestor_retain :: "attestor store \<Rightarrow> pointer \<Rightarrow> attestor store" where
  "maelys_egress_attestor_retain s attestor =
     (case attestor of
        None \<Rightarrow> s
      | Some a \<Rightarrow>
          (case objects s a of
             None \<Rightarrow> s
           | Some p \<Rightarrow> put_object s a (Some (p\<lparr>attestor_references := attestor_references p + 1\<rparr>))))"

definition maelys_egress_attestor_release :: "attestor store \<Rightarrow> pointer \<Rightarrow> attestor store" where
  "maelys_egress_attestor_release s attestor =
     (case attestor of
        None \<Rightarrow> s
      | Some a \<Rightarrow>
          (case objects s a of
             None \<Rightarrow> s
           | Some p \<Rightarrow>
               if attestor_references p \<noteq> 1 then
                 put_object s a (Some (p\<lparr>attestor_references := attestor_references p - 1\<rparr>))
               else
                 let s = (if attestor_release_context p \<noteq> None
                          then s\<lparr>released := released s @ [attestor_context p]\<rparr> else s) in
                 put_object s a None))"

definition attestor_refs :: "attestor store \<Rightarrow> nat \<Rightarrow> u32 option" where
  "attestor_refs s a = map_option attestor_references (objects s a)"

interpretation attestor: shared_object attestor_refs maelys_egress_attestor_retain
  maelys_egress_attestor_release
  by unfold_locales
    (auto simp: attestor_refs_def maelys_egress_attestor_retain_def
      maelys_egress_attestor_release_def Let_def put_object_def split: option.splits)

text \<open>The type invariant of an attestor: canonical identities and a bounded signature.\<close>

definition attestor_wf :: "attestor \<Rightarrow> bool" where
  "attestor_wf a \<longleftrightarrow> attestor_name a \<noteq> [] \<and> length (attestor_name a) < 64 \<and> list_all identity_char (attestor_name a) \<and>
     attestor_key_id a \<noteq> [] \<and> length (attestor_key_id a) < 128 \<and> list_all identity_char (attestor_key_id a) \<and>
     0 < max_signature_bytes a \<and> max_signature_bytes a \<le> EGRESS_MAX_ATTESTATION_BYTES"

lemma attestor_create_wf:
  "maelys_egress_attestor_create ok n k m f c r = (EGRESS_OK, Some a) \<Longrightarrow> attestor_wf a"
  by (auto simp: maelys_egress_attestor_create_def attestor_wf_def safe_identity_def
      split: if_splits option.splits)

end
