(* ===== verification/Egress_Audit.thy ===== *)
theory Egress_Audit
  imports Egress_Sha256 Egress_Receipt Egress_Shared "HOL-Library.Monad_Syntax"
begin

text \<open>
  \<^verbatim>\<open>src/src/audit.c\<close>: the journal of receipts, a file of records chained by their MACs. The file is
  the list of its bytes; what the kernel answers to \<^verbatim>\<open>read\<close> and \<^verbatim>\<open>write\<close> is a list of events, the
  outcomes of \<^verbatim>\<open>malloc\<close>, \<^verbatim>\<open>lseek\<close>, \<^verbatim>\<open>fcntl\<close>, \<^verbatim>\<open>fdatasync\<close> and of the file lock of maelys-sys are
  arguments. The journal lock and the mutex serialise the operations; the model runs them one
  after the other.
\<close>

section \<open>The model\<close>

record egress_audit =
  audit_references :: u32
  journal_lock :: pointer
  audit_key :: bytes
  audit_key_id :: bytes
  chain_hex :: bytes
  audit_records :: u64
  audit_healthy :: bool

definition AUDIT_CANONICAL_CAPACITY :: nat where
  "AUDIT_CANONICAL_CAPACITY = 4096"

definition AUDIT_RECORD_CAPACITY :: nat where
  "AUDIT_RECORD_CAPACITY = AUDIT_CANONICAL_CAPACITY + 512"

definition quoted_field :: "bytes \<Rightarrow> bytes \<Rightarrow> nat \<Rightarrow> bytes option" where
  "quoted_field line marker capacity =
     (case find_sub marker line of
        None \<Rightarrow> None
      | Some i \<Rightarrow>
          (case split_first (ch (CHR 0x22)) (drop (i + length marker) line) of
             None \<Rightarrow> None
           | Some (field, _) \<Rightarrow>
               if capacity \<le> length field \<or> ch (CHR 0x5C) \<in> set field then None else Some field))"

text \<open>\<open>strtoull (s, &end, 10)\<close>: the value and what is left from \<open>end\<close> on.\<close>

definition is_space :: "byte \<Rightarrow> bool" where
  "is_space b \<longleftrightarrow> b = 32 \<or> 9 \<le> b \<and> b \<le> 13"

definition strtoull10 :: "bytes \<Rightarrow> u64 \<times> bytes" where
  "strtoull10 s =
     (let t = dropWhile is_space s;
          negative = (t \<noteq> [] \<and> hd t = ch (CHR ''-''));
          u = (if t \<noteq> [] \<and> hd t \<in> {ch (CHR ''-''), ch (CHR ''+'')} then tl t else t);
          digits = takeWhile is_digit u
      in if digits = [] then (0, s)
         else
           (if 2 ^ 64 \<le> dec_value digits then - 1
            else if negative then - of_nat (dec_value digits) else of_nat (dec_value digits),
            drop (length digits) u))"

text \<open>The line of a record.\<close>

definition record_text :: "nat \<Rightarrow> bytes \<Rightarrow> bytes \<Rightarrow> bytes \<Rightarrow> bytes \<Rightarrow> bytes" where
  "record_text seq key_id previous mac canonical =
     cstr ''{\"v\":1,\"seq\":'' @ dec seq @ cstr '',\"key_id\":\"'' @ key_id @
     cstr ''\",\"previous\":\"'' @ previous @ cstr ''\",\"mac\":\"'' @ mac @
     cstr ''\",\"canonical\":\"'' @ canonical @ cstr ''\"}'' @ [10]"

text \<open>
  The verification of one line: the MAC that becomes the head of the chain, or None. When a
  field is missing the C code still formats the variable \<^verbatim>\<open>previous\<close>, without using the result.
\<close>

definition check_record :: "bool \<Rightarrow> egress_audit \<Rightarrow> u64 \<Rightarrow> bytes \<Rightarrow> bytes option" where
  "check_record alloc_ok audit sequence line =
     do {
       i \<leftarrow> find_sub (cstr ''{\"v\":1,\"seq\":'') (c_string line);
       let (parsed_sequence, number_end) = strtoull10 (drop (i + 13) (c_string line));
       if number_end = [] \<or> hd number_end \<noteq> ch (CHR '','') \<or> parsed_sequence \<noteq> sequence + 1 then None
       else do {
         key_id \<leftarrow> quoted_field (c_string line) (cstr ''\"key_id\":\"'') 64;
         previous \<leftarrow> quoted_field (c_string line) (cstr ''\"previous\":\"'') 65;
         mac_hex \<leftarrow> quoted_field (c_string line) (cstr ''\"mac\":\"'') 65;
         canonical \<leftarrow> quoted_field (c_string line) (cstr ''\"canonical\":\"'') AUDIT_CANONICAL_CAPACITY;
         if key_id \<noteq> audit_key_id audit \<or> length previous \<noteq> 64 \<or> length mac_hex \<noteq> 64 \<or>
           previous \<noteq> chain_hex audit then None
         else
           let suffix = snprintf_s 71 (cstr ''|prev='' @ previous) in
           if length canonical < length suffix \<or>
             drop (length canonical - length suffix) canonical \<noteq> suffix then None
           else
             let (hmac_ok, expected) = egress_hmac_sha256 alloc_ok (audit_key audit) canonical in
             if \<not> hmac_ok \<or> \<not> egress_constant_time_equal (Some (hex_encode expected)) (Some mac_hex) then None
             else
               let exact = record_text (unat parsed_sequence) key_id previous mac_hex canonical in
               if length exact < AUDIT_RECORD_CAPACITY \<and> exact = line then Some mac_hex else None
       }
     }"

text \<open>What \<^verbatim>\<open>read\<close> of one byte returns; the end of the list is the end of the file.\<close>

datatype read_event =
    Read_byte byte
  | Read_interrupted
  | Read_failed

fun resume_loop :: "(u64 \<Rightarrow> bool) \<Rightarrow> egress_audit \<Rightarrow> bytes \<Rightarrow> u64 \<Rightarrow> read_event list \<Rightarrow> egress_audit option" where
  "resume_loop alloc audit line sequence [] =
     (if line = [] then Some (audit\<lparr>audit_records := sequence\<rparr>) else None)"
| "resume_loop alloc audit line sequence (Read_interrupted # events) =
     resume_loop alloc audit line sequence events"
| "resume_loop alloc audit line sequence (Read_failed # events) = None"
| "resume_loop alloc audit line sequence (Read_byte b # events) =
     (if AUDIT_RECORD_CAPACITY \<le> length line + 1 then None
      else if b \<noteq> 10 then resume_loop alloc audit (line @ [b]) sequence events
      else
        case check_record (alloc sequence) audit sequence (line @ [b]) of
          None \<Rightarrow> None
        | Some mac_hex \<Rightarrow>
            resume_loop alloc (audit\<lparr>chain_hex := mac_hex\<rparr>) [] (sequence + 1) events)"

definition resume_audit :: "bool \<Rightarrow> (u64 \<Rightarrow> bool) \<Rightarrow> egress_audit \<Rightarrow> read_event list \<Rightarrow> egress_audit option" where
  "resume_audit seek_ok alloc audit events =
     (if \<not> seek_ok then None else resume_loop alloc audit [] 0 events)"

text \<open>The result codes of maelys-sys that the code tells apart.\<close>

datatype sys_result =
    SYS_OK
  | SYS_ERR_NOT_FOUND
  | SYS_ERR_OS
  | SYS_ERR_BUSY
  | SYS_ERR_IDENTITY
  | SYS_ERR_CLOSED
  | SYS_ERR_WOULD_BLOCK
  | SYS_ERR_TIMEOUT
  | SYS_ERR_OTHER

definition key_id_char :: "byte \<Rightarrow> bool" where
  "key_id_char b \<longleftrightarrow> \<not> (b < 0x21 \<or> 0x7e < b \<or> b = ch (CHR 0x22) \<or> b = ch (CHR 0x5C))"

record audit_env =
  env_locked :: sys_result
  env_fcntl_ok :: bool
  env_calloc_ok :: bool
  env_key_ok :: bool
  env_mutex_ok :: bool
  env_seek_ok :: bool
  env_alloc :: "u64 \<Rightarrow> bool"

definition audit_start :: "bytes \<Rightarrow> bytes \<Rightarrow> pointer \<Rightarrow> egress_audit" where
  "audit_start key key_id lock =
     \<lparr>audit_references = 1, journal_lock = lock, audit_key = key, audit_key_id = snprintf_s 64 key_id,
      chain_hex = replicate 64 (ch (CHR ''0'')), audit_records = 0, audit_healthy = True\<rparr>"

definition maelys_egress_audit_file_create ::
  "audit_env \<Rightarrow> pointer \<Rightarrow> read_event list \<Rightarrow> bytes option \<Rightarrow> bytes option \<Rightarrow> bytes option \<Rightarrow>
     egress_result \<times> egress_audit option" where
  "maelys_egress_audit_file_create env lock journal path key key_id =
     (case (path, key, key_id) of
        (Some _, Some k, Some kid) \<Rightarrow>
          if length k < 16 \<or> 4096 < length k \<or> kid = [] \<or> 64 \<le> length kid then (ERR_ARGUMENT, None)
          else if \<not> list_all key_id_char kid then (ERR_ARGUMENT, None)
          else if env_locked env \<noteq> SYS_OK then (ERR_DENIED, None)
          else if \<not> env_fcntl_ok env then (ERR_IO, None)
          else if \<not> env_calloc_ok env then (ERR_MEMORY, None)
          else if \<not> env_key_ok env \<or> \<not> env_mutex_ok env then (ERR_MEMORY, None)
          else
            (case resume_audit (env_seek_ok env) (env_alloc env) (audit_start k kid lock) journal of
               None \<Rightarrow> (ERR_CRYPTO, None)
             | Some audit \<Rightarrow> (EGRESS_OK, Some audit))
      | _ \<Rightarrow> (ERR_ARGUMENT, None))"

definition maelys_egress_audit_retain :: "egress_audit store \<Rightarrow> pointer \<Rightarrow> egress_audit store" where
  "maelys_egress_audit_retain s audit =
     (case audit of
        None \<Rightarrow> s
      | Some a \<Rightarrow>
          (case objects s a of
             None \<Rightarrow> s
           | Some p \<Rightarrow> put_object s a (Some (p\<lparr>audit_references := audit_references p + 1\<rparr>))))"

text \<open>The last release gives up the lock of the journal.\<close>

definition maelys_egress_audit_release :: "egress_audit store \<Rightarrow> pointer \<Rightarrow> egress_audit store" where
  "maelys_egress_audit_release s audit =
     (case audit of
        None \<Rightarrow> s
      | Some a \<Rightarrow>
          (case objects s a of
             None \<Rightarrow> s
           | Some p \<Rightarrow>
               if audit_references p \<noteq> 1 then
                 put_object s a (Some (p\<lparr>audit_references := audit_references p - 1\<rparr>))
               else put_object (s\<lparr>released := released s @ [journal_lock p]\<rparr>) a None))"

definition maelys_egress_audit_record_count :: "egress_audit option \<Rightarrow> u64" where
  "maelys_egress_audit_record_count audit = (case audit of None \<Rightarrow> 0 | Some a \<Rightarrow> audit_records a)"

definition maelys_egress_audit_chain_copy :: "egress_audit option \<Rightarrow> egress_result \<times> bytes option" where
  "maelys_egress_audit_chain_copy audit =
     (case audit of None \<Rightarrow> (ERR_ARGUMENT, None) | Some a \<Rightarrow> (EGRESS_OK, Some (chain_hex a)))"

definition maelys_egress_audit_healthy :: "egress_audit option \<Rightarrow> bool" where
  "maelys_egress_audit_healthy audit = (case audit of None \<Rightarrow> False | Some a \<Rightarrow> audit_healthy a)"

text \<open>
  The answers of the kernel to the writes of one record, until it takes all that is left. The
  result is the bytes that reached the file and the return value.
\<close>

datatype write_event =
    Wrote nat
  | Write_interrupted
  | Write_failed

fun write_all :: "bytes \<Rightarrow> write_event list \<Rightarrow> bytes \<times> bool" where
  "write_all bs [] = (bs, True)"
| "write_all bs (e # events) =
     (if bs = [] then ([], True)
      else
        case e of
          Write_interrupted \<Rightarrow> write_all bs events
        | Write_failed \<Rightarrow> ([], False)
        | Wrote n \<Rightarrow>
            if n = 0 then ([], False)
            else let (rest, ok) = write_all (drop n bs) events in (take n bs @ rest, ok))"

definition audit_labels :: "string list" where
  "audit_labels = [''|attestor='', ''|attestation_key='', ''|attestation='', ''|prev='']"

definition audit_canonical :: "nat \<Rightarrow> bytes \<Rightarrow> egress_receipt \<Rightarrow> bytes \<Rightarrow> bytes" where
  "audit_canonical seq core receipt chain =
     cstr ''seq='' @ dec seq @ cstr ''|'' @ core @
     labelled audit_labels [receipt_attestor receipt, attestation_key_id receipt, attestation_hex receipt, chain]"

text \<open>The arguments: the outcome of the allocation, of the writes and of \<^verbatim>\<open>fdatasync\<close>, and the file.\<close>

definition egress_audit_append ::
  "bool \<Rightarrow> write_event list \<Rightarrow> bool \<Rightarrow> bytes \<Rightarrow> egress_audit option \<Rightarrow> egress_receipt option \<Rightarrow>
     bytes \<times> egress_audit option \<times> bool" where
  "egress_audit_append alloc_ok events sync_ok file audit receipt =
     (case (audit, receipt) of
        (Some a, Some r) \<Rightarrow>
          if \<not> audit_healthy a then (file, audit, False)
          else
            let sequence = audit_records a + 1; unhealthy = Some (a\<lparr>audit_healthy := False\<rparr>) in
            (case egress_receipt_canonical (Some r) 2048 of
               None \<Rightarrow> (file, unhealthy, False)
             | Some core \<Rightarrow>
                 let canonical = audit_canonical (unat sequence) core r (chain_hex a) in
                 if AUDIT_CANONICAL_CAPACITY \<le> length canonical then (file, unhealthy, False)
                 else
                   let (hmac_ok, mac) = egress_hmac_sha256 alloc_ok (audit_key a) canonical in
                   if \<not> hmac_ok then (file, unhealthy, False)
                   else
                     let line = record_text (unat sequence) (audit_key_id a) (chain_hex a) (hex_encode mac) canonical in
                     if AUDIT_RECORD_CAPACITY \<le> length line then (file, unhealthy, False)
                     else
                       let (written, ok) = write_all line events in
                       if ok \<and> sync_ok then
                         (file @ written, Some (a\<lparr>audit_records := sequence, chain_hex := hex_encode mac\<rparr>), True)
                       else (file @ written, unhealthy, False))
      | _ \<Rightarrow> (file, audit, False))"

definition audit_refs :: "egress_audit store \<Rightarrow> nat \<Rightarrow> u32 option" where
  "audit_refs s a = map_option audit_references (objects s a)"

interpretation audit: shared_object audit_refs maelys_egress_audit_retain maelys_egress_audit_release
  by unfold_locales
    (auto simp: audit_refs_def maelys_egress_audit_retain_def
      maelys_egress_audit_release_def put_object_def split: option.splits)

section \<open>Fields of a record\<close>

text \<open>A line cut at its double quotes.\<close>

fun quoted :: "bytes list \<Rightarrow> bytes" where
  "quoted [] = []"
| "quoted [s] = s"
| "quoted (s # t # ss) = s @ 34 # quoted (t # ss)"

definition marker :: "bytes \<Rightarrow> bytes" where
  "marker name = 34 # name @ [34, 58, 34]"

lemma find_sub_skip: "c \<notin> set p \<Longrightarrow> find_sub (c # m) (p @ s) = map_option ((+) (length p)) (find_sub (c # m) s)"
  by (induction p) (cases "find_sub (c # m) s"; auto)+

lemma quoted_marker:
  assumes "34 \<notin> set name" "34 \<notin> set t" "34 \<notin> set u"
  shows "take (length (marker name)) (34 # quoted (t # u # v # ss)) = marker name \<longleftrightarrow> t = name \<and> u = [58]"
proof
  assume "take (length (marker name)) (34 # quoted (t # u # v # ss)) = marker name"
  then obtain r where "34 # t @ 34 # u @ 34 # quoted (v # ss) = marker name @ r"
    by (metis append_take_drop_id quoted.simps(3))
  then have "t @ 34 # u @ 34 # quoted (v # ss) = name @ 34 # [58] @ 34 # r" by (simp add: marker_def)
  then have "t = name" "u @ 34 # quoted (v # ss) = [58] @ 34 # r"
    using sep_inject[OF assms(2,1), of "u @ 34 # quoted (v # ss)" "[58] @ 34 # r"] by simp_all
  moreover from this(2) have "u = [58]" using assms(3) by (subst (asm) sep_inject) auto
  ultimately show "t = name \<and> u = [58]" by simp
qed (auto simp: marker_def)

lemma find_sub_short: "length xs < length n \<Longrightarrow> find_sub n xs = None"
  using find_sub_bound[of n xs] by (cases "find_sub n xs") auto

lemma quoted_field_skip:
  assumes "find_sub m (p @ s) = map_option ((+) (length p)) (find_sub m s)"
  shows "quoted_field (p @ s) m capacity = quoted_field s m capacity"
  by (cases "find_sub m s") (simp_all add: quoted_field_def assms add.assoc)

lemma quoted_field_step:
  assumes "34 \<notin> set name" "34 \<notin> set s" "34 \<notin> set t" "34 \<notin> set u"
  shows "quoted_field (quoted (s # t # u # v # ss)) (marker name) capacity =
    (if t = name \<and> u = [58] then quoted_field (34 # quoted (t # u # v # ss)) (marker name) capacity
     else quoted_field (quoted (t # u # v # ss)) (marker name) capacity)"
proof -
  have "quoted_field (quoted (s # t # u # v # ss)) (marker name) capacity =
      quoted_field (34 # quoted (t # u # v # ss)) (marker name) capacity"
    using assms(2) unfolding quoted.simps(3)[of s] marker_def by (intro quoted_field_skip find_sub_skip)
  moreover have "quoted_field ([34] @ quoted (t # u # v # ss)) (marker name) capacity =
      quoted_field (quoted (t # u # v # ss)) (marker name) capacity" if "\<not> (t = name \<and> u = [58])"
    using that quoted_marker[OF assms(1,3,4), of v ss]
    by (intro quoted_field_skip, cases "find_sub (marker name) (quoted (t # u # v # ss))")
      (simp_all del: quoted.simps take_Cons)
  ultimately show ?thesis by simp
qed

lemma quoted_field_here:
  assumes "34 \<notin> set v"
  shows "quoted_field (34 # quoted (name # [58] # v # w # ss)) (marker name) capacity =
    (if capacity \<le> length v \<or> 92 \<in> set v then None else Some v)"
proof -
  have line: "34 # quoted (name # [58] # v # w # ss) = marker name @ v @ 34 # quoted (w # ss)"
    by (simp add: marker_def)
  have "find_sub (marker name) (marker name @ v @ 34 # quoted (w # ss)) = Some 0"
    by (simp add: marker_def)
  moreover have "drop (0 + length (marker name)) (marker name @ v @ 34 # quoted (w # ss)) = v @ 34 # quoted (w # ss)"
    by simp
  ultimately show ?thesis
    unfolding line quoted_field_def using split_first_append[OF assms, of "quoted (w # ss)"] by simp
qed

definition record_segments :: "nat \<Rightarrow> bytes \<Rightarrow> bytes \<Rightarrow> bytes \<Rightarrow> bytes \<Rightarrow> bytes list" where
  "record_segments seq key_id previous mac canonical =
     [cstr ''{'', cstr ''v'', cstr '':1,'', cstr ''seq'', cstr '':'' @ dec seq @ cstr '','',
      cstr ''key_id'', [58], key_id, [44], cstr ''previous'', [58], previous, [44], cstr ''mac'', [58], mac, [44],
      cstr ''canonical'', [58], canonical, cstr ''}'' @ [10]]"

lemma record_quoted:
  "record_text seq key_id previous mac canonical = quoted (record_segments seq key_id previous mac canonical)"
  by (simp add: record_text_def record_segments_def)

lemma dec_no_quote: "c \<in> {0, 10, 34, 92} \<Longrightarrow> c \<notin> set (dec n)"
  using dec_digits[of n] by (auto simp: list_all_iff is_digit_def)

lemma record_fields:
  assumes "34 \<notin> set key_id" "34 \<notin> set previous" "34 \<notin> set mac" "34 \<notin> set canonical"
  shows "quoted_field (record_text n key_id previous mac canonical) (cstr ''\"key_id\":\"'') capacity =
      (if capacity \<le> length key_id \<or> 92 \<in> set key_id then None else Some key_id)"
    "quoted_field (record_text n key_id previous mac canonical) (cstr ''\"previous\":\"'') capacity =
      (if capacity \<le> length previous \<or> 92 \<in> set previous then None else Some previous)"
    "quoted_field (record_text n key_id previous mac canonical) (cstr ''\"mac\":\"'') capacity =
      (if capacity \<le> length mac \<or> 92 \<in> set mac then None else Some mac)"
    "quoted_field (record_text n key_id previous mac canonical) (cstr ''\"canonical\":\"'') capacity =
      (if capacity \<le> length canonical \<or> 92 \<in> set canonical then None else Some canonical)"
proof -
  have markers: "cstr ''\"key_id\":\"'' = marker (cstr ''key_id'')" "cstr ''\"previous\":\"'' = marker (cstr ''previous'')"
    "cstr ''\"mac\":\"'' = marker (cstr ''mac'')" "cstr ''\"canonical\":\"'' = marker (cstr ''canonical'')"
    by (simp_all add: marker_def)
  show "quoted_field (record_text n key_id previous mac canonical) (cstr ''\"key_id\":\"'') capacity =
      (if capacity \<le> length key_id \<or> 92 \<in> set key_id then None else Some key_id)"
    unfolding markers record_quoted record_segments_def
    using assms dec_no_quote[of 34 n] by (simp add: quoted_field_step quoted_field_here del: quoted.simps)
  show "quoted_field (record_text n key_id previous mac canonical) (cstr ''\"previous\":\"'') capacity =
      (if capacity \<le> length previous \<or> 92 \<in> set previous then None else Some previous)"
    unfolding markers record_quoted record_segments_def
    using assms dec_no_quote[of 34 n] by (simp add: quoted_field_step quoted_field_here del: quoted.simps)
  show "quoted_field (record_text n key_id previous mac canonical) (cstr ''\"mac\":\"'') capacity =
      (if capacity \<le> length mac \<or> 92 \<in> set mac then None else Some mac)"
    unfolding markers record_quoted record_segments_def
    using assms dec_no_quote[of 34 n] by (simp add: quoted_field_step quoted_field_here del: quoted.simps)
  show "quoted_field (record_text n key_id previous mac canonical) (cstr ''\"canonical\":\"'') capacity =
      (if capacity \<le> length canonical \<or> 92 \<in> set canonical then None else Some canonical)"
    unfolding markers record_quoted record_segments_def
    using assms dec_no_quote[of 34 n] by (simp add: quoted_field_step quoted_field_here del: quoted.simps)
qed

section \<open>The chain\<close>

text \<open>The bytes a field of the journal may hold: no NUL, newline, double quote or backslash.\<close>

definition plain_field :: "bytes \<Rightarrow> bool" where
  "plain_field s \<longleftrightarrow> set s \<inter> {0, 10, 34, 92} = {}"

definition record_mac :: "bytes \<Rightarrow> bytes \<Rightarrow> bytes" where
  "record_mac key canonical = hex_encode (snd (egress_hmac_sha256 True key canonical))"

text \<open>A canonical text that may follow a record whose MAC is \<open>previous\<close>.\<close>

definition canonical_ok :: "u64 \<Rightarrow> bytes \<Rightarrow> bytes \<Rightarrow> bytes \<Rightarrow> bytes \<Rightarrow> bool" where
  "canonical_ok n key key_id previous canonical \<longleftrightarrow> plain_field canonical \<and>
     length canonical < AUDIT_CANONICAL_CAPACITY \<and> (\<exists>d. canonical = d @ cstr ''|prev='' @ previous) \<and>
     length (record_text (unat n) key_id previous (record_mac key canonical) canonical) < AUDIT_RECORD_CAPACITY"

definition audit_wf :: "egress_audit \<Rightarrow> bool" where
  "audit_wf a \<longleftrightarrow> plain_field (audit_key_id a) \<and> length (audit_key_id a) < 64 \<and>
     plain_field (chain_hex a) \<and> length (chain_hex a) = 64"

lemma plain_fieldD:
  "plain_field s \<Longrightarrow> 0 \<notin> set s" "plain_field s \<Longrightarrow> 10 \<notin> set s"
  "plain_field s \<Longrightarrow> 34 \<notin> set s" "plain_field s \<Longrightarrow> 92 \<notin> set s"
  by (auto simp: plain_field_def)

lemma hex_digit_plain: "i < 16 \<Longrightarrow> cstr ''0123456789abcdef'' ! i \<notin> {0, 10, 34, 92}"
proof -
  assume "i < 16"
  then have "cstr ''0123456789abcdef'' ! i \<in> set (cstr ''0123456789abcdef'')" by (intro nth_mem) simp
  then show ?thesis by (auto simp only: cstr_simps) simp_all
qed

lemma hex_pair_plain: "set (hex_pair b) \<inter> {0, 10, 34, 92} = {}"
proof -
  have "unat (drop_bit 4 b) < 16" using unat_byte_less[of b] by (simp add: unat_drop)
  moreover have "unat (b AND 0x0f) < 16"
    using word_and_le1[of b 15] by (simp add: word_le_nat_alt)
  ultimately show ?thesis using hex_digit_plain by (simp only: hex_pair_def) auto
qed

lemma plain_hex_encode [simp]: "plain_field (hex_encode bs)"
  using hex_pair_plain by (induction bs) (auto simp: hex_encode_def plain_field_def)

lemma length_record_mac [simp]: "length (record_mac key c) = 64"
  by (simp add: record_mac_def)

lemma plain_record_mac [simp]: "plain_field (record_mac key c)"
  by (simp add: record_mac_def)

lemma plain_field_dec: "plain_field (dec n)"
  using dec_no_quote[of _ n] by (auto simp: plain_field_def)

lemma takeWhile_dec: "\<not> is_digit c \<Longrightarrow> takeWhile is_digit (dec n @ c # s) = dec n"
  using dec_digits[of n] by (subst takeWhile_append2) (auto simp: list_all_iff)

lemma strtoull10_dec: "n < 2 ^ 64 \<Longrightarrow> strtoull10 (dec n @ 44 # s) = (of_nat n, 44 # s)"
proof -
  assume n: "n < 2 ^ 64"
  obtain d ds where d: "dec n = d # ds" by (cases "dec n") auto
  then have dig: "is_digit d" using dec_digits[of n] by simp
  then have "\<not> is_space d" "d \<noteq> ch (CHR ''-'')" "d \<noteq> ch (CHR ''+'')"
    by (auto simp: is_digit_def is_space_def word_le_nat_alt)
  with d have "dropWhile is_space (dec n @ 44 # s) = dec n @ 44 # s"
    "hd (dec n @ 44 # s) \<noteq> ch (CHR ''-'')" "hd (dec n @ 44 # s) \<noteq> ch (CHR ''+'')" by auto
  moreover have "\<not> is_digit 44" by (simp add: is_digit_def)
  ultimately show ?thesis
    using n by (simp add: strtoull10_def Let_def takeWhile_dec)
qed

lemma plain_record:
  assumes "plain_field k" "plain_field p" "plain_field m" "plain_field c"
  shows "\<exists>l. record_text n k p m c = l @ [10] \<and> 10 \<notin> set l" "0 \<notin> set (record_text n k p m c)"
  using assms plain_field_dec[of n] by (auto simp: record_text_def plain_field_def)

lemma find_sub_start: "n \<noteq> [] \<Longrightarrow> find_sub n (n @ s) = Some 0"
  by (cases n) simp_all

lemma check_record_complete:
  assumes "audit_wf a" "canonical_ok (n + 1) (audit_key a) (audit_key_id a) (chain_hex a) c"
  shows "check_record True a n (record_text (unat (n + 1)) (audit_key_id a) (chain_hex a) (record_mac (audit_key a) c) c) =
    Some (record_mac (audit_key a) c)"
proof -
  define line where "line = record_text (unat (n + 1)) (audit_key_id a) (chain_hex a) (record_mac (audit_key a) c) c"
  have plain: "plain_field (audit_key_id a)" "plain_field (chain_hex a)" "plain_field c"
    and len: "length (audit_key_id a) < 64" "length (chain_hex a) = 64" "length c < 4096"
      "length line < AUDIT_RECORD_CAPACITY"
    using assms by (simp_all add: audit_wf_def canonical_ok_def line_def AUDIT_CANONICAL_CAPACITY_def)
  have str: "c_string line = line" using plain_record(2)[OF plain(1,2) plain_record_mac plain(3)] by (simp add: line_def)
  have start: "find_sub (cstr ''{\"v\":1,\"seq\":'') line = Some 0"
    unfolding line_def record_text_def by (rule find_sub_start) simp
  obtain s where s: "drop (0 + 13) line = dec (unat (n + 1)) @ 44 # s"
    by (simp add: line_def record_text_def)
  have seq: "strtoull10 (drop (0 + 13) line) = (n + 1, 44 # s)"
    unfolding s using strtoull10_dec[of "unat (n + 1)" s] unsigned_less[where 'a = nat, of "n + 1"] by simp
  have fields: "quoted_field line (cstr ''\"key_id\":\"'') 64 = Some (audit_key_id a)"
    "quoted_field line (cstr ''\"previous\":\"'') 65 = Some (chain_hex a)"
    "quoted_field line (cstr ''\"mac\":\"'') 65 = Some (record_mac (audit_key a) c)"
    "quoted_field line (cstr ''\"canonical\":\"'') AUDIT_CANONICAL_CAPACITY = Some c"
    unfolding line_def AUDIT_CANONICAL_CAPACITY_def
    using plain len
    by (simp_all add: record_fields[OF plain_fieldD(3)[OF plain(1)] plain_fieldD(3)[OF plain(2)]
          plain_fieldD(3)[OF plain_record_mac] plain_fieldD(3)[OF plain(3)]] plain_fieldD(4) del: cstr_simps)
  obtain d where d: "c = d @ cstr ''|prev='' @ chain_hex a" using assms(2) by (auto simp: canonical_ok_def)
  have suffix: "snprintf_s 71 (cstr ''|prev='' @ chain_hex a) = cstr ''|prev='' @ chain_hex a"
    using len by (intro snprintf_s_fits) simp
  obtain e where hmac: "egress_hmac_sha256 True (audit_key a) c = (True, e)"
    using len(3) by (simp add: egress_hmac_sha256_def Let_def)
  then have e: "record_mac (audit_key a) c = hex_encode e" by (simp add: record_mac_def)
  have eq: "egress_constant_time_equal (Some (hex_encode e)) (Some (record_mac (audit_key a) c))"
    by (simp add: constant_time_equal_iff e plain_fieldD(1))
  have drop: "drop (length c - length (cstr ''|prev='' @ chain_hex a)) c = cstr ''|prev='' @ chain_hex a"
    "\<not> length c < length (cstr ''|prev='' @ chain_hex a)" by (simp_all add: d)
  show ?thesis
    unfolding line_def[symmetric] check_record_def str start Option.bind.bind_lunit seq Let_def prod.case fields suffix
      hmac
    using eq drop len by (simp del: cstr_simps add: line_def[symmetric])
qed

lemma quoted_field_Some:
  "quoted_field l m n = Some f \<Longrightarrow> length f < n \<and> 34 \<notin> set f \<and> 92 \<notin> set f \<and> set f \<subseteq> set l"
proof -
  assume f: "quoted_field l m n = Some f"
  then obtain i r where "drop (i + length m) l = f @ 34 # r" "34 \<notin> set f" "length f < n" "92 \<notin> set f"
    by (auto simp: quoted_field_def split_first_Some not_le split: option.splits if_splits)
  moreover from this(1) have "set f \<subseteq> set l" by (metis set_append set_drop_subset Un_subset_iff)
  ultimately show ?thesis by simp
qed

lemma hmac_alloc: "fst (egress_hmac_sha256 ok k d) \<Longrightarrow> egress_hmac_sha256 ok k d = egress_hmac_sha256 True k d"
  by (auto simp: egress_hmac_sha256_def Let_def split: if_splits)

lemma check_record_sound:
  assumes "check_record ok a n (l @ [10]) = Some m" "10 \<notin> set l" "length (chain_hex a) = 64"
  shows "\<exists>c. l @ [10] = record_text (unat (n + 1)) (audit_key_id a) (chain_hex a) m c \<and>
    m = record_mac (audit_key a) c \<and> canonical_ok (n + 1) (audit_key a) (audit_key_id a) (chain_hex a) c"
proof -
  let ?s = "c_string (l @ [10])"
  from assms(1)[unfolded check_record_def Let_def case_prod_beta]
  obtain c where c: "quoted_field ?s (cstr ''\"canonical\":\"'') AUDIT_CANONICAL_CAPACITY = Some c"
    and mac: "quoted_field ?s (cstr ''\"mac\":\"'') 65 = Some m"
    and suffix: "drop (length c - length (snprintf_s 71 (cstr ''|prev='' @ chain_hex a))) c =
      snprintf_s 71 (cstr ''|prev='' @ chain_hex a)"
    and hmac: "fst (egress_hmac_sha256 ok (audit_key a) c)"
      "egress_constant_time_equal (Some (hex_encode (snd (egress_hmac_sha256 ok (audit_key a) c)))) (Some m)"
    and line: "record_text (unat (n + 1)) (audit_key_id a) (chain_hex a) m c = l @ [10]"
      "length (l @ [10]) < AUDIT_RECORD_CAPACITY"
    by (auto simp del: cstr_simps simp: Option.bind_eq_Some_conv split: if_splits)
  have nul: "0 \<notin> set c" "0 \<notin> set m"
    using quoted_field_Some[OF c] quoted_field_Some[OF mac] c_string_no_nul by blast+
  have m: "m = record_mac (audit_key a) c"
    using hmac nul by (simp add: constant_time_equal_iff plain_fieldD(1) record_mac_def hmac_alloc[OF hmac(1)])
  obtain l' where "record_text (unat (n + 1)) (audit_key_id a) (chain_hex a) m c = l' @ [10]" "set c \<subseteq> set l'"
    by (auto simp: record_text_def)
  then have "10 \<notin> set c" using assms(2) line(1) by auto
  then have "plain_field c" using quoted_field_Some[OF c] nul by (auto simp: plain_field_def)
  moreover have "snprintf_s 71 (cstr ''|prev='' @ chain_hex a) = cstr ''|prev='' @ chain_hex a"
    using assms(3) by (intro snprintf_s_fits) simp
  then have "\<exists>d. c = d @ cstr ''|prev='' @ chain_hex a" using suffix by (metis append_take_drop_id)
  moreover have "length c < AUDIT_CANONICAL_CAPACITY" using quoted_field_Some[OF c] by simp
  ultimately show ?thesis using m line by (intro exI[of _ c]) (simp add: canonical_ok_def)
qed

section \<open>Journals\<close>

text \<open>The journal that holds the canonical texts \<open>cs\<close> after \<open>n\<close> records, the last with MAC \<open>previous\<close>.\<close>

fun journal_text :: "bytes \<Rightarrow> bytes \<Rightarrow> u64 \<Rightarrow> bytes \<Rightarrow> bytes list \<Rightarrow> bytes" where
  "journal_text key key_id n previous [] = []"
| "journal_text key key_id n previous (c # cs) =
     record_text (unat (n + 1)) key_id previous (record_mac key c) c @
     journal_text key key_id (n + 1) (record_mac key c) cs"

fun journal_ok :: "bytes \<Rightarrow> bytes \<Rightarrow> u64 \<Rightarrow> bytes \<Rightarrow> bytes list \<Rightarrow> bool" where
  "journal_ok key key_id n previous [] \<longleftrightarrow> True"
| "journal_ok key key_id n previous (c # cs) \<longleftrightarrow>
     canonical_ok (n + 1) key key_id previous c \<and> journal_ok key key_id (n + 1) (record_mac key c) cs"

definition audit_after :: "egress_audit \<Rightarrow> u64 \<Rightarrow> bytes list \<Rightarrow> egress_audit" where
  "audit_after a n cs = a\<lparr>chain_hex := (if cs = [] then chain_hex a else record_mac (audit_key a) (last cs)),
     audit_records := n + of_nat (length cs)\<rparr>"

fun bytes_of :: "read_event list \<Rightarrow> bytes" where
  "bytes_of [] = []"
| "bytes_of (Read_byte b # events) = b # bytes_of events"
| "bytes_of (_ # events) = bytes_of events"

lemma resume_loop_line:
  "10 \<notin> set l \<Longrightarrow> length acc + length l < AUDIT_RECORD_CAPACITY \<Longrightarrow>
   resume_loop alloc a acc n (map Read_byte l @ events) = resume_loop alloc a (acc @ l) n events"
  by (induction l arbitrary: acc) auto

lemma resume_loop_record:
  assumes "audit_wf a" "canonical_ok (n + 1) (audit_key a) (audit_key_id a) (chain_hex a) c"
  shows "resume_loop (\<lambda>_. True) a [] n
      (map Read_byte (record_text (unat (n + 1)) (audit_key_id a) (chain_hex a) (record_mac (audit_key a) c) c) @ events) =
    resume_loop (\<lambda>_. True) (a\<lparr>chain_hex := record_mac (audit_key a) c\<rparr>) [] (n + 1) events"
proof -
  have plain: "plain_field (audit_key_id a)" "plain_field (chain_hex a)" "plain_field c"
    using assms by (simp_all add: audit_wf_def canonical_ok_def)
  from plain_record(1)[OF plain(1,2) plain_record_mac plain(3)] obtain l
    where l: "record_text (unat (n + 1)) (audit_key_id a) (chain_hex a) (record_mac (audit_key a) c) c = l @ [10]"
      "10 \<notin> set l" by blast
  have "length l + 1 < AUDIT_RECORD_CAPACITY"
    using assms(2) l(1) by (simp add: canonical_ok_def)
  moreover have "check_record True a n (l @ [10]) = Some (record_mac (audit_key a) c)"
    using check_record_complete[OF assms] l(1) by simp
  ultimately show ?thesis
    using resume_loop_line[OF l(2), of "[]" "\<lambda>_. True" a n "Read_byte 10 # events"] by (simp add: l(1))
qed

lemma audit_wf_step: "audit_wf a \<Longrightarrow> audit_wf (a\<lparr>chain_hex := record_mac k c\<rparr>)"
  by (simp add: audit_wf_def)

lemma audit_after_Cons:
  "audit_after (a\<lparr>chain_hex := record_mac (audit_key a) c\<rparr>) (n + 1) cs = audit_after a n (c # cs)"
  by (simp add: audit_after_def)

lemma resume_loop_complete:
  "audit_wf a \<Longrightarrow> journal_ok (audit_key a) (audit_key_id a) n (chain_hex a) cs \<Longrightarrow>
   resume_loop (\<lambda>_. True) a [] n (map Read_byte (journal_text (audit_key a) (audit_key_id a) n (chain_hex a) cs)) =
     Some (audit_after a n cs)"
proof (induction cs arbitrary: a n)
  case (Cons c cs)
  then show ?case
    using resume_loop_record[of a n c] Cons.IH[of "a\<lparr>chain_hex := record_mac (audit_key a) c\<rparr>" "n + 1"]
    by (simp add: audit_wf_step audit_after_Cons)
qed (simp add: audit_after_def)

lemma resume_loop_bytes:
  "Read_failed \<notin> set events \<Longrightarrow>
   resume_loop alloc a acc n events = resume_loop alloc a acc n (map Read_byte (bytes_of events))"
  by (induction alloc a acc n events rule: resume_loop.induct) (auto split: option.splits)

lemma resume_loop_sound:
  "resume_loop alloc a acc n events = Some a' \<Longrightarrow> 10 \<notin> set acc \<Longrightarrow> audit_wf a \<Longrightarrow>
   Read_failed \<notin> set events \<and>
   (\<exists>cs. acc @ bytes_of events = journal_text (audit_key a) (audit_key_id a) n (chain_hex a) cs \<and>
      journal_ok (audit_key a) (audit_key_id a) n (chain_hex a) cs \<and> a' = audit_after a n cs)"
proof (induction alloc a acc n events rule: resume_loop.induct)
  case (1 alloc a acc n)
  then show ?case by (intro conjI exI[of _ "[]"]) (auto simp: audit_after_def split: if_splits)
next
  case (4 alloc a acc n b events)
  show ?case
  proof (cases "b = 10")
    case False
    with "4.prems" "4.IH"(1) show ?thesis by (simp split: if_splits)
  next
    case True
    with "4.prems" obtain m where cap: "\<not> AUDIT_RECORD_CAPACITY \<le> length acc + 1"
      and m: "check_record (alloc n) a n (acc @ [10]) = Some m"
      and rest: "resume_loop alloc (a\<lparr>chain_hex := m\<rparr>) [] (n + 1) events = Some a'"
      by (auto split: if_splits option.splits)
    have "length (chain_hex a) = 64" using "4.prems"(3) by (simp add: audit_wf_def)
    from check_record_sound[OF m "4.prems"(2) this] obtain c where
      c: "acc @ [10] = record_text (unat (n + 1)) (audit_key_id a) (chain_hex a) m c"
      "m = record_mac (audit_key a) c" "canonical_ok (n + 1) (audit_key a) (audit_key_id a) (chain_hex a) c"
      by blast
    have "audit_wf (a\<lparr>chain_hex := m\<rparr>)" using "4.prems"(3) c(2) by (simp add: audit_wf_step)
    with "4.IH"(2)[OF cap _ _ rest] m True obtain cs where "Read_failed \<notin> set events"
      "bytes_of events = journal_text (audit_key a) (audit_key_id a) (n + 1) m cs"
      "journal_ok (audit_key a) (audit_key_id a) (n + 1) m cs" "a' = audit_after (a\<lparr>chain_hex := m\<rparr>) (n + 1) cs"
      by auto
    with c True show ?thesis
      by (intro conjI exI[of _ "c # cs"]) (simp_all add: audit_after_Cons)
  qed
qed auto

section \<open>Appending\<close>

text \<open>What a receipt guarantees when it reaches the journal: bounded strings without the bytes that
  would end a field.\<close>

definition receipt_plain :: "egress_receipt \<Rightarrow> bool" where
  "receipt_plain r \<longleftrightarrow> receipt_wf r \<and> length (receipt_attestor r) < 64 \<and> length (attestation_key_id r) < 128 \<and>
     length (attestation_hex r) \<le> 2 * EGRESS_MAX_ATTESTATION_BYTES \<and>
     list_all plain_field [receipt_principal r, receipt_invocation_id r, receipt_host r, policy_digest_hex r,
       upstream_address r, receipt_attestor r, attestation_key_id r, attestation_hex r]"

definition receipt_canonical_text :: "u64 \<Rightarrow> egress_receipt \<Rightarrow> bytes \<Rightarrow> bytes" where
  "receipt_canonical_text n r chain = audit_canonical (unat n) (labelled canonical_labels (canonical_values r)) r chain"

lemma plain_field_simps [simp]:
  "plain_field []"
  "plain_field (b # s) \<longleftrightarrow> b \<notin> {0, 10, 34, 92} \<and> plain_field s"
  "plain_field (s @ t) \<longleftrightarrow> plain_field s \<and> plain_field t"
  by (auto simp: plain_field_def)

lemma plain_canonical_core: "receipt_plain r \<Longrightarrow> plain_field (labelled canonical_labels (canonical_values r))"
  by (simp add: canonical_labels_def canonical_values_def plain_field_dec receipt_plain_def)

lemma receipt_canonical_ok:
  assumes "receipt_plain r" "audit_wf a"
  shows "canonical_ok n (audit_key a) (audit_key_id a) (chain_hex a) (receipt_canonical_text n r (chain_hex a))"
proof -
  let ?c = "receipt_canonical_text n r (chain_hex a)"
  have core: "length (labelled canonical_labels (canonical_values r)) \<le> 1060"
    using assms(1) by (intro canonical_length) (simp add: receipt_plain_def)
  have len: "length ?c \<le> 2409"
    using core dec_u64_length[of n] assms
    by (simp add: receipt_canonical_text_def audit_canonical_def audit_labels_def receipt_plain_def audit_wf_def
        EGRESS_MAX_ATTESTATION_BYTES_def)
  have "plain_field ?c"
    using plain_canonical_core[OF assms(1)] assms
    by (simp add: receipt_canonical_text_def audit_canonical_def audit_labels_def receipt_plain_def audit_wf_def plain_field_dec)
  moreover have "\<exists>d. ?c = d @ cstr ''|prev='' @ chain_hex a"
    by (simp add: receipt_canonical_text_def audit_canonical_def audit_labels_def)
  moreover have "length (record_text (unat n) (audit_key_id a) (chain_hex a) (record_mac (audit_key a) ?c) ?c)
      < AUDIT_RECORD_CAPACITY"
    using len dec_u64_length[of n] assms(2)
    by (simp add: record_text_def audit_wf_def AUDIT_RECORD_CAPACITY_def AUDIT_CANONICAL_CAPACITY_def)
  ultimately show ?thesis
    using len by (simp add: canonical_ok_def AUDIT_CANONICAL_CAPACITY_def)
qed

lemma write_all_ok: "snd (write_all bs events) \<Longrightarrow> fst (write_all bs events) = bs"
  by (induction bs events rule: write_all.induct)
    (auto simp: Let_def case_prod_beta split: write_event.splits if_splits)

lemma write_all_prefix: "\<exists>rest. bs = fst (write_all bs events) @ rest"
proof (induction bs events rule: write_all.induct)
  case (2 bs e events)
  then show ?case
    by (cases "bs = []"; cases e) (auto simp: Let_def case_prod_beta, metis append.assoc append_take_drop_id)
qed simp

text \<open>An append of such a receipt either adds its record or makes the journal unhealthy.\<close>

lemma append_cases:
  assumes "receipt_plain r" "audit_wf a" "audit_healthy a"
  defines "c \<equiv> receipt_canonical_text (audit_records a + 1) r (chain_hex a)"
  defines "line \<equiv> record_text (unat (audit_records a + 1)) (audit_key_id a) (chain_hex a) (record_mac (audit_key a) c) c"
  shows "egress_audit_append alloc_ok events sync_ok file (Some a) (Some r) =
    (if alloc_ok \<and> snd (write_all line events) \<and> sync_ok
     then (file @ line, Some (a\<lparr>audit_records := audit_records a + 1, chain_hex := record_mac (audit_key a) c\<rparr>), True)
     else (file @ (if alloc_ok then fst (write_all line events) else []), Some (a\<lparr>audit_healthy := False\<rparr>), False))"
proof -
  have core: "egress_receipt_canonical (Some r) 2048 = Some (labelled canonical_labels (canonical_values r))"
    using assms(1) by (intro canonical_total) (simp add: receipt_plain_def)
  note ok = receipt_canonical_ok[OF assms(1,2), of "audit_records a + 1", folded c_def]
  have len: "length c < 4096" "length line < AUDIT_RECORD_CAPACITY"
    using ok by (simp_all add: canonical_ok_def AUDIT_CANONICAL_CAPACITY_def line_def)
  obtain e where e: "egress_hmac_sha256 True (audit_key a) c = (True, e)"
    using len(1) by (simp add: egress_hmac_sha256_def Let_def)
  then have mac: "hex_encode e = record_mac (audit_key a) c" by (simp add: record_mac_def)
  have fail: "fst (egress_hmac_sha256 False (audit_key a) c) = False"
    by (simp add: egress_hmac_sha256_def Let_def)
  have canonical: "audit_canonical (unat (audit_records a + 1)) (labelled canonical_labels (canonical_values r)) r
      (chain_hex a) = c" by (simp add: c_def receipt_canonical_text_def)
  show ?thesis
  proof (cases alloc_ok)
    case True
    then show ?thesis
      using assms(3) len write_all_ok[of line events]
      by (simp add: egress_audit_append_def core Let_def canonical e mac line_def[symmetric]
          AUDIT_CANONICAL_CAPACITY_def case_prod_beta)
  next
    case False
    then show ?thesis
      using assms(3) len fail
      by (simp add: egress_audit_append_def core Let_def canonical case_prod_beta)
  qed
qed

text \<open>A run of appends on one handle, with what memory and kernel answer to each.\<close>

record append_call =
  call_alloc :: bool
  call_events :: "write_event list"
  call_sync :: bool
  call_receipt :: egress_receipt

fun audit_session :: "append_call list \<Rightarrow> bytes \<times> egress_audit \<Rightarrow> bytes \<times> egress_audit" where
  "audit_session [] (file, a) = (file, a)"
| "audit_session (call # calls) (file, a) =
     (case egress_audit_append (call_alloc call) (call_events call) (call_sync call) file (Some a)
        (Some (call_receipt call)) of
        (file', a', _) \<Rightarrow> audit_session calls (file', the a'))"

definition session_inv :: "egress_audit \<Rightarrow> bytes \<times> egress_audit \<Rightarrow> bool" where
  "session_inv s fa \<longleftrightarrow> (\<exists>cs partial healthy. fst fa =
       journal_text (audit_key s) (audit_key_id s) 0 (chain_hex s) cs @ partial \<and>
     journal_ok (audit_key s) (audit_key_id s) 0 (chain_hex s) cs \<and>
     snd fa = (audit_after s 0 cs)\<lparr>audit_healthy := healthy\<rparr> \<and> (healthy \<longrightarrow> partial = []))"

lemma journal_text_snoc:
  "journal_text key kid n p (cs @ [c]) = journal_text key kid n p cs @
     record_text (unat (n + of_nat (length cs) + 1)) kid (if cs = [] then p else record_mac key (last cs)) (record_mac key c) c"
  by (induction cs arbitrary: n p) (auto simp: ac_simps)

lemma journal_ok_snoc:
  "journal_ok key kid n p (cs @ [c]) \<longleftrightarrow> journal_ok key kid n p cs \<and>
     canonical_ok (n + of_nat (length cs) + 1) key kid (if cs = [] then p else record_mac key (last cs)) c"
  by (induction cs arbitrary: n p) (auto simp: ac_simps)

lemma audit_after_fields [simp]:
  "audit_key (audit_after s n cs) = audit_key s" "audit_key_id (audit_after s n cs) = audit_key_id s"
  "audit_records (audit_after s n cs) = n + of_nat (length cs)"
  "chain_hex (audit_after s n cs) = (if cs = [] then chain_hex s else record_mac (audit_key s) (last cs))"
  by (simp_all add: audit_after_def)

lemma audit_wf_after: "audit_wf s \<Longrightarrow> audit_wf (audit_after s n cs)"
  by (simp add: audit_wf_def)

lemma session_inv_append:
  assumes "session_inv s (file, a)" "audit_wf s" "receipt_plain r"
    "egress_audit_append alloc_ok events sync_ok file (Some a) (Some r) = (file', a', ok)"
  shows "session_inv s (file', the a')"
proof -
  from assms(1) obtain cs partial h where fl: "file = journal_text (audit_key s) (audit_key_id s) 0 (chain_hex s) cs @ partial"
    and ok: "journal_ok (audit_key s) (audit_key_id s) 0 (chain_hex s) cs"
    and a: "a = (audit_after s 0 cs)\<lparr>audit_healthy := h\<rparr>" and h: "h \<longrightarrow> partial = []"
    by (auto simp: session_inv_def)
  show ?thesis
  proof (cases h)
    case False
    then have "file' = file" "a' = Some a" using assms(4) a by (simp_all add: egress_audit_append_def)
    with assms(1) show ?thesis by simp
  next
    case True
    define n where "n = (of_nat (length cs) :: u64)"
    define p where "p = (if cs = [] then chain_hex s else record_mac (audit_key s) (last cs))"
    define c where "c = receipt_canonical_text (n + 1) r p"
    define line where "line = record_text (unat (n + 1)) (audit_key_id s) p (record_mac (audit_key s) c) c"
    have wf: "audit_wf a" "audit_healthy a"
      using audit_wf_after[OF assms(2), of 0 cs] True a by (simp_all add: audit_wf_def)
    have fields: "audit_records a = n" "chain_hex a = p" "audit_key a = audit_key s" "audit_key_id a = audit_key_id s"
      by (simp_all add: a n_def p_def)
    note step = append_cases[OF assms(3) wf, unfolded fields, folded c_def, folded line_def, of alloc_ok events sync_ok "file"]
    have c_ok: "canonical_ok (n + 1) (audit_key s) (audit_key_id s) p c"
      using receipt_canonical_ok[OF assms(3) wf(1), of "n + 1"] fields by (simp add: c_def)
    show ?thesis
    proof (cases "alloc_ok \<and> snd (write_all line events) \<and> sync_ok")
      case True
      then have "file' = file @ line" "a' = Some (a\<lparr>audit_records := n + 1, chain_hex := record_mac (audit_key s) c\<rparr>)"
        using step assms(4) by simp_all
      then show ?thesis
        unfolding session_inv_def using fl h \<open>h\<close> ok c_ok a
        by (intro exI[of _ "cs @ [c]"] exI[of _ "[]"] exI[of _ True])
          (simp add: journal_text_snoc journal_ok_snoc line_def n_def p_def audit_after_def)
    next
      case False
      then obtain partial' where "file' = file @ partial'" "a' = Some (a\<lparr>audit_healthy := False\<rparr>)"
        using step assms(4) by (auto split: if_splits)
      then show ?thesis
        unfolding session_inv_def using fl ok a
        by (intro exI[of _ cs] exI[of _ "partial @ partial'"] exI[of _ False]) simp
    qed
  qed
qed

lemma session_inv_run:
  "session_inv s (f, a) \<Longrightarrow> audit_wf s \<Longrightarrow> list_all (\<lambda>call. receipt_plain (call_receipt call)) calls \<Longrightarrow>
   session_inv s (audit_session calls (f, a))"
proof (induction calls "(f, a)" arbitrary: f a rule: audit_session.induct)
  case (2 call calls f a)
  obtain f' a' ok where app: "egress_audit_append (call_alloc call) (call_events call) (call_sync call) f (Some a)
      (Some (call_receipt call)) = (f', a', ok)" by (metis prod_cases3)
  have "session_inv s (f', the a')"
    using session_inv_append[OF "2.prems"(1,2) _ app] "2.prems"(3) by simp
  with "2.hyps"[of f' "(a', ok)" a' ok] "2.prems" app show ?case by simp
qed simp

lemma audit_start_wf: "length kid < 64 \<Longrightarrow> list_all key_id_char kid \<Longrightarrow> audit_wf (audit_start key kid lock)"
  by (auto simp: audit_wf_def audit_start_def plain_field_def key_id_char_def list_all_iff)

lemma session_start:
  assumes "length kid < 64" "list_all key_id_char kid" "list_all (\<lambda>call. receipt_plain (call_receipt call)) calls"
  shows "session_inv (audit_start key kid lock) (audit_session calls ([], audit_start key kid lock))"
proof (rule session_inv_run[OF _ audit_start_wf[OF assms(1,2)] assms(3)])
  show "session_inv (audit_start key kid lock) ([], audit_start key kid lock)"
    by (auto simp: session_inv_def audit_start_def audit_after_def intro!: exI[of _ "[]"] exI[of _ True])
qed

definition env_good :: audit_env where
  "env_good = \<lparr>env_locked = SYS_OK, env_fcntl_ok = True, env_calloc_ok = True, env_key_ok = True,
     env_mutex_ok = True, env_seek_ok = True, env_alloc = \<lambda>_. True\<rparr>"

definition demo_key :: bytes where
  "demo_key = replicate 32 7"

definition demo_call :: append_call where
  "demo_call = \<lparr>call_alloc = True, call_events = [Wrote 100, Write_interrupted], call_sync = True,
     call_receipt = demo_receipt\<rparr>"

lemma demo_receipt_plain: "receipt_plain demo_receipt"
  unfolding receipt_plain_def using demo_receipt_wf(1)
  by (auto simp: demo_receipt_def EGRESS_MAX_ATTESTATION_BYTES_def plain_field_def)

lemma demo_key_id: "length (cstr ''k1'') < 64" "list_all key_id_char (cstr ''k1'')"
  by (simp_all add: key_id_char_def)

lemma write_all_demo: "snd (write_all bs [Wrote 100, Write_interrupted])"
  by (auto simp: Let_def case_prod_beta)

section \<open>Properties\<close>

text \<open>C24: The verification that reopens a journal accepts exactly the chained journals: consecutive
  sequence numbers from one, the key's identifier, each record carrying the HMAC of its canonical
  text and naming the MAC of the record before it, the last record complete. The state it
  recovers is the length of the chain and the MAC of its last record.\<close>
theorem audit_resume_exact:
  assumes "audit_wf a"
  shows "resume_audit True (\<lambda>_. True) a events = Some a' \<longleftrightarrow> Read_failed \<notin> set events \<and>
    (\<exists>cs. bytes_of events = journal_text (audit_key a) (audit_key_id a) 0 (chain_hex a) cs \<and>
       journal_ok (audit_key a) (audit_key_id a) 0 (chain_hex a) cs \<and> a' = audit_after a 0 cs)"
  using resume_loop_sound[of "\<lambda>_. True" a "[]" 0 events a'] resume_loop_complete[OF assms, of 0]
    resume_loop_bytes[of events "\<lambda>_. True" a "[]" 0] assms
  by (auto simp: resume_audit_def)

theorem audit_resume_exact_witness:
  "let a = audit_start demo_key (cstr ''k1'') None; c = cstr ''seq=1|prev='' @ chain_hex a in
     audit_wf a \<and> resume_audit True (\<lambda>_. True) a (Read_interrupted # map Read_byte
       (record_text 1 (cstr ''k1'') (chain_hex a) (record_mac demo_key c) c)) = Some (audit_after a 0 [c])"
proof -
  define a where "a = audit_start demo_key (cstr ''k1'') None"
  define c where "c = cstr ''seq=1|prev='' @ chain_hex a"
  have wf: "audit_wf a" unfolding a_def by (rule audit_start_wf[OF demo_key_id])
  have fields: "audit_key a = demo_key" "audit_key_id a = cstr ''k1''" "chain_hex a = replicate 64 48"
    by (simp_all add: a_def audit_start_def)
  have "\<exists>d. c = d @ cstr ''|prev='' @ chain_hex a" by (intro exI[of _ "cstr ''seq=1''"]) (simp add: c_def)
  moreover have "plain_field c" by (simp add: c_def fields plain_field_def)
  ultimately have "journal_ok demo_key (cstr ''k1'') 0 (chain_hex a) [c]"
    by (simp add: canonical_ok_def record_text_def AUDIT_RECORD_CAPACITY_def AUDIT_CANONICAL_CAPACITY_def fields dec_small)
      (simp add: c_def fields)
  moreover have "bytes_of (map Read_byte xs) = xs" for xs by (induction xs) auto
  ultimately have "resume_audit True (\<lambda>_. True) a (Read_interrupted # map Read_byte
      (record_text 1 (cstr ''k1'') (chain_hex a) (record_mac demo_key c) c)) = Some (audit_after a 0 [c])"
    unfolding audit_resume_exact[OF wf] fields(1,2) by (intro conjI exI[of _ "[c]"]) auto
  with wf show ?thesis by (simp add: Let_def a_def[symmetric] c_def[symmetric] del: cstr_simps)
qed

text \<open>C25: A journal written by any run of successful appends is accepted when it is opened again
  with the same key, and the handle recovers the record count and the chain where the run left
  them.\<close>
theorem audit_roundtrip:
  assumes "16 \<le> length key" "length key \<le> 4096" "kid \<noteq> []" "length kid < 64" "list_all key_id_char kid"
    and "list_all (\<lambda>call. receipt_plain (call_receipt call)) calls"
    and "audit_session calls ([], audit_start key kid lock) = (f, a)" "audit_healthy a"
  shows "maelys_egress_audit_file_create env_good lock (map Read_byte f) (Some path) (Some key) (Some kid) =
    (EGRESS_OK, Some a)"
proof -
  let ?s = "audit_start key kid lock"
  from session_start[OF assms(4-6), of key lock] assms(7,8) obtain cs
    where "f = journal_text (audit_key ?s) (audit_key_id ?s) 0 (chain_hex ?s) cs"
      "journal_ok (audit_key ?s) (audit_key_id ?s) 0 (chain_hex ?s) cs" "a = (audit_after ?s 0 cs)\<lparr>audit_healthy := True\<rparr>"
    by (auto simp: session_inv_def)
  moreover from this(3) have "a = audit_after ?s 0 cs" by (simp add: audit_after_def audit_start_def)
  ultimately have "resume_audit True (\<lambda>_. True) ?s (map Read_byte f) = Some a"
    using resume_loop_complete[OF audit_start_wf[OF assms(4,5)], of key lock 0 cs] by (simp add: resume_audit_def)
  with assms show ?thesis by (simp add: maelys_egress_audit_file_create_def env_good_def)
qed

theorem audit_roundtrip_witness:
  "\<exists>f a. audit_session [demo_call, demo_call] ([], audit_start demo_key (cstr ''k1'') None) = (f, a) \<and>
     audit_records a = 2 \<and>
     maelys_egress_audit_file_create env_good None (map Read_byte f) (Some []) (Some demo_key) (Some (cstr ''k1'')) =
       (EGRESS_OK, Some a)"
proof -
  let ?s = "audit_start demo_key (cstr ''k1'') None"
  have s: "audit_wf ?s" "audit_healthy ?s" by (rule audit_start_wf[OF demo_key_id]) (simp add: audit_start_def)
  obtain f1 a1 where one: "audit_session [demo_call] ([], ?s) = (f1, a1)" "audit_wf a1" "audit_healthy a1" "audit_records a1 = 1"
    using append_cases[OF demo_receipt_plain s, of True "[Wrote 100, Write_interrupted]" True "[]"] s write_all_demo
    by (simp add: demo_call_def audit_wf_def audit_start_def del: write_all.simps)
  obtain f a where two: "audit_session [demo_call] (f1, a1) = (f, a)" "audit_healthy a" "audit_records a = 2"
    using append_cases[OF demo_receipt_plain one(2,3), of True "[Wrote 100, Write_interrupted]" True f1] one write_all_demo
    by (simp add: demo_call_def audit_wf_def del: write_all.simps)
  have "audit_session [demo_call, demo_call] ([], ?s) = audit_session [demo_call] (audit_session [demo_call] ([], ?s))"
    by (simp add: case_prod_beta)
  then have run: "audit_session [demo_call, demo_call] ([], ?s) = (f, a)" by (simp only: one two)
  have "16 \<le> length demo_key" "length demo_key \<le> 4096" by (simp_all add: demo_key_def)
  moreover have "list_all (\<lambda>call. receipt_plain (call_receipt call)) [demo_call, demo_call]"
    by (simp add: demo_call_def demo_receipt_plain)
  ultimately show ?thesis
    using audit_roundtrip[OF _ _ _ demo_key_id _ run two(2)] run two by auto
qed

text \<open>C26: Appending a receipt whose strings respect their bounds never fails for want of room: when
  memory and the file system cooperate it succeeds, and the journal stays healthy.\<close>
theorem audit_append_succeeds:
  assumes "receipt_plain r" "audit_wf a" "audit_healthy a" "\<forall>line. snd (write_all line events)"
  shows "\<exists>line a'. egress_audit_append True events True f (Some a) (Some r) = (f @ line, Some a', True) \<and>
    audit_healthy a' \<and> audit_wf a' \<and> audit_records a' = audit_records a + 1"
  using append_cases[OF assms(1-3), of True events True f] assms by (simp add: audit_wf_def)

theorem audit_append_succeeds_witness:
  "\<exists>line a'. egress_audit_append True [Wrote 100, Write_interrupted] True [] (Some (audit_start demo_key (cstr ''k1'') None))
      (Some demo_receipt) = ([] @ line, Some a', True) \<and> audit_healthy a' \<and> audit_wf a' \<and> audit_records a' = 0 + 1"
proof -
  let ?s = "audit_start demo_key (cstr ''k1'') None"
  have s: "audit_healthy ?s" "audit_records ?s = 0" by (simp_all add: audit_start_def)
  show ?thesis
    using audit_append_succeeds[OF demo_receipt_plain audit_start_wf[OF demo_key_id] s(1), of "[Wrote 100, Write_interrupted]" "[]"]
    unfolding s(2) using write_all_demo by blast
qed

end
