(* ===== verification/Egress_Config.thy ===== *)
theory Egress_Config
  imports Egress_Policy Egress_ClientHello Egress_Audit
begin

text \<open>
  \<^verbatim>\<open>src/src/config.c\<close>: the configuration of a server. The array of principals is the list of its
  used entries: the code keeps the entries beyond \<^verbatim>\<open>principal_count\<close> zeroed. The file system that
  the check of a Unix listener's directory walks is a record of the calls the code makes; the
  stores of providers, journals and attestors are passed through the setters that share them.
\<close>

section \<open>The model\<close>

definition EGRESS_MAX_USERNAME :: nat where
  "EGRESS_MAX_USERNAME = 63"

definition EGRESS_MAX_SECRET :: nat where
  "EGRESS_MAX_SECRET = 255"

definition EGRESS_MAX_INVOCATION_ID :: nat where
  "EGRESS_MAX_INVOCATION_ID = 127"

definition EGRESS_MAX_PRINCIPALS :: nat where
  "EGRESS_MAX_PRINCIPALS = 64"

definition EGRESS_DEFAULT_MAX_CONNECTIONS :: nat where
  "EGRESS_DEFAULT_MAX_CONNECTIONS = 128"

definition EGRESS_DEFAULT_BUFFER_BYTES :: nat where
  "EGRESS_DEFAULT_BUFFER_BYTES = 32768"

definition EGRESS_MIN_BUFFER_BYTES :: nat where
  "EGRESS_MIN_BUFFER_BYTES = EGRESS_HANDSHAKE_MAX + 64"

definition EGRESS_MAX_BUFFER_BYTES :: nat where
  "EGRESS_MAX_BUFFER_BYTES = 1024 * 1024"

text \<open>The size of \<^verbatim>\<open>sun_path\<close> on Linux.\<close>

definition SUN_PATH :: nat where
  "SUN_PATH = 108"

datatype unix_peer_policy =
    UNIX_PEER_AUTHENTICATED
  | UNIX_PEER_SAME_EUID
  | UNIX_PEER_UNKNOWN int

record egress_principal =
  username :: bytes
  secret :: bytes
  invocation_id :: bytes
  max_active_connections :: nat
  max_bytes_per_connection :: u64
  max_bytes_total :: u64

record egress_config =
  native_only :: bool
  listen_unix :: bool
  listen_host :: bytes
  config_port :: u16
  unix_path :: bytes
  unix_peer_policy :: unix_peer_policy
  principals :: "egress_principal list"
  authentication_set :: bool
  unauthenticated_loopback :: bool
  unix_principal_bound :: bool
  native_principal_bound :: bool
  unix_principal_index :: nat
  max_connections :: nat
  buffer_bytes :: nat
  handshake_timeout_ms :: u64
  idle_timeout_ms :: u64
  receipt_sink :: pointer
  receipt_context :: pointer
  config_tls_provider :: pointer
  admin_enabled :: bool
  admin_host :: bytes
  admin_port :: u16
  config_audit :: pointer
  config_attestor :: pointer

text \<open>The structure that \<^verbatim>\<open>calloc\<close> and \<^verbatim>\<open>memset\<close> yield.\<close>

definition config_zero :: egress_config where
  "config_zero =
     \<lparr>native_only = False, listen_unix = False, listen_host = [], config_port = 0, unix_path = [],
      unix_peer_policy = UNIX_PEER_AUTHENTICATED, principals = [], authentication_set = False,
      unauthenticated_loopback = False, unix_principal_bound = False, native_principal_bound = False,
      unix_principal_index = 0, max_connections = 0, buffer_bytes = 0, handshake_timeout_ms = 0,
      idle_timeout_ms = 0, receipt_sink = None, receipt_context = None, config_tls_provider = None,
      admin_enabled = False, admin_host = [], admin_port = 0, config_audit = None, config_attestor = None\<rparr>"

definition maelys_egress_config_create :: "bool \<Rightarrow> egress_result \<times> egress_config option" where
  "maelys_egress_config_create calloc_ok =
     (if \<not> calloc_ok then (ERR_MEMORY, None)
      else
        (EGRESS_OK, Some (config_zero\<lparr>listen_host := snprintf_s 64 (cstr ''127.0.0.1''),
           max_connections := EGRESS_DEFAULT_MAX_CONNECTIONS, buffer_bytes := EGRESS_DEFAULT_BUFFER_BYTES,
           handshake_timeout_ms := 10000, idle_timeout_ms := 60000,
           admin_host := snprintf_s 64 (cstr ''127.0.0.1'')\<rparr>)))"

definition maelys_egress_config_set_listen ::
  "egress_config \<Rightarrow> bytes option \<Rightarrow> u16 \<Rightarrow> egress_config \<times> egress_result" where
  "maelys_egress_config_set_listen config host_text port =
     (case host_text of
        None \<Rightarrow> (config, ERR_ARGUMENT)
      | Some host \<Rightarrow>
          if native_principal_bound config \<or> unix_principal_bound config then (config, ERR_STATE)
          else if inet_pton4 host = None \<and> inet_pton6 host = None then (config, ERR_ARGUMENT)
          else if 64 \<le> length host then (config, ERR_ARGUMENT)
          else
            (config\<lparr>listen_host := snprintf_s 64 host, config_port := port, native_only := False,
               listen_unix := False, unix_path := []\<rparr>, EGRESS_OK))"

text \<open>The loop over the components of a path; each is followed by a slash but for the last.\<close>

lemma split_first_shorter: "split_first c xs = Some (p, s) \<Longrightarrow> length s < length xs"
  by (auto simp: split_first_Some)

definition dot_component :: "bytes \<Rightarrow> bool" where
  "dot_component component \<longleftrightarrow> component = [] \<or> component = cstr ''.'' \<or> component = cstr ''..''"

function lexical_loop :: "bytes \<Rightarrow> bool" where
  "lexical_loop component =
     (if component = [] then False
      else
        case split_first (ch (CHR ''/'')) component of
          None \<Rightarrow> \<not> dot_component component
        | Some (name, rest) \<Rightarrow> if dot_component name then False else lexical_loop rest)"
  by pat_completeness auto
termination
  by (relation "measure length") (auto dest: split_first_shorter)

declare lexical_loop.simps [simp del]

definition unix_path_lexically_canonical :: "bytes option \<Rightarrow> bool" where
  "unix_path_lexically_canonical path =
     (case path of
        None \<Rightarrow> False
      | Some p \<Rightarrow> if p = [] \<or> hd p \<noteq> ch (CHR ''/'') \<or> tl p = [] then False else lexical_loop (tl p))"

text \<open>
  The file system: opening the root, opening a directory below another without following a
  symbolic link, the owner and the permission bits of an open directory, the effective user
  and what the path names (\<^verbatim>\<open>maelys_sys_file_path_identity\<close>).
\<close>

record 'fd filesystem =
  fs_root :: "'fd option"
  fs_openat :: "'fd \<Rightarrow> bytes \<Rightarrow> 'fd option"
  fs_fstat :: "'fd \<Rightarrow> (u32 \<times> u32) option"
  fs_euid :: u32
  fs_path_identity :: "bytes \<Rightarrow> sys_result"

function open_parent :: "'fd filesystem \<Rightarrow> 'fd \<Rightarrow> bytes \<Rightarrow> 'fd option" where
  "open_parent fs directory component =
     (if component = [] then Some directory
      else
        let (name, rest) = (case split_first (ch (CHR ''/'')) component of
                              None \<Rightarrow> (component, []) | Some split \<Rightarrow> split) in
        if name = [] \<or> SUN_PATH \<le> length name then None
        else
          case fs_openat fs directory name of
            None \<Rightarrow> None
          | Some child \<Rightarrow> open_parent fs child rest)"
  by pat_completeness auto
termination
  by (relation "measure (\<lambda>(_, _, component). length component)")
    (auto dest: split_first_shorter split: option.splits)

declare open_parent.simps [simp del]

text \<open>\<^verbatim>\<open>strrchr\<close>: the string before the last occurrence.\<close>

definition before_last :: "byte \<Rightarrow> bytes \<Rightarrow> bytes option" where
  "before_last c s = map_option (rev \<circ> snd) (split_first c (rev s))"

definition S_IRWXU :: u32 where
  "S_IRWXU = 0x1C0"

definition S_IRWXA :: u32 where
  "S_IRWXA = 0x1FF"

definition egress_unix_parent_is_private :: "'fd filesystem \<Rightarrow> bytes \<Rightarrow> bool" where
  "egress_unix_parent_is_private fs path =
     (case before_last (ch (CHR ''/'')) (snprintf_s SUN_PATH path) of
        None \<Rightarrow> False
      | Some parent \<Rightarrow>
          if parent = [] then False
          else
            (case fs_root fs of
               None \<Rightarrow> False
             | Some root \<Rightarrow>
                 (case open_parent fs root (tl parent) of
                    None \<Rightarrow> False
                  | Some directory \<Rightarrow>
                      (case fs_fstat fs directory of
                         None \<Rightarrow> False
                       | Some (uid, mode) \<Rightarrow> uid = fs_euid fs \<and> mode AND S_IRWXA = S_IRWXU))))"

definition maelys_egress_config_set_listen_unix ::
  "'fd filesystem \<Rightarrow> egress_config \<Rightarrow> bytes option \<Rightarrow> nat \<Rightarrow> unix_peer_policy \<Rightarrow> egress_config \<times> egress_result" where
  "maelys_egress_config_set_listen_unix fs config path path_length peer_policy =
     (let bounded_length = (case path of None \<Rightarrow> 0 | Some p \<Rightarrow> min (length p) SUN_PATH) in
      if native_principal_bound config \<or> unix_principal_bound config then (config, ERR_STATE)
      else if path = None \<or> path_length = 0 \<or> bounded_length \<noteq> path_length \<or> SUN_PATH \<le> path_length \<or>
        peer_policy \<noteq> UNIX_PEER_AUTHENTICATED \<and> peer_policy \<noteq> UNIX_PEER_SAME_EUID then (config, ERR_ARGUMENT)
      else if \<not> unix_path_lexically_canonical path then (config, ERR_ARGUMENT)
      else if \<not> egress_unix_parent_is_private fs (the path) then (config, ERR_DENIED)
      else
        case fs_path_identity fs (the path) of
          SYS_OK \<Rightarrow> (config, ERR_STATE)
        | SYS_ERR_NOT_FOUND \<Rightarrow>
            (config\<lparr>unix_path := the path, native_only := False, listen_unix := True,
               unix_peer_policy := peer_policy, config_port := 0\<rparr>, EGRESS_OK)
        | _ \<Rightarrow> (config, ERR_IO))"

definition username_char :: "byte \<Rightarrow> bool" where
  "username_char b \<longleftrightarrow> is_lower b \<or> is_upper b \<or> is_digit b \<or>
     b \<in> {ch (CHR ''-''), ch (CHR ''_''), ch (CHR ''.''), ch (CHR ''+''), ch (CHR ''@''), ch (CHR ''/'')}"

definition invocation_char :: "byte \<Rightarrow> bool" where
  "invocation_char b \<longleftrightarrow> is_lower b \<or> is_upper b \<or> is_digit b \<or>
     b \<in> {ch (CHR ''-''), ch (CHR ''_''), ch (CHR ''.''), ch (CHR '':''), ch (CHR ''/'')}"

definition invocation_bounded :: "bytes option \<Rightarrow> bool" where
  "invocation_bounded invocation =
     (case invocation of None \<Rightarrow> True | Some i \<Rightarrow> i \<noteq> [] \<and> length i \<le> EGRESS_MAX_INVOCATION_ID)"

definition canonical_principal_identity :: "bytes option \<Rightarrow> bytes option \<Rightarrow> bool" where
  "canonical_principal_identity name invocation =
     (case name of
        None \<Rightarrow> False
      | Some u \<Rightarrow>
          if u = [] \<or> EGRESS_MAX_USERNAME < length u \<or> \<not> invocation_bounded invocation then False
          else if \<not> list_all username_char u then False
          else (case invocation of None \<Rightarrow> True | Some i \<Rightarrow> list_all invocation_char i))"

text \<open>A zeroed entry with its identity filled in.\<close>

definition new_principal :: "bytes \<Rightarrow> bytes \<Rightarrow> bytes option \<Rightarrow> egress_principal" where
  "new_principal name key invocation =
     \<lparr>username = snprintf_s (EGRESS_MAX_USERNAME + 1) name, secret = snprintf_s (EGRESS_MAX_SECRET + 1) key,
      invocation_id = (case invocation of None \<Rightarrow> [] | Some i \<Rightarrow> snprintf_s (EGRESS_MAX_INVOCATION_ID + 1) i),
      max_active_connections = 0, max_bytes_per_connection = 0, max_bytes_total = 0\<rparr>"

definition maelys_egress_config_set_unix_principal ::
  "egress_config \<Rightarrow> bytes option \<Rightarrow> bytes option \<Rightarrow> egress_config \<times> egress_result" where
  "maelys_egress_config_set_unix_principal config name invocation =
     (if \<not> canonical_principal_identity name invocation then (config, ERR_ARGUMENT)
      else if \<not> listen_unix config \<or> unix_peer_policy config \<noteq> UNIX_PEER_SAME_EUID then (config, ERR_DENIED)
      else if native_principal_bound config \<or> unix_principal_bound config \<or> principals config \<noteq> [] \<or>
        authentication_set config then (config, ERR_STATE)
      else
        (config\<lparr>principals := [new_principal (the name) [] invocation], unix_principal_index := 0,
           unix_principal_bound := True\<rparr>, EGRESS_OK))"

definition maelys_egress_config_set_native_only :: "egress_config \<Rightarrow> int \<Rightarrow> egress_config \<times> egress_result" where
  "maelys_egress_config_set_native_only config enabled =
     (if enabled \<noteq> 0 \<and> enabled \<noteq> 1 then (config, ERR_ARGUMENT)
      else if native_principal_bound config \<or> unix_principal_bound config then (config, ERR_STATE)
      else
        let config = config\<lparr>native_only := (enabled = 1)\<rparr> in
        if enabled = 1 then
          (config\<lparr>listen_unix := False, listen_host := [], unix_path := [], config_port := 0\<rparr>, EGRESS_OK)
        else if listen_host config = [] then
          (config\<lparr>listen_host := snprintf_s 64 (cstr ''127.0.0.1'')\<rparr>, EGRESS_OK)
        else (config, EGRESS_OK))"

definition maelys_egress_config_set_native_principal ::
  "egress_config \<Rightarrow> bytes option \<Rightarrow> bytes option \<Rightarrow> egress_config \<times> egress_result" where
  "maelys_egress_config_set_native_principal config name invocation =
     (if \<not> canonical_principal_identity name invocation then (config, ERR_ARGUMENT)
      else if \<not> native_only config \<or> listen_unix config \<or> config_tls_provider config \<noteq> None \<or>
        unauthenticated_loopback config \<or> principals config \<noteq> [] \<or> authentication_set config \<or>
        unix_principal_bound config \<or> native_principal_bound config then (config, ERR_STATE)
      else
        (config\<lparr>principals := [new_principal (the name) [] invocation], native_principal_bound := True\<rparr>,
         EGRESS_OK))"

definition secret_char :: "byte \<Rightarrow> bool" where
  "secret_char b \<longleftrightarrow> \<not> (b \<le> 0x20 \<or> 0x7f \<le> b)"

definition maelys_egress_config_add_principal ::
  "egress_config \<Rightarrow> bytes option \<Rightarrow> bytes option \<Rightarrow> bytes option \<Rightarrow> egress_config \<times> egress_result" where
  "maelys_egress_config_add_principal config name key invocation =
     (if native_principal_bound config \<or> unix_principal_bound config then (config, ERR_STATE)
      else
        case (name, key) of
          (Some u, Some k) \<Rightarrow>
            if u = [] \<or> EGRESS_MAX_USERNAME < length u \<or> length k < 16 \<or> EGRESS_MAX_SECRET < length k \<or>
              ch (CHR '':'') \<in> set u \<or> \<not> invocation_bounded invocation \<or>
              EGRESS_MAX_PRINCIPALS \<le> length (principals config) then (config, ERR_ARGUMENT)
            else if \<not> canonical_principal_identity name invocation then (config, ERR_ARGUMENT)
            else if \<not> list_all secret_char k then (config, ERR_ARGUMENT)
            else if list_ex (\<lambda>p. egress_constant_time_equal (Some k) (Some (secret p))) (principals config) then
              (config, ERR_ARGUMENT)
            else
              (config\<lparr>principals := principals config @ [new_principal u k invocation],
                 authentication_set := True\<rparr>, EGRESS_OK)
        | _ \<Rightarrow> (config, ERR_ARGUMENT))"

definition maelys_egress_config_set_authentication ::
  "egress_config \<Rightarrow> bytes option \<Rightarrow> bytes option \<Rightarrow> egress_config \<times> egress_result" where
  "maelys_egress_config_set_authentication config name key =
     (if native_principal_bound config \<or> unix_principal_bound config then (config, ERR_STATE)
      else
        let (scratch, result) = maelys_egress_config_add_principal config_zero name key None in
        if result \<noteq> EGRESS_OK then (config, result)
        else (config\<lparr>principals := [hd (principals scratch)], authentication_set := True\<rparr>, EGRESS_OK))"

fun set_first_quota :: "bytes \<Rightarrow> nat \<Rightarrow> u64 \<Rightarrow> u64 \<Rightarrow> egress_principal list \<Rightarrow> egress_principal list option" where
  "set_first_quota name active per_connection total_bytes [] = None"
| "set_first_quota name active per_connection total_bytes (p # ps) =
     (if username p = name then
        Some (p\<lparr>max_active_connections := active, max_bytes_per_connection := per_connection,
                max_bytes_total := total_bytes\<rparr> # ps)
      else map_option ((#) p) (set_first_quota name active per_connection total_bytes ps))"

definition maelys_egress_config_set_principal_quota_v2 ::
  "egress_config \<Rightarrow> bytes option \<Rightarrow> nat \<Rightarrow> u64 \<Rightarrow> u64 \<Rightarrow> egress_config \<times> egress_result" where
  "maelys_egress_config_set_principal_quota_v2 config name active per_connection total_bytes =
     (case name of
        None \<Rightarrow> (config, ERR_ARGUMENT)
      | Some u \<Rightarrow>
          if u = [] \<or> 4096 < active then (config, ERR_ARGUMENT)
          else
            (case set_first_quota u active per_connection total_bytes (principals config) of
               None \<Rightarrow> (config, ERR_ARGUMENT)
             | Some ps \<Rightarrow> (config\<lparr>principals := ps\<rparr>, EGRESS_OK)))"

definition maelys_egress_config_set_principal_quota ::
  "egress_config \<Rightarrow> bytes option \<Rightarrow> nat \<Rightarrow> u64 \<Rightarrow> egress_config \<times> egress_result" where
  "maelys_egress_config_set_principal_quota config name active per_connection =
     maelys_egress_config_set_principal_quota_v2 config name active per_connection 0"

definition maelys_egress_config_allow_unauthenticated_loopback ::
  "egress_config \<Rightarrow> int \<Rightarrow> egress_config \<times> egress_result" where
  "maelys_egress_config_allow_unauthenticated_loopback config enabled =
     (if native_principal_bound config then (config, ERR_STATE)
      else (config\<lparr>unauthenticated_loopback := (enabled \<noteq> 0)\<rparr>, EGRESS_OK))"

definition maelys_egress_config_set_limits ::
  "egress_config \<Rightarrow> nat \<Rightarrow> nat \<Rightarrow> u64 \<Rightarrow> u64 \<Rightarrow> egress_config \<times> egress_result" where
  "maelys_egress_config_set_limits config connections buffer handshake idle =
     (if connections = 0 \<or> 4096 < connections \<or> buffer < EGRESS_MIN_BUFFER_BYTES \<or>
        EGRESS_MAX_BUFFER_BYTES < buffer \<or> handshake = 0 \<or> idle = 0 then (config, ERR_ARGUMENT)
      else
        (config\<lparr>max_connections := connections, buffer_bytes := buffer, handshake_timeout_ms := handshake,
           idle_timeout_ms := idle\<rparr>, EGRESS_OK))"

definition maelys_egress_config_set_receipt_sink :: "egress_config \<Rightarrow> pointer \<Rightarrow> pointer \<Rightarrow> egress_config" where
  "maelys_egress_config_set_receipt_sink config sink context =
     config\<lparr>receipt_sink := sink, receipt_context := context\<rparr>"

definition maelys_egress_config_set_tls_listener ::
  "tls_provider store \<Rightarrow> egress_config \<Rightarrow> pointer \<Rightarrow> tls_provider store \<times> egress_config \<times> egress_result" where
  "maelys_egress_config_set_tls_listener s config provider =
     (if native_principal_bound config then (s, config, ERR_STATE)
      else
        let s = (if provider \<noteq> None then maelys_egress_tls_provider_retain s provider else s);
            s = maelys_egress_tls_provider_release s (config_tls_provider config)
        in (s, config\<lparr>config_tls_provider := provider\<rparr>, EGRESS_OK))"

definition maelys_egress_config_set_admin_listen ::
  "egress_config \<Rightarrow> bytes option \<Rightarrow> u16 \<Rightarrow> egress_config \<times> egress_result" where
  "maelys_egress_config_set_admin_listen config host port =
     (case host of
        None \<Rightarrow> (config, ERR_ARGUMENT)
      | Some h \<Rightarrow>
          if h \<noteq> cstr ''127.0.0.1'' \<and> h \<noteq> cstr ''::1'' then (config, ERR_ARGUMENT)
          else
            (config\<lparr>admin_host := snprintf_s 64 h, admin_port := port, admin_enabled := True\<rparr>, EGRESS_OK))"

definition maelys_egress_config_set_audit ::
  "egress_audit store \<Rightarrow> egress_config \<Rightarrow> pointer \<Rightarrow> egress_audit store \<times> egress_config \<times> egress_result" where
  "maelys_egress_config_set_audit s config audit =
     (if audit \<noteq> None \<and> \<not> maelys_egress_audit_healthy (Option.bind audit (objects s)) then (s, config, ERR_STATE)
      else
        let s = maelys_egress_audit_retain s audit;
            s = maelys_egress_audit_release s (config_audit config)
        in (s, config\<lparr>config_audit := audit\<rparr>, EGRESS_OK))"

definition maelys_egress_config_set_receipt_attestor ::
  "attestor store \<Rightarrow> egress_config \<Rightarrow> pointer \<Rightarrow> attestor store \<times> egress_config \<times> egress_result" where
  "maelys_egress_config_set_receipt_attestor s config attestor =
     (let s = maelys_egress_attestor_retain s attestor;
          s = maelys_egress_attestor_release s (config_attestor config)
      in (s, config\<lparr>config_attestor := attestor\<rparr>, EGRESS_OK))"

text \<open>Destroying a configuration gives up its three shared objects.\<close>

definition maelys_egress_config_destroy ::
  "tls_provider store \<Rightarrow> egress_audit store \<Rightarrow> attestor store \<Rightarrow> egress_config \<Rightarrow>
     tls_provider store \<times> egress_audit store \<times> attestor store" where
  "maelys_egress_config_destroy s t u config =
     (maelys_egress_tls_provider_release s (config_tls_provider config),
      maelys_egress_audit_release t (config_audit config),
      maelys_egress_attestor_release u (config_attestor config))"

section \<open>Histories\<close>

text \<open>A configuration and the stores it shares objects with; every call of the interface is an operation.\<close>

record egress_world =
  world_config :: egress_config
  providers :: "tls_provider store"
  audits :: "egress_audit store"
  attestors :: "attestor store"

datatype 'fd config_op =
    Op_set_listen "bytes option" u16
  | Op_set_listen_unix "'fd filesystem" "bytes option" nat unix_peer_policy
  | Op_set_unix_principal "bytes option" "bytes option"
  | Op_set_native_only int
  | Op_set_native_principal "bytes option" "bytes option"
  | Op_set_authentication "bytes option" "bytes option"
  | Op_add_principal "bytes option" "bytes option" "bytes option"
  | Op_set_principal_quota "bytes option" nat u64 u64
  | Op_allow_unauthenticated_loopback int
  | Op_set_limits nat nat u64 u64
  | Op_set_receipt_sink pointer pointer
  | Op_set_tls_listener pointer
  | Op_set_admin_listen "bytes option" u16
  | Op_set_audit pointer
  | Op_set_receipt_attestor pointer

fun config_call :: "'fd config_op \<Rightarrow> egress_world \<Rightarrow> egress_config" where
  "config_call (Op_set_listen host port) w = fst (maelys_egress_config_set_listen (world_config w) host port)"
| "config_call (Op_set_listen_unix fs path n policy) w =
     fst (maelys_egress_config_set_listen_unix fs (world_config w) path n policy)"
| "config_call (Op_set_unix_principal name i) w =
     fst (maelys_egress_config_set_unix_principal (world_config w) name i)"
| "config_call (Op_set_native_only e) w = fst (maelys_egress_config_set_native_only (world_config w) e)"
| "config_call (Op_set_native_principal name i) w =
     fst (maelys_egress_config_set_native_principal (world_config w) name i)"
| "config_call (Op_set_authentication name k) w =
     fst (maelys_egress_config_set_authentication (world_config w) name k)"
| "config_call (Op_add_principal name k i) w = fst (maelys_egress_config_add_principal (world_config w) name k i)"
| "config_call (Op_set_principal_quota name a b c) w =
     fst (maelys_egress_config_set_principal_quota_v2 (world_config w) name a b c)"
| "config_call (Op_allow_unauthenticated_loopback e) w =
     fst (maelys_egress_config_allow_unauthenticated_loopback (world_config w) e)"
| "config_call (Op_set_limits m b h i) w = fst (maelys_egress_config_set_limits (world_config w) m b h i)"
| "config_call (Op_set_receipt_sink sink context) w =
     maelys_egress_config_set_receipt_sink (world_config w) sink context"
| "config_call (Op_set_tls_listener p) w =
     fst (snd (maelys_egress_config_set_tls_listener (providers w) (world_config w) p))"
| "config_call (Op_set_admin_listen host port) w =
     fst (maelys_egress_config_set_admin_listen (world_config w) host port)"
| "config_call (Op_set_audit a) w = fst (snd (maelys_egress_config_set_audit (audits w) (world_config w) a))"
| "config_call (Op_set_receipt_attestor a) w =
     fst (snd (maelys_egress_config_set_receipt_attestor (attestors w) (world_config w) a))"

fun config_exec :: "'fd config_op \<Rightarrow> egress_world \<Rightarrow> egress_world" where
  "config_exec (Op_set_tls_listener p) w =
     w\<lparr>world_config := config_call (Op_set_tls_listener p :: 'fd config_op) w,
       providers := fst (maelys_egress_config_set_tls_listener (providers w) (world_config w) p)\<rparr>"
| "config_exec (Op_set_audit a) w =
     w\<lparr>world_config := config_call (Op_set_audit a :: 'fd config_op) w,
       audits := fst (maelys_egress_config_set_audit (audits w) (world_config w) a)\<rparr>"
| "config_exec (Op_set_receipt_attestor a) w =
     w\<lparr>world_config := config_call (Op_set_receipt_attestor a :: 'fd config_op) w,
       attestors := fst (maelys_egress_config_set_receipt_attestor (attestors w) (world_config w) a)\<rparr>"
| "config_exec op w = w\<lparr>world_config := config_call op w\<rparr>"

text \<open>What a call returns; setting the receipt sink returns nothing.\<close>

fun config_result :: "'fd config_op \<Rightarrow> egress_world \<Rightarrow> egress_result" where
  "config_result (Op_set_listen host port) w = snd (maelys_egress_config_set_listen (world_config w) host port)"
| "config_result (Op_set_listen_unix fs path n policy) w =
     snd (maelys_egress_config_set_listen_unix fs (world_config w) path n policy)"
| "config_result (Op_set_unix_principal name i) w =
     snd (maelys_egress_config_set_unix_principal (world_config w) name i)"
| "config_result (Op_set_native_only e) w = snd (maelys_egress_config_set_native_only (world_config w) e)"
| "config_result (Op_set_native_principal name i) w =
     snd (maelys_egress_config_set_native_principal (world_config w) name i)"
| "config_result (Op_set_authentication name k) w =
     snd (maelys_egress_config_set_authentication (world_config w) name k)"
| "config_result (Op_add_principal name k i) w = snd (maelys_egress_config_add_principal (world_config w) name k i)"
| "config_result (Op_set_principal_quota name a b c) w =
     snd (maelys_egress_config_set_principal_quota_v2 (world_config w) name a b c)"
| "config_result (Op_allow_unauthenticated_loopback e) w =
     snd (maelys_egress_config_allow_unauthenticated_loopback (world_config w) e)"
| "config_result (Op_set_limits m b h i) w = snd (maelys_egress_config_set_limits (world_config w) m b h i)"
| "config_result (Op_set_receipt_sink sink context) w = EGRESS_OK"
| "config_result (Op_set_tls_listener p) w =
     snd (snd (maelys_egress_config_set_tls_listener (providers w) (world_config w) p))"
| "config_result (Op_set_admin_listen host port) w =
     snd (maelys_egress_config_set_admin_listen (world_config w) host port)"
| "config_result (Op_set_audit a) w = snd (snd (maelys_egress_config_set_audit (audits w) (world_config w) a))"
| "config_result (Op_set_receipt_attestor a) w =
     snd (snd (maelys_egress_config_set_receipt_attestor (attestors w) (world_config w) a))"

definition config_run :: "'fd config_op list \<Rightarrow> egress_world \<Rightarrow> egress_world" where
  "config_run ops w = fold config_exec ops w"

section \<open>The invariant of a configuration\<close>

definition principal_wf :: "egress_principal \<Rightarrow> bool" where
  "principal_wf p \<longleftrightarrow> username p \<noteq> [] \<and> length (username p) \<le> EGRESS_MAX_USERNAME \<and>
     list_all username_char (username p) \<and> length (invocation_id p) \<le> EGRESS_MAX_INVOCATION_ID \<and>
     list_all invocation_char (invocation_id p) \<and> max_active_connections p \<le> 4096"

definition credential_wf :: "egress_principal \<Rightarrow> bool" where
  "credential_wf p \<longleftrightarrow> 16 \<le> length (secret p) \<and> length (secret p) \<le> EGRESS_MAX_SECRET \<and> list_all secret_char (secret p)"

definition principal_bound :: "egress_config \<Rightarrow> bool" where
  "principal_bound c \<longleftrightarrow> native_principal_bound c \<or> unix_principal_bound c"

definition principals_inv :: "egress_config \<Rightarrow> bool" where
  "principals_inv c \<longleftrightarrow> list_all principal_wf (principals c) \<and> length (principals c) \<le> EGRESS_MAX_PRINCIPALS \<and>
     (if principal_bound c then (\<exists>p. principals c = [p] \<and> secret p = []) \<and> \<not> authentication_set c
      else list_all credential_wf (principals c) \<and> distinct (map secret (principals c)) \<and>
        authentication_set c = (principals c \<noteq> []))"

definition endpoint_inv :: "egress_config \<Rightarrow> bool" where
  "endpoint_inv c \<longleftrightarrow>
     (native_principal_bound c \<longrightarrow> native_only c \<and> config_tls_provider c = None \<and>
        \<not> unauthenticated_loopback c \<and> \<not> unix_principal_bound c) \<and>
     (unix_principal_bound c \<longrightarrow> listen_unix c \<and> unix_peer_policy c = UNIX_PEER_SAME_EUID \<and> unix_principal_index c = 0) \<and>
     (listen_unix c \<longrightarrow> \<not> native_only c \<and> unix_path_lexically_canonical (Some (unix_path c)) \<and>
        length (unix_path c) < SUN_PATH \<and> unix_peer_policy c \<in> {UNIX_PEER_AUTHENTICATED, UNIX_PEER_SAME_EUID}) \<and>
     (if listen_host c = [] then native_only c \<or> listen_unix c
      else length (listen_host c) < 64 \<and> (inet_pton4 (listen_host c) \<noteq> None \<or> inet_pton6 (listen_host c) \<noteq> None))"

definition limits_inv :: "egress_config \<Rightarrow> bool" where
  "limits_inv c \<longleftrightarrow> 0 < max_connections c \<and> max_connections c \<le> 4096 \<and>
     EGRESS_MIN_BUFFER_BYTES \<le> buffer_bytes c \<and> buffer_bytes c \<le> EGRESS_MAX_BUFFER_BYTES \<and>
     handshake_timeout_ms c \<noteq> 0 \<and> idle_timeout_ms c \<noteq> 0 \<and>
     admin_host c \<in> {cstr ''127.0.0.1'', cstr ''::1''}"

definition config_inv :: "egress_config \<Rightarrow> bool" where
  "config_inv c \<longleftrightarrow> principals_inv c \<and> endpoint_inv c \<and> limits_inv c"

lemmas inv_defs = config_inv_def principals_inv_def endpoint_inv_def limits_inv_def principal_bound_def

lemma identity_wf:
  "canonical_principal_identity (Some u) i \<Longrightarrow> principal_wf (new_principal u k i)"
  by (auto simp: canonical_principal_identity_def principal_wf_def new_principal_def invocation_bounded_def
      split: if_splits option.splits)

lemma secret_char_nul: "list_all secret_char k \<Longrightarrow> 0 \<notin> set k"
  by (auto simp: secret_char_def list_all_iff)

lemma loopback_numeric: "inet_pton4 (cstr ''127.0.0.1'') \<noteq> None" "cstr ''127.0.0.1'' \<noteq> []"
  by code_simp+

lemma inet_pton_empty: "inet_pton4 [] = None" "inet_pton6 [] = None"
  by code_simp+

text \<open>Each part of the invariant reads only some of the fields.\<close>

lemma principals_inv_frame [simp]:
  "principals_inv (c\<lparr>native_only := x0\<rparr>) = principals_inv c"
  "principals_inv (c\<lparr>listen_unix := x1\<rparr>) = principals_inv c"
  "principals_inv (c\<lparr>listen_host := x2\<rparr>) = principals_inv c"
  "principals_inv (c\<lparr>config_port := x3\<rparr>) = principals_inv c"
  "principals_inv (c\<lparr>unix_path := x4\<rparr>) = principals_inv c"
  "principals_inv (c\<lparr>unix_peer_policy := x5\<rparr>) = principals_inv c"
  "principals_inv (c\<lparr>unauthenticated_loopback := x8\<rparr>) = principals_inv c"
  "principals_inv (c\<lparr>unix_principal_index := x11\<rparr>) = principals_inv c"
  "principals_inv (c\<lparr>max_connections := x12\<rparr>) = principals_inv c"
  "principals_inv (c\<lparr>buffer_bytes := x13\<rparr>) = principals_inv c"
  "principals_inv (c\<lparr>handshake_timeout_ms := x14\<rparr>) = principals_inv c"
  "principals_inv (c\<lparr>idle_timeout_ms := x15\<rparr>) = principals_inv c"
  "principals_inv (c\<lparr>receipt_sink := x16\<rparr>) = principals_inv c"
  "principals_inv (c\<lparr>receipt_context := x17\<rparr>) = principals_inv c"
  "principals_inv (c\<lparr>config_tls_provider := x18\<rparr>) = principals_inv c"
  "principals_inv (c\<lparr>admin_enabled := x19\<rparr>) = principals_inv c"
  "principals_inv (c\<lparr>admin_host := x20\<rparr>) = principals_inv c"
  "principals_inv (c\<lparr>admin_port := x21\<rparr>) = principals_inv c"
  "principals_inv (c\<lparr>config_audit := x22\<rparr>) = principals_inv c"
  "principals_inv (c\<lparr>config_attestor := x23\<rparr>) = principals_inv c"
  by (simp_all add: principals_inv_def principal_bound_def)

lemma endpoint_inv_frame [simp]:
  "endpoint_inv (c\<lparr>config_port := x3\<rparr>) = endpoint_inv c"
  "endpoint_inv (c\<lparr>principals := x6\<rparr>) = endpoint_inv c"
  "endpoint_inv (c\<lparr>authentication_set := x7\<rparr>) = endpoint_inv c"
  "endpoint_inv (c\<lparr>max_connections := x12\<rparr>) = endpoint_inv c"
  "endpoint_inv (c\<lparr>buffer_bytes := x13\<rparr>) = endpoint_inv c"
  "endpoint_inv (c\<lparr>handshake_timeout_ms := x14\<rparr>) = endpoint_inv c"
  "endpoint_inv (c\<lparr>idle_timeout_ms := x15\<rparr>) = endpoint_inv c"
  "endpoint_inv (c\<lparr>receipt_sink := x16\<rparr>) = endpoint_inv c"
  "endpoint_inv (c\<lparr>receipt_context := x17\<rparr>) = endpoint_inv c"
  "endpoint_inv (c\<lparr>admin_enabled := x19\<rparr>) = endpoint_inv c"
  "endpoint_inv (c\<lparr>admin_host := x20\<rparr>) = endpoint_inv c"
  "endpoint_inv (c\<lparr>admin_port := x21\<rparr>) = endpoint_inv c"
  "endpoint_inv (c\<lparr>config_audit := x22\<rparr>) = endpoint_inv c"
  "endpoint_inv (c\<lparr>config_attestor := x23\<rparr>) = endpoint_inv c"
  by (simp_all add: endpoint_inv_def)

lemma limits_inv_frame [simp]:
  "limits_inv (c\<lparr>native_only := x0\<rparr>) = limits_inv c"
  "limits_inv (c\<lparr>listen_unix := x1\<rparr>) = limits_inv c"
  "limits_inv (c\<lparr>listen_host := x2\<rparr>) = limits_inv c"
  "limits_inv (c\<lparr>config_port := x3\<rparr>) = limits_inv c"
  "limits_inv (c\<lparr>unix_path := x4\<rparr>) = limits_inv c"
  "limits_inv (c\<lparr>unix_peer_policy := x5\<rparr>) = limits_inv c"
  "limits_inv (c\<lparr>principals := x6\<rparr>) = limits_inv c"
  "limits_inv (c\<lparr>authentication_set := x7\<rparr>) = limits_inv c"
  "limits_inv (c\<lparr>unauthenticated_loopback := x8\<rparr>) = limits_inv c"
  "limits_inv (c\<lparr>unix_principal_bound := x9\<rparr>) = limits_inv c"
  "limits_inv (c\<lparr>native_principal_bound := x10\<rparr>) = limits_inv c"
  "limits_inv (c\<lparr>unix_principal_index := x11\<rparr>) = limits_inv c"
  "limits_inv (c\<lparr>receipt_sink := x16\<rparr>) = limits_inv c"
  "limits_inv (c\<lparr>receipt_context := x17\<rparr>) = limits_inv c"
  "limits_inv (c\<lparr>config_tls_provider := x18\<rparr>) = limits_inv c"
  "limits_inv (c\<lparr>admin_enabled := x19\<rparr>) = limits_inv c"
  "limits_inv (c\<lparr>admin_port := x21\<rparr>) = limits_inv c"
  "limits_inv (c\<lparr>config_audit := x22\<rparr>) = limits_inv c"
  "limits_inv (c\<lparr>config_attestor := x23\<rparr>) = limits_inv c"
  by (simp_all add: limits_inv_def)

subsection \<open>Every operation keeps it\<close>

lemma set_listen_inv [inv_intros]:
  "config_inv c \<Longrightarrow> config_inv (fst (maelys_egress_config_set_listen c h p))"
  using inet_pton_empty
  by (simp add: maelys_egress_config_set_listen_def config_inv_def split: option.split)
    (auto simp: endpoint_inv_def)

lemma set_listen_unix_inv [inv_intros]:
  "config_inv c \<Longrightarrow> config_inv (fst (maelys_egress_config_set_listen_unix fs c path n policy))"
  by (simp add: maelys_egress_config_set_listen_unix_def config_inv_def Let_def split: option.split sys_result.split)
    (auto simp: endpoint_inv_def)

lemma set_unix_principal_inv [inv_intros]:
  assumes "config_inv c"
  shows "config_inv (fst (maelys_egress_config_set_unix_principal c name i))"
proof (cases name)
  case (Some u)
  then show ?thesis
    using assms identity_wf[of u i "[]"]
    by (simp add: maelys_egress_config_set_unix_principal_def config_inv_def)
      (auto simp: principals_inv_def endpoint_inv_def principal_bound_def EGRESS_MAX_PRINCIPALS_def new_principal_def)
qed (use assms in \<open>simp add: maelys_egress_config_set_unix_principal_def canonical_principal_identity_def\<close>)

lemma set_native_only_inv [inv_intros]:
  "config_inv c \<Longrightarrow> config_inv (fst (maelys_egress_config_set_native_only c e))"
  using loopback_numeric
  by (simp add: maelys_egress_config_set_native_only_def config_inv_def Let_def del: cstr_simps)
    (auto simp: endpoint_inv_def simp del: cstr_simps)

lemma set_native_principal_inv [inv_intros]:
  assumes "config_inv c"
  shows "config_inv (fst (maelys_egress_config_set_native_principal c name i))"
proof (cases name)
  case (Some u)
  then show ?thesis
    using assms identity_wf[of u i "[]"]
    by (simp add: maelys_egress_config_set_native_principal_def config_inv_def)
      (auto simp: principals_inv_def endpoint_inv_def principal_bound_def EGRESS_MAX_PRINCIPALS_def new_principal_def)
qed (use assms in \<open>simp add: maelys_egress_config_set_native_principal_def canonical_principal_identity_def\<close>)

text \<open>Adding a principal: refused, or a new entry with a fresh secret.\<close>

lemma add_principal_cases:
  obtains e where "maelys_egress_config_add_principal c name k i = (c, e)" "e \<noteq> EGRESS_OK"
  | u key where "name = Some u" "k = Some key" "\<not> principal_bound c" "canonical_principal_identity name i"
      "length (principals c) < EGRESS_MAX_PRINCIPALS" "16 \<le> length key" "length key \<le> EGRESS_MAX_SECRET"
      "list_all secret_char key"
      "\<not> list_ex (\<lambda>p. egress_constant_time_equal k (Some (secret p))) (principals c)"
      "maelys_egress_config_add_principal c name k i =
        (c\<lparr>principals := principals c @ [new_principal u key i], authentication_set := True\<rparr>, EGRESS_OK)"
proof (cases "snd (maelys_egress_config_add_principal c name k i) = EGRESS_OK")
  case False
  then have "fst (maelys_egress_config_add_principal c name k i) = c"
    by (auto simp: maelys_egress_config_add_principal_def split: option.splits if_splits)
  with False that(1) show ?thesis by (metis prod.collapse)
next
  case True
  then show ?thesis
    by (intro that(2)[of "the name" "the k"])
      (auto simp: maelys_egress_config_add_principal_def principal_bound_def split: option.splits if_splits)
qed

lemma credential_new: "16 \<le> length key \<Longrightarrow> length key \<le> EGRESS_MAX_SECRET \<Longrightarrow> list_all secret_char key \<Longrightarrow>
    credential_wf (new_principal u key i) \<and> secret (new_principal u key i) = key"
  by (simp add: credential_wf_def new_principal_def)

lemma add_principal_inv [inv_intros]:
  assumes "config_inv c"
  shows "config_inv (fst (maelys_egress_config_add_principal c name k i))"
proof (cases rule: add_principal_cases[of c name k i])
  case (2 u key)
  have "secret p \<noteq> key" if "p \<in> set (principals c)" for p
  proof -
    have "credential_wf p" using that assms 2(3) by (simp add: config_inv_def principals_inv_def list_all_iff)
    then have "0 \<notin> set (secret p)" by (simp add: credential_wf_def secret_char_nul)
    with that 2 show ?thesis
      using constant_time_equal_iff[OF secret_char_nul[OF 2(8)], of "secret p"] by (auto simp: list_ex_iff)
  qed
  then have "principals_inv (c\<lparr>principals := principals c @ [new_principal u key i], authentication_set := True\<rparr>)"
    using assms 2 credential_new[OF 2(6-8), of u i] identity_wf[of u i key]
    by (auto simp: config_inv_def principals_inv_def principal_bound_def)
  with assms 2 show ?thesis by (simp add: config_inv_def)
qed (use assms in simp)

lemma set_authentication_inv [inv_intros]:
  assumes "config_inv c"
  shows "config_inv (fst (maelys_egress_config_set_authentication c name k))"
proof (cases rule: add_principal_cases[of config_zero name k None])
  case (1 e)
  with assms show ?thesis by (simp add: maelys_egress_config_set_authentication_def)
next
  case (2 u key)
  then have "principals_inv (c\<lparr>principals := [new_principal u key None], authentication_set := True\<rparr>)"
    if "\<not> principal_bound c"
    using that credential_new[OF 2(6-8), of u None] identity_wf[of u None key]
    by (simp add: principals_inv_def principal_bound_def EGRESS_MAX_PRINCIPALS_def)
  with assms 2 show ?thesis
    by (simp add: config_inv_def maelys_egress_config_set_authentication_def principal_bound_def config_zero_def)
qed

lemma set_first_quota_fields:
  "set_first_quota name a b c ps = Some qs \<Longrightarrow> map username qs = map username ps \<and> map secret qs = map secret ps \<and>
     map invocation_id qs = map invocation_id ps \<and> length qs = length ps"
  by (induction ps arbitrary: qs) (auto split: if_splits)

lemma set_first_quota_wf:
  "set_first_quota name a b c ps = Some qs \<Longrightarrow> a \<le> 4096 \<Longrightarrow>
    (list_all principal_wf ps \<longrightarrow> list_all principal_wf qs) \<and> (list_all credential_wf ps \<longrightarrow> list_all credential_wf qs)"
  by (induction ps arbitrary: qs) (auto simp: principal_wf_def credential_wf_def split: if_splits)

lemma set_principal_quota_inv [inv_intros]:
  assumes "config_inv c"
  shows "config_inv (fst (maelys_egress_config_set_principal_quota_v2 c name a b t))"
proof -
  have "config_inv (c\<lparr>principals := qs\<rparr>)" if "set_first_quota u a b t (principals c) = Some qs" "a \<le> 4096" for u qs
    using set_first_quota_fields[OF that(1)] set_first_quota_wf[OF that] assms
    by (simp add: config_inv_def) (auto simp: principals_inv_def principal_bound_def)
  with assms show ?thesis
    by (auto simp: maelys_egress_config_set_principal_quota_v2_def split: option.splits)
qed

lemma allow_unauthenticated_loopback_inv [inv_intros]:
  "config_inv c \<Longrightarrow> config_inv (fst (maelys_egress_config_allow_unauthenticated_loopback c e))"
  by (auto simp: config_inv_def endpoint_inv_def maelys_egress_config_allow_unauthenticated_loopback_def)

lemma set_limits_inv [inv_intros]:
  "config_inv c \<Longrightarrow> config_inv (fst (maelys_egress_config_set_limits c m b h i))"
  by (auto simp: config_inv_def limits_inv_def maelys_egress_config_set_limits_def)

lemma set_receipt_sink_inv [inv_intros]:
  "config_inv c \<Longrightarrow> config_inv (maelys_egress_config_set_receipt_sink c f x)"
  by (auto simp: config_inv_def maelys_egress_config_set_receipt_sink_def)

lemma set_tls_listener_inv [inv_intros]:
  "config_inv c \<Longrightarrow> config_inv (fst (snd (maelys_egress_config_set_tls_listener s c p)))"
  by (auto simp: config_inv_def endpoint_inv_def maelys_egress_config_set_tls_listener_def Let_def)

lemma set_admin_listen_inv [inv_intros]:
  "config_inv c \<Longrightarrow> config_inv (fst (maelys_egress_config_set_admin_listen c h p))"
  by (auto simp: config_inv_def limits_inv_def maelys_egress_config_set_admin_listen_def split: option.splits)

lemma set_audit_inv [inv_intros]:
  "config_inv c \<Longrightarrow> config_inv (fst (snd (maelys_egress_config_set_audit s c a)))"
  by (auto simp: config_inv_def maelys_egress_config_set_audit_def Let_def)

lemma set_receipt_attestor_inv [inv_intros]:
  "config_inv c \<Longrightarrow> config_inv (fst (snd (maelys_egress_config_set_receipt_attestor s c a)))"
  by (auto simp: config_inv_def maelys_egress_config_set_receipt_attestor_def Let_def)

lemma config_call_inv: "config_inv (world_config w) \<Longrightarrow> config_inv (config_call op w)"
  by (cases op) (simp_all add: inv_intros)

lemma config_exec_config [simp]: "world_config (config_exec op w) = config_call op w"
  by (cases op) simp_all

lemma config_run_inv: "config_inv (world_config w) \<Longrightarrow> config_inv (world_config (config_run ops w))"
  unfolding config_run_def by (induction ops arbitrary: w) (simp_all add: config_call_inv)

section \<open>Errors\<close>

lemma guarded_error:
  "snd (if refused then (c, e) else (d, EGRESS_OK)) \<noteq> EGRESS_OK \<Longrightarrow> fst (if refused then (c, e) else (d, EGRESS_OK)) = c"
  by (cases refused) simp_all

lemma errors_keep_config:
  "snd (maelys_egress_config_set_listen c h p) \<noteq> EGRESS_OK \<Longrightarrow> fst (maelys_egress_config_set_listen c h p) = c"
  "snd (maelys_egress_config_set_listen_unix fs c path n policy) \<noteq> EGRESS_OK \<Longrightarrow> fst (maelys_egress_config_set_listen_unix fs c path n policy) = c"
  "snd (maelys_egress_config_set_unix_principal c name i) \<noteq> EGRESS_OK \<Longrightarrow> fst (maelys_egress_config_set_unix_principal c name i) = c"
  "snd (maelys_egress_config_set_native_only c e) \<noteq> EGRESS_OK \<Longrightarrow> fst (maelys_egress_config_set_native_only c e) = c"
  "snd (maelys_egress_config_set_native_principal c name i) \<noteq> EGRESS_OK \<Longrightarrow> fst (maelys_egress_config_set_native_principal c name i) = c"
  "snd (maelys_egress_config_set_principal_quota_v2 c name a b t) \<noteq> EGRESS_OK \<Longrightarrow> fst (maelys_egress_config_set_principal_quota_v2 c name a b t) = c"
  "snd (maelys_egress_config_allow_unauthenticated_loopback c e) \<noteq> EGRESS_OK \<Longrightarrow> fst (maelys_egress_config_allow_unauthenticated_loopback c e) = c"
  "snd (maelys_egress_config_set_limits c mc bb ht it) \<noteq> EGRESS_OK \<Longrightarrow> fst (maelys_egress_config_set_limits c mc bb ht it) = c"
  "snd (maelys_egress_config_set_admin_listen c ah ap) \<noteq> EGRESS_OK \<Longrightarrow> fst (maelys_egress_config_set_admin_listen c ah ap) = c"
proof -
  show "snd (maelys_egress_config_set_listen c h p) \<noteq> EGRESS_OK \<Longrightarrow> fst (maelys_egress_config_set_listen c h p) = c"
    by (cases h) (auto simp: maelys_egress_config_set_listen_def)
  show "snd (maelys_egress_config_set_listen_unix fs c path n policy) \<noteq> EGRESS_OK \<Longrightarrow> fst (maelys_egress_config_set_listen_unix fs c path n policy) = c"
    by (cases "fs_path_identity fs (the path)") (auto simp: maelys_egress_config_set_listen_unix_def Let_def)
  show "snd (maelys_egress_config_set_unix_principal c name i) \<noteq> EGRESS_OK \<Longrightarrow> fst (maelys_egress_config_set_unix_principal c name i) = c"
    by (auto simp: maelys_egress_config_set_unix_principal_def Let_def)
  show "snd (maelys_egress_config_set_native_only c e) \<noteq> EGRESS_OK \<Longrightarrow> fst (maelys_egress_config_set_native_only c e) = c"
    by (auto simp: maelys_egress_config_set_native_only_def Let_def)
  show "snd (maelys_egress_config_set_native_principal c name i) \<noteq> EGRESS_OK \<Longrightarrow> fst (maelys_egress_config_set_native_principal c name i) = c"
    by (auto simp: maelys_egress_config_set_native_principal_def Let_def)
  show "snd (maelys_egress_config_set_principal_quota_v2 c name a b t) \<noteq> EGRESS_OK \<Longrightarrow> fst (maelys_egress_config_set_principal_quota_v2 c name a b t) = c"
    by (auto simp: maelys_egress_config_set_principal_quota_v2_def split: option.splits)
  show "snd (maelys_egress_config_allow_unauthenticated_loopback c e) \<noteq> EGRESS_OK \<Longrightarrow> fst (maelys_egress_config_allow_unauthenticated_loopback c e) = c"
    by (auto simp: maelys_egress_config_allow_unauthenticated_loopback_def Let_def)
  show "snd (maelys_egress_config_set_limits c mc bb ht it) \<noteq> EGRESS_OK \<Longrightarrow> fst (maelys_egress_config_set_limits c mc bb ht it) = c"
    unfolding maelys_egress_config_set_limits_def by (rule guarded_error)
  show "snd (maelys_egress_config_set_admin_listen c ah ap) \<noteq> EGRESS_OK \<Longrightarrow> fst (maelys_egress_config_set_admin_listen c ah ap) = c"
    unfolding maelys_egress_config_set_admin_listen_def by (cases ah) (simp, simp only: option.case, rule guarded_error)
qed

lemma set_authentication_error:
  "snd (maelys_egress_config_set_authentication c name k) \<noteq> EGRESS_OK \<Longrightarrow>
   fst (maelys_egress_config_set_authentication c name k) = c"
  by (cases "maelys_egress_config_add_principal config_zero name k None")
    (auto simp: maelys_egress_config_set_authentication_def)

lemma add_principal_error:
  "snd (maelys_egress_config_add_principal c name k i) \<noteq> EGRESS_OK \<Longrightarrow>
   fst (maelys_egress_config_add_principal c name k i) = c"
  by (cases rule: add_principal_cases[of c name k i]) simp_all

lemma set_shared_error:
  "snd (snd (maelys_egress_config_set_tls_listener s c p)) \<noteq> EGRESS_OK \<Longrightarrow>
   maelys_egress_config_set_tls_listener s c p = (s, c, ERR_STATE)"
  "snd (snd (maelys_egress_config_set_audit t c a)) \<noteq> EGRESS_OK \<Longrightarrow>
   maelys_egress_config_set_audit t c a = (t, c, ERR_STATE)"
  "snd (snd (maelys_egress_config_set_receipt_attestor u c b)) = EGRESS_OK"
  by (simp_all add: maelys_egress_config_set_tls_listener_def maelys_egress_config_set_audit_def
      maelys_egress_config_set_receipt_attestor_def Let_def split: if_splits)

lemma config_exec_error: "config_result op w \<noteq> EGRESS_OK \<Longrightarrow> config_exec op w = w"
  by (cases op) (simp_all add: errors_keep_config set_authentication_error add_principal_error set_shared_error)

section \<open>The directory of a Unix listener\<close>

definition slashed :: "bytes list \<Rightarrow> bytes" where
  "slashed names = concat (map ((#) (ch (CHR ''/''))) names)"

definition component_ok :: "bytes \<Rightarrow> bool" where
  "component_ok n \<longleftrightarrow> \<not> dot_component n \<and> ch (CHR ''/'') \<notin> set n"

fun walk :: "'fd filesystem \<Rightarrow> 'fd \<Rightarrow> bytes list \<Rightarrow> 'fd option" where
  "walk fs d [] = Some d"
| "walk fs d (n # ns) = Option.bind (fs_openat fs d n) (\<lambda>child. walk fs child ns)"

lemma lexical_loop_components:
  "lexical_loop s \<Longrightarrow> \<exists>ns. ns \<noteq> [] \<and> ch (CHR ''/'') # s = slashed ns \<and> list_all component_ok ns"
proof (induction s rule: lexical_loop.induct)
  case (1 s)
  show ?case
  proof (cases "split_first (ch (CHR ''/'')) s")
    case None
    then have "\<not> dot_component s" using "1.prems" unfolding lexical_loop.simps[of s] None by (simp split: if_splits)
    with None show ?thesis
      by (intro exI[of _ "[s]"]) (simp add: slashed_def component_ok_def)
  next
    case (Some split)
    obtain name rest where split: "split = (name, rest)" by (cases split)
    have "s \<noteq> []" "\<not> dot_component name" "lexical_loop rest"
      using "1.prems" Some split by (auto simp: lexical_loop.simps[of s] split: if_splits)
    with "1.IH"[OF this(1) Some split[symmetric] this(2,3)] obtain ns where
      "ns \<noteq> []" "ch (CHR ''/'') # rest = slashed ns" "list_all component_ok ns" by blast
    with Some split \<open>\<not> dot_component name\<close> show ?thesis
      by (intro exI[of _ "name # ns"]) (auto simp: slashed_def component_ok_def[of name] split_first_Some)
  qed
qed

lemma open_parent_walk:
  "list_all component_ok ns \<Longrightarrow> length (slashed ns) < SUN_PATH \<Longrightarrow> open_parent fs d (tl (slashed ns)) = walk fs d ns"
proof (induction ns arbitrary: d)
  case (Cons n ns)
  have n: "n \<noteq> []" "ch (CHR ''/'') \<notin> set n" "length n < SUN_PATH"
    using Cons.prems by (auto simp: component_ok_def dot_component_def slashed_def)
  have "length (slashed ns) < SUN_PATH" using Cons.prems(2) by (simp add: slashed_def)
  then have IH: "open_parent fs child (tl (slashed ns)) = walk fs child ns" for child
    using Cons by simp
  show ?case
  proof (cases ns)
    case Nil
    with n IH show ?thesis
      by (subst open_parent.simps) (simp add: slashed_def split_first_None[THEN iffD2] split: option.split)
  next
    case (Cons m ms)
    then have "tl (slashed (n # ns)) = n @ ch (CHR ''/'') # tl (slashed ns)" by (simp add: slashed_def)
    with n IH show ?thesis
      by (subst open_parent.simps) (auto split: option.splits)
  qed
qed (simp add: slashed_def open_parent.simps)

lemma before_last_slashed:
  assumes "ch (CHR ''/'') \<notin> set n"
  shows "before_last (ch (CHR ''/'')) (slashed (ns @ [n])) = Some (slashed ns)"
proof -
  have "rev (slashed (ns @ [n])) = rev n @ ch (CHR ''/'') # rev (slashed ns)" by (simp add: slashed_def)
  with assms show ?thesis
    using split_first_append[of "ch (CHR ''/'')" "rev n" "rev (slashed ns)"] by (simp add: before_last_def)
qed

lemma config_run_start:
  "config_inv (world_config (config_run ops (w\<lparr>world_config := the (snd (maelys_egress_config_create True))\<rparr>)))"
proof (rule config_run_inv)
  show "config_inv (world_config (w\<lparr>world_config := the (snd (maelys_egress_config_create True))\<rparr>))"
    using loopback_numeric
    by (simp add: maelys_egress_config_create_def config_zero_def inv_defs EGRESS_MAX_PRINCIPALS_def
        EGRESS_DEFAULT_MAX_CONNECTIONS_def EGRESS_DEFAULT_BUFFER_BYTES_def EGRESS_MIN_BUFFER_BYTES_def
        EGRESS_MAX_BUFFER_BYTES_def EGRESS_HANDSHAKE_MAX_def del: cstr_simps)
qed

section \<open>Properties\<close>

text \<open>C28: Whatever calls are made on a new configuration, in any order, its invariant holds: at most
  64 principals with canonical identities; pairwise different visible secrets of 16 to 255 bytes,
  or one principal without a secret when the principal is bound to the endpoint; a numeric listen
  address or a canonical Unix path or native-only mode; limits within their ranges; and an
  administration address on the loopback interface.\<close>
theorem config_always_valid:
  "config_inv (world_config (config_run ops (w\<lparr>world_config := the (snd (maelys_egress_config_create True))\<rparr>)))"
  by (rule config_run_start)

text \<open>C31: A call that returns an error changes nothing: neither the configuration nor a reference count
  of an object it shares.\<close>
theorem config_errors_change_nothing:
  "config_exec op w = w \<or> config_result op w = EGRESS_OK"
  using config_exec_error by blast

text \<open>What identifies the endpoint of a configuration whose principal is bound to it.\<close>

definition endpoint_identity :: "egress_config \<Rightarrow>
    (bool \<times> bool \<times> bytes \<times> u16 \<times> bytes \<times> unix_peer_policy) \<times> (bytes \<times> bytes \<times> bytes) list \<times> bool \<times> bool \<times> bool" where
  "endpoint_identity c =
     ((native_only c, listen_unix c, listen_host c, config_port c, unix_path c, unix_peer_policy c),
      map (\<lambda>p. (username p, secret p, invocation_id p)) (principals c),
      authentication_set c, unix_principal_bound c, native_principal_bound c)"

lemma set_first_quota_identity:
  "set_first_quota name a b t ps = Some qs \<Longrightarrow>
   map (\<lambda>p. (username p, secret p, invocation_id p)) qs = map (\<lambda>p. (username p, secret p, invocation_id p)) ps"
  by (induction ps arbitrary: qs) (auto split: if_splits)

lemma bound_call:
  assumes "principal_bound (world_config w)"
  shows "endpoint_identity (config_call op w) = endpoint_identity (world_config w)"
proof -
  have bound: "native_principal_bound (world_config w) \<or> unix_principal_bound (world_config w)"
    using assms by (simp add: principal_bound_def)
  show ?thesis
  proof (cases op)
    case (Op_set_principal_quota name a b t)
    then show ?thesis
      by (auto simp: maelys_egress_config_set_principal_quota_v2_def endpoint_identity_def
          set_first_quota_identity split: option.splits)
  qed (use bound in \<open>auto simp: endpoint_identity_def maelys_egress_config_set_listen_def
      maelys_egress_config_set_listen_unix_def Let_def maelys_egress_config_set_unix_principal_def
      maelys_egress_config_set_native_only_def maelys_egress_config_set_native_principal_def
      maelys_egress_config_set_authentication_def maelys_egress_config_add_principal_def
      maelys_egress_config_allow_unauthenticated_loopback_def maelys_egress_config_set_limits_def
      maelys_egress_config_set_receipt_sink_def maelys_egress_config_set_tls_listener_def
      maelys_egress_config_set_admin_listen_def maelys_egress_config_set_audit_def
      maelys_egress_config_set_receipt_attestor_def split: option.split\<close>)
qed

text \<open>C29: Once a principal is bound to the endpoint, no call changes the endpoint, who the principal is
  or that there is one principal without credentials; only its quotas can be set.\<close>
theorem bound_endpoint_immutable:
  assumes "principal_bound (world_config w)"
  shows "endpoint_identity (world_config (config_run ops w)) = endpoint_identity (world_config w)"
  using assms
proof (induction ops arbitrary: w)
  case (Cons op ops)
  have step: "endpoint_identity (world_config (config_exec op w)) = endpoint_identity (world_config w)"
    using bound_call[OF Cons.prems] by simp
  then have "principal_bound (world_config (config_exec op w))"
    using Cons.prems by (simp add: endpoint_identity_def principal_bound_def)
  from Cons.IH[OF this] step show ?case by (simp add: config_run_def)
qed (simp add: config_run_def)

text \<open>A configuration bound to a native principal.\<close>

definition demo_bound :: egress_config where
  "demo_bound = fst (maelys_egress_config_set_native_principal
     (fst (maelys_egress_config_set_native_only (the (snd (maelys_egress_config_create True))) 1))
     (Some (cstr ''agent'')) (Some (cstr ''run:1'')))"

definition empty_store :: "'o store" where
  "empty_store = \<lparr>objects = \<lambda>_. None, released = []\<rparr>"

definition demo_world :: egress_world where
  "demo_world = \<lparr>world_config = demo_bound, providers = empty_store, audits = empty_store, attestors = empty_store\<rparr>"

lemma demo_bound_simps: "principal_bound demo_bound" "map username (principals demo_bound) = [cstr ''agent'']"
  by (simp_all add: demo_bound_def maelys_egress_config_set_native_principal_def Let_def config_zero_def
      maelys_egress_config_set_native_only_def maelys_egress_config_create_def canonical_principal_identity_def
      EGRESS_MAX_USERNAME_def EGRESS_MAX_INVOCATION_ID_def invocation_bounded_def username_char_def
      invocation_char_def principal_bound_def new_principal_def byte_class)

theorem bound_endpoint_immutable_witness:
  "principal_bound (world_config demo_world) \<and>
   (let ops = [Op_set_native_only 0, Op_add_principal (Some (cstr ''eve'')) (Some (replicate 16 65)) None] :: nat config_op list in
    endpoint_identity (world_config (config_run ops demo_world)) = endpoint_identity demo_bound)"
proof -
  have "principal_bound (world_config demo_world)" by (simp add: demo_world_def demo_bound_simps)
  from bound_endpoint_immutable[OF this] this show ?thesis by (simp add: Let_def demo_world_def)
qed

text \<open>C30: A Unix listener is accepted only at a canonical absolute path whose directory, reached from
  the root one component at a time without following a symbolic link, belongs to the effective
  user with mode 0700, and where nothing exists yet.\<close>
theorem listen_unix_private:
  assumes "maelys_egress_config_set_listen_unix fs c (Some p) n policy = (c', EGRESS_OK)"
  shows "\<exists>ns name root d. p = slashed (ns @ [name]) \<and> ns \<noteq> [] \<and> list_all component_ok (ns @ [name]) \<and>
    fs_root fs = Some root \<and> walk fs root ns = Some d \<and>
    (\<exists>mode. fs_fstat fs d = Some (fs_euid fs, mode) \<and> mode AND S_IRWXA = S_IRWXU) \<and>
    fs_path_identity fs p = SYS_ERR_NOT_FOUND \<and> length p < SUN_PATH \<and> unix_path c' = p \<and> listen_unix c'"
proof -
  have len: "length p < SUN_PATH" and canonical: "unix_path_lexically_canonical (Some p)"
    and priv: "egress_unix_parent_is_private fs p"
    and rest: "fs_path_identity fs p = SYS_ERR_NOT_FOUND \<and> unix_path c' = p \<and> listen_unix c'"
    using assms
    by (auto simp: maelys_egress_config_set_listen_unix_def Let_def split: if_splits sys_result.splits)
  from canonical have "lexical_loop (tl p)" "p = ch (CHR ''/'') # tl p"
    by (cases p; simp add: unix_path_lexically_canonical_def split: if_splits)+
  with lexical_loop_components[of "tl p"] obtain ms where ms: "ms \<noteq> []" "p = slashed ms" "list_all component_ok ms" by auto
  then obtain ns name where ns: "ms = ns @ [name]" by (metis append_butlast_last_id)
  have "ch (CHR ''/'') \<notin> set name" using ms(3) ns by (simp add: component_ok_def)
  then have parent: "before_last (ch (CHR ''/'')) p = Some (slashed ns)"
    unfolding ms(2) ns by (rule before_last_slashed)
  have "length (slashed ns) < SUN_PATH" using len ms(2) ns by (simp add: slashed_def)
  with ms(3) ns have walk: "open_parent fs root (tl (slashed ns)) = walk fs root ns" for root
    by (intro open_parent_walk) simp_all
  from priv obtain root d mode where "slashed ns \<noteq> []" "fs_root fs = Some root" "walk fs root ns = Some d"
    "fs_fstat fs d = Some (fs_euid fs, mode)" "mode AND S_IRWXA = S_IRWXU"
    unfolding egress_unix_parent_is_private_def snprintf_s_fits[OF len] parent
    by (auto simp: walk split: option.splits if_splits)
  with ms ns rest len show ?thesis
    by (intro exI[of _ ns] exI[of _ name] exI[of _ root] exI[of _ d]) (auto simp: slashed_def)
qed

definition demo_fs :: "nat filesystem" where
  "demo_fs = \<lparr>fs_root = Some 0,
     fs_openat = (\<lambda>d n. if d = 0 \<and> n = cstr ''run'' then Some 1 else if d = 1 \<and> n = cstr ''me'' then Some 2 else None),
     fs_fstat = (\<lambda>d. if d = 2 then Some (1000, 0x41C0) else Some (0, 0x41ED)), fs_euid = 1000,
     fs_path_identity = (\<lambda>_. SYS_ERR_NOT_FOUND)\<rparr>"

theorem listen_unix_private_witness:
  "\<exists>c'. maelys_egress_config_set_listen_unix demo_fs config_zero (Some (cstr ''/run/me/s'')) 9 UNIX_PEER_SAME_EUID =
      (c', EGRESS_OK) \<and> unix_path c' = cstr ''/run/me/s''"
proof -
  have "snd (maelys_egress_config_set_listen_unix demo_fs config_zero (Some (cstr ''/run/me/s'')) 9 UNIX_PEER_SAME_EUID) = EGRESS_OK"
    by code_simp
  then obtain c' where "maelys_egress_config_set_listen_unix demo_fs config_zero (Some (cstr ''/run/me/s'')) 9
      UNIX_PEER_SAME_EUID = (c', EGRESS_OK)" by (metis prod.collapse)
  from listen_unix_private[OF this] this show ?thesis by blast
qed

text \<open>C32: Setting the TLS provider of a listener keeps the reference counts exact: when every provider is
  referenced once per holder, it still is after the configuration has exchanged its provider for
  one the caller holds, also when both are the same one. A provider is freed when, and only when,
  its last holder lets go.\<close>
theorem tls_listener_counts:
  assumes "provider.counted s holders" "set_mset (provider.holder new) \<subseteq> set_mset holders"
    "\<And>a. count holders a < 2 ^ 32 - 1" "maelys_egress_config_set_tls_listener s c new = (s', c', EGRESS_OK)"
  shows "provider.counted s' (holders + provider.holder (config_tls_provider c') - provider.holder (config_tls_provider c))
    \<and> config_tls_provider c' = new"
proof -
  have "s' = provider.swap s (config_tls_provider c) new" "config_tls_provider c' = new"
    using assms(4) by (auto simp: maelys_egress_config_set_tls_listener_def provider.swap_def Let_def
        maelys_egress_tls_provider_retain_def split: if_splits)
  with provider.counted_swap[OF assms(1-3)] show ?thesis by simp
qed

definition demo_provider :: tls_provider where
  "demo_provider = \<lparr>provider_references = 1, provider_ops = \<lparr>abi_version = 1, ops_name = Some (cstr ''tls''),
     ops_session_create = Some 1, ops_handshake = Some 2, ops_read = Some 3, ops_write = Some 4,
     ops_shutdown = Some 5, ops_last_error = Some 6, ops_session_release = Some 7\<rparr>,
     provider_name = cstr ''tls'', provider_context = None, provider_release_context = None\<rparr>"

theorem tls_listener_counts_witness:
  "\<exists>s' c'. maelys_egress_config_set_tls_listener (put_object empty_store 5 (Some demo_provider)) config_zero (Some 5) =
      (s', c', EGRESS_OK) \<and> provider.counted s' {#5, 5#}"
proof -
  let ?s = "put_object empty_store 5 (Some demo_provider)"
  have counted: "provider.counted ?s {#5#}"
    by (simp add: provider.counted_def provider.refcount_def provider_refs_def put_object_def empty_store_def demo_provider_def)
  obtain s' c' where set: "maelys_egress_config_set_tls_listener ?s config_zero (Some 5) = (s', c', EGRESS_OK)"
    by (simp add: maelys_egress_config_set_tls_listener_def config_zero_def Let_def)
  have "count {#5::nat#} a < 2 ^ 32 - 1" for a by simp
  from tls_listener_counts[OF counted _ this set] set show ?thesis
    by (auto simp: provider.holder_def config_zero_def)
qed

end
