(* ===== verification/Egress_Credentials.thy ===== *)
theory Egress_Credentials
  imports Egress_Config
begin

text \<open>
  The lookup of a principal in \<^verbatim>\<open>src/src/core/http.c\<close>, which the HTTP and SOCKS front ends and the
  native connector share. The outputs \<^verbatim>\<open>out_invocation_id\<close> and \<^verbatim>\<open>out_principal_index\<close> are one value;
  the index \<^verbatim>\<open>SIZE_MAX\<close>, for no principal, is \<open>None\<close>.
\<close>

type_synonym identity = "bytes \<times> nat option"

definition no_identity :: identity where
  "no_identity = ([], None)"

definition entry_matches :: "bytes option \<Rightarrow> bytes \<Rightarrow> egress_principal \<Rightarrow> bool" where
  "entry_matches name key p =
     (let username_matches = (case name of
            None \<Rightarrow> True | Some u \<Rightarrow> egress_constant_time_equal (Some u) (Some (username p)));
          secret_matches = egress_constant_time_equal (Some key) (Some (secret p))
      in username_matches \<and> secret_matches)"

text \<open>The loop over the principals: the last match wins.\<close>

fun lookup_loop :: "bytes option \<Rightarrow> bytes \<Rightarrow> nat \<Rightarrow> nat option \<Rightarrow> egress_principal list \<Rightarrow> nat option" where
  "lookup_loop name key i matched [] = matched"
| "lookup_loop name key i matched (p # ps) =
     lookup_loop name key (i + 1) (if entry_matches name key p then Some i else matched) ps"

definition egress_credentials_lookup :: "egress_config \<Rightarrow> bytes option \<Rightarrow> bytes option \<Rightarrow> bool \<times> identity" where
  "egress_credentials_lookup config name key =
     (if \<not> authentication_set config \<or> key = None then (False, no_identity)
      else
        case lookup_loop name (the key) 0 None (principals config) of
          None \<Rightarrow> (False, no_identity)
        | Some i \<Rightarrow>
            (True, snprintf_s (EGRESS_MAX_INVOCATION_ID + 1) (invocation_id (principals config ! i)), Some i))"

definition egress_credentials_match :: "egress_config \<Rightarrow> bytes option \<Rightarrow> bytes option \<Rightarrow> bool" where
  "egress_credentials_match config name key = fst (egress_credentials_lookup config name key)"

definition egress_unix_principal_lookup :: "egress_config \<Rightarrow> bool \<times> identity" where
  "egress_unix_principal_lookup config =
     (if \<not> listen_unix config \<or> \<not> unix_principal_bound config \<or>
        length (principals config) \<le> unix_principal_index config then (False, no_identity)
      else
        (True, snprintf_s (EGRESS_MAX_INVOCATION_ID + 1) (invocation_id (principals config ! unix_principal_index config)),
         Some (unix_principal_index config)))"

section \<open>What a lookup finds\<close>

definition principal_matches :: "bytes option \<Rightarrow> bytes \<Rightarrow> egress_principal \<Rightarrow> bool" where
  "principal_matches name key p \<longleftrightarrow> (\<forall>u. name = Some u \<longrightarrow> u = username p) \<and> key = secret p"

lemma lookup_loop_Some:
  "lookup_loop name key i matched ps = Some j \<Longrightarrow>
   matched = Some j \<or> (\<exists>k<length ps. j = i + k \<and> entry_matches name key (ps ! k))"
proof (induction ps arbitrary: i matched)
  case (Cons p ps)
  from Cons.IH[OF Cons.prems[unfolded lookup_loop.simps]]
  consider "(if entry_matches name key p then Some i else matched) = Some j"
    | k where "k < length ps" "j = i + 1 + k" "entry_matches name key (ps ! k)" by blast
  then show ?case
  proof cases
    case 1
    then show ?thesis by (cases "entry_matches name key p") (auto intro!: exI[of _ 0])
  next
    case 2
    then show ?thesis by (intro disjI2 exI[of _ "Suc k"]) simp
  qed
qed simp

lemma lookup_loop_None:
  "lookup_loop name key i matched ps = None \<Longrightarrow> matched = None \<and> (\<forall>k<length ps. \<not> entry_matches name key (ps ! k))"
proof (induction ps arbitrary: i matched)
  case (Cons p ps)
  from Cons.IH[OF Cons.prems[unfolded lookup_loop.simps]] have "matched = None" "\<not> entry_matches name key p"
    "\<forall>k<length ps. \<not> entry_matches name key (ps ! k)" by (simp_all split: if_splits)
  then show ?case by (simp add: nth_Cons split: nat.split)
qed simp

lemma username_char_nul: "list_all username_char u \<Longrightarrow> 0 \<notin> set u"
  by (auto simp: username_char_def list_all_iff byte_class)

lemma principal_strings:
  assumes "config_inv c" "k < length (principals c)"
  shows "0 \<notin> set (username (principals c ! k))" "0 \<notin> set (secret (principals c ! k))"
    "length (invocation_id (principals c ! k)) \<le> EGRESS_MAX_INVOCATION_ID"
proof -
  let ?p = "principals c ! k"
  have p: "?p \<in> set (principals c)" using assms(2) by simp
  have wf: "principal_wf ?p" and key: "secret ?p = [] \<or> credential_wf ?p"
    using assms(1) p by (auto simp: config_inv_def principals_inv_def list_all_iff split: if_splits)
  show "0 \<notin> set (username ?p)" "length (invocation_id ?p) \<le> EGRESS_MAX_INVOCATION_ID"
    using wf by (simp_all add: principal_wf_def username_char_nul)
  show "0 \<notin> set (secret ?p)" using key secret_char_nul by (auto simp: credential_wf_def)
qed

lemma lookup_conditions:
  assumes "config_inv c" "k < length (principals c)" "0 \<notin> set key" "\<And>u. name = Some u \<Longrightarrow> 0 \<notin> set u"
  shows "entry_matches name key (principals c ! k) \<longleftrightarrow> principal_matches name key (principals c ! k)"
  using principal_strings[OF assms(1,2)] assms(3,4)
  by (cases name) (simp_all add: entry_matches_def principal_matches_def constant_time_equal_iff)

text \<open>In a valid configuration secrets are pairwise different, so the lookup is exact.\<close>

lemma credentials_lookup_iff:
  assumes "config_inv c" "authentication_set c" "0 \<notin> set key" "\<And>u. name = Some u \<Longrightarrow> 0 \<notin> set u"
  shows "egress_credentials_lookup c name (Some key) = (True, inv_id, Some i) \<longleftrightarrow>
    i < length (principals c) \<and> principal_matches name key (principals c ! i) \<and> inv_id = invocation_id (principals c ! i)"
proof (cases "lookup_loop name key 0 None (principals c)")
  case None
  then show ?thesis
    using lookup_loop_None[OF None] lookup_conditions[OF assms(1) _ assms(3,4)] assms(2)
    by (auto simp: egress_credentials_lookup_def)
next
  case (Some j)
  have j: "j < length (principals c)" "principal_matches name key (principals c ! j)"
    using lookup_loop_Some[OF Some] lookup_conditions[OF assms(1) _ assms(3,4)] by auto
  have "\<not> principal_bound c" using assms(1,2) by (auto simp: config_inv_def principals_inv_def split: if_splits)
  then have "distinct (map secret (principals c))" using assms(1) by (simp add: config_inv_def principals_inv_def)
  have uniq: "i = j" if "i < length (principals c)" "principal_matches name key (principals c ! i)" for i
    using nth_eq_iff_index_eq[OF \<open>distinct (map secret (principals c))\<close>, of i j] that j
    by (simp add: principal_matches_def)
  have "snprintf_s (EGRESS_MAX_INVOCATION_ID + 1) (invocation_id (principals c ! j)) = invocation_id (principals c ! j)"
    using principal_strings(3)[OF assms(1) j(1)] by (intro snprintf_s_fits) simp
  then have found: "egress_credentials_lookup c name (Some key) = (True, invocation_id (principals c ! j), Some j)"
    using Some assms(2) by (simp add: egress_credentials_lookup_def)
  have "j = i \<longleftrightarrow> i < length (principals c) \<and> principal_matches name key (principals c ! i)"
    using j uniq[of i] by blast
  then show ?thesis unfolding found prod.inject option.inject by blast
qed

lemma credentials_lookup_index:
  assumes "config_inv c" "authentication_set c" "0 \<notin> set key" "\<And>u. name = Some u \<Longrightarrow> 0 \<notin> set u"
  shows "snd (snd (egress_credentials_lookup c name (Some key))) = Some i \<longleftrightarrow>
    i < length (principals c) \<and> principal_matches name key (principals c ! i)"
proof -
  have "fst (egress_credentials_lookup c name (Some key))" if "snd (snd (egress_credentials_lookup c name (Some key))) = Some i"
    using that by (auto simp: egress_credentials_lookup_def no_identity_def split: option.splits if_splits)
  then have "snd (snd (egress_credentials_lookup c name (Some key))) = Some i \<longleftrightarrow>
      (\<exists>inv_id. egress_credentials_lookup c name (Some key) = (True, inv_id, Some i))"
    by (cases "egress_credentials_lookup c name (Some key)") auto
  then show ?thesis using credentials_lookup_iff[OF assms] by simp
qed

end
