(* ===== verification/Egress_Socks.thy ===== *)
theory Egress_Socks
  imports Egress_Credentials
begin

text \<open>
  \<^verbatim>\<open>src/src/core/socks.c\<close>: one frame of a SOCKS5 dialogue, as a function from the bytes received, the
  configuration, the phase and the identity established so far to the outputs of the C function.
  The server calls it on everything received until it stops answering \<open>Socks_incomplete\<close>.
\<close>

section \<open>The model\<close>

record proxy_request =
  request_protocol :: egress_protocol
  request_host :: bytes
  request_port :: u16
  request_consumed :: nat
  forward_bytes :: "bytes option"
  request_invocation_id :: bytes
  request_principal_index :: "nat option"

definition request_zero :: proxy_request where
  "request_zero = \<lparr>request_protocol = PROTOCOL_NONE, request_host = [], request_port = 0, request_consumed = 0,
     forward_bytes = None, request_invocation_id = [], request_principal_index = None\<rparr>"

text \<open>The return values 0, 1, 2, -1 and -2.\<close>

datatype socks_code =
    Socks_incomplete
  | Socks_frame
  | Socks_request
  | Socks_protocol_error
  | Socks_authentication_error

record socks_outcome =
  socks_code :: socks_code
  socks_phase :: int
  socks_consumed :: nat
  socks_response :: bytes
  socks_request :: proxy_request
  socks_identity :: identity

definition socks_start :: "int \<Rightarrow> identity \<Rightarrow> socks_outcome" where
  "socks_start phase who = \<lparr>socks_code = Socks_incomplete, socks_phase = phase, socks_consumed = 0,
     socks_response = [], socks_request = request_zero, socks_identity = who\<rparr>"

text \<open>Each phase first delimits its frame: the code to return, or the fields of the frame.\<close>

definition greeting_methods :: "bytes \<Rightarrow> socks_code + bytes" where
  "greeting_methods bs =
     (if length bs < 2 then Inl Socks_incomplete
      else if bs ! 0 \<noteq> 5 \<or> bs ! 1 = 0 then Inl Socks_protocol_error
      else if length bs < 2 + unat (bs ! 1) then Inl Socks_incomplete
      else Inr (take (unat (bs ! 1)) (drop 2 bs)))"

definition socks_greeting :: "bytes \<Rightarrow> egress_config \<Rightarrow> socks_outcome \<Rightarrow> socks_outcome" where
  "socks_greeting bs config out =
     (case greeting_methods bs of
        Inl code \<Rightarrow> out\<lparr>socks_code := code\<rparr>
      | Inr methods \<Rightarrow>
          let (endpoint_bound, who) = egress_unix_principal_lookup config;
              wanted = (if endpoint_bound then 0 else if authentication_set config then 2 else 0);
              found = wanted \<in> set methods;
              out = out\<lparr>socks_identity := who, socks_response := [5, if found then wanted else 0xff],
                        socks_consumed := 2 + length methods\<rparr>
          in if \<not> found then out\<lparr>socks_code := Socks_protocol_error\<rparr>
             else out\<lparr>socks_phase := (if wanted = 2 then 1 else 2), socks_code := Socks_frame\<rparr>)"

definition password_fields :: "bytes \<Rightarrow> socks_code + bytes \<times> bytes" where
  "password_fields bs =
     (if length bs < 2 then Inl Socks_incomplete
      else if bs ! 0 \<noteq> 1 then Inl Socks_protocol_error
      else
        let user_length = unat (bs ! 1) in
        if user_length = 0 then Inl Socks_protocol_error
        else if length bs < 3 + user_length then Inl Socks_incomplete
        else
          let secret_length = unat (bs ! (2 + user_length)) in
          if secret_length = 0 then Inl Socks_protocol_error
          else if length bs < 3 + user_length + secret_length then Inl Socks_incomplete
          else Inr (take user_length (drop 2 bs), take secret_length (drop (3 + user_length) bs)))"

text \<open>The copies of user name and secret are C strings: they end at an embedded NUL.\<close>

definition socks_password :: "bytes \<Rightarrow> egress_config \<Rightarrow> socks_outcome \<Rightarrow> socks_outcome" where
  "socks_password bs config out =
     (case password_fields bs of
        Inl code \<Rightarrow> out\<lparr>socks_code := code\<rparr>
      | Inr (user, key) \<Rightarrow>
          let valid_sizes = (length user \<le> EGRESS_MAX_USERNAME \<and> length key \<le> EGRESS_MAX_SECRET);
              (authenticated, who) =
                (if valid_sizes then egress_credentials_lookup config (Some (c_string user)) (Some (c_string key))
                 else (False, socks_identity out));
              out = out\<lparr>socks_identity := who, socks_response := [1, if authenticated then 0 else 1],
                        socks_consumed := 3 + length user + length key\<rparr>
          in if \<not> authenticated then out\<lparr>socks_code := Socks_authentication_error\<rparr>
             else out\<lparr>socks_phase := 2, socks_code := Socks_frame\<rparr>)"

text \<open>The IPv6 address whose bytes in network order are given.\<close>

definition address6 :: "bytes \<Rightarrow> 128 word" where
  "address6 bs = foldl (\<lambda>a b. push_bit 8 a OR ucast b) 0 bs"

text \<open>
  The address of a request: the host it names, with the offset of the port that follows it; or
  the code to return.
\<close>

definition socks_address :: "bytes \<Rightarrow> socks_code + bytes \<times> nat" where
  "socks_address bs =
     (if bs ! 3 = 1 then
        (if length bs < 10 then Inl Socks_incomplete
         else Inr (inet_ntop4 (bs ! 4) (bs ! 5) (bs ! 6) (bs ! 7), 8))
      else if bs ! 3 = 4 then
        (if length bs < 22 then Inl Socks_incomplete
         else Inr (inet_ntop6 (address6 (take 16 (drop 4 bs))), 20))
      else if bs ! 3 = 3 then
        (if length bs < 5 then Inl Socks_incomplete
         else
           let host_length = unat (bs ! 4) in
           if host_length = 0 \<or> EGRESS_MAX_HOST < host_length then Inl Socks_protocol_error
           else if length bs < 5 + host_length + 2 then Inl Socks_incomplete
           else if 0 \<in> set (take host_length (drop 5 bs)) then Inl Socks_protocol_error
           else Inr (take host_length (drop 5 bs), 5 + host_length))
      else Inl Socks_protocol_error)"

definition connect_fields :: "bytes \<Rightarrow> socks_code + bytes \<times> u16 \<times> nat" where
  "connect_fields bs =
     (if length bs < 4 then Inl Socks_incomplete
      else if bs ! 0 \<noteq> 5 \<or> bs ! 1 \<noteq> 1 \<or> bs ! 2 \<noteq> 0 then Inl Socks_protocol_error
      else
        case socks_address bs of
          Inl code \<Rightarrow> Inl code
        | Inr (raw_host, port_offset) \<Rightarrow>
            if length bs < port_offset + 2 then Inl Socks_incomplete
            else Inr (raw_host, of_nat (read_u16 (drop port_offset bs)), port_offset + 2))"

text \<open>The host that a failed conversion leaves in the request is not read; the model leaves it empty.\<close>

definition socks_connect :: "bytes \<Rightarrow> socks_outcome \<Rightarrow> socks_outcome" where
  "socks_connect bs out =
     (case connect_fields bs of
        Inl code \<Rightarrow> out\<lparr>socks_code := code\<rparr>
      | Inr (raw_host, port, consumed) \<Rightarrow>
          let request = request_zero\<lparr>request_protocol := PROTOCOL_SOCKS5, request_port := port,
                request_consumed := consumed,
                request_invocation_id := snprintf_s (EGRESS_MAX_INVOCATION_ID + 1) (fst (socks_identity out)),
                request_principal_index := snd (socks_identity out)\<rparr>
          in if port = 0 then out\<lparr>socks_request := request, socks_code := Socks_protocol_error\<rparr>
             else
               case egress_canonical_host (Some raw_host) of
                 None \<Rightarrow> out\<lparr>socks_request := request, socks_code := Socks_protocol_error\<rparr>
               | Some host \<Rightarrow>
                   out\<lparr>socks_request := request\<lparr>request_host := host\<rparr>, socks_consumed := consumed,
                       socks_code := Socks_request\<rparr>)"

definition egress_parse_socks_frame :: "egress_config \<Rightarrow> int \<Rightarrow> identity \<Rightarrow> bytes \<Rightarrow> socks_outcome" where
  "egress_parse_socks_frame config phase who bs =
     (let out = socks_start phase who in
      if phase < 0 \<or> 2 < phase then out\<lparr>socks_code := Socks_protocol_error\<rparr>
      else if phase = 0 then socks_greeting bs config out
      else if phase = 1 then socks_password bs config out
      else socks_connect bs out)"

section \<open>Frames arrive in pieces\<close>

definition socks_incomplete :: "socks_outcome \<Rightarrow> bool" where
  "socks_incomplete out \<longleftrightarrow> socks_code out = Socks_incomplete"

lemma socks_start_code [simp]: "socks_code (socks_start p w) = Socks_incomplete"
  by (simp add: socks_start_def)

lemma nth_rest: "i < length bs \<Longrightarrow> (bs @ rest) ! i = bs ! i"
  by (simp add: nth_append)

lemma take_rest: "k + n \<le> length bs \<Longrightarrow> take n (drop k (bs @ rest)) = take n (drop k bs)"
  by simp

lemma greeting_stable:
  assumes "greeting_methods bs \<noteq> Inl Socks_incomplete"
  shows "greeting_methods (bs @ rest) = greeting_methods bs"
proof -
  have len: "2 \<le> length bs" "bs ! 0 \<noteq> 5 \<or> bs ! 1 = 0 \<or> 2 + unat (bs ! 1) \<le> length bs"
    using assms unfolding greeting_methods_def by (meson not_le)+
  have "(bs @ rest) ! 0 = bs ! 0" "(bs @ rest) ! 1 = bs ! 1" using len(1) by (intro nth_rest; linarith)+
  with len take_rest[of 2 "unat (bs ! 1)" bs rest] show ?thesis
    unfolding greeting_methods_def by (auto simp del: drop_append take_append)
qed

lemma password_stable:
  assumes "password_fields bs \<noteq> Inl Socks_incomplete"
  shows "password_fields (bs @ rest) = password_fields bs"
proof (cases "length bs < 2 \<or> bs ! 0 \<noteq> 1 \<or> bs ! 1 = 0")
  case True
  then have "2 \<le> length bs" using assms unfolding password_fields_def by (meson not_le)
  then have "(bs @ rest) ! 0 = bs ! 0" "(bs @ rest) ! 1 = bs ! 1" by (intro nth_rest; linarith)+
  with True \<open>2 \<le> length bs\<close> show ?thesis by (auto simp: password_fields_def unat_eq_0)
next
  case False
  define n where "n = unat (bs ! 1)"
  define m where "m = unat (bs ! (2 + n))"
  have n: "3 + n \<le> length bs" "m = 0 \<or> 3 + n + m \<le> length bs"
    using assms False unfolding password_fields_def n_def[symmetric] Let_def m_def[symmetric]
    by (auto simp: n_def unat_eq_0 split: if_splits)
  have eqs: "(bs @ rest) ! 0 = bs ! 0" "(bs @ rest) ! 1 = bs ! 1" "(bs @ rest) ! (2 + n) = bs ! (2 + n)"
    using n by (intro nth_rest; linarith)+
  from False n take_rest[of 2 n bs rest] take_rest[of "3 + n" m bs rest] show ?thesis
    unfolding password_fields_def Let_def eqs(1,2) n_def[symmetric] eqs(3) m_def[symmetric]
    by (auto simp del: drop_append take_append)
qed

lemma address_stable:
  assumes "4 \<le> length bs" "socks_address bs \<noteq> Inl Socks_incomplete"
  shows "socks_address (bs @ rest) = socks_address bs"
proof -
  have three: "(bs @ rest) ! 3 = bs ! 3" using assms(1) by (simp add: nth_rest)
  have "10 \<le> length bs" if "bs ! 3 = 1" using assms(2) that by (simp add: socks_address_def split: if_splits)
  moreover have "22 \<le> length bs" if "bs ! 3 = 4" using assms(2) that by (simp add: socks_address_def split: if_splits)
  moreover have "5 \<le> length bs" if "bs ! 3 = 3" using assms(2) that by (simp add: socks_address_def split: if_splits)
  ultimately consider "bs ! 3 = 1" "10 \<le> length bs" | "bs ! 3 = 4" "22 \<le> length bs" | "bs ! 3 = 3" "5 \<le> length bs"
    | "bs ! 3 \<notin> {1, 3, 4}"
    by blast
  then show ?thesis
  proof cases
    case 1
    then show ?thesis using three by (simp add: socks_address_def nth_rest)
  next
    case 2
    then show ?thesis using three take_rest[of 4 16 bs rest] by (simp add: socks_address_def del: drop_append take_append)
  next
    case 3
    define n where "n = unat (bs ! 4)"
    have "n = 0 \<or> EGRESS_MAX_HOST < n \<or> 5 + n + 2 \<le> length bs"
      using assms(2) 3 unfolding socks_address_def n_def[symmetric] Let_def by (auto split: if_splits)
    with 3 three nth_rest[of 4 bs rest] take_rest[of 5 n bs rest] show ?thesis
      unfolding socks_address_def Let_def by (auto simp: n_def[symmetric] simp del: drop_append take_append)
  next
    case 4
    then show ?thesis using three by (simp add: socks_address_def)
  qed
qed

lemma connect_stable:
  assumes "connect_fields bs \<noteq> Inl Socks_incomplete"
  shows "connect_fields (bs @ rest) = connect_fields bs"
proof (cases "length bs < 4")
  case False
  then have "(bs @ rest) ! i = bs ! i" if "i < 4" for i using that by (simp add: nth_append)
  moreover have "read_u16 (drop k (bs @ rest)) = read_u16 (drop k bs)" if "k + 2 \<le> length bs" for k
    using that read_u16_append[of "drop k bs" rest] by simp
  moreover have "socks_address (bs @ rest) = socks_address bs \<or> bs ! 0 \<noteq> 5 \<or> bs ! 1 \<noteq> 1 \<or> bs ! 2 \<noteq> 0"
    using False assms address_stable[of bs rest] by (cases "socks_address bs = Inl Socks_incomplete") (auto simp: connect_fields_def)
  ultimately show ?thesis
    using False assms by (auto simp: connect_fields_def split: sum.splits)
qed (use assms in \<open>simp add: connect_fields_def\<close>)

interpretation socks: incremental_parser "egress_parse_socks_frame config phase who" socks_incomplete
proof
  fix bs rest
  assume complete: "\<not> socks_incomplete (egress_parse_socks_frame config phase who bs)"
  consider "phase < 0 \<or> 2 < phase" | "phase = 0" | "phase = 1" | "phase = 2" by linarith
  then show "egress_parse_socks_frame config phase who (bs @ rest) = egress_parse_socks_frame config phase who bs"
  proof cases
    case 1
    then show ?thesis by (simp add: egress_parse_socks_frame_def)
  next
    case 2
    with complete have "greeting_methods bs \<noteq> Inl Socks_incomplete"
      by (auto simp: egress_parse_socks_frame_def socks_incomplete_def socks_greeting_def)
    with 2 greeting_stable show ?thesis by (simp add: egress_parse_socks_frame_def socks_greeting_def)
  next
    case 3
    with complete have "password_fields bs \<noteq> Inl Socks_incomplete"
      by (auto simp: egress_parse_socks_frame_def socks_incomplete_def socks_password_def)
    with 3 password_stable show ?thesis by (simp add: egress_parse_socks_frame_def socks_password_def)
  next
    case 4
    with complete have "connect_fields bs \<noteq> Inl Socks_incomplete"
      by (auto simp: egress_parse_socks_frame_def socks_incomplete_def socks_connect_def)
    with 4 connect_stable show ?thesis by (simp add: egress_parse_socks_frame_def socks_connect_def)
  qed
qed

section \<open>The frames\<close>

text \<open>The grammar of RFC 1928 and RFC 1929 that the parser accepts.\<close>

datatype socks_addr =
    Addr4 byte byte byte byte
  | Addr6 bytes
  | Addr_name bytes

fun encode_addr :: "socks_addr \<Rightarrow> bytes" where
  "encode_addr (Addr4 a b c d) = [1, a, b, c, d]"
| "encode_addr (Addr6 bs) = 4 # bs"
| "encode_addr (Addr_name n) = 3 # of_nat (length n) # n"

fun addr_text :: "socks_addr \<Rightarrow> bytes" where
  "addr_text (Addr4 a b c d) = inet_ntop4 a b c d"
| "addr_text (Addr6 bs) = inet_ntop6 (address6 bs)"
| "addr_text (Addr_name n) = n"

fun addr_wf :: "socks_addr \<Rightarrow> bool" where
  "addr_wf (Addr4 a b c d) \<longleftrightarrow> True"
| "addr_wf (Addr6 bs) \<longleftrightarrow> length bs = 16"
| "addr_wf (Addr_name n) \<longleftrightarrow> n \<noteq> [] \<and> length n \<le> EGRESS_MAX_HOST \<and> 0 \<notin> set n"

definition encode_connect :: "socks_addr \<Rightarrow> u16 \<Rightarrow> bytes" where
  "encode_connect a p = [5, 1, 0] @ encode_addr a @ be16 (unat p)"

definition encode_password :: "bytes \<Rightarrow> bytes \<Rightarrow> bytes" where
  "encode_password u k = 1 # of_nat (length u) # u @ of_nat (length k) # k"

lemma byte_length: "length n = unat (b :: byte) \<Longrightarrow> of_nat (length n) = b"
  by simp

lemma be16_of_nat: "2 \<le> length q \<Longrightarrow> q = be16 (unat (of_nat (read_u16 q) :: u16)) @ drop 2 q"
  using be16_read[of q] read_u16_less[of q] by (simp add: unat_of_nat take_bit_eq_mod)

lemma password_fields_encode:
  assumes "password_fields bs = Inr (u, k)"
  shows "take (3 + length u + length k) bs = encode_password u k"
proof -
  define n where "n = unat (bs ! 1)"
  define m where "m = unat (bs ! (2 + n))"
  have b: "bs ! 0 = 1" "3 + n + m \<le> length bs" "u = take n (drop 2 bs)" "k = take m (drop (3 + n) bs)"
    using assms unfolding password_fields_def n_def[symmetric] Let_def m_def[symmetric] by (simp_all split: if_splits)
  then have len: "length u = n" "length k = m" by simp_all
  have "take (3 + n + m) bs = take 2 bs @ take (1 + n + m) (drop 2 bs)"
    using take_add[of 2 "1 + n + m" bs] by (simp add: numeral_eq_Suc)
  also have "take 2 bs = [bs ! 0, bs ! 1]" using b(2) by (intro nth_equalityI) (auto simp: less_2_cases_iff)
  also have "take (1 + n + m) (drop 2 bs) = take n (drop 2 bs) @ take (1 + m) (drop (2 + n) bs)"
    using take_add[of n "1 + m" "drop 2 bs"] by (simp add: ac_simps)
  also have "take (1 + m) (drop (2 + n) bs) = bs ! (2 + n) # take m (drop (3 + n) bs)"
    using Cons_nth_drop_Suc[of "2 + n" bs, symmetric] b(2) by (simp add: numeral_3_eq_3)
  finally show ?thesis
    using b(1) unfolding encode_password_def len by (simp add: b(3,4) n_def m_def)
qed

lemma socks_address_Inr:
  assumes "socks_address bs = Inr (raw, n)" "4 \<le> length bs"
  shows "\<exists>a. drop 3 bs = encode_addr a @ drop n bs \<and> addr_wf a \<and> raw = addr_text a \<and> n = 3 + length (encode_addr a)"
proof -
  have three: "drop 3 bs = bs ! 3 # drop 4 bs" using assms(2) Cons_nth_drop_Suc[of 3 bs] by simp
  consider "bs ! 3 = 1" | "bs ! 3 = 4" | "bs ! 3 = 3"
    using assms(1) by (auto simp: socks_address_def split: if_splits)
  then show ?thesis
  proof cases
    case 1
    with assms(1) have b: "10 \<le> length bs" "raw = inet_ntop4 (bs ! 4) (bs ! 5) (bs ! 6) (bs ! 7)" "n = 8"
      by (simp_all add: socks_address_def split: if_splits)
    have "drop 4 bs = [bs ! 4, bs ! 5, bs ! 6, bs ! 7] @ drop 8 bs"
      using b(1) Cons_nth_drop_Suc[of 4 bs] Cons_nth_drop_Suc[of 5 bs] Cons_nth_drop_Suc[of 6 bs] Cons_nth_drop_Suc[of 7 bs]
      by simp
    with 1 b three show ?thesis by (intro exI[of _ "Addr4 (bs ! 4) (bs ! 5) (bs ! 6) (bs ! 7)"]) simp
  next
    case 2
    with assms(1) have b: "22 \<le> length bs" "raw = inet_ntop6 (address6 (take 16 (drop 4 bs)))" "n = 20"
      by (simp_all add: socks_address_def split: if_splits)
    have "drop 4 bs = take 16 (drop 4 bs) @ drop 20 bs" using append_take_drop_id[of 16 "drop 4 bs"] by simp
    with 2 b three show ?thesis by (intro exI[of _ "Addr6 (take 16 (drop 4 bs))"]) simp
  next
    case 3
    define m where "m = unat (bs ! 4)"
    from 3 assms(1) have b: "0 < m" "m \<le> EGRESS_MAX_HOST" "7 + m \<le> length bs" "0 \<notin> set (take m (drop 5 bs))"
      "raw = take m (drop 5 bs)" "n = 5 + m"
      unfolding socks_address_def m_def[symmetric] Let_def by (auto split: if_splits)
    have "drop 4 bs = bs ! 4 # drop 5 bs" using b(3) Cons_nth_drop_Suc[of 4 bs] by simp
    moreover have "drop 5 bs = take m (drop 5 bs) @ drop n bs"
      using append_take_drop_id[of m "drop 5 bs"] b(6) by (simp add: add.commute)
    moreover have "of_nat (length (take m (drop 5 bs))) = bs ! 4"
      using b(3) by (intro byte_length) (simp add: m_def)
    ultimately show ?thesis
      using 3 b three by (intro exI[of _ "Addr_name (take m (drop 5 bs))"]) auto
  qed
qed

lemma socks_address_encode:
  assumes "addr_wf a"
  shows "socks_address ([5, 1, 0] @ encode_addr a @ be16 p @ rest) = Inr (addr_text a, 3 + length (encode_addr a))"
proof (cases a)
  case (Addr_name n)
  have "unat (of_nat (length n) :: byte) = length n"
    using assms Addr_name by (simp add: EGRESS_MAX_HOST_def unat_of_nat take_bit_eq_mod)
  with assms Addr_name show ?thesis by (simp add: socks_address_def be16_def)
qed (use assms in \<open>simp_all add: socks_address_def be16_def\<close>)

lemma connect_fields_iff:
  "connect_fields bs = Inr (raw, p, n) \<longleftrightarrow>
     (\<exists>a rest. bs = encode_connect a p @ rest \<and> addr_wf a \<and> raw = addr_text a \<and> n = length (encode_connect a p))"
proof
  assume "connect_fields bs = Inr (raw, p, n)"
  then obtain k where len: "4 \<le> length bs" and head: "bs ! 0 = 5" "bs ! 1 = 1" "bs ! 2 = 0"
    and addr: "socks_address bs = Inr (raw, k)" and port: "k + 2 \<le> length bs" "p = of_nat (read_u16 (drop k bs))" "n = k + 2"
    by (auto simp: connect_fields_def not_less split: if_splits sum.splits)
  from socks_address_Inr[OF addr len] obtain a where a: "drop 3 bs = encode_addr a @ drop k bs" "addr_wf a" "raw = addr_text a"
    "k = 3 + length (encode_addr a)" by (elim exE conjE)
  have "bs = bs ! 0 # bs ! 1 # bs ! 2 # drop 3 bs" using len by (intro split_three) simp
  moreover have "drop k bs = be16 (unat p) @ drop (k + 2) bs"
    using be16_of_nat[of "drop k bs"] port by (simp add: add.commute)
  ultimately have "bs = encode_connect a p @ drop (k + 2) bs"
    using head a(1) by (simp add: encode_connect_def)
  with a port show "\<exists>a rest. bs = encode_connect a p @ rest \<and> addr_wf a \<and> raw = addr_text a \<and> n = length (encode_connect a p)"
    by (intro exI[of _ a] exI[of _ "drop (k + 2) bs"]) (simp add: encode_connect_def)
next
  assume "\<exists>a rest. bs = encode_connect a p @ rest \<and> addr_wf a \<and> raw = addr_text a \<and> n = length (encode_connect a p)"
  then obtain a rest where a: "bs = encode_connect a p @ rest" "addr_wf a" "raw = addr_text a" "n = length (encode_connect a p)"
    by blast
  have bs: "bs = [5, 1, 0] @ encode_addr a @ be16 (unat p) @ rest" by (simp add: a(1) encode_connect_def)
  have drop: "drop (3 + length (encode_addr a)) bs = be16 (unat p) @ rest" by (simp add: bs numeral_3_eq_3)
  have "unat p < 65536" using unsigned_less[where 'a = nat, of p] by simp
  then have "of_nat (read_u16 (drop (3 + length (encode_addr a)) bs)) = p" unfolding drop by simp
  moreover have "socks_address bs = Inr (addr_text a, 3 + length (encode_addr a))"
    unfolding bs by (rule socks_address_encode[OF a(2)])
  moreover have "4 \<le> length bs" "bs ! 0 = 5" "bs ! 1 = 1" "bs ! 2 = 0" by (cases a; simp add: bs)+
  moreover have "3 + length (encode_addr a) + 2 \<le> length bs" by (simp add: bs)
  ultimately show "connect_fields bs = Inr (raw, p, n)"
    using a(3,4) by (simp add: connect_fields_def encode_connect_def)
qed

section \<open>The dialogue\<close>

text \<open>The states a client can bring a connection to, with the bytes consumed so far.\<close>

inductive socks_reach :: "egress_config \<Rightarrow> bytes \<Rightarrow> int \<Rightarrow> identity \<Rightarrow> bool" for c where
  start: "socks_reach c [] 0 no_identity"
| frame: "socks_reach c t p w \<Longrightarrow> socks_code (egress_parse_socks_frame c p w bs) = Socks_frame \<Longrightarrow>
    socks_reach c (t @ take (socks_consumed (egress_parse_socks_frame c p w bs)) bs)
      (socks_phase (egress_parse_socks_frame c p w bs)) (socks_identity (egress_parse_socks_frame c p w bs))"

lemma connect_fields_Inl: "connect_fields bs = Inl code \<Longrightarrow> code = Socks_incomplete \<or> code = Socks_protocol_error"
  by (auto simp: connect_fields_def socks_address_def Let_def split: sum.splits if_splits)

lemma connect_not_frame: "socks_code (socks_connect bs (socks_start p w)) \<noteq> Socks_frame"
  by (auto simp: socks_connect_def Let_def dest: connect_fields_Inl split: sum.splits option.splits)

lemma password_frame:
  assumes "socks_code (egress_parse_socks_frame c 1 w bs) = Socks_frame" "config_inv c" "authentication_set c"
  shows "\<exists>u k i. take (socks_consumed (egress_parse_socks_frame c 1 w bs)) bs = encode_password u k \<and>
    i < length (principals c) \<and> principal_matches (Some (c_string u)) (c_string k) (principals c ! i) \<and>
    socks_identity (egress_parse_socks_frame c 1 w bs) = (invocation_id (principals c ! i), Some i)"
proof -
  let ?out = "egress_parse_socks_frame c 1 w bs"
  obtain u k where f: "password_fields bs = Inr (u, k)"
    using assms(1) by (cases "password_fields bs") (auto simp: egress_parse_socks_frame_def socks_password_def
        password_fields_def Let_def split: if_splits)
  obtain ok who where lookup: "egress_credentials_lookup c (Some (c_string u)) (Some (c_string k)) = (ok, who)"
    by (cases "egress_credentials_lookup c (Some (c_string u)) (Some (c_string k))")
  have out: "ok" "socks_identity ?out = who" "socks_consumed ?out = 3 + length u + length k"
    using assms(1) f lookup
    by (auto simp: egress_parse_socks_frame_def socks_password_def Let_def socks_start_def split: if_splits)
  from lookup out(1) obtain inv_id i where who: "who = (inv_id, Some i)"
    by (auto simp: egress_credentials_lookup_def split: if_splits option.splits)
  with lookup out(1) credentials_lookup_iff[OF assms(2,3), of "c_string k" "Some (c_string u)" inv_id i]
  have "i < length (principals c)" "principal_matches (Some (c_string u)) (c_string k) (principals c ! i)"
    "inv_id = invocation_id (principals c ! i)" by auto
  with who out password_fields_encode[OF f] show ?thesis
    by (intro exI[of _ u] exI[of _ k] exI[of _ i]) simp
qed

lemma greeting_frame:
  assumes "socks_code (egress_parse_socks_frame c 0 w bs) = Socks_frame" "config_inv c" "authentication_set c"
  shows "socks_phase (egress_parse_socks_frame c 0 w bs) = 1"
proof -
  have "\<not> unix_principal_bound c"
    using assms(2,3) by (auto simp: config_inv_def principals_inv_def principal_bound_def split: if_splits)
  then have "fst (egress_unix_principal_lookup c) = False" by (simp add: egress_unix_principal_lookup_def)
  then show ?thesis
    using assms(1,3) by (cases "egress_unix_principal_lookup c"; cases "greeting_methods bs")
      (auto simp: egress_parse_socks_frame_def socks_greeting_def greeting_methods_def Let_def split: if_splits)
qed

lemma socks_reach_phase:
  assumes "socks_reach c t p w" "config_inv c" "authentication_set c"
  shows "(p = 0 \<or> p = 1 \<or> p = 2) \<and> (p = 2 \<longrightarrow> (\<exists>g u k i. t = g @ encode_password u k \<and> i < length (principals c) \<and>
    principal_matches (Some (c_string u)) (c_string k) (principals c ! i) \<and> w = (invocation_id (principals c ! i), Some i)))"
  using assms(1)
proof (induction rule: socks_reach.induct)
  case (frame t p w bs)
  consider "p = 0" | "p = 1" | "p = 2" using frame.IH by blast
  then show ?case
  proof cases
    case 1
    with greeting_frame[of c w bs] frame.hyps(2) assms show ?thesis by simp
  next
    case 2
    have "socks_phase (egress_parse_socks_frame c 1 w bs) = 2"
      using frame.hyps(2) 2
      by (cases "password_fields bs") (auto simp: egress_parse_socks_frame_def socks_password_def password_fields_def
          Let_def split: if_splits prod.splits)
    moreover from password_frame[of c w bs] frame.hyps(2) 2 assms obtain u k i where
      "take (socks_consumed (egress_parse_socks_frame c 1 w bs)) bs = encode_password u k" "i < length (principals c)"
      "principal_matches (Some (c_string u)) (c_string k) (principals c ! i)"
      "socks_identity (egress_parse_socks_frame c 1 w bs) = (invocation_id (principals c ! i), Some i)" by blast
    ultimately show ?thesis using 2
      by (intro conjI impI exI[of _ t] exI[of _ u] exI[of _ k] exI[of _ i]) simp_all
  next
    case 3
    with frame.hyps(2) connect_not_frame[of bs 2 w] show ?thesis by (simp add: egress_parse_socks_frame_def Let_def)
  qed
qed simp

section \<open>Properties\<close>

text \<open>C34: The request phase accepts exactly the CONNECT requests for an IPv4 address, an IPv6 address
  or a name without NUL, with a nonzero port and a canonical host, whatever follows the request;
  it reports that host and that port and consumes exactly the request.\<close>
theorem socks_request_exact:
  "socks_code (egress_parse_socks_frame c 2 w bs) = Socks_request \<and>
   request_host (socks_request (egress_parse_socks_frame c 2 w bs)) = host \<and>
   request_port (socks_request (egress_parse_socks_frame c 2 w bs)) = port \<and>
   socks_consumed (egress_parse_socks_frame c 2 w bs) = n \<longleftrightarrow>
   (\<exists>a rest. bs = encode_connect a port @ rest \<and> addr_wf a \<and> port \<noteq> 0 \<and>
      egress_canonical_host (Some (addr_text a)) = Some host \<and> n = length (encode_connect a port))"
  (is "?accepted \<longleftrightarrow> ?encoded")
proof
  assume acc: ?accepted
  then obtain raw where "connect_fields bs = Inr (raw, port, n)" "port \<noteq> 0" "egress_canonical_host (Some raw) = Some host"
    by (cases "connect_fields bs")
      (auto simp: egress_parse_socks_frame_def socks_connect_def Let_def connect_fields_def socks_address_def
        split: if_splits option.splits sum.splits)
  then show ?encoded by (auto simp: connect_fields_iff)
next
  assume ?encoded
  then obtain raw where "connect_fields bs = Inr (raw, port, n)" "port \<noteq> 0" "egress_canonical_host (Some raw) = Some host"
    by (auto simp: connect_fields_iff)
  then show ?accepted by (simp add: egress_parse_socks_frame_def socks_connect_def Let_def)
qed

text \<open>C33: When credentials are configured, no SOCKS dialogue, however a client orders its frames, reaches
  a request without a principal: the request is attributed to a principal whose user name and
  secret the client sent in the authentication frame just before it.\<close>
theorem socks_authentication:
  assumes "config_inv c" "authentication_set c" "socks_reach c t 2 w"
    "socks_code (egress_parse_socks_frame c 2 w bs) = Socks_request"
  shows "\<exists>g u k i. t = g @ encode_password u k \<and> i < length (principals c) \<and>
    principal_matches (Some (c_string u)) (c_string k) (principals c ! i) \<and>
    request_principal_index (socks_request (egress_parse_socks_frame c 2 w bs)) = Some i \<and>
    request_invocation_id (socks_request (egress_parse_socks_frame c 2 w bs)) = invocation_id (principals c ! i)"
proof -
  from socks_reach_phase[OF assms(3,1,2)] obtain g u k i where t: "t = g @ encode_password u k" "i < length (principals c)"
    "principal_matches (Some (c_string u)) (c_string k) (principals c ! i)" "w = (invocation_id (principals c ! i), Some i)"
    by blast
  have "snprintf_s (EGRESS_MAX_INVOCATION_ID + 1) (invocation_id (principals c ! i)) = invocation_id (principals c ! i)"
    using principal_strings(3)[OF assms(1) t(2)] by (intro snprintf_s_fits) simp
  with assms(4) t(4) have "request_principal_index (socks_request (egress_parse_socks_frame c 2 w bs)) = Some i"
    "request_invocation_id (socks_request (egress_parse_socks_frame c 2 w bs)) = invocation_id (principals c ! i)"
    by (auto simp: egress_parse_socks_frame_def socks_connect_def socks_start_def Let_def dest: connect_fields_Inl
        split: sum.splits option.splits if_splits)
  with t show ?thesis by blast
qed

text \<open>A configuration with one principal and a client that authenticates and connects.\<close>

definition demo_secret :: bytes where
  "demo_secret = replicate 16 65"

definition demo_config :: egress_config where
  "demo_config = fst (maelys_egress_config_add_principal (the (snd (maelys_egress_config_create True)))
     (Some (cstr ''alice'')) (Some demo_secret) (Some (cstr ''run:1'')))"

lemma demo_secret_ok: "length demo_secret = 16" "list_all secret_char demo_secret"
  by (simp_all add: demo_secret_def list_all_iff secret_char_def)

lemma demo_config_principals:
  "demo_config = (the (snd (maelys_egress_config_create True)))\<lparr>principals :=
     [new_principal (cstr ''alice'') demo_secret (Some (cstr ''run:1''))], authentication_set := True\<rparr>"
  using demo_secret_ok
  by (simp add: demo_config_def maelys_egress_config_add_principal_def maelys_egress_config_create_def config_zero_def
      EGRESS_MAX_USERNAME_def EGRESS_MAX_SECRET_def EGRESS_MAX_INVOCATION_ID_def EGRESS_MAX_PRINCIPALS_def
      invocation_bounded_def canonical_principal_identity_def username_char_def invocation_char_def byte_class)

lemma demo_config_valid: "config_inv demo_config" "authentication_set demo_config"
proof -
  have "config_inv (the (snd (maelys_egress_config_create True)))"
    using config_run_start[of "[]" demo_world] by (simp add: config_run_def)
  then show "config_inv demo_config" unfolding demo_config_def by (rule add_principal_inv)
  show "authentication_set demo_config" by (simp add: demo_config_principals)
qed

definition demo_greeting :: bytes where
  "demo_greeting = [5, 2, 0, 2]"

definition demo_password :: bytes where
  "demo_password = encode_password (cstr ''alice'') demo_secret"

definition demo_connect :: bytes where
  "demo_connect = encode_connect (Addr_name (cstr ''A.io'')) 443"

definition demo_who :: identity where
  "demo_who = (cstr ''run:1'', Some 0)"

lemma demo_greeting_frame:
  "egress_parse_socks_frame demo_config 0 no_identity demo_greeting =
     (socks_start 1 no_identity)\<lparr>socks_code := Socks_frame, socks_consumed := 4, socks_response := [5, 2]\<rparr>"
proof -
  have "egress_unix_principal_lookup demo_config = (False, no_identity)"
    by (simp add: egress_unix_principal_lookup_def demo_config_principals maelys_egress_config_create_def config_zero_def)
  then show ?thesis
    using demo_config_valid(2)
    by (simp add: egress_parse_socks_frame_def socks_greeting_def greeting_methods_def demo_greeting_def socks_start_def)
qed

lemma demo_password_frame:
  "egress_parse_socks_frame demo_config 1 no_identity demo_password =
     (socks_start 2 demo_who)\<lparr>socks_code := Socks_frame, socks_consumed := 24, socks_response := [1, 0]\<rparr>"
proof -
  have fields: "password_fields demo_password = Inr (cstr ''alice'', demo_secret)"
    by (simp add: password_fields_def demo_password_def encode_password_def demo_secret_ok(1))
  have nul: "0 \<notin> set demo_secret" by (simp add: demo_secret_def)
  have "principal_matches (Some (cstr ''alice'')) demo_secret (principals demo_config ! 0)"
    "invocation_id (principals demo_config ! 0) = cstr ''run:1''" "0 < length (principals demo_config)"
    by (simp_all add: demo_config_principals principal_matches_def new_principal_def EGRESS_MAX_USERNAME_def
        EGRESS_MAX_SECRET_def EGRESS_MAX_INVOCATION_ID_def demo_secret_ok)
  then have "egress_credentials_lookup demo_config (Some (cstr ''alice'')) (Some demo_secret) = (True, demo_who)"
    using credentials_lookup_iff[OF demo_config_valid nul, of "Some (cstr ''alice'')" "cstr ''run:1''" 0]
    by (simp add: demo_who_def)
  with fields nul demo_secret_ok(1) show ?thesis
    by (simp add: egress_parse_socks_frame_def socks_password_def EGRESS_MAX_USERNAME_def EGRESS_MAX_SECRET_def socks_start_def)
qed

lemma demo_connect_frame: "socks_code (egress_parse_socks_frame demo_config 2 demo_who demo_connect) = Socks_request"
proof -
  have "addr_wf (Addr_name (cstr ''A.io''))" by (simp add: EGRESS_MAX_HOST_def)
  then have "connect_fields demo_connect = Inr (cstr ''A.io'', 443, length demo_connect)"
    unfolding connect_fields_iff demo_connect_def
    by (intro exI[of _ "Addr_name (cstr ''A.io'')"] exI[of _ "[]"]) simp
  moreover have "egress_canonical_host (Some (cstr ''A.io'')) = Some demo_hello_host"
    using demo_canonical by simp
  ultimately show ?thesis by (simp add: egress_parse_socks_frame_def socks_connect_def Let_def del: cstr_simps)
qed

lemmas demo_dialogue = demo_greeting_frame demo_password_frame demo_connect_frame

lemma demo_reach: "socks_reach demo_config (demo_greeting @ demo_password) 2 demo_who"
proof -
  have "socks_reach demo_config demo_greeting 1 no_identity"
    using socks_reach.frame[OF socks_reach.start, of demo_config demo_greeting]
    by (simp add: demo_dialogue) (simp add: demo_greeting_def socks_start_def)
  from socks_reach.frame[OF this, of demo_password] show ?thesis
    by (simp add: demo_dialogue) (simp add: demo_password_def encode_password_def demo_secret_def socks_start_def)
qed

theorem socks_authentication_witness:
  "config_inv demo_config \<and> socks_reach demo_config (demo_greeting @ demo_password) 2 demo_who \<and>
   (\<exists>g u k i. demo_greeting @ demo_password = g @ encode_password u k \<and> i < length (principals demo_config) \<and>
     principal_matches (Some (c_string u)) (c_string k) (principals demo_config ! i) \<and>
     request_principal_index (socks_request (egress_parse_socks_frame demo_config 2 demo_who demo_connect)) = Some i \<and>
     request_invocation_id (socks_request (egress_parse_socks_frame demo_config 2 demo_who demo_connect)) =
       invocation_id (principals demo_config ! i))"
  using socks_authentication[OF demo_config_valid demo_reach demo_dialogue(3)] demo_config_valid demo_reach by blast

end
