(* ===== verification/Egress_Http.thy ===== *)
theory Egress_Http
  imports Egress_Socks
begin

text \<open>
  \<^verbatim>\<open>src/src/core/http.c\<close>: the HTTP/1.1 proxy request. The C code copies the header to a buffer and cuts
  it with NUL bytes; the request line is modelled on that buffer, and each field line, which the
  code cuts at positions inside the line only, as the text of the line. Outcomes of \<^verbatim>\<open>calloc\<close> and
  \<^verbatim>\<open>malloc\<close> are arguments.
\<close>

section \<open>The model\<close>

text \<open>\<^verbatim>\<open>strchr\<close> also finds the terminator, so the NUL byte counts as a token character.\<close>

definition token_char :: "byte \<Rightarrow> bool" where
  "token_char b \<longleftrightarrow> ascii_alnum b \<or>
     b \<in> set [33, 35, 36, 37, 38, 39, 42, 43, 45, 46, 94, 95, 96, 124, 126] \<or> b = 0"

definition base64_char :: "byte \<Rightarrow> bool" where
  "base64_char b \<longleftrightarrow> is_upper b \<or> is_lower b \<or> is_digit b \<or> b = ch (CHR ''+'') \<or> b = ch (CHR ''/'')"

fun port_loop :: "nat \<Rightarrow> bytes \<Rightarrow> nat option" where
  "port_loop v [] = Some v"
| "port_loop v (b # bs) =
     (if \<not> is_digit b then None
      else
        let v = v * 10 + digit_value b in
        if 65535 < v then None else port_loop v bs)"

definition parse_port :: "bytes \<Rightarrow> u16 option" where
  "parse_port text =
     (if text = [] then None
      else
        case port_loop 0 text of
          None \<Rightarrow> None
        | Some v \<Rightarrow> if v = 0 then None else Some (of_nat v))"

text \<open>The host and the text of the port of an authority.\<close>

definition split_authority :: "bytes \<Rightarrow> (bytes \<times> bytes option) option" where
  "split_authority authority =
     (if hd authority = ch (CHR ''['') then
        (case split_first (ch (CHR '']'')) authority of
           None \<Rightarrow> None
         | Some (before, after) \<Rightarrow>
             if after \<noteq> [] \<and> hd after \<noteq> ch (CHR '':'') then None
             else Some (tl before, if after = [] then None else Some (tl after)))
      else
        (case split_first (ch (CHR '':'')) authority of
           None \<Rightarrow> Some (authority, None)
         | Some (before, after) \<Rightarrow>
             if ch (CHR '':'') \<in> set after then None else Some (before, Some after)))"

definition parse_authority :: "bytes \<Rightarrow> u16 \<Rightarrow> (bytes \<times> u16) option" where
  "parse_authority authority default_port =
     (if authority = [] \<or> ch (CHR ''@'') \<in> set authority then None
      else
        case split_authority authority of
          None \<Rightarrow> None
        | Some (raw_host, port_text) \<Rightarrow>
            if raw_host = [] \<or> EGRESS_MAX_HOST < length raw_host then None
            else
              (case egress_canonical_host (Some raw_host) of
                 None \<Rightarrow> None
               | Some host \<Rightarrow>
                   (case port_text of
                      None \<Rightarrow> Some (host, default_port)
                    | Some text \<Rightarrow> map_option (Pair host) (parse_port text))))"

text \<open>The table of the decoder; entries that are not listed are zero.\<close>

definition base64_value :: "byte \<Rightarrow> u32" where
  "base64_value b =
     (if is_upper b then ucast (b - ch (CHR ''A''))
      else if is_lower b then ucast (b - ch (CHR ''a'')) + 26
      else if is_digit b then ucast (b - ch (CHR ''0'')) + 52
      else if b = ch (CHR ''+'') then 62
      else if b = ch (CHR ''/'') then 63
      else 0)"

definition base64_pad :: byte where
  "base64_pad = ch (CHR ''='')"

text \<open>One group of four characters: the bytes it decodes to.\<close>

definition decode_group :: "byte \<Rightarrow> byte \<Rightarrow> byte \<Rightarrow> byte \<Rightarrow> bool \<Rightarrow> bytes option" where
  "decode_group c0 c1 c2 c3 last_group =
     (if \<not> base64_char c0 \<or> \<not> base64_char c1 then None
      else if c2 \<noteq> base64_pad \<and> \<not> base64_char c2 then None
      else if c3 \<noteq> base64_pad \<and> \<not> base64_char c3 then None
      else if c2 = base64_pad \<and> c3 \<noteq> base64_pad \<or> c2 = base64_pad \<and> \<not> last_group \<or>
        c3 = base64_pad \<and> \<not> last_group then None
      else if c2 = base64_pad \<and> base64_value c1 AND 0x0f \<noteq> 0 \<or>
        c3 = base64_pad \<and> c2 \<noteq> base64_pad \<and> base64_value c2 AND 0x03 \<noteq> 0 then None
      else
        let value = push_bit 18 (base64_value c0) OR push_bit 12 (base64_value c1) OR
              push_bit 6 (if c2 = base64_pad then 0 else base64_value c2) OR
              (if c3 = base64_pad then 0 else base64_value c3);
            count = (if c2 = base64_pad then 1 else if c3 = base64_pad then 2 else 3)
        in Some (take count [ucast (drop_bit 16 value), ucast (drop_bit 8 value), ucast value]))"

fun decode_loop :: "bytes \<Rightarrow> nat \<Rightarrow> bytes \<Rightarrow> bytes option" where
  "decode_loop (c0 # c1 # c2 # c3 # rest) capacity output =
     (case decode_group c0 c1 c2 c3 (rest = []) of
        None \<Rightarrow> None
      | Some decoded \<Rightarrow>
          if capacity < length output + length decoded then None
          else decode_loop rest capacity (output @ decoded))"
| "decode_loop _ capacity output = Some output"

definition decode_base64 :: "bytes \<Rightarrow> nat \<Rightarrow> bytes option" where
  "decode_base64 input capacity =
     (if length input = 0 \<or> length input mod 4 \<noteq> 0 then None else decode_loop input capacity [])"

text \<open>
  The value of a Proxy-Authorization field: whether it matches, and the identity outputs, which
  only a lookup writes. The decoded credentials are a C string.
\<close>

definition auth_header_matches :: "egress_config \<Rightarrow> bytes \<Rightarrow> identity \<Rightarrow> bool \<times> identity" where
  "auth_header_matches config value who =
     (if \<not> authentication_set config then (unauthenticated_loopback config, who)
      else if strncasecmp_eq value (cstr ''Bearer '') 7 then
        egress_credentials_lookup config None (Some (drop 7 value))
      else if \<not> strncasecmp_eq value (cstr ''Basic '') 6 then (False, who)
      else
        case decode_base64 (drop 6 value) (EGRESS_MAX_USERNAME + EGRESS_MAX_SECRET + 2 - 1) of
          None \<Rightarrow> (False, who)
        | Some decoded \<Rightarrow>
            (case split_first (ch (CHR '':'')) (c_string decoded) of
               None \<Rightarrow> (False, who)
             | Some (name, key) \<Rightarrow> egress_credentials_lookup config (Some name) (Some key)))"

definition append_bytes :: "nat \<Rightarrow> bytes \<Rightarrow> bytes \<Rightarrow> bytes option" where
  "append_bytes capacity output bs = (if capacity < length output + length bs then None else Some (output @ bs))"

definition append_field :: "nat \<Rightarrow> bytes \<Rightarrow> bytes \<Rightarrow> bytes \<Rightarrow> bytes option" where
  "append_field capacity name value output =
     do {
       output \<leftarrow> append_bytes capacity output name;
       output \<leftarrow> append_bytes capacity output (cstr '': '');
       output \<leftarrow> append_bytes capacity output value;
       append_bytes capacity output [13, 10]
     }"

text \<open>The scan of the header for control bytes and CRLF framing.\<close>

fun scan_header :: "bool \<Rightarrow> byte option \<Rightarrow> bytes \<Rightarrow> bool" where
  "scan_header request_line previous [] = True"
| "scan_header request_line previous (b # bs) =
     (if b = 0 \<or> b = 0x7f \<or> b < 0x20 \<and> b \<noteq> 13 \<and> b \<noteq> 10 \<and> b \<noteq> 9 then False
      else if b = 9 \<and> request_line then False
      else if b = 10 \<and> previous \<noteq> Some 13 then False
      else if b = 13 \<and> (bs = [] \<or> hd bs \<noteq> 10) then False
      else scan_header (if b = 10 then False else request_line) (Some b) bs)"

text \<open>The request line, cut by NUL bytes in the buffer: method, target and the fields that follow.\<close>

definition http_request_line :: "bytes \<Rightarrow> (bytes \<times> bytes \<times> bytes) option" where
  "http_request_line text =
     (let header_length = length text; header = text @ [0] in
      case find_sub [13, 10] (c_string header) of
        None \<Rightarrow> None
      | Some first_end \<Rightarrow>
          let header = header[first_end := 0] in
          (case find_byte 32 (take header_length header) of
             None \<Rightarrow> None
           | Some space \<Rightarrow>
               let header = header[space := 0]; target = space + 1 in
               (case find_byte 32 (take (header_length - target) (drop target header)) of
                  None \<Rightarrow> None
                | Some space2 \<Rightarrow>
                    let header = header[target + space2 := 0];
                        version = c_string (drop (target + space2 + 1) header)
                    in if 32 \<in> set version \<or> version \<noteq> cstr ''HTTP/1.1'' then None
                       else Some (c_string header, c_string (drop target header),
                                  c_string (drop (first_end + 2) header)))))"

text \<open>The destination of a request: the protocol, the host and port, and the target for the origin.\<close>

definition AUTHORITY_SIZE :: nat where
  "AUTHORITY_SIZE = EGRESS_MAX_HOST + 16"

definition http_destination :: "bool \<Rightarrow> bytes \<Rightarrow> (egress_protocol \<times> bytes \<times> u16 \<times> bytes) option" where
  "http_destination connect_method target =
     (if connect_method then
        (if AUTHORITY_SIZE \<le> length target then None
         else map_option (\<lambda>(host, port). (PROTOCOL_HTTP_CONNECT, host, port, [])) (parse_authority target 443))
      else if take 7 target \<noteq> cstr ''http://'' then None
      else
        let begin = drop 7 target;
            slash = find_byte (ch (CHR ''/'')) begin;
            question = find_byte (ch (CHR ''?'')) begin;
            path = (case (slash, question) of
                      (None, q) \<Rightarrow> q
                    | (Some s, Some q) \<Rightarrow> if q < s then Some q else Some s
                    | (Some s, None) \<Rightarrow> Some s);
            authority_length = (case path of Some p \<Rightarrow> p | None \<Rightarrow> length begin)
        in if authority_length = 0 \<or> AUTHORITY_SIZE \<le> authority_length then None
           else
             case parse_authority (take authority_length begin) 80 of
               None \<Rightarrow> None
             | Some (host, port) \<Rightarrow>
                 let origin_target = (case path of Some p \<Rightarrow> drop p begin | None \<Rightarrow> cstr ''/'') in
                 if ch (CHR ''#'') \<in> set origin_target then None
                 else Some (PROTOCOL_HTTP_FORWARD, host, port, origin_target))"

record http_state =
  hs_authenticated :: bool
  hs_auth_headers :: nat
  hs_host_headers :: nat
  hs_content_lengths :: nat
  hs_host :: bytes
  hs_port :: u16
  hs_rewritten :: bytes
  hs_who :: identity

record http_context =
  hc_config :: egress_config
  hc_endpoint_bound :: bool
  hc_connect :: bool
  hc_capacity :: nat

definition keep_field :: "http_context \<Rightarrow> bytes \<Rightarrow> bytes \<Rightarrow> http_state \<Rightarrow> http_state option" where
  "keep_field cx name value st =
     (if hc_connect cx then Some st
      else map_option (\<lambda>r. st\<lparr>hs_rewritten := r\<rparr>) (append_field (hc_capacity cx) name value (hs_rewritten st)))"

definition http_field :: "http_context \<Rightarrow> bytes \<Rightarrow> bytes \<Rightarrow> http_state \<Rightarrow> http_state option" where
  "http_field cx name value st =
     (if strcasecmp_eq name (cstr ''Proxy-Authorization'') then
        let st = st\<lparr>hs_auth_headers := hs_auth_headers st + 1\<rparr> in
        if hc_endpoint_bound cx then Some st
        else
          let (matches, who) = auth_header_matches (hc_config cx) value (hs_who st) in
          Some (st\<lparr>hs_authenticated := matches, hs_who := who\<rparr>)
      else if strcasecmp_eq name (cstr ''Host'') then
        (case parse_authority value (if hc_connect cx then 443 else 80) of
           None \<Rightarrow> None
         | Some (host, port) \<Rightarrow>
             keep_field cx name value (st\<lparr>hs_host_headers := hs_host_headers st + 1, hs_host := host, hs_port := port\<rparr>))
      else if strcasecmp_eq name (cstr ''Proxy-Connection'') \<or> strcasecmp_eq name (cstr ''Connection'') \<or>
        strcasecmp_eq name (cstr ''Keep-Alive'') then Some st
      else if strcasecmp_eq name (cstr ''Transfer-Encoding'') then None
      else if strcasecmp_eq name (cstr ''Content-Length'') then
        (let st = st\<lparr>hs_content_lengths := hs_content_lengths st + 1\<rparr> in
         if 1 < hs_content_lengths st \<or> value = [] then None
         else if \<not> list_all is_digit value then None
         else keep_field cx name value st)
      else keep_field cx name value st)"

definition is_blank :: "byte \<Rightarrow> bool" where
  "is_blank b \<longleftrightarrow> b = 32 \<or> b = 9"

definition trim :: "bytes \<Rightarrow> bytes" where
  "trim s = rev (dropWhile is_blank (rev (dropWhile is_blank s)))"

text \<open>The name and the value of a field line.\<close>

definition split_field :: "bytes \<Rightarrow> (bytes \<times> bytes) option" where
  "split_field line =
     (case split_first (ch (CHR '':'')) line of
        None \<Rightarrow> None
      | Some (name, value) \<Rightarrow>
          if name = [] \<or> \<not> list_all token_char name then None else Some (name, trim value))"

function http_fields :: "http_context \<Rightarrow> bytes \<Rightarrow> http_state \<Rightarrow> http_state option" where
  "http_fields cx line st =
     (if line = [] then Some st
      else
        case find_sub [13, 10] line of
          None \<Rightarrow> None
        | Some line_end \<Rightarrow>
            if line_end = 0 then Some st
            else
              (case split_field (take line_end line) of
                 None \<Rightarrow> None
               | Some (name, value) \<Rightarrow>
                   (case http_field cx name value st of
                      None \<Rightarrow> None
                    | Some st \<Rightarrow> http_fields cx (drop (line_end + 2) line) st)))"
  by pat_completeness auto
termination
  by (relation "measure (\<lambda>(_, line, _). length line)") auto

declare http_fields.simps [simp del]

text \<open>The return values 0, 1, -1 and -2.\<close>

datatype http_result =
    Http_incomplete
  | Http_complete proxy_request
  | Http_protocol_error
  | Http_authentication_error

definition close_directive :: bytes where
  "close_directive = cstr ''Connection: close'' @ [13, 10, 13, 10]"

text \<open>The checks after the fields, and the request.\<close>

definition http_finish ::
  "http_context \<Rightarrow> egress_protocol \<Rightarrow> bytes \<Rightarrow> u16 \<Rightarrow> nat \<Rightarrow> http_state \<Rightarrow> http_result" where
  "http_finish cx protocol host port header_length st =
     (let config = hc_config cx; endpoint_bound = hc_endpoint_bound cx;
          request = request_zero\<lparr>request_protocol := protocol, request_host := host, request_port := port,
            request_consumed := header_length, request_invocation_id := fst (hs_who st),
            request_principal_index := snd (hs_who st)\<rparr>
      in
      if endpoint_bound \<and> hs_auth_headers st \<noteq> 0 \<or> 1 < hs_auth_headers st \<or>
        \<not> endpoint_bound \<and> authentication_set config \<and> (hs_auth_headers st \<noteq> 1 \<or> \<not> hs_authenticated st)
      then Http_authentication_error
      else if \<not> endpoint_bound \<and> \<not> authentication_set config \<and> \<not> unauthenticated_loopback config
      then Http_authentication_error
      else if hs_host_headers st \<noteq> 1 \<or> hs_host st \<noteq> host \<or> hs_port st \<noteq> port then Http_protocol_error
      else if hc_connect cx then Http_complete request
      else
        case append_bytes (hc_capacity cx) (hs_rewritten st) close_directive of
          None \<Rightarrow> Http_protocol_error
        | Some rewritten \<Rightarrow> Http_complete (request\<lparr>forward_bytes := Some rewritten\<rparr>))"

definition origin_line :: "bytes \<Rightarrow> bytes \<Rightarrow> bytes" where
  "origin_line request_method origin_target =
     request_method @ [32] @ (if origin_target \<noteq> [] \<and> hd origin_target = ch (CHR ''?'') then cstr ''/'' else []) @
     origin_target @ cstr '' HTTP/1.1'' @ [13, 10]"

definition http_start :: "bytes \<Rightarrow> identity \<Rightarrow> http_state" where
  "http_start rewritten who = \<lparr>hs_authenticated = False, hs_auth_headers = 0, hs_host_headers = 0,
     hs_content_lengths = 0, hs_host = [], hs_port = 0, hs_rewritten = rewritten, hs_who = who\<rparr>"

text \<open>A complete header.\<close>

definition http_header :: "bool \<Rightarrow> bool \<Rightarrow> egress_config \<Rightarrow> bytes \<Rightarrow> http_result" where
  "http_header calloc_ok malloc_ok config header =
     (let (endpoint_bound, who) = egress_unix_principal_lookup config in
      if \<not> scan_header True None header then Http_protocol_error
      else if \<not> calloc_ok then Http_protocol_error
      else
        case http_request_line header of
          None \<Rightarrow> Http_protocol_error
        | Some (request_method, target, field_text) \<Rightarrow>
            if request_method = [] \<or> 16 < length request_method \<or> \<not> list_all token_char request_method
            then Http_protocol_error
            else
              let connect_method = (request_method = cstr ''CONNECT'') in
              (case http_destination connect_method target of
                 None \<Rightarrow> Http_protocol_error
               | Some (protocol, host, port, origin_target) \<Rightarrow>
                   let cx = \<lparr>hc_config = config, hc_endpoint_bound = endpoint_bound, hc_connect = connect_method,
                         hc_capacity = length header + 64\<rparr>;
                       prefix = (if connect_method then [] else origin_line request_method origin_target)
                   in if \<not> connect_method \<and> (\<not> malloc_ok \<or> hc_capacity cx \<le> length prefix) then Http_protocol_error
                      else
                        (case http_fields cx field_text (http_start prefix who) of
                           None \<Rightarrow> Http_protocol_error
                         | Some st \<Rightarrow> http_finish cx protocol host port (length header) st)))"

definition egress_parse_http_request :: "bool \<Rightarrow> bool \<Rightarrow> egress_config \<Rightarrow> bytes \<Rightarrow> http_result" where
  "egress_parse_http_request calloc_ok malloc_ok config bs =
     (case find_sub [13, 10, 13, 10] bs of
        None \<Rightarrow> if EGRESS_HANDSHAKE_MAX \<le> length bs then Http_protocol_error else Http_incomplete
      | Some header_end \<Rightarrow> http_header calloc_ok malloc_ok config (take (header_end + 4) bs))"

section \<open>Base64\<close>

text \<open>The encoder of RFC 4648 section 4.\<close>

definition base64_digit :: "u32 \<Rightarrow> byte" where
  "base64_digit d =
     (if d < 26 then ch (CHR ''A'') + ucast d
      else if d < 52 then ch (CHR ''a'') + ucast (d - 26)
      else if d < 62 then ch (CHR ''0'') + ucast (d - 52)
      else if d = 62 then ch (CHR ''+'') else ch (CHR ''/''))"

definition sextet0 :: "byte \<Rightarrow> u32" where
  "sextet0 a = drop_bit 2 (ucast a)"

definition sextet1 :: "byte \<Rightarrow> byte \<Rightarrow> u32" where
  "sextet1 a b = push_bit 4 (take_bit 2 (ucast a)) OR drop_bit 4 (ucast b)"

definition sextet2 :: "byte \<Rightarrow> byte \<Rightarrow> u32" where
  "sextet2 b c = push_bit 2 (take_bit 4 (ucast b)) OR drop_bit 6 (ucast c)"

definition sextet3 :: "byte \<Rightarrow> u32" where
  "sextet3 c = take_bit 6 (ucast c)"

fun encode_base64 :: "bytes \<Rightarrow> bytes" where
  "encode_base64 [] = []"
| "encode_base64 [a] = [base64_digit (sextet0 a), base64_digit (sextet1 a 0), base64_pad, base64_pad]"
| "encode_base64 [a, b] = [base64_digit (sextet0 a), base64_digit (sextet1 a b), base64_digit (sextet2 b 0), base64_pad]"
| "encode_base64 (a # b # c # rest) =
     [base64_digit (sextet0 a), base64_digit (sextet1 a b), base64_digit (sextet2 b c), base64_digit (sextet3 c)] @
     encode_base64 rest"

definition group_value :: "u32 \<Rightarrow> u32 \<Rightarrow> u32 \<Rightarrow> u32 \<Rightarrow> u32" where
  "group_value t0 t1 t2 t3 = push_bit 18 t0 OR push_bit 12 t1 OR push_bit 6 t2 OR t3"

lemma byte_bits_eqI: "(\<And>n. n \<in> {0, 1, 2, 3, 4, 5, 6, 7} \<Longrightarrow> bit a n = bit b n) \<Longrightarrow> a = (b :: byte)"
  by (rule bit_word_eqI) (auto simp: less_Suc_eq numeral_eq_Suc)

lemma sextet_take_bit: "take_bit 6 v = v \<longleftrightarrow> v < 64" for v :: u32
proof -
  have "unat (take_bit 6 v) = unat v mod 64" unfolding unsigned_take_bit_eq by (simp add: take_bit_eq_mod)
  then have "take_bit 6 v = v \<longleftrightarrow> unat v mod 64 = unat v" unfolding word_unat_eq_iff by simp
  also have "\<dots> \<longleftrightarrow> unat v < 64" by (metis mod_less mod_less_divisor zero_less_numeral)
  finally show ?thesis by (simp add: word_less_nat_alt)
qed

lemma sextet_beyond: "v < 64 \<Longrightarrow> 6 \<le> n \<Longrightarrow> \<not> bit v n" for v :: u32
  using bit_take_bit_iff[of 6 v n] by (simp add: sextet_take_bit[THEN iffD2])

lemma sextet_bits_eqI:
  assumes "\<And>n. n \<in> {0, 1, 2, 3, 4, 5} \<Longrightarrow> bit s n = bit t n" "s < 64" "t < 64"
  shows "s = (t :: u32)"
proof (rule bit_word_eqI)
  fix n
  show "bit s n = bit t n"
    using sextet_beyond[OF assms(2), of n] sextet_beyond[OF assms(3), of n] assms(1)[of n]
    by (cases "6 \<le> n") (auto simp: not_le less_Suc_eq numeral_eq_Suc)
qed

lemma byte_bit_beyond [simp]: "8 \<le> n \<Longrightarrow> \<not> bit (a :: byte) n"
  using bit_imp_le_length[of a n] by auto

lemma sextets_less: "sextet0 a < 64" "sextet1 a b < 64" "sextet2 b c < 64" "sextet3 c < 64"
proof -
  have "t < 64" if "\<And>n. 6 \<le> n \<Longrightarrow> \<not> bit t n" for t :: u32
  proof -
    have "take_bit 6 t = t" using that by (intro bit_word_eqI) (metis bit_take_bit_iff not_le)
    then show ?thesis by (simp add: sextet_take_bit)
  qed
  note bits = this
  show "sextet0 a < 64" "sextet1 a b < 64" "sextet2 b c < 64" "sextet3 c < 64"
    by (rule bits; auto simp: sextet0_def sextet1_def sextet2_def sextet3_def bit_simps)+
qed

lemma group_bytes:
  "ucast (drop_bit 16 (group_value (sextet0 a) (sextet1 a b) (sextet2 b c) (sextet3 c))) = a"
  "ucast (drop_bit 8 (group_value (sextet0 a) (sextet1 a b) (sextet2 b c) (sextet3 c))) = b"
  "ucast (group_value (sextet0 a) (sextet1 a b) (sextet2 b c) (sextet3 c)) = c"
proof -
  note defs = group_value_def sextet0_def sextet1_def sextet2_def sextet3_def bit_simps numeral_2_eq_2[symmetric]
  show "ucast (drop_bit 16 (group_value (sextet0 a) (sextet1 a b) (sextet2 b c) (sextet3 c))) = a"
    by (rule byte_bits_eqI) (elim insertE emptyE; hypsubst; simp add: defs)
  show "ucast (drop_bit 8 (group_value (sextet0 a) (sextet1 a b) (sextet2 b c) (sextet3 c))) = b"
    by (rule byte_bits_eqI) (elim insertE emptyE; hypsubst; simp add: defs)
  show "ucast (group_value (sextet0 a) (sextet1 a b) (sextet2 b c) (sextet3 c)) = c"
    by (rule byte_bits_eqI) (elim insertE emptyE; hypsubst; simp add: defs)
qed

lemma group_sextets:
  assumes "t0 < 64" "t1 < 64" "t2 < 64" "t3 < 64"
  defines "v \<equiv> group_value t0 t1 t2 t3"
  defines "a \<equiv> ucast (drop_bit 16 v)" and "b \<equiv> ucast (drop_bit 8 v)" and "c \<equiv> ucast v"
  shows "sextet0 a = t0" "sextet1 a b = t1" "sextet2 b c = t2" "sextet3 c = t3"
proof -
  note beyond = sextet_beyond[OF assms(1)] sextet_beyond[OF assms(2)] sextet_beyond[OF assms(3)] sextet_beyond[OF assms(4)]
  note defs = v_def a_def b_def c_def group_value_def bit_simps numeral_2_eq_2[symmetric]
  show "sextet0 a = t0"
    by (rule sextet_bits_eqI[OF _ sextets_less(1) assms(1)]) (elim insertE emptyE; hypsubst; simp add: sextet0_def defs beyond)
  show "sextet1 a b = t1"
    by (rule sextet_bits_eqI[OF _ sextets_less(2) assms(2)]) (elim insertE emptyE; hypsubst; simp add: sextet1_def defs beyond)
  show "sextet2 b c = t2"
    by (rule sextet_bits_eqI[OF _ sextets_less(3) assms(3)]) (elim insertE emptyE; hypsubst; simp add: sextet2_def defs beyond)
  show "sextet3 c = t3"
    by (rule sextet_bits_eqI[OF _ sextets_less(4) assms(4)]) (elim insertE emptyE; hypsubst; simp add: sextet3_def defs beyond)
qed

lemma base64_digit_table:
  "list_all (\<lambda>d. base64_char (base64_digit d) \<and> base64_value (base64_digit d) = d) (map of_nat [0..<64])"
  by code_simp

lemma base64_char_table:
  "list_all (\<lambda>c. base64_value c < 64 \<and> base64_digit (base64_value c) = c)
     (map of_nat ([43, 47] @ [48..<58] @ [65..<91] @ [97..<123]))"
  by code_simp

lemma base64_digit_ok:
  assumes "d < 64"
  shows "base64_char (base64_digit d)" "base64_value (base64_digit d) = d"
proof -
  have "d \<in> set (map of_nat [0..<64])"
    using assms by (auto simp: image_iff word_less_nat_alt intro!: bexI[of _ "unat d"])
  then show "base64_char (base64_digit d)" "base64_value (base64_digit d) = d"
    using base64_digit_table unfolding list_all_iff by blast+
qed

lemma base64_char_ok:
  assumes "base64_char c"
  shows "base64_value c < 64" "base64_digit (base64_value c) = c"
proof -
  have "unat c \<in> set ([43, 47] @ [48..<58] @ [65..<91] @ [97..<123])"
    using assms unfolding set_append set_upt
    by (auto simp: base64_char_def is_upper_def is_lower_def is_digit_def word_le_nat_alt)
  then have "of_nat (unat c) \<in> set (map of_nat ([43, 47] @ [48..<58] @ [65..<91] @ [97..<123]) :: byte list)"
    unfolding set_map by (rule imageI)
  then have "c \<in> set (map of_nat ([43, 47] @ [48..<58] @ [65..<91] @ [97..<123]))" by simp
  then show "base64_value c < 64" "base64_digit (base64_value c) = c"
    using base64_char_table assms unfolding list_all_iff by blast+
qed

lemma base64_pad_not_char [simp]: "\<not> base64_char base64_pad"
  by code_simp

lemma base64_digit_not_pad: "d < 64 \<Longrightarrow> base64_digit d \<noteq> base64_pad"
  using base64_digit_ok(1)[of d] by auto

lemma low_bits_zero: "t AND 15 = 0 \<longleftrightarrow> take_bit 4 t = 0" "t AND 3 = 0 \<longleftrightarrow> take_bit 2 t = 0" for t :: u32
  by (simp_all add: take_bit_eq_mask mask_eq_exp_minus_1)

lemma take_bit_zero_bit: "take_bit k t = 0 \<Longrightarrow> n < k \<Longrightarrow> \<not> bit t n" for t :: u32
  using bit_take_bit_iff[of k t n] by simp

lemma pad_bytes_zero:
  "take_bit 4 t1 = 0 \<Longrightarrow> ucast (drop_bit 8 (group_value t0 t1 0 0)) = (0 :: byte)"
  "take_bit 2 t2 = 0 \<Longrightarrow> ucast (group_value t0 t1 t2 0) = (0 :: byte)"
  by (rule byte_bits_eqI; elim insertE emptyE; hypsubst; simp add: group_value_def bit_simps take_bit_zero_bit)+

lemma pad_sextets:
  "sextet2 0 0 = 0" "sextet3 0 = 0" "take_bit 4 (sextet1 a 0) = 0" "take_bit 2 (sextet2 b 0) = 0"
  by (auto simp: sextet1_def sextet2_def sextet3_def bit_eq_iff bit_simps)

text \<open>A group of characters decodes to some bytes exactly when it is their encoding.\<close>

lemma decode_group_encode:
  "encode_base64 ds = [c0, c1, c2, c3] \<Longrightarrow> length ds < 3 \<Longrightarrow> decode_group c0 c1 c2 c3 True = Some ds"
  "encode_base64 [a, b, c] = [c0, c1, c2, c3] \<Longrightarrow> decode_group c0 c1 c2 c3 l = Some [a, b, c]"
proof -
  note defs = decode_group_def[folded group_value_def] base64_digit_ok base64_digit_not_pad sextets_less low_bits_zero
    pad_sextets Let_def
  show "encode_base64 [a, b, c] = [c0, c1, c2, c3] \<Longrightarrow> decode_group c0 c1 c2 c3 l = Some [a, b, c]"
    by (clarsimp simp: defs group_bytes)
  show "encode_base64 ds = [c0, c1, c2, c3] \<Longrightarrow> length ds < 3 \<Longrightarrow> decode_group c0 c1 c2 c3 True = Some ds"
    using group_bytes[of "hd ds" 0 0] group_bytes[of "hd ds" "hd (tl ds)" 0]
    by (cases ds rule: encode_base64.cases) (auto simp: defs)
qed

lemma decode_group_sound:
  assumes "decode_group c0 c1 c2 c3 l = Some ds"
  shows "encode_base64 ds = [c0, c1, c2, c3]" "ds \<noteq> []" "length ds \<le> 3" "length ds < 3 \<Longrightarrow> l"
proof -
  note defs = decode_group_def[folded group_value_def] low_bits_zero
  have chars: "base64_char c0" "base64_char c1" using assms by (auto simp: defs split: if_splits)
  note vals = base64_char_ok[OF chars(1)] base64_char_ok[OF chars(2)]
  consider (one) "c2 = base64_pad" "c3 = base64_pad" | (two) "base64_char c2" "c3 = base64_pad"
    | (three) "base64_char c2" "base64_char c3"
    using assms by (auto simp: defs split: if_splits)
  then have "encode_base64 ds = [c0, c1, c2, c3] \<and> ds \<noteq> [] \<and> length ds \<le> 3 \<and> (length ds < 3 \<longrightarrow> l)"
  proof cases
    case one
    then show ?thesis
      using assms vals group_sextets[OF vals(1) vals(3), of 0 0] pad_bytes_zero(1)
      by (auto simp: defs Let_def split: if_splits)
  next
    case two
    note vals2 = base64_char_ok[OF two(1)]
    from two show ?thesis
      using assms vals vals2 group_sextets[OF vals(1) vals(3) vals2(1), of 0] pad_bytes_zero(2)
      by (auto simp: defs Let_def split: if_splits)
  next
    case three
    note vals2 = base64_char_ok[OF three(1)] base64_char_ok[OF three(2)]
    from three show ?thesis
      using assms vals vals2 group_sextets[OF vals(1) vals(3) vals2(1,3)]
      by (auto simp: defs Let_def split: if_splits)
  qed
  then show "encode_base64 ds = [c0, c1, c2, c3]" "ds \<noteq> []" "length ds \<le> 3" "length ds < 3 \<Longrightarrow> l" by auto
qed

lemma encode_base64_length: "length (encode_base64 xs) = 4 * ((length xs + 2) div 3)"
  by (induction xs rule: encode_base64.induct) (auto, presburger)

lemma encode_base64_empty [simp]: "encode_base64 xs = [] \<longleftrightarrow> xs = []" "[] = encode_base64 xs \<longleftrightarrow> xs = []"
  by (cases xs rule: encode_base64.cases; simp)+

lemma encode_base64_append3: "length ds = 3 \<Longrightarrow> encode_base64 (ds @ xs) = encode_base64 ds @ encode_base64 xs"
  by (cases ds rule: encode_base64.cases) auto

lemma decode_loop_iff:
  assumes "length s mod 4 = 0"
  shows "decode_loop s cap out = Some ys \<longleftrightarrow>
    (\<exists>xs. ys = out @ xs \<and> s = encode_base64 xs \<and> (xs = [] \<or> length ys \<le> cap))"
  using assms
proof (induction s cap out rule: decode_loop.induct)
  case (1 c0 c1 c2 c3 rest cap out)
  have len: "length rest mod 4 = 0" using "1.prems" by simp
  show ?case (is "?L \<longleftrightarrow> ?R")
  proof
    assume ?L
    then obtain ds where ds: "decode_group c0 c1 c2 c3 (rest = []) = Some ds" "length out + length ds \<le> cap"
      "decode_loop rest cap (out @ ds) = Some ys"
      by (auto split: option.splits if_splits)
    note group = decode_group_sound[OF ds(1)]
    obtain xs where xs: "ys = out @ ds @ xs" "rest = encode_base64 xs" "xs = [] \<or> length ys \<le> cap"
      using "1.IH"[OF ds(1) _ len] ds(2,3) by auto
    have "encode_base64 (ds @ xs) = c0 # c1 # c2 # c3 # rest"
    proof (cases "length ds < 3")
      case True
      then have "xs = []" using group(4) xs(2) encode_base64_length[of xs] by (cases xs) auto
      then show ?thesis using group(1) xs(2) by simp
    next
      case False
      then show ?thesis using group(1,3) xs(2) encode_base64_append3[of ds xs] by simp
    qed
    then show ?R using xs ds(2) by (intro exI[of _ "ds @ xs"]) auto
  next
    assume ?R
    then obtain xs where xs: "ys = out @ xs" "c0 # c1 # c2 # c3 # rest = encode_base64 xs" "length ys \<le> cap"
      by auto
    show ?L
    proof (cases "length xs < 3")
      case True
      then have "length (encode_base64 xs) \<le> 4" unfolding encode_base64_length by simp
      then have rest: "rest = []" using xs(2)[symmetric] by simp
      then have "decode_group c0 c1 c2 c3 True = Some xs" using decode_group_encode(1)[OF _ True] xs(2) by metis
      then show ?thesis using xs(1,3) rest by simp
    next
      case False
      then obtain a b c zs where zs: "xs = a # b # c # zs" by (cases xs rule: encode_base64.cases) auto
      then have group: "decode_group c0 c1 c2 c3 (rest = []) = Some [a, b, c]" using decode_group_encode(2) xs(2) by simp
      show ?thesis using "1.IH"[OF group _ len] group xs zs by auto
    qed
  qed
qed auto

lemma decode_base64_Some: "decode_base64 s cap = Some xs \<Longrightarrow> s = encode_base64 xs"
  using decode_loop_iff[of s cap "[]" xs] by (auto simp: decode_base64_def split: if_splits)

text \<open>
  C37: The decoder of Basic credentials is exact: it accepts exactly the canonical padded Base64
  encodings of RFC 4648 of non-empty byte strings that fit the output, and returns the encoded bytes.
  No text with stray pad bits, missing padding or foreign characters decodes.
\<close>

theorem base64_exact:
  "decode_base64 s cap = Some xs \<longleftrightarrow> xs \<noteq> [] \<and> s = encode_base64 xs \<and> length xs \<le> cap"
proof -
  have mod4: "length (encode_base64 xs) mod 4 = 0" by (simp add: encode_base64_length)
  show ?thesis
    using decode_loop_iff[of s cap "[]" xs] mod4 by (auto simp: decode_base64_def)
qed

end
