(* ===== verification/Egress_Http_Request.thy ===== *)
theory Egress_Http_Request
  imports Egress_Http
begin

text \<open>
  What the HTTP parser of \<^verbatim>\<open>src/src/core/http.c\<close> accepts: the lines of an accepted header, the fold of the
  field handler over them, and the properties of a complete request.
\<close>

section \<open>The lines of a header\<close>

definition crlf :: bytes where
  "crlf = [13, 10]"

definition in_lines :: "bytes list \<Rightarrow> bytes" where
  "in_lines ls = concat (map (\<lambda>l. l @ crlf) ls)"

definition clean :: "byte \<Rightarrow> bool" where
  "clean b \<longleftrightarrow> b \<noteq> 0 \<and> b \<noteq> 10 \<and> b \<noteq> 13"

lemma in_lines_simps [simp]: "in_lines [] = []" "in_lines (l # ls) = l @ 13 # 10 # in_lines ls"
  by (simp_all add: in_lines_def crlf_def)

lemma in_lines_append [simp]: "in_lines (ls @ ms) = in_lines ls @ in_lines ms"
  by (simp add: in_lines_def)

lemma scan_header_step:
  "scan_header q p (b # cs) \<Longrightarrow> b \<noteq> 13 \<Longrightarrow> b \<noteq> 10 \<Longrightarrow> scan_header q (Some b) cs \<and> b \<noteq> 0"
  unfolding scan_header.simps by presburger

lemma scan_header_cr: "scan_header q p (13 # cs) \<Longrightarrow> \<exists>ds. cs = 10 # ds \<and> scan_header False (Some 10) ds"
  by (cases cs) (simp_all split: if_splits)

lemma scan_header_lines:
  "scan_header q p bs \<Longrightarrow> p \<noteq> Some 13 \<Longrightarrow> bs = [] \<or> last bs = 10 \<Longrightarrow>
   \<exists>ls. bs = in_lines ls \<and> list_all (list_all clean) ls"
proof (induction bs arbitrary: q p rule: length_induct)
  case (1 bs)
  show ?case
  proof (cases bs)
    case Nil
    then show ?thesis by (intro exI[of _ "[]"]) simp
  next
    case (Cons b cs)
    consider (cr) "b = 13" | (lf) "b = 10" | (other) "b \<noteq> 13" "b \<noteq> 10" by blast
    then show ?thesis
    proof cases
      case cr
      then obtain ds where ds: "cs = 10 # ds" "scan_header False (Some 10) ds"
        using "1.prems"(1) Cons scan_header_cr by blast
      then have "ds = [] \<or> last ds = 10" using "1.prems"(3) Cons by (auto split: if_splits)
      then obtain ls where "ds = in_lines ls" "list_all (list_all clean) ls"
        using "1.IH"[rule_format, of ds False "Some 10"] Cons ds by auto
      then show ?thesis using Cons cr ds(1) by (intro exI[of _ "[] # ls"]) simp
    next
      case lf
      then show ?thesis using "1.prems"(1,2) Cons by simp
    next
      case other
      have scan: "scan_header q (Some b) cs" "b \<noteq> 0"
        using "1.prems"(1) Cons other scan_header_step by blast+
      have last: "cs \<noteq> []" "last cs = 10" using "1.prems"(3) Cons other by (auto split: if_splits)
      have "Some b \<noteq> Some 13" using other by simp
      then obtain ls where ls: "cs = in_lines ls" "list_all (list_all clean) ls"
        using "1.IH"[rule_format, of cs q "Some b"] Cons scan(1) last(2) by auto
      then obtain l ms where "ls = l # ms" using last(1) by (cases ls) auto
      moreover have "clean b" using other scan(2) by (simp add: clean_def)
      ultimately show ?thesis using Cons ls by (intro exI[of _ "(b # l) # ms"]) simp
    qed
  qed
qed

lemma clean_line: "list_all clean l \<Longrightarrow> 13 \<notin> set l \<and> 10 \<notin> set l \<and> 0 \<notin> set l"
  by (auto simp: list_all_iff clean_def)

lemma find_crlf: "13 \<notin> set l \<Longrightarrow> find_sub [13, 10] (l @ 13 # 10 # s) = Some (length l)"
  using find_sub_skip[of 13 l "[10]" "13 # 10 # s"] by simp

lemma in_lines_nul: "list_all (list_all clean) ls \<Longrightarrow> 0 \<notin> set (in_lines ls)"
  by (induction ls) (auto dest: clean_line)

text \<open>The first empty line after the first one ends the header.\<close>

lemma blank_line_skip:
  assumes "list_all clean l" "m \<noteq> []" "list_all clean m"
  shows "find_sub [13, 10, 13, 10] (l @ 13 # 10 # m @ s) =
    map_option ((+) (length l + 2)) (find_sub [13, 10, 13, 10] (m @ s))"
proof -
  obtain b m' where m: "m = b # m'" "b \<noteq> 13" using assms(2,3) by (cases m) (auto simp: clean_def)
  have "find_sub [13, 10, 13, 10] (13 # 10 # m @ s) = map_option (\<lambda>n. n + 2) (find_sub [13, 10, 13, 10] (m @ s))"
    using m by (cases "find_sub [13, 10, 13, 10] (m @ s)") auto
  then show ?thesis
    using find_sub_skip[of 13 l "[10, 13, 10]" "13 # 10 # m @ s"] clean_line[OF assms(1)]
    by (cases "find_sub [13, 10, 13, 10] (m @ s)") auto
qed

lemma blank_line_last:
  assumes "find_sub [13, 10, 13, 10] (in_lines (l # ls)) = Some e" "length (in_lines (l # ls)) = e + 4"
    "list_all (list_all clean) (l # ls)"
  shows "\<exists>ms. ls = ms @ [[]] \<and> list_all (\<lambda>m. m \<noteq> []) ms"
  using assms
proof (induction ls arbitrary: l e)
  case Nil
  have "13 \<notin> set l" using Nil.prems(3) by (simp add: clean_line)
  then have "find_sub [13, 10, 13, 10] (l @ [13, 10]) = None"
    using find_sub_skip[of 13 l "[10, 13, 10]" "[13, 10]"] by simp
  then show ?case using Nil.prems(1) by simp
next
  case (Cons m ls)
  show ?case
  proof (cases "m = []")
    case True
    have "13 \<notin> set l" using Cons.prems(3) by (simp add: clean_line)
    then have "find_sub [13, 10, 13, 10] (in_lines (l # m # ls)) = Some (length l)"
      using find_sub_skip[of 13 l "[10, 13, 10]" "13 # 10 # 13 # 10 # in_lines ls"] True by simp
    then have "in_lines ls = []" using Cons.prems(1,2) True by simp
    then have "ls = []" by (cases ls) auto
    then show ?thesis using True by simp
  next
    case False
    have "list_all clean l" "list_all clean m" using Cons.prems(3) by simp_all
    note skip = blank_line_skip[OF this(1) False this(2), of "13 # 10 # in_lines ls"]
    then obtain e' where e': "find_sub [13, 10, 13, 10] (in_lines (m # ls)) = Some e'" "e = length l + 2 + e'"
      using Cons.prems(1) by auto
    then obtain ms where "ls = ms @ [[]]" "list_all (\<lambda>m. m \<noteq> []) ms"
      using Cons.IH[OF e'(1)] Cons.prems(2,3) by auto
    then show ?thesis using False by (intro exI[of _ "m # ms"]) simp
  qed
qed

section \<open>The request line\<close>

lemma find_byte_split: "find_byte c xs = map_option (length \<circ> fst) (split_first c xs)"
  by (induction xs) (auto simp: option.map_comp intro!: option.map_cong0)

lemma c_string_at: "0 \<notin> set a \<Longrightarrow> c_string (a @ 0 # s) = a"
  by (induction a) (auto simp: c_string_def)

text \<open>A version that starts beyond the request line runs to the end of the header.\<close>

lemma suffix_not_version:
  assumes "xs = p @ 32 # v" "xs = [] \<or> last xs = 10" "0 \<notin> set v"
  shows "c_string (v @ [0]) \<noteq> cstr ''HTTP/1.1''"
proof
  assume "c_string (v @ [0]) = cstr ''HTTP/1.1''"
  then have "v = cstr ''HTTP/1.1''" using c_string_at[OF assms(3), of "[]"] by simp
  then show False using assms(1,2) by simp
qed

lemma http_request_line_alt:
  "13 \<notin> set l \<Longrightarrow> 0 \<notin> set l \<Longrightarrow> http_request_line (l @ 13 # 10 # rest) =
     (case split_first 32 (l @ 0 # 10 # rest) of
        None \<Rightarrow> None
      | Some (p, s) \<Rightarrow>
          (case split_first 32 s of
             None \<Rightarrow> None
           | Some (q, v) \<Rightarrow>
               let header = p @ 0 # q @ 0 # v @ [0]; version = c_string (v @ [0]) in
               if 32 \<in> set version \<or> version \<noteq> cstr ''HTTP/1.1'' then None
               else Some (c_string header, c_string (drop (length p + 1) header), c_string (drop (length l + 2) header))))"
proof -
  assume l: "13 \<notin> set l" "0 \<notin> set l"
  let ?text = "l @ 13 # 10 # rest"
  have first: "find_sub [13, 10] (c_string (?text @ [0])) = Some (length l)"
  proof -
    have "c_string (?text @ [0]) = l @ 13 # 10 # c_string (rest @ [0])"
      using l(2) by (induction l) (simp_all add: c_string_def)
    then show ?thesis using find_crlf[OF l(1)] by simp
  qed
  have cut: "(?text @ [0])[length l := 0] = (l @ 0 # 10 # rest) @ [0]" by simp
  have whole: "take (length ?text) ((l @ 0 # 10 # rest) @ [0]) = l @ 0 # 10 # rest" by simp
  have line: "http_request_line ?text =
     (case find_byte 32 (l @ 0 # 10 # rest) of
        None \<Rightarrow> None
      | Some space \<Rightarrow>
          let header = ((l @ 0 # 10 # rest) @ [0])[space := 0]; target = space + 1 in
          (case find_byte 32 (take (length ?text - target) (drop target header)) of
             None \<Rightarrow> None
           | Some space2 \<Rightarrow>
               let header = header[target + space2 := 0];
                   version = c_string (drop (target + space2 + 1) header)
               in if 32 \<in> set version \<or> version \<noteq> cstr ''HTTP/1.1'' then None
                  else Some (c_string header, c_string (drop target header), c_string (drop (length l + 2) header))))"
    by (simp only: http_request_line_def Let_def first option.case cut whole)
  show ?thesis
  proof (cases "split_first 32 (l @ 0 # 10 # rest)")
    case None
    show ?thesis unfolding line find_byte_split None by simp
  next
    case (Some ps)
    obtain p s where ps: "ps = (p, s)" by (cases ps)
    then have p: "l @ 0 # 10 # rest = p @ 32 # s" using Some split_first_Some by blast
    have len: "length ?text = length p + 1 + length s" using arg_cong[OF p, of length] by simp
    have cut1: "((p @ 32 # s) @ [0])[length p := 0] = p @ 0 # s @ [0]" by simp
    have rest1: "take (length p + 1 + length s - (length p + 1)) (drop (length p + 1) (p @ 0 # s @ [0])) = s" by simp
    note first_cut = line find_byte_split Some[unfolded p ps] p len Let_def option.map comp_def fst_conv option.case prod.case cut1 rest1
    show ?thesis
    proof (cases "split_first 32 s")
      case None
      show ?thesis by (simp only: first_cut None)
    next
      case (Some qv)
      obtain q v where qv: "qv = (q, v)" by (cases qv)
      then have s: "s = q @ 32 # v" using Some split_first_Some by blast
      have cut2: "(p @ 0 # s @ [0])[length p + 1 + length q := 0] = p @ 0 # q @ 0 # v @ [0]"
        using list_update_length[of "p @ 0 # q" 32 "v @ [0]" 0] by (simp add: s)
      have rest2: "drop (length p + 1 + length q + 1) (p @ 0 # q @ 0 # v @ [0]) = v @ [0]" by simp
      show ?thesis by (simp only: first_cut Some qv cut2 rest2)
    qed
  qed
qed

lemma append_longer: "xs @ ys = as @ bs \<Longrightarrow> length as \<le> length xs \<Longrightarrow> \<exists>w. xs = as @ w \<and> bs = w @ ys"
  by (auto simp: append_eq_append_conv2)

lemma http_request_line_sound:
  assumes "13 \<notin> set l" "0 \<notin> set l" "0 \<notin> set rest" "last rest = 10"
    "http_request_line (l @ 13 # 10 # rest) = Some (m, t, f)"
  shows "l = m @ 32 # t @ 32 # cstr ''HTTP/1.1''" "f = rest"
proof -
  from assms(5) obtain p s q v where parts: "split_first 32 (l @ 0 # 10 # rest) = Some (p, s)"
    "split_first 32 s = Some (q, v)" "c_string (v @ [0]) = cstr ''HTTP/1.1''"
    and res: "m = c_string (p @ 0 # q @ 0 # v @ [0])" "t = c_string (drop (length p + 1) (p @ 0 # q @ 0 # v @ [0]))"
      "f = c_string (drop (length l + 2) (p @ 0 # q @ 0 # v @ [0]))"
    unfolding http_request_line_alt[OF assms(1,2)] by (auto simp: Let_def split: option.splits if_splits)
  have whole: "l @ 0 # 10 # rest = p @ 32 # q @ 32 # v" using parts(1,2) unfolding split_first_Some by simp
  obtain w where l: "l = p @ 32 # q @ 32 # w" "v = w @ 0 # 10 # rest"
  proof (cases "length (p @ 32 # q @ [32]) \<le> length l")
    case True
    from whole have "l @ 0 # 10 # rest = (p @ 32 # q @ [32]) @ v" by simp
    from append_longer[OF this True] obtain w where "l = (p @ 32 # q @ [32]) @ w" "v = w @ 0 # 10 # rest" by blast
    then show ?thesis using that by simp
  next
    case False
    from whole have "(p @ 32 # q @ [32]) @ v = l @ 0 # 10 # rest" by simp
    from append_longer[OF this] obtain w where w: "p @ 32 # q @ [32] = l @ w" "0 # 10 # rest = w @ v" "w \<noteq> []"
      using False by force
    have "32 \<in> set w" using w(1,3) by (metis append_is_Nil_conv last_appendR last_in_set last_snoc not_Cons_self2 append_Cons append_assoc)
    then obtain r where r: "rest = r @ v" using w(2) by (cases w; cases "tl w") auto
    then have "0 \<notin> set v" using assms(3) by simp
    then have "v = cstr ''HTTP/1.1''" using parts(3) c_string_at[of v "[]"] by simp
    then have "last rest = 49" using r by simp
    then show ?thesis using assms(4) by simp
  qed
  have "w = cstr ''HTTP/1.1''" using parts(3) assms(2) c_string_at[of w "10 # rest @ [0]"] l by simp
  moreover have "m = p" "t = q" using res(1,2) l(1) assms(2) by (simp_all add: c_string_at)
  ultimately show "l = m @ 32 # t @ 32 # cstr ''HTTP/1.1''" using l(1) by simp
  have "p @ 0 # q @ 0 # v @ [0] = (p @ 0 # q @ 0 # w @ [0, 10]) @ rest @ [0]"
    "length l + 2 = length (p @ 0 # q @ 0 # w @ [0, 10])" unfolding l by simp_all
  then have "drop (length l + 2) (p @ 0 # q @ 0 # v @ [0]) = rest @ [0]" by (metis append_eq_conv_conj)
  then show "f = rest" using res(3) assms(3) c_string_at[of rest "[]"] by simp
qed

section \<open>The fields\<close>

primrec run_fields :: "http_context \<Rightarrow> (bytes \<times> bytes) list \<Rightarrow> http_state \<Rightarrow> http_state option" where
  "run_fields cx [] st = Some st"
| "run_fields cx (f # fs) st = Option.bind (http_field cx (fst f) (snd f) st) (run_fields cx fs)"

lemma http_fields_lines:
  assumes "list_all (list_all clean) ls" "list_all (\<lambda>l. l \<noteq> []) ls"
    "http_fields cx (in_lines ls @ [13, 10]) st = Some st'"
  shows "\<exists>fs. map split_field ls = map Some fs \<and> run_fields cx fs st = Some st'"
  using assms
proof (induction ls arbitrary: st)
  case Nil
  then show ?case by (simp add: http_fields.simps[of cx "[13, 10]"])
next
  case (Cons l ls)
  have find: "find_sub [13, 10] (in_lines (l # ls) @ [13, 10]) = Some (length l)"
    using find_crlf[of l "in_lines ls @ [13, 10]"] Cons.prems(1) by (simp add: clean_line)
  have "l \<noteq> []" using Cons.prems(2) by simp
  then obtain n v st1 where "split_field l = Some (n, v)" "http_field cx n v st = Some st1"
    "http_fields cx (in_lines ls @ [13, 10]) st1 = Some st'"
    using Cons.prems(3) find
    by (subst (asm) http_fields.simps) (auto split: option.splits)
  moreover from this obtain fs where "map split_field ls = map Some fs" "run_fields cx fs st1 = Some st'"
    using Cons.IH[of st1] Cons.prems(1,2) by auto
  ultimately show ?case by (intro exI[of _ "(n, v) # fs"]) simp
qed

datatype field_kind = Authorization_field | Host_field | Hop_field | Transfer_field | Length_field | Other_field

definition field_kind :: "bytes \<Rightarrow> field_kind" where
  "field_kind name =
     (if strcasecmp_eq name (cstr ''Proxy-Authorization'') then Authorization_field
      else if strcasecmp_eq name (cstr ''Host'') then Host_field
      else if strcasecmp_eq name (cstr ''Proxy-Connection'') \<or> strcasecmp_eq name (cstr ''Connection'') \<or>
        strcasecmp_eq name (cstr ''Keep-Alive'') then Hop_field
      else if strcasecmp_eq name (cstr ''Transfer-Encoding'') then Transfer_field
      else if strcasecmp_eq name (cstr ''Content-Length'') then Length_field
      else Other_field)"

definition of_kind :: "field_kind \<Rightarrow> (bytes \<times> bytes) list \<Rightarrow> (bytes \<times> bytes) list" where
  "of_kind k fs = filter (\<lambda>f. field_kind (fst f) = k) fs"

definition kept :: "bytes \<times> bytes \<Rightarrow> bool" where
  "kept f \<longleftrightarrow> field_kind (fst f) \<in> {Host_field, Length_field, Other_field}"

definition field_text :: "bytes \<times> bytes \<Rightarrow> bytes" where
  "field_text f = fst f @ cstr '': '' @ snd f @ crlf"

lemma append_field_text: "append_field cap n v out = Some r \<Longrightarrow> r = out @ field_text (n, v)"
  by (auto simp: append_field_def append_bytes_def field_text_def crlf_def split: if_splits)

lemma keep_field_effect:
  "keep_field cx n v st = Some st' \<Longrightarrow>
   \<exists>r. st' = st\<lparr>hs_rewritten := r\<rparr> \<and> (\<not> hc_connect cx \<longrightarrow> r = hs_rewritten st @ field_text (n, v))"
  by (cases "hc_connect cx") (auto simp: keep_field_def dest: append_field_text intro: exI[of _ "hs_rewritten st"])

lemma http_field_kind:
  "http_field cx name value st =
     (case field_kind name of
        Authorization_field \<Rightarrow>
          Some (if hc_endpoint_bound cx then st\<lparr>hs_auth_headers := hs_auth_headers st + 1\<rparr>
            else st\<lparr>hs_auth_headers := hs_auth_headers st + 1,
              hs_authenticated := fst (auth_header_matches (hc_config cx) value (hs_who st)),
              hs_who := snd (auth_header_matches (hc_config cx) value (hs_who st))\<rparr>)
      | Host_field \<Rightarrow>
          (case parse_authority value (if hc_connect cx then 443 else 80) of
             None \<Rightarrow> None
           | Some (host, port) \<Rightarrow> keep_field cx name value
               (st\<lparr>hs_host_headers := hs_host_headers st + 1, hs_host := host, hs_port := port\<rparr>))
      | Hop_field \<Rightarrow> Some st
      | Transfer_field \<Rightarrow> None
      | Length_field \<Rightarrow>
          if 1 < hs_content_lengths st + 1 \<or> value = [] \<or> \<not> list_all is_digit value then None
          else keep_field cx name value (st\<lparr>hs_content_lengths := hs_content_lengths st + 1\<rparr>)
      | Other_field \<Rightarrow> keep_field cx name value st)"
  unfolding http_field_def field_kind_def Let_def by (simp add: case_prod_beta)

text \<open>What one field does to each part of the state.\<close>

lemma http_field_effect:
  assumes "http_field cx n v st = Some st'"
  shows "hs_auth_headers st' = hs_auth_headers st + (if field_kind n = Authorization_field then 1 else 0)"
    "hs_host_headers st' = hs_host_headers st + (if field_kind n = Host_field then 1 else 0)"
    "hs_content_lengths st' = hs_content_lengths st + (if field_kind n = Length_field then 1 else 0)"
    "field_kind n \<noteq> Transfer_field"
    "field_kind n = Length_field \<Longrightarrow> hs_content_lengths st = 0 \<and> list_all is_digit v"
    "\<not> hc_connect cx \<Longrightarrow> hs_rewritten st' = hs_rewritten st @ (if kept (n, v) then field_text (n, v) else [])"
    "if field_kind n = Host_field then parse_authority v (if hc_connect cx then 443 else 80) = Some (hs_host st', hs_port st')
     else hs_host st' = hs_host st \<and> hs_port st' = hs_port st"
    "if field_kind n = Authorization_field \<and> \<not> hc_endpoint_bound cx
     then (hs_authenticated st', hs_who st') = auth_header_matches (hc_config cx) v (hs_who st)
     else hs_authenticated st' = hs_authenticated st \<and> hs_who st' = hs_who st"
  using assms unfolding http_field_kind
  by (cases "field_kind n"; auto simp: kept_def split: option.splits if_splits dest!: keep_field_effect)+

lemma of_kind_simps [simp]:
  "of_kind k [] = []" "of_kind k (f # fs) = (if field_kind (fst f) = k then f # of_kind k fs else of_kind k fs)"
  by (simp_all add: of_kind_def)

lemma run_fields_effect:
  assumes "run_fields cx fs st = Some st'"
  shows "hs_auth_headers st' = hs_auth_headers st + length (of_kind Authorization_field fs)"
    "hs_host_headers st' = hs_host_headers st + length (of_kind Host_field fs)"
    "of_kind Transfer_field fs = []"
    "hs_content_lengths st \<le> 1 \<Longrightarrow> hs_content_lengths st + length (of_kind Length_field fs) \<le> 1"
    "\<not> hc_connect cx \<Longrightarrow> hs_rewritten st' = hs_rewritten st @ concat (map field_text (filter kept fs))"
  using assms
proof (induction fs arbitrary: st)
  case (Cons f fs)
  {
    case 1
    then show ?case using Cons.IH(1) http_field_effect(1) by (auto simp: bind_eq_Some_conv)
  next
    case 2
    then show ?case using Cons.IH(2) http_field_effect(2) by (auto simp: bind_eq_Some_conv)
  next
    case 3
    then show ?case using Cons.IH(3) http_field_effect(4) by (auto simp: bind_eq_Some_conv)
  next
    case 4
    then obtain st1 where st1: "http_field cx (fst f) (snd f) st = Some st1" "run_fields cx fs st1 = Some st'"
      by (auto simp: bind_eq_Some_conv)
    show ?case using Cons.IH(4)[OF _ st1(2)] http_field_effect(3,5)[OF st1(1)] 4 by auto
  next
    case 5
    then obtain st1 where st1: "http_field cx (fst f) (snd f) st = Some st1" "run_fields cx fs st1 = Some st'"
      by (auto simp: bind_eq_Some_conv)
    show ?case using Cons.IH(5)[OF _ st1(2)] http_field_effect(6)[OF st1(1)] 5 by simp
  }
qed auto

lemma run_fields_host:
  assumes "run_fields cx fs st = Some st'"
  shows "of_kind Host_field fs = [] \<Longrightarrow> hs_host st' = hs_host st \<and> hs_port st' = hs_port st"
    "of_kind Host_field fs = [f] \<Longrightarrow>
     parse_authority (snd f) (if hc_connect cx then 443 else 80) = Some (hs_host st', hs_port st')"
  using assms
proof (induction fs arbitrary: st)
  case (Cons g fs)
  {
    case 1
    then obtain st1 where st1: "http_field cx (fst g) (snd g) st = Some st1" "run_fields cx fs st1 = Some st'"
      by (auto simp: bind_eq_Some_conv)
    show ?case using Cons.IH(1)[OF _ st1(2)] http_field_effect(7)[OF st1(1)] 1(1) by (simp split: if_splits)
  next
    case 2
    then obtain st1 where st1: "http_field cx (fst g) (snd g) st = Some st1" "run_fields cx fs st1 = Some st'"
      by (auto simp: bind_eq_Some_conv)
    show ?case
      using Cons.IH[OF _ st1(2)] http_field_effect(7)[OF st1(1)] 2(1) by (auto split: if_splits)
  }
qed auto

lemma run_fields_auth:
  assumes "run_fields cx fs st = Some st'"
  shows "of_kind Authorization_field fs = [] \<or> hc_endpoint_bound cx \<Longrightarrow>
      hs_authenticated st' = hs_authenticated st \<and> hs_who st' = hs_who st"
    "of_kind Authorization_field fs = [f] \<Longrightarrow> \<not> hc_endpoint_bound cx \<Longrightarrow>
      (hs_authenticated st', hs_who st') = auth_header_matches (hc_config cx) (snd f) (hs_who st)"
  using assms
proof (induction fs arbitrary: st)
  case (Cons g fs)
  {
    case 1
    then obtain st1 where st1: "http_field cx (fst g) (snd g) st = Some st1" "run_fields cx fs st1 = Some st'"
      by (auto simp: bind_eq_Some_conv)
    show ?case using Cons.IH(1)[OF _ st1(2)] http_field_effect(8)[OF st1(1)] 1(1) by (auto split: if_splits)
  next
    case 2
    then obtain st1 where st1: "http_field cx (fst g) (snd g) st = Some st1" "run_fields cx fs st1 = Some st'"
      by (auto simp: bind_eq_Some_conv)
    show ?case
      using Cons.IH(1)[OF _ st1(2)] Cons.IH(2)[OF _ _ st1(2)] http_field_effect(8)[OF st1(1)] 2(1,2) by (auto split: if_splits)
  }
qed auto

section \<open>Complete requests\<close>

definition http_text :: "bytes \<Rightarrow> bytes \<Rightarrow> (bytes \<times> bytes) list \<Rightarrow> bytes \<Rightarrow> bool" where
  "http_text m t fs header \<longleftrightarrow>
     (\<exists>ls. header = m @ [32] @ t @ [32] @ cstr ''HTTP/1.1'' @ crlf @ in_lines ls @ crlf \<and>
        list_all (list_all clean) ls \<and> map split_field ls = map Some fs)"

definition context_of :: "egress_config \<Rightarrow> bool \<Rightarrow> nat \<Rightarrow> http_context" where
  "context_of config connect_method n = \<lparr>hc_config = config, hc_endpoint_bound = fst (egress_unix_principal_lookup config),
     hc_connect = connect_method, hc_capacity = n + 64\<rparr>"

lemma header_lines:
  assumes "find_sub [13, 10, 13, 10] bs = Some e" "scan_header True None (take (e + 4) bs)"
  shows "\<exists>l ms. take (e + 4) bs = l @ 13 # 10 # in_lines ms @ [13, 10] \<and> list_all (list_all clean) (l # ms) \<and>
    list_all (\<lambda>m. m \<noteq> []) ms"
proof -
  let ?h = "take (e + 4) bs"
  have find: "find_sub [13, 10, 13, 10] ?h = Some e" using find_sub_take[OF assms(1), of "e + 4"] by simp
  have len: "length ?h = e + 4" using find_sub_bound[OF assms(1)] by simp
  have "drop e ?h = [13, 10, 13, 10]" using find_sub_Some_take[OF find] len by simp
  then have "last ?h = 10" by (metis append_take_drop_id last_ConsL last_ConsR last_appendR list.distinct(1))
  then obtain ls where ls: "?h = in_lines ls" "list_all (list_all clean) ls"
    using scan_header_lines[OF assms(2)] by auto
  obtain l ms where l: "ls = l # ms" using ls(1) len by (cases ls) auto
  obtain ms' where "ms = ms' @ [[]]" "list_all (\<lambda>m. m \<noteq> []) ms'"
    using blank_line_last[of l ms e] find len ls l by auto
  then show ?thesis using ls l by (intro exI[of _ l] exI[of _ ms']) simp
qed

lemma http_complete:
  assumes "egress_parse_http_request a b c bs = Http_complete r"
  obtains m t fs protocol host port ot st header where "http_text m t fs header" "header = take (length header) bs"
    "http_destination (m = cstr ''CONNECT'') t = Some (protocol, host, port, ot)"
    "run_fields (context_of c (m = cstr ''CONNECT'') (length header)) fs
       (http_start (if m = cstr ''CONNECT'' then [] else origin_line m ot) (snd (egress_unix_principal_lookup c))) = Some st"
    "http_finish (context_of c (m = cstr ''CONNECT'') (length header)) protocol host port (length header) st = Http_complete r"
proof -
  obtain e where e: "find_sub [13, 10, 13, 10] bs = Some e" "http_header a b c (take (e + 4) bs) = Http_complete r"
    using assms by (auto simp: egress_parse_http_request_def split: option.splits if_splits)
  define header where "header = take (e + 4) bs"
  have whole: "header = take (length header) bs" unfolding header_def by (simp add: min_def)
  have "scan_header True None header"
    using e(2) unfolding header_def[symmetric] http_header_def by (auto split: prod.splits if_splits)
  then obtain l ms where l: "header = l @ 13 # 10 # in_lines ms @ [13, 10]" "list_all (list_all clean) (l # ms)"
    "list_all (\<lambda>m. m \<noteq> []) ms" using header_lines[OF e(1)] unfolding header_def by blast
  obtain m t f protocol host port ot st where line: "http_request_line header = Some (m, t, f)"
    and dest: "http_destination (m = cstr ''CONNECT'') t = Some (protocol, host, port, ot)"
    and run: "http_fields (context_of c (m = cstr ''CONNECT'') (length header)) f
       (http_start (if m = cstr ''CONNECT'' then [] else origin_line m ot) (snd (egress_unix_principal_lookup c))) = Some st"
    and fin: "http_finish (context_of c (m = cstr ''CONNECT'') (length header)) protocol host port (length header) st = Http_complete r"
    using e(2) unfolding header_def[symmetric] http_header_def context_of_def
    by (auto simp: Let_def split: prod.splits if_splits option.splits)
  have f: "l = m @ 32 # t @ 32 # cstr ''HTTP/1.1''" "f = in_lines ms @ [13, 10]"
    using http_request_line_sound[OF _ _ _ _ line[unfolded l(1)]] l(2) in_lines_nul[of ms] by (simp_all add: clean_line)
  obtain fs where fs: "map split_field ms = map Some fs"
    "run_fields (context_of c (m = cstr ''CONNECT'') (length header)) fs
       (http_start (if m = cstr ''CONNECT'' then [] else origin_line m ot) (snd (egress_unix_principal_lookup c))) = Some st"
    using http_fields_lines[OF _ l(3) run[unfolded f(2)]] l(2) by auto
  have "http_text m t fs header"
    using l(1,2) f(1) fs(1) unfolding http_text_def by (intro exI[of _ ms]) (simp add: crlf_def)
  then show thesis using that[OF _ whole dest fs(2) fin] by blast
qed

lemma http_finish_complete:
  assumes "http_finish cx protocol host port n st = Http_complete r"
  shows "request_protocol r = protocol" "request_host r = host" "request_port r = port" "request_consumed r = n"
    "request_invocation_id r = fst (hs_who st)" "request_principal_index r = snd (hs_who st)"
    "hs_host_headers st = 1" "hs_host st = host" "hs_port st = port"
    "hs_auth_headers st \<le> 1" "hc_endpoint_bound cx \<Longrightarrow> hs_auth_headers st = 0"
    "\<not> hc_endpoint_bound cx \<Longrightarrow> authentication_set (hc_config cx) \<Longrightarrow> hs_auth_headers st = 1 \<and> hs_authenticated st"
    "\<not> hc_endpoint_bound cx \<Longrightarrow> \<not> authentication_set (hc_config cx) \<Longrightarrow> unauthenticated_loopback (hc_config cx)"
    "forward_bytes r = (if hc_connect cx then None else Some (hs_rewritten st @ close_directive))"
  using assms
  by (auto simp: http_finish_def Let_def append_bytes_def request_zero_def split: if_splits option.splits)

lemma context_of_simps [simp]:
  "hc_config (context_of c k n) = c" "hc_endpoint_bound (context_of c k n) = fst (egress_unix_principal_lookup c)"
  "hc_connect (context_of c k n) = k"
  by (simp_all add: context_of_def)

lemma http_start_simps [simp]:
  "hs_auth_headers (http_start w i) = 0" "hs_host_headers (http_start w i) = 0" "hs_content_lengths (http_start w i) = 0"
  "hs_rewritten (http_start w i) = w" "hs_who (http_start w i) = i" "hs_authenticated (http_start w i) = False"
  by (simp_all add: http_start_def)

lemma length_one: "length xs = 1 \<Longrightarrow> \<exists>n v. xs = [(n, v)]"
  by (cases xs) auto

text \<open>
  C36: What an accepted request means. The bytes it consumes are a request line and a list of fields;
  the destination is the one of the request target, and exactly one Host field names the same host
  and port; no field announces a transfer coding and at most one a length. A forwarded request is
  rebuilt: the origin form of the request line, the fields that are not addressed to the proxy in
  their order, and \<open>Connection: close\<close>; a CONNECT request forwards nothing.
\<close>

theorem http_request_sound:
  assumes "egress_parse_http_request a b c bs = Http_complete r"
  shows "\<exists>m t fs ot. http_text m t fs (take (request_consumed r) bs) \<and>
    http_destination (m = cstr ''CONNECT'') t = Some (request_protocol r, request_host r, request_port r, ot) \<and>
    (\<exists>n v. of_kind Host_field fs = [(n, v)] \<and>
       parse_authority v (if m = cstr ''CONNECT'' then 443 else 80) = Some (request_host r, request_port r)) \<and>
    of_kind Transfer_field fs = [] \<and> length (of_kind Length_field fs) \<le> 1 \<and>
    forward_bytes r = (if m = cstr ''CONNECT'' then None
      else Some (origin_line m ot @ concat (map field_text (filter kept fs)) @ close_directive))"
proof -
  obtain m t fs protocol host port ot st header where parsed: "http_text m t fs header" "header = take (length header) bs"
    and dest: "http_destination (m = cstr ''CONNECT'') t = Some (protocol, host, port, ot)"
    and run: "run_fields (context_of c (m = cstr ''CONNECT'') (length header)) fs
       (http_start (if m = cstr ''CONNECT'' then [] else origin_line m ot) (snd (egress_unix_principal_lookup c))) = Some st"
    and fin: "http_finish (context_of c (m = cstr ''CONNECT'') (length header)) protocol host port (length header) st = Http_complete r"
    by (rule http_complete[OF assms]) blast
  note out = http_finish_complete[OF fin] and effect = run_fields_effect[OF run]
  obtain n v where host: "of_kind Host_field fs = [(n, v)]" using effect(2) out(7) length_one by fastforce
  have "parse_authority v (if m = cstr ''CONNECT'' then 443 else 80) = Some (host, port)"
    using run_fields_host(2)[OF run host] out(8,9) by simp
  then have "\<exists>n v. of_kind Host_field fs = [(n, v)] \<and>
    parse_authority v (if m = cstr ''CONNECT'' then 443 else 80) = Some (request_host r, request_port r)"
    using host out(2,3) by blast
  moreover have "http_text m t fs (take (request_consumed r) bs)" using parsed out(4) by metis
  moreover have "forward_bytes r = (if m = cstr ''CONNECT'' then None
      else Some (origin_line m ot @ concat (map field_text (filter kept fs)) @ close_directive))"
    using out(14) effect(5) by simp
  moreover have "length (of_kind Length_field fs) \<le> 1" using effect(4) by simp
  ultimately show ?thesis using dest effect(3) out(1-3) by blast
qed

lemma set_trim: "set (trim s) \<subseteq> set s"
proof -
  have "set (dropWhile P xs) \<subseteq> set xs" for P and xs :: bytes using set_dropWhileD by fast
  then show ?thesis unfolding trim_def set_rev by (metis set_rev subset_trans)
qed

lemma http_text_values:
  assumes "http_text m t fs header" "(n, v) \<in> set fs"
  shows "0 \<notin> set v"
proof -
  obtain ls where ls: "list_all (list_all clean) ls" "map split_field ls = map Some fs"
    using assms(1) unfolding http_text_def by blast
  have "Some (n, v) \<in> set (map split_field ls)" using ls(2) assms(2) by simp
  then obtain l where l: "l \<in> set ls" "split_field l = Some (n, v)" by auto
  then have "\<exists>w. v = trim w \<and> set w \<subseteq> set l" by (auto simp: split_field_def split_first_Some split: option.splits if_splits)
  moreover have "0 \<notin> set l" using ls(1) l(1) clean_line by (auto simp: list_all_iff)
  ultimately show ?thesis using set_trim by fast
qed

text \<open>A client shows a bearer token or the Base64 encoding of a user name and a secret.\<close>

definition shows_credentials :: "bytes \<Rightarrow> egress_principal \<Rightarrow> bool" where
  "shows_credentials v p \<longleftrightarrow>
     strncasecmp_eq v (cstr ''Bearer '') 7 \<and> drop 7 v = secret p \<or>
     strncasecmp_eq v (cstr ''Basic '') 6 \<and>
       (\<exists>xs. drop 6 v = encode_base64 xs \<and> c_string xs = username p @ cstr '':'' @ secret p)"

lemma lookup_found:
  assumes "egress_credentials_lookup c name (Some key) = (True, who)"
  obtains inv i where "who = (inv, Some i)"
  using assms by (auto simp: egress_credentials_lookup_def split: if_splits option.splits)

lemma auth_header_sound:
  assumes "config_inv c" "authentication_set c" "0 \<notin> set v" "auth_header_matches c v w = (True, who)"
  shows "\<exists>i<length (principals c). shows_credentials v (principals c ! i) \<and> who = (invocation_id (principals c ! i), Some i)"
proof (cases "strncasecmp_eq v (cstr ''Bearer '') 7")
  case True
  then have look: "egress_credentials_lookup c None (Some (drop 7 v)) = (True, who)"
    using assms(2,4) by (simp add: auth_header_matches_def)
  then obtain inv i where who: "who = (inv, Some i)" by (rule lookup_found)
  have "0 \<notin> set (drop 7 v)" using assms(3) by (meson in_set_dropD)
  then have "i < length (principals c) \<and> drop 7 v = secret (principals c ! i) \<and> inv = invocation_id (principals c ! i)"
    using credentials_lookup_iff[OF assms(1,2), of "drop 7 v" None inv i] look who by (simp add: principal_matches_def)
  then show ?thesis using True who unfolding shows_credentials_def by blast
next
  case False
  then obtain xs u k where xs: "strncasecmp_eq v (cstr ''Basic '') 6"
    "decode_base64 (drop 6 v) (EGRESS_MAX_USERNAME + EGRESS_MAX_SECRET + 2 - 1) = Some xs"
    "split_first (ch (CHR '':'')) (c_string xs) = Some (u, k)"
    "egress_credentials_lookup c (Some u) (Some k) = (True, who)"
    using assms(2,4) by (auto simp: auth_header_matches_def split: if_splits option.splits)
  from xs(4) obtain inv i where who: "who = (inv, Some i)" by (rule lookup_found)
  have split: "c_string xs = u @ cstr '':'' @ k" using xs(3) unfolding split_first_Some by simp
  have "0 \<notin> set (c_string xs)" by simp
  then have "0 \<notin> set u" "0 \<notin> set k" unfolding split by auto
  then have "i < length (principals c) \<and> u = username (principals c ! i) \<and> k = secret (principals c ! i) \<and>
    inv = invocation_id (principals c ! i)"
    using credentials_lookup_iff[OF assms(1,2), of k "Some u" inv i] xs(4) who by (simp add: principal_matches_def)
  moreover have "drop 6 v = encode_base64 xs" using decode_base64_Some xs(2) by blast
  ultimately show ?thesis using xs(1) split who unfolding shows_credentials_def by blast
qed

lemma unix_lookup_found:
  assumes "config_inv c" "fst (egress_unix_principal_lookup c)"
  shows "snd (egress_unix_principal_lookup c) =
    (invocation_id (principals c ! unix_principal_index c), Some (unix_principal_index c))"
  using assms principal_strings(3)[of c "unix_principal_index c"] snprintf_s_fits
  by (auto simp: egress_unix_principal_lookup_def split: if_splits)

text \<open>
  C35: Every HTTP request is attributed. On an endpoint that is bound to a principal the request
  carries no proxy credentials and belongs to that principal; where credentials are configured it
  carries exactly one Proxy-Authorization field, whose bearer token or Basic credentials are those
  of the principal it is attributed to; otherwise the configuration allows unauthenticated loopback
  use and no principal is named.
\<close>

theorem http_authenticated:
  assumes "config_inv c" "egress_parse_http_request a b c bs = Http_complete r"
  shows "\<exists>m t fs. http_text m t fs (take (request_consumed r) bs) \<and>
    (if fst (egress_unix_principal_lookup c) then
       of_kind Authorization_field fs = [] \<and> request_principal_index r = Some (unix_principal_index c) \<and>
       request_invocation_id r = invocation_id (principals c ! unix_principal_index c)
     else if authentication_set c then
       (\<exists>n v i. of_kind Authorization_field fs = [(n, v)] \<and> i < length (principals c) \<and>
          shows_credentials v (principals c ! i) \<and> request_principal_index r = Some i \<and>
          request_invocation_id r = invocation_id (principals c ! i))
     else unauthenticated_loopback c \<and> request_principal_index r = None)"
proof -
  obtain m t fs protocol host port ot st header where parsed: "http_text m t fs header" "header = take (length header) bs"
    and run: "run_fields (context_of c (m = cstr ''CONNECT'') (length header)) fs
       (http_start (if m = cstr ''CONNECT'' then [] else origin_line m ot) (snd (egress_unix_principal_lookup c))) = Some st"
    and fin: "http_finish (context_of c (m = cstr ''CONNECT'') (length header)) protocol host port (length header) st = Http_complete r"
    by (rule http_complete[OF assms(2)]) blast
  note out = http_finish_complete[OF fin] and count = run_fields_effect(1)[OF run] and auth = run_fields_auth[OF run]
  have whole: "http_text m t fs (take (request_consumed r) bs)" using parsed out(4) by metis
  consider (bound) "fst (egress_unix_principal_lookup c)"
    | (set) "\<not> fst (egress_unix_principal_lookup c)" "authentication_set c"
    | (loopback) "\<not> fst (egress_unix_principal_lookup c)" "\<not> authentication_set c" by blast
  then show ?thesis
  proof cases
    case bound
    then have "of_kind Authorization_field fs = []" using out(11) count by simp
    then show ?thesis
      using bound whole auth(1) out(5,6) unix_lookup_found[OF assms(1)] by (intro exI[of _ m] exI[of _ t] exI[of _ fs]) simp
  next
    case set
    then have one: "length (of_kind Authorization_field fs) = 1" "hs_authenticated st" using out(12) count by simp_all
    then obtain n v where v: "of_kind Authorization_field fs = [(n, v)]" using length_one by blast
    have "(n, v) \<in> set (of_kind Authorization_field fs)" unfolding v by simp
    then have "(n, v) \<in> set fs" by (simp add: of_kind_def)
    then have "0 \<notin> set v" using http_text_values[OF parsed(1)] by blast
    moreover have "auth_header_matches c v (snd (egress_unix_principal_lookup c)) = (True, hs_who st)"
      using auth(2)[OF v] set one(2) by simp
    ultimately obtain i where "i < length (principals c)" "shows_credentials v (principals c ! i)"
      "hs_who st = (invocation_id (principals c ! i), Some i)"
      using auth_header_sound[OF assms(1) set(2)] by blast
    then show ?thesis using set whole v out(5,6) by (intro exI[of _ m] exI[of _ t] exI[of _ fs]) auto
  next
    case loopback
    have none: "snd (egress_unix_principal_lookup c) = no_identity"
      using loopback(1) by (auto simp: egress_unix_principal_lookup_def split: if_splits)
    have "hs_who st = no_identity"
    proof (cases "of_kind Authorization_field fs = []")
      case True
      then show ?thesis using auth(1) none by simp
    next
      case False
      then have "length (of_kind Authorization_field fs) = 1" using out(10) count by (cases "of_kind Authorization_field fs") auto
      then obtain n v where v: "of_kind Authorization_field fs = [(n, v)]" using length_one by blast
      then show ?thesis using auth(2)[OF v] loopback none by (simp add: auth_header_matches_def)
    qed
    then show ?thesis
      using loopback whole out(6,13) by (intro exI[of _ m] exI[of _ t] exI[of _ fs]) (simp add: no_identity_def)
  qed
qed

text \<open>A request with a bearer token, to the configuration with one principal.\<close>

definition demo_lines :: "bytes list" where
  "demo_lines = [cstr ''Host: a.b'', cstr ''Proxy-Authorization: Bearer '' @ demo_secret]"

definition demo_http :: bytes where
  "demo_http = in_lines (cstr ''GET http://a.b/ HTTP/1.1'' # demo_lines @ [[]])"

lemma demo_secret_bytes: "demo_secret = [65, 65, 65, 65, 65, 65, 65, 65, 65, 65, 65, 65, 65, 65, 65, 65]"
  by (simp add: demo_secret_def numeral_eq_Suc)

lemma demo_http_bytes: "demo_http = cstr ''GET http://a.b/ HTTP/1.1'' @ 13 # 10 # in_lines demo_lines @ [13, 10]"
  by (simp add: demo_http_def)

lemma demo_http_end: "find_sub [13, 10, 13, 10] demo_http = Some 81" "length demo_http = 85"
  by (simp_all add: demo_http_def demo_lines_def demo_secret_bytes)

lemma demo_http_scan: "scan_header True None demo_http"
  by (simp add: demo_http_def demo_lines_def demo_secret_bytes)

lemma demo_http_line: "http_request_line demo_http = Some (cstr ''GET'', cstr ''http://a.b/'', in_lines demo_lines @ [13, 10])"
  unfolding demo_http_bytes
  by (subst http_request_line_alt) (simp_all add: demo_lines_def demo_secret_bytes c_string_def)

lemma demo_http_host: "parse_authority (cstr ''a.b'') 80 = Some (cstr ''a.b'', 80)"
  by code_simp

lemma demo_http_destination: "http_destination False (cstr ''http://a.b/'') = Some (PROTOCOL_HTTP_FORWARD, cstr ''a.b'', 80, cstr ''/'')"
  using demo_http_host by (simp add: http_destination_def Let_def AUTHORITY_SIZE_def EGRESS_MAX_HOST_def)

lemma demo_split_fields:
  "split_field (cstr ''Host: a.b'') = Some (cstr ''Host'', cstr ''a.b'')"
  "split_field (cstr ''Proxy-Authorization: Bearer '' @ demo_secret) =
     Some (cstr ''Proxy-Authorization'', cstr ''Bearer '' @ demo_secret)"
  by (simp_all add: split_field_def trim_def is_blank_def token_char_def byte_class demo_secret_bytes)

lemma demo_field_kinds: "field_kind (cstr ''Host'') = Host_field" "field_kind (cstr ''Proxy-Authorization'') = Authorization_field"
  by code_simp+

lemma http_fields_run:
  "list_all (list_all clean) ls \<Longrightarrow> list_all (\<lambda>l. l \<noteq> []) ls \<Longrightarrow> map split_field ls = map Some fs \<Longrightarrow>
   http_fields cx (in_lines ls @ [13, 10]) st = run_fields cx fs st"
proof (induction ls arbitrary: fs st)
  case Nil
  then show ?case by (simp add: http_fields.simps[of cx "[13, 10]"])
next
  case (Cons l ls)
  obtain f gs where fs: "fs = f # gs" "split_field l = Some (fst f, snd f)" "map split_field ls = map Some gs"
    using Cons.prems(3) by (cases fs) auto
  have "find_sub [13, 10] (in_lines (l # ls) @ [13, 10]) = Some (length l)"
    using find_crlf[of l "in_lines ls @ [13, 10]"] Cons.prems(1) by (simp add: clean_line)
  then show ?case
    using Cons.prems(1,2) Cons.IH[of gs] fs
    by (subst http_fields.simps) (cases f; auto split: option.splits)
qed

lemma demo_http_lookup: "egress_credentials_lookup demo_config None (Some demo_secret) = (True, demo_who)"
proof -
  have nul: "0 \<notin> set demo_secret" by (simp add: demo_secret_def)
  have "principal_matches None demo_secret (principals demo_config ! 0)"
    "invocation_id (principals demo_config ! 0) = cstr ''run:1''" "0 < length (principals demo_config)"
    by (simp_all add: demo_config_principals principal_matches_def new_principal_def EGRESS_MAX_USERNAME_def
        EGRESS_MAX_SECRET_def EGRESS_MAX_INVOCATION_ID_def demo_secret_ok)
  then show ?thesis
    using credentials_lookup_iff[OF demo_config_valid nul, of None "cstr ''run:1''" 0] by (simp add: demo_who_def)
qed

definition demo_request :: proxy_request where
  "demo_request = request_zero\<lparr>request_protocol := PROTOCOL_HTTP_FORWARD, request_host := cstr ''a.b'', request_port := 80,
     request_consumed := 85, request_invocation_id := cstr ''run:1'', request_principal_index := Some 0,
     forward_bytes := Some (origin_line (cstr ''GET'') (cstr ''/'') @ field_text (cstr ''Host'', cstr ''a.b'') @ close_directive)\<rparr>"

lemma demo_unix_lookup: "egress_unix_principal_lookup demo_config = (False, no_identity)"
  by (simp add: egress_unix_principal_lookup_def demo_config_principals maelys_egress_config_create_def config_zero_def)

lemma demo_http_auth: "auth_header_matches demo_config (cstr ''Bearer '' @ demo_secret) no_identity = (True, demo_who)"
  using demo_http_lookup demo_config_valid(2) by (simp add: auth_header_matches_def strncasecmp_eq_def)

lemma demo_run_fields:
  "run_fields (context_of demo_config False 85)
     [(cstr ''Host'', cstr ''a.b''), (cstr ''Proxy-Authorization'', cstr ''Bearer '' @ demo_secret)]
     (http_start (origin_line (cstr ''GET'') (cstr ''/'')) no_identity) =
   Some \<lparr>hs_authenticated = True, hs_auth_headers = 1, hs_host_headers = 1, hs_content_lengths = 0,
     hs_host = cstr ''a.b'', hs_port = 80,
     hs_rewritten = origin_line (cstr ''GET'') (cstr ''/'') @ field_text (cstr ''Host'', cstr ''a.b''), hs_who = demo_who\<rparr>"
proof -
  have len: "length (origin_line (cstr ''GET'') (cstr ''/'')) < 100" by (simp add: origin_line_def)
  have keep: "keep_field (context_of demo_config False 85) (cstr ''Host'') (cstr ''a.b'') st =
      Some (st\<lparr>hs_rewritten := hs_rewritten st @ field_text (cstr ''Host'', cstr ''a.b'')\<rparr>)"
    if "length (hs_rewritten st) < 100" for st
    using that by (simp add: keep_field_def append_field_def append_bytes_def context_of_def field_text_def crlf_def)
  show ?thesis
    by (simp add: http_field_kind demo_field_kinds demo_unix_lookup http_start_def keep len demo_http_host demo_http_auth
        del: cstr_simps)
qed

lemma demo_http_complete: "egress_parse_http_request True True demo_config demo_http = Http_complete demo_request"
proof -
  let ?fs = "[(cstr ''Host'', cstr ''a.b''), (cstr ''Proxy-Authorization'', cstr ''Bearer '' @ demo_secret)]"
  have lines: "list_all (list_all clean) demo_lines" "list_all (\<lambda>l. l \<noteq> []) demo_lines"
    by (simp_all add: demo_lines_def demo_secret_bytes clean_def)
  have fields: "map split_field demo_lines = map Some ?fs"
    using demo_split_fields unfolding demo_lines_def list.map by simp
  have ctx: "\<lparr>hc_config = demo_config, hc_endpoint_bound = False, hc_connect = False, hc_capacity = 149\<rparr> = context_of demo_config False 85"
    by (simp add: context_of_def demo_unix_lookup)
  have run: "http_fields (context_of demo_config False 85) (in_lines demo_lines @ [13, 10])
      (http_start (origin_line (cstr ''GET'') (cstr ''/'')) no_identity) =
    Some \<lparr>hs_authenticated = True, hs_auth_headers = 1, hs_host_headers = 1, hs_content_lengths = 0,
     hs_host = cstr ''a.b'', hs_port = 80,
     hs_rewritten = origin_line (cstr ''GET'') (cstr ''/'') @ field_text (cstr ''Host'', cstr ''a.b''), hs_who = demo_who\<rparr>"
    unfolding http_fields_run[OF lines fields] by (rule demo_run_fields)
  have get: "cstr ''GET'' \<noteq> cstr ''CONNECT''" "list_all token_char (cstr ''GET'')" "cstr ''GET'' \<noteq> []"
    "length (cstr ''GET'') \<le> 16" "length (origin_line (cstr ''GET'') (cstr ''/'')) = 16"
    by (simp_all add: token_char_def byte_class origin_line_def)
  have "http_header True True demo_config demo_http = Http_complete demo_request"
    unfolding http_header_def demo_unix_lookup prod.case demo_http_line option.case Let_def
    by (simp add: demo_http_scan get demo_http_end(2) demo_http_destination ctx run del: cstr_simps)
      (simp add: http_finish_def demo_config_valid demo_unix_lookup append_bytes_def context_of_def field_text_def crlf_def
        close_directive_def demo_request_def demo_who_def origin_line_def)
  then show ?thesis
    using demo_http_end by (simp add: egress_parse_http_request_def)
qed

theorem http_request_sound_witness:
  "egress_parse_http_request True True demo_config demo_http = Http_complete demo_request \<and>
   (\<exists>m t fs ot. http_text m t fs (take (request_consumed demo_request) demo_http) \<and>
    http_destination (m = cstr ''CONNECT'') t =
      Some (request_protocol demo_request, request_host demo_request, request_port demo_request, ot) \<and>
    (\<exists>n v. of_kind Host_field fs = [(n, v)] \<and>
       parse_authority v (if m = cstr ''CONNECT'' then 443 else 80) = Some (request_host demo_request, request_port demo_request)) \<and>
    of_kind Transfer_field fs = [] \<and> length (of_kind Length_field fs) \<le> 1 \<and>
    forward_bytes demo_request = (if m = cstr ''CONNECT'' then None
      else Some (origin_line m ot @ concat (map field_text (filter kept fs)) @ close_directive)))"
  using http_request_sound[OF demo_http_complete] demo_http_complete by blast

theorem http_authenticated_witness:
  "config_inv demo_config \<and> egress_parse_http_request True True demo_config demo_http = Http_complete demo_request \<and>
   (\<exists>m t fs. http_text m t fs (take (request_consumed demo_request) demo_http) \<and>
     (\<exists>n v i. of_kind Authorization_field fs = [(n, v)] \<and> i < length (principals demo_config) \<and>
        shows_credentials v (principals demo_config ! i) \<and> request_principal_index demo_request = Some i \<and>
        request_invocation_id demo_request = invocation_id (principals demo_config ! i)))"
  using http_authenticated[OF demo_config_valid(1) demo_http_complete] demo_http_complete demo_config_valid
  by (simp add: demo_unix_lookup)

end
