(* ===== verification/Egress_Buffer.thy ===== *)
theory Egress_Buffer
  imports Egress_Prelude
begin

text \<open>
  The inline helpers of \<^verbatim>\<open>src/src/server/internal.h\<close>: the byte buffer between the two sides of a
  connection, the tokens of the reactor and the saturating addition. A buffer is a window on an
  array that \<^verbatim>\<open>malloc\<close> returned; it refines a bounded queue of bytes.
\<close>

section \<open>The model\<close>

definition add_saturating :: "u64 \<Rightarrow> u64 \<Rightarrow> u64" where
  "add_saturating value amount = (if - 1 - value < amount then - 1 else value + amount)"

record egress_buffer =
  buf_data :: bytes
  buf_capacity :: nat
  buf_offset :: nat
  buf_length :: nat

text \<open>\<^verbatim>\<open>memmove\<close> inside one array, and \<^verbatim>\<open>memcpy\<close> into it.\<close>

definition write_at :: "bytes \<Rightarrow> nat \<Rightarrow> bytes \<Rightarrow> bytes" where
  "write_at data at bs = take at data @ bs @ drop (at + length bs) data"

definition read_at :: "bytes \<Rightarrow> nat \<Rightarrow> nat \<Rightarrow> bytes" where
  "read_at data at n = take n (drop at data)"

definition buffer_compact :: "egress_buffer \<Rightarrow> egress_buffer" where
  "buffer_compact b =
     (let b = (if buf_offset b \<noteq> 0 \<and> buf_length b \<noteq> 0
               then b\<lparr>buf_data := write_at (buf_data b) 0 (read_at (buf_data b) (buf_offset b) (buf_length b))\<rparr>
               else b)
      in b\<lparr>buf_offset := 0\<rparr>)"

definition buffer_available :: "egress_buffer \<Rightarrow> nat \<times> egress_buffer" where
  "buffer_available b =
     (let b = (if buf_offset b + buf_length b = buf_capacity b \<and> buf_offset b \<noteq> 0 then buffer_compact b else b)
      in (buf_capacity b - buf_offset b - buf_length b, b))"

definition buffer_append :: "egress_buffer \<Rightarrow> bytes \<Rightarrow> bool \<times> egress_buffer" where
  "buffer_append b bs =
     (let (available, b) = buffer_available b in
      if available < length bs then (False, b)
      else (True, b\<lparr>buf_data := write_at (buf_data b) (buf_offset b + buf_length b) bs,
                    buf_length := buf_length b + length bs\<rparr>))"

definition buffer_consume :: "egress_buffer \<Rightarrow> nat \<Rightarrow> egress_buffer" where
  "buffer_consume b n =
     (if buf_length b \<le> n then b\<lparr>buf_offset := 0, buf_length := 0\<rparr>
      else b\<lparr>buf_offset := buf_offset b + n, buf_length := buf_length b - n\<rparr>)"

text \<open>The tokens of the reactor.\<close>

definition TOKEN_LISTENER :: u64 where
  "TOKEN_LISTENER = 1"

definition TOKEN_SIDE_CLIENT :: u64 where
  "TOKEN_SIDE_CLIENT = 2"

definition TOKEN_SIDE_UPSTREAM :: u64 where
  "TOKEN_SIDE_UPSTREAM = 3"

definition TOKEN_ADMIN_LISTENER :: u64 where
  "TOKEN_ADMIN_LISTENER = 4"

definition TOKEN_ADMIN_FLAG :: u64 where
  "TOKEN_ADMIN_FLAG = push_bit 63 1"

definition TOKEN_SLOT_SHIFT :: nat where
  "TOKEN_SLOT_SHIFT = 2"

definition TOKEN_GENERATION_SHIFT :: nat where
  "TOKEN_GENERATION_SHIFT = 16"

definition connection_token :: "nat \<Rightarrow> u64 \<Rightarrow> u64 \<Rightarrow> u64" where
  "connection_token slot generation side =
     push_bit TOKEN_GENERATION_SHIFT generation OR push_bit TOKEN_SLOT_SHIFT (of_nat slot) OR side"

definition decode_token :: "u64 \<Rightarrow> nat \<times> u64 \<times> u64" where
  "decode_token token =
     (unat (drop_bit TOKEN_SLOT_SHIFT token AND 0x3fff), drop_bit TOKEN_GENERATION_SHIFT token, token AND 3)"

section \<open>A buffer is a bounded queue\<close>

definition buffer_content :: "egress_buffer \<Rightarrow> bytes" where
  "buffer_content b = read_at (buf_data b) (buf_offset b) (buf_length b)"

definition buffer_wf :: "egress_buffer \<Rightarrow> bool" where
  "buffer_wf b \<longleftrightarrow> length (buf_data b) = buf_capacity b \<and> buf_offset b + buf_length b \<le> buf_capacity b \<and>
     (buf_length b = 0 \<longrightarrow> buf_offset b = 0)"

lemma length_read_at [simp]: "at + n \<le> length data \<Longrightarrow> length (read_at data at n) = n"
  by (simp add: read_at_def)

lemma length_write_at [simp]: "at + length bs \<le> length data \<Longrightarrow> length (write_at data at bs) = length data"
  by (simp add: write_at_def)

lemma read_write_at [simp]: "at + length bs \<le> length data \<Longrightarrow> n = length bs \<Longrightarrow> read_at (write_at data at bs) at n = bs"
  by (simp add: read_at_def write_at_def)

lemma read_before_write_at:
  "at + n \<le> pos \<Longrightarrow> pos + length bs \<le> length data \<Longrightarrow> read_at (write_at data pos bs) at n = read_at data at n"
  by (simp add: read_at_def write_at_def drop_take)

lemma read_at_split: "read_at data at (n + m) = read_at data at n @ read_at data (at + n) m"
  unfolding read_at_def take_add by (simp add: add.commute)

lemma read_at_drop: "read_at data (at + n) m = drop n (read_at data at (n + m))"
  by (simp add: read_at_def drop_take add.commute)

lemma read_at_0 [simp]: "read_at data at 0 = []"
  by (simp add: read_at_def)

lemma length_buffer_content [simp]: "buffer_wf b \<Longrightarrow> length (buffer_content b) = buf_length b"
  by (simp add: buffer_wf_def buffer_content_def)

lemma buffer_compact_ok:
  assumes "buffer_wf b"
  shows "buffer_wf (buffer_compact b)" "buffer_content (buffer_compact b) = buffer_content b"
    "buf_capacity (buffer_compact b) = buf_capacity b" "buf_length (buffer_compact b) = buf_length b"
    "buf_offset (buffer_compact b) = 0"
  using assms by (auto simp: buffer_compact_def buffer_wf_def buffer_content_def Let_def)

lemma buffer_available_ok:
  assumes "buffer_wf b" "buffer_available b = (n, b')"
  shows "buffer_wf b'" "buffer_content b' = buffer_content b" "buf_capacity b' = buf_capacity b"
    "buf_length b' = buf_length b" "buf_offset b' + buf_length b' + n = buf_capacity b'"
    "n = 0 \<longleftrightarrow> buf_length b = buf_capacity b" "buf_length b = 0 \<Longrightarrow> n = buf_capacity b"
proof -
  have b': "b' = (if buf_offset b + buf_length b = buf_capacity b \<and> buf_offset b \<noteq> 0 then buffer_compact b else b)"
    "n = buf_capacity b' - buf_offset b' - buf_length b'" using assms(2) by (auto simp: buffer_available_def Let_def)
  show keep: "buffer_wf b'" "buffer_content b' = buffer_content b" "buf_capacity b' = buf_capacity b" "buf_length b' = buf_length b"
    using buffer_compact_ok[OF assms(1)] assms(1) b'(1) by auto
  show "buf_offset b' + buf_length b' + n = buf_capacity b'" using keep(1) b'(2) by (simp add: buffer_wf_def)
  show "n = 0 \<longleftrightarrow> buf_length b = buf_capacity b" "buf_length b = 0 \<Longrightarrow> n = buf_capacity b"
    using assms(1) b' buffer_compact_ok[OF assms(1)] by (auto simp: buffer_wf_def)
qed

lemma buffer_fill_ok:
  assumes "buffer_wf b" "buf_offset b + buf_length b + length bs \<le> buf_capacity b" "buf_offset b = 0 \<or> buf_length b \<noteq> 0"
  defines "b' \<equiv> b\<lparr>buf_data := write_at (buf_data b) (buf_offset b + buf_length b) bs, buf_length := buf_length b + length bs\<rparr>"
  shows "buffer_wf b'" "buffer_content b' = buffer_content b @ bs"
  using assms by (auto simp: buffer_wf_def buffer_content_def read_at_split read_before_write_at)

lemma buffer_append_ok:
  assumes "buffer_wf b" "buffer_append b bs = (ok, b')"
  shows "buffer_wf b'" "buf_capacity b' = buf_capacity b" "buffer_content b' = buffer_content b @ (if ok then bs else [])"
    "\<not> ok \<Longrightarrow> buf_capacity b < length (buffer_content b) + length bs \<or> buffer_content b \<noteq> []"
proof -
  obtain n c where c: "buffer_available b = (n, c)" by fastforce
  note room = buffer_available_ok[OF assms(1) c]
  have append: "if n < length bs then \<not> ok \<and> b' = c
    else ok \<and> b' = c\<lparr>buf_data := write_at (buf_data c) (buf_offset c + buf_length c) bs, buf_length := buf_length c + length bs\<rparr>"
    using assms(2) unfolding buffer_append_def c by (auto split: if_splits)
  have start: "buf_offset c = 0 \<or> buf_length c \<noteq> 0" using room(1) by (auto simp: buffer_wf_def)
  show "buffer_wf b'" "buf_capacity b' = buf_capacity b" "buffer_content b' = buffer_content b @ (if ok then bs else [])"
    using append room buffer_fill_ok[OF room(1) _ start, of bs] by (auto split: if_splits)
  show "buf_capacity b < length (buffer_content b) + length bs \<or> buffer_content b \<noteq> []" if "\<not> ok"
    using append that room(7) length_buffer_content[OF assms(1)] by (cases "buffer_content b") (auto split: if_splits)
qed

lemma buffer_consume_ok:
  assumes "buffer_wf b"
  shows "buffer_wf (buffer_consume b n)" "buffer_content (buffer_consume b n) = drop n (buffer_content b)"
    "buf_capacity (buffer_consume b n) = buf_capacity b" "buf_length (buffer_consume b n) = buf_length b - n"
  using assms length_buffer_content[OF assms] read_at_drop[of "buf_data b" "buf_offset b" n "buf_length b - n"]
  by (auto simp: buffer_consume_def buffer_wf_def buffer_content_def)

text \<open>
  The contract that the relay relies on: a queue whose room may be less than what is free, but is
  zero only when the queue is full, and which takes any text that fits once it is empty.
\<close>

locale bounded_queue =
  fixes wf :: "'b \<Rightarrow> bool"
    and content :: "'b \<Rightarrow> bytes"
    and capacity :: "'b \<Rightarrow> nat"
    and room :: "'b \<Rightarrow> nat \<times> 'b"
    and put :: "'b \<Rightarrow> bytes \<Rightarrow> bool \<times> 'b"
    and consume :: "'b \<Rightarrow> nat \<Rightarrow> 'b"
  assumes bounded: "wf b \<Longrightarrow> length (content b) \<le> capacity b"
    and room_keeps: "wf b \<Longrightarrow> wf (snd (room b)) \<and> content (snd (room b)) = content b \<and> capacity (snd (room b)) = capacity b"
    and room_bound: "wf b \<Longrightarrow> length (content b) + fst (room b) \<le> capacity b"
    and room_zero: "wf b \<Longrightarrow> fst (room b) = 0 \<longleftrightarrow> length (content b) = capacity b"
    and put_keeps: "wf b \<Longrightarrow> wf (snd (put b bs)) \<and> capacity (snd (put b bs)) = capacity b"
    and put_content: "wf b \<Longrightarrow> content (snd (put b bs)) = content b @ (if fst (put b bs) then bs else [])"
    and put_refused: "wf b \<Longrightarrow> \<not> fst (put b bs) \<Longrightarrow> capacity b < length (content b) + length bs \<or> content b \<noteq> []"
    and consume_keeps: "wf b \<Longrightarrow> wf (consume b n) \<and> capacity (consume b n) = capacity b"
    and consume_content: "wf b \<Longrightarrow> content (consume b n) = drop n (content b)"

datatype queue_op = Room | Put bytes | Consume nat

datatype queue_out = Room_out nat | Put_out bool | Consume_out

text \<open>The abstract queue: what each operation may answer, and the bytes it leaves.\<close>

fun queue_step :: "nat \<Rightarrow> bytes \<Rightarrow> queue_op \<Rightarrow> queue_out \<Rightarrow> bytes \<Rightarrow> bool" where
  "queue_step cap q Room (Room_out n) q' \<longleftrightarrow> q' = q \<and> length q + n \<le> cap \<and> (n = 0 \<longleftrightarrow> length q = cap)"
| "queue_step cap q (Put bs) (Put_out ok) q' \<longleftrightarrow>
     (if ok then q' = q @ bs \<and> length q' \<le> cap else q' = q \<and> (cap < length q + length bs \<or> q \<noteq> []))"
| "queue_step cap q (Consume n) Consume_out q' \<longleftrightarrow> q' = drop n q"
| "queue_step cap q _ _ q' \<longleftrightarrow> False"

fun queue_run :: "nat \<Rightarrow> bytes \<Rightarrow> queue_op list \<Rightarrow> queue_out list \<Rightarrow> bytes \<Rightarrow> bool" where
  "queue_run cap q [] [] q' \<longleftrightarrow> q' = q"
| "queue_run cap q (op # ops) (out # outs) q' \<longleftrightarrow> (\<exists>q1. queue_step cap q op out q1 \<and> queue_run cap q1 ops outs q')"
| "queue_run cap q _ _ q' \<longleftrightarrow> False"

context bounded_queue
begin

fun apply_op :: "'b \<Rightarrow> queue_op \<Rightarrow> queue_out \<times> 'b" where
  "apply_op b Room = (Room_out (fst (room b)), snd (room b))"
| "apply_op b (Put bs) = (Put_out (fst (put b bs)), snd (put b bs))"
| "apply_op b (Consume n) = (Consume_out, consume b n)"

fun run_ops :: "'b \<Rightarrow> queue_op list \<Rightarrow> queue_out list \<times> 'b" where
  "run_ops b [] = ([], b)"
| "run_ops b (op # ops) =
     (fst (apply_op b op) # fst (run_ops (snd (apply_op b op)) ops), snd (run_ops (snd (apply_op b op)) ops))"

lemma op_simulates:
  assumes "wf b"
  shows "wf (snd (apply_op b op)) \<and> capacity (snd (apply_op b op)) = capacity b \<and>
    queue_step (capacity b) (content b) op (fst (apply_op b op)) (content (snd (apply_op b op)))"
proof (cases op)
  case Room
  then show ?thesis using room_keeps[OF assms] room_bound[OF assms] room_zero[OF assms] by simp
next
  case (Put bs)
  then show ?thesis
    using put_keeps[OF assms, of bs] put_content[OF assms, of bs] put_refused[OF assms, of bs]
      bounded[of "snd (put b bs)"] by auto
next
  case (Consume n)
  then show ?thesis using consume_keeps[OF assms] consume_content[OF assms] by simp
qed

lemma run_simulates:
  "wf b \<Longrightarrow> queue_run (capacity b) (content b) ops (fst (run_ops b ops)) (content (snd (run_ops b ops)))"
proof (induction ops arbitrary: b)
  case (Cons op ops)
  then show ?case using op_simulates[OF Cons.prems, of op] Cons.IH[of "snd (apply_op b op)"] by auto
qed simp

end

interpretation relay_buffer: bounded_queue buffer_wf buffer_content buf_capacity buffer_available buffer_append buffer_consume
proof (unfold_locales, goal_cases)
  case (1 b)
  then show ?case by (auto simp: buffer_wf_def)
next
  case (2 b)
  then show ?case using buffer_available_ok[of b "fst (buffer_available b)" "snd (buffer_available b)"] by simp
next
  case (3 b)
  then show ?case using buffer_available_ok[of b "fst (buffer_available b)" "snd (buffer_available b)"] by simp
next
  case (4 b)
  then show ?case using buffer_available_ok(6)[of b "fst (buffer_available b)" "snd (buffer_available b)"] by simp
next
  case (5 b bs)
  then show ?case using buffer_append_ok(1,2)[of b bs "fst (buffer_append b bs)" "snd (buffer_append b bs)"] by simp
next
  case (6 b bs)
  then show ?case using buffer_append_ok(3)[of b bs "fst (buffer_append b bs)" "snd (buffer_append b bs)"] by simp
next
  case (7 b bs)
  then show ?case using buffer_append_ok(4)[OF 7(1) prod.collapse[symmetric], of bs] by simp
next
  case (8 b n)
  then show ?case using buffer_consume_ok[of b n] by simp
next
  case (9 b n)
  then show ?case using buffer_consume_ok(2)[of b n] by simp
qed

definition buffer_start :: "bytes \<Rightarrow> egress_buffer" where
  "buffer_start data = \<lparr>buf_data = data, buf_capacity = length data, buf_offset = 0, buf_length = 0\<rparr>"

lemma buffer_start_ok [simp]: "buffer_wf (buffer_start data)" "buffer_content (buffer_start data) = []"
    "buf_capacity (buffer_start data) = length data"
  by (simp_all add: buffer_start_def buffer_wf_def buffer_content_def)

text \<open>
  C38: A connection buffer is a bounded queue of bytes. Whatever the sequence of operations on a new
  buffer, and although the array is compacted only when its end is reached, every answer is one the
  abstract queue allows: bytes leave in the order in which they came, none is lost or repeated, the
  room is zero only when the buffer is full, and a text that fits is refused only while others wait.
\<close>

theorem buffer_refines_queue:
  "queue_run (length data) [] ops (fst (relay_buffer.run_ops (buffer_start data) ops))
     (buffer_content (snd (relay_buffer.run_ops (buffer_start data) ops)))"
  using relay_buffer.run_simulates[of "buffer_start data" ops] by simp

section \<open>Tokens\<close>

lemma small_word_bits:
  fixes x :: u64
  assumes "unat x < 2 ^ k" "k \<le> n"
  shows "\<not> bit x n"
proof -
  have "unat (take_bit k x) = unat x" unfolding unsigned_take_bit_eq using assms(1) by (simp add: take_bit_nat_eq_self)
  then have "take_bit k x = x" by (simp add: word_unat_eq_iff)
  then have "bit x n = bit (take_bit k x) n" by simp
  then show ?thesis using assms(2) by (simp add: bit_take_bit_iff)
qed

lemma token_masks: "(3 :: u64) = mask 2" "(0x3fff :: u64) = mask 14"
  by (simp_all add: mask_eq_exp_minus_1)

text \<open>
  A token of the reactor names its slot, generation and side: decoding gives back what was
  encoded, for every slot the configuration allows and every generation below 2^48.
\<close>

theorem token_roundtrip:
  assumes "slot < 2 ^ 14" "generation < 2 ^ 48" "side < 4"
  shows "decode_token (connection_token slot generation side) = (slot, generation, side)"
proof -
  define w :: u64 where "w = of_nat slot"
  have slot: "unat w = slot" using assms(1) by (simp add: w_def unsigned_of_nat take_bit_nat_eq_self)
  have "unat w < 2 ^ 14" "unat generation < 2 ^ 48" "unat side < 2 ^ 2"
    using assms slot by (simp_all add: word_less_nat_alt)
  note bits = this[THEN small_word_bits]
  have token: "connection_token slot generation side = push_bit 16 generation OR push_bit 2 w OR side"
    by (simp add: connection_token_def TOKEN_GENERATION_SHIFT_def TOKEN_SLOT_SHIFT_def w_def)
  have "drop_bit 2 (connection_token slot generation side) AND mask 14 = w"
    unfolding token by (rule bit_word_eqI) (use bits in \<open>auto simp: bit_simps not_less not_le intro: leI\<close>)
  moreover have "drop_bit 16 (connection_token slot generation side) = generation"
    unfolding token by (rule bit_word_eqI) (use bits in \<open>auto simp: bit_simps not_less not_le intro: leI\<close>)
  moreover have "connection_token slot generation side AND mask 2 = side"
    unfolding token by (rule bit_word_eqI) (use bits in \<open>auto simp: bit_simps not_less not_le intro: leI\<close>)
  ultimately show ?thesis
    unfolding decode_token_def token_masks TOKEN_SLOT_SHIFT_def TOKEN_GENERATION_SHIFT_def by (simp add: slot)
qed

theorem token_roundtrip_witness:
  "decode_token (connection_token 4095 (2 ^ 48 - 1) TOKEN_SIDE_UPSTREAM) = (4095, 2 ^ 48 - 1, TOKEN_SIDE_UPSTREAM)"
  by (rule token_roundtrip) (simp_all add: TOKEN_SIDE_UPSTREAM_def)

end
