(* ===== verification/Egress_Server_State.thy ===== *)
theory Egress_Server_State
  imports Egress_Http Egress_ClientHello Egress_Buffer
begin

text \<open>
  The state of the server in \<^verbatim>\<open>src/src/server/internal.h\<close>, the byte quotas of \<^verbatim>\<open>src/src/server/quota.c\<close> and the
  receipts of \<^verbatim>\<open>src/src/server/receipt.c\<close>.

  The server calls the system library, a TLS provider, an attestor and a receipt sink, none of
  which is part of the repository. A call is an event of the trace of the server, newest first, and
  its answer is a function of the trace up to and including that call; the record \<open>kernel\<close> holds these
  functions. Quantifying over all kernels covers every behaviour of the environment, including what
  other threads do between two calls.

  Event and interest bits are sets of flags: the code relies on the reactor using the same bits for
  both. The destination of a connection is its snapshot. The objects that the configuration points
  to (journal, attestor) are fields of the server, which holds a reference to each.
\<close>

section \<open>Calls and answers\<close>

datatype flag = FLAG_READ | FLAG_WRITE | FLAG_HUP | FLAG_ERROR

datatype tls_step = TLS_COMPLETE | TLS_WANT_READ | TLS_WANT_WRITE | TLS_CLOSED | TLS_FAILED

datatype connect_state = CONNECT_CONNECTED | CONNECT_IN_PROGRESS

datatype sys_call =
    Call_monotonic
  | Call_wall
  | Call_malloc nat
  | Call_accept pointer
  | Call_peer int
  | Call_receive nat nat
  | Call_send nat bytes
  | Call_shutdown nat
  | Call_release pointer
  | Call_socket nat
  | Call_connect nat egress_address
  | Call_connect_complete pointer
  | Call_watch int "flag set" u64
  | Call_modify u64 "flag set"
  | Call_unwatch u64
  | Call_tls_create int
  | Call_tls_handshake pointer
  | Call_tls_read pointer nat
  | Call_tls_write pointer bytes
  | Call_tls_shutdown pointer
  | Call_tls_release pointer
  | Call_attest bytes nat
  | Call_sink egress_receipt
  | Call_audit egress_receipt
  | Call_cancelled nat
  | Call_broadcast nat
  | Call_close_fd int
  | Call_stopping
  | Call_new_command
  | Call_loop_create
  | Call_loop_step u64
  | Call_loop_stop
  | Call_loop_destroy
  | Call_wake
  | Call_wait nat u64
  | Call_resolve_numeric bytes u16
  | Call_bind nat sockaddr
  | Call_bind_unix nat bytes
  | Call_listen nat nat
  | Call_getsockname nat
  | Call_path_identity bytes
  | Call_chmod bytes
  | Call_unlink bytes
  | Call_connect_local nat sockaddr
  | Call_fd_wait int "flag set" u64
  | Call_detach nat
  | Call_set_blocking int

type_synonym trace = "sys_call list"

record kernel =
  k_clock :: "trace \<Rightarrow> u64"
  k_result :: "trace \<Rightarrow> sys_result"
  k_alloc :: "trace \<Rightarrow> nat \<Rightarrow> bool"
  k_block :: "trace \<Rightarrow> bytes option"
  k_socket :: "trace \<Rightarrow> sys_result \<times> nat"
  k_fd :: "nat \<Rightarrow> int"
  k_peer :: "trace \<Rightarrow> bool"
  k_receive :: "trace \<Rightarrow> sys_result \<times> bytes"
  k_send :: "trace \<Rightarrow> sys_result \<times> nat"
  k_connect :: "trace \<Rightarrow> sys_result \<times> connect_state"
  k_watch :: "trace \<Rightarrow> sys_result \<times> u64"
  k_tls_create :: "trace \<Rightarrow> egress_result \<times> pointer"
  k_tls_step :: "trace \<Rightarrow> tls_step"
  k_tls_read :: "trace \<Rightarrow> tls_step \<times> bytes"
  k_tls_write :: "trace \<Rightarrow> tls_step \<times> nat"
  k_attest :: "trace \<Rightarrow> egress_result \<times> bytes"
  k_audit :: "trace \<Rightarrow> bool \<times> write_event list \<times> bool"
  k_cancelled :: "trace \<Rightarrow> bool"
  k_stopping :: "trace \<Rightarrow> bool"
  k_step :: "trace \<Rightarrow> sys_result \<times> (u64 \<times> flag set) list \<times> bool"
  k_command :: "trace \<Rightarrow> nat option"
  k_infinite :: u64
  k_addresses :: "trace \<Rightarrow> egress_address list option"
  k_sockname :: "trace \<Rightarrow> sockaddr option"
  k_identity :: "trace \<Rightarrow> sys_result \<times> bool"

section \<open>The state\<close>

datatype connection_state =
    CONNECTION_UNUSED
  | CONNECTION_TLS_HANDSHAKE
  | CONNECTION_HANDSHAKE
  | CONNECTION_CONNECTING
  | CONNECTION_IDENTITY
  | CONNECTION_RELAY

record egress_connection =
  conn_state :: connection_state
  conn_generation :: u64
  client_socket :: pointer
  upstream_socket :: pointer
  client_fd :: int
  upstream_fd :: int
  client_watch :: u64
  upstream_watch :: u64
  client_to_upstream :: egress_buffer
  upstream_to_client :: egress_buffer
  conn_socks_phase :: int
  close_after_flush :: bool
  client_eof :: bool
  upstream_eof :: bool
  client_write_shutdown :: bool
  upstream_write_shutdown :: bool
  client_hup :: bool
  upstream_hup :: bool
  conn_destination :: "egress_destination option"
  conn_policy_digest :: bytes
  conn_policy_generation :: u64
  address_index :: nat
  conn_upstream_address :: bytes
  conn_protocol :: egress_protocol
  conn_host :: bytes
  authenticated_invocation_id :: bytes
  conn_invocation_id :: bytes
  conn_principal :: bytes
  conn_principal_index :: "nat option"
  quota_bytes :: u64
  quota_total_bytes :: u64
  quota_stream_used :: u64
  quota_total_before :: u64
  quota_client_exempt_bytes :: u64
  conn_quota_scope :: quota_scope
  quota_exhausted :: bool
  quota_admitted :: bool
  conn_port :: u16
  started_mono_ms :: u64
  conn_started_unix_ms :: u64
  last_activity_ms :: u64
  handshake_deadline_ms :: u64
  conn_bytes_from_client :: u64
  conn_bytes_to_client :: u64
  conn_result :: egress_result
  conn_tls_sni_verified :: bool
  tls_session :: pointer
  tls_handshake_interest :: "flag set"
  tls_read_interest :: "flag set"
  tls_write_interest :: "flag set"
  tls_shutdown_interest :: "flag set"
  open_command :: pointer

text \<open>The structure that \<^verbatim>\<open>calloc\<close> and \<^verbatim>\<open>memset\<close> yield.\<close>

definition buffer_zero :: egress_buffer where
  "buffer_zero = \<lparr>buf_data = [], buf_capacity = 0, buf_offset = 0, buf_length = 0\<rparr>"

definition connection_zero :: egress_connection where
  "connection_zero =
     \<lparr>conn_state = CONNECTION_UNUSED, conn_generation = 0, client_socket = None, upstream_socket = None, client_fd = 0,
      upstream_fd = 0, client_watch = 0, upstream_watch = 0, client_to_upstream = buffer_zero,
      upstream_to_client = buffer_zero, conn_socks_phase = 0, close_after_flush = False, client_eof = False,
      upstream_eof = False, client_write_shutdown = False, upstream_write_shutdown = False, client_hup = False,
      upstream_hup = False, conn_destination = None, conn_policy_digest = [], conn_policy_generation = 0,
      address_index = 0, conn_upstream_address = [], conn_protocol = PROTOCOL_NONE, conn_host = [],
      authenticated_invocation_id = [], conn_invocation_id = [], conn_principal = [], conn_principal_index = Some 0,
      quota_bytes = 0, quota_total_bytes = 0, quota_stream_used = 0, quota_total_before = 0,
      quota_client_exempt_bytes = 0, conn_quota_scope = QUOTA_NONE, quota_exhausted = False, quota_admitted = False,
      conn_port = 0, started_mono_ms = 0, conn_started_unix_ms = 0, last_activity_ms = 0, handshake_deadline_ms = 0,
      conn_bytes_from_client = 0, conn_bytes_to_client = 0, conn_result = EGRESS_OK, conn_tls_sni_verified = False,
      tls_session = None, tls_handshake_interest = {}, tls_read_interest = {}, tls_write_interest = {},
      tls_shutdown_interest = {}, open_command = None\<rparr>"

record open_command =
  cmd_references :: u32
  cmd_server_socket :: pointer
  cmd_client_fd :: int
  cmd_completed :: bool
  cmd_result :: egress_result
  cmd_principal_index :: "nat option"
  cmd_principal :: bytes
  cmd_invocation_id :: bytes
  cmd_host :: bytes
  cmd_port :: u16

text \<open>
  A connection of the administration listener. Its request and response are the parts of the two
  arrays that are in use.
\<close>

record egress_admin_connection =
  admin_socket :: pointer
  admin_fd :: int
  admin_watch_id :: u64
  admin_generation :: u64
  admin_deadline_ms :: u64
  admin_request :: bytes
  admin_response :: bytes
  admin_response_offset :: nat

text \<open>The atomic counters, with the generation of the policy, have the type of their snapshot.\<close>

record egress_server =
  srv_references :: u32
  srv_policy :: egress_policy
  srv_config :: egress_config
  listener_socket :: pointer
  listener_watch :: u64
  bound_port :: u16
  admin_listener_socket :: pointer
  admin_listener_watch :: u64
  admin_bound_port :: u16
  unix_socket_created :: bool
  connections :: "egress_connection list"
  connection_count :: nat
  srv_started :: bool
  srv_running :: bool
  srv_stopping :: bool
  srv_finalized :: bool
  command_queue :: "nat list"
  open_commands :: "nat \<Rightarrow> open_command option"
  next_id :: u64
  principal_active :: "nat list"
  principal_bytes_total :: "u64 list"
  srv_metrics :: egress_metrics
  admin_connections :: "egress_admin_connection list"
  next_admin_generation :: u64
  srv_audit :: "egress_audit option"
  srv_journal :: bytes
  srv_attestor :: "attestor option"
  srv_trace :: trace

definition ask :: "sys_call \<Rightarrow> egress_server \<Rightarrow> egress_server" where
  "ask call s = s\<lparr>srv_trace := call # srv_trace s\<rparr>"

definition conn :: "egress_server \<Rightarrow> nat \<Rightarrow> egress_connection" where
  "conn s slot = connections s ! slot"

definition on_conn :: "nat \<Rightarrow> (egress_connection \<Rightarrow> egress_connection) \<Rightarrow> egress_server \<Rightarrow> egress_server" where
  "on_conn slot f s = s\<lparr>connections := (connections s)[slot := f (conn s slot)]\<rparr>"

definition on_metrics :: "(egress_metrics \<Rightarrow> egress_metrics) \<Rightarrow> egress_server \<Rightarrow> egress_server" where
  "on_metrics f s = s\<lparr>srv_metrics := f (srv_metrics s)\<rparr>"

definition monotonic_now :: "kernel \<Rightarrow> egress_server \<Rightarrow> u64 \<times> egress_server" where
  "monotonic_now K s = (let s = ask Call_monotonic s in (k_clock K (srv_trace s), s))"

definition wall_now :: "kernel \<Rightarrow> egress_server \<Rightarrow> u64 \<times> egress_server" where
  "wall_now K s = (let s = ask Call_wall s in (k_clock K (srv_trace s), s))"

text \<open>
  The flag \<^verbatim>\<open>stopping\<close> is set by any thread and never cleared: a load sees it if it was set before, or if
  another thread has set it meanwhile.
\<close>

definition load_stopping :: "kernel \<Rightarrow> egress_server \<Rightarrow> bool \<times> egress_server" where
  "load_stopping K s =
     (let s = ask Call_stopping s; set_now = (srv_stopping s \<or> k_stopping K (srv_trace s)) in
      (set_now, s\<lparr>srv_stopping := set_now\<rparr>))"

text \<open>\<^verbatim>\<open>principal_index < principal_count\<close>, where no principal is the index \<^verbatim>\<open>SIZE_MAX\<close>.\<close>

definition known_principal :: "egress_server \<Rightarrow> nat option \<Rightarrow> bool" where
  "known_principal s index = (case index of None \<Rightarrow> False | Some i \<Rightarrow> i < length (principals (srv_config s)))"

section \<open>Byte quotas\<close>

definition quota_remaining :: "u64 \<Rightarrow> u64 \<Rightarrow> u64" where
  "quota_remaining maximum used = (if maximum = 0 then - 1 else if maximum \<le> used then 0 else maximum - used)"

definition egress_quota_allowance :: "egress_server \<Rightarrow> egress_connection \<Rightarrow> u64 \<times> quota_scope" where
  "egress_quota_allowance s c =
     (if \<not> quota_admitted c \<or> \<not> known_principal s (conn_principal_index c) then (- 1, QUOTA_NONE)
      else
        let stream = quota_remaining (quota_bytes c) (quota_stream_used c);
            all = quota_remaining (quota_total_bytes c) (principal_bytes_total s ! the (conn_principal_index c))
        in if quota_total_bytes c \<noteq> 0 \<and> all \<le> stream then (all, QUOTA_EXECUTION_BYTES)
           else if quota_bytes c \<noteq> 0 then (stream, QUOTA_CONNECTION_BYTES)
           else (- 1, QUOTA_NONE))"

definition egress_quota_charge :: "nat \<Rightarrow> u64 \<Rightarrow> egress_server \<Rightarrow> egress_server" where
  "egress_quota_charge slot amount s =
     (let c = conn s slot in
      if amount = 0 \<or> \<not> quota_admitted c \<or> \<not> known_principal s (conn_principal_index c) then s
      else
        let i = the (conn_principal_index c);
            s = on_conn slot (\<lambda>c. c\<lparr>quota_stream_used := add_saturating (quota_stream_used c) amount\<rparr>) s
        in s\<lparr>principal_bytes_total := (principal_bytes_total s)[i := add_saturating (principal_bytes_total s ! i) amount]\<rparr>)"

definition egress_quota_deny :: "nat \<Rightarrow> quota_scope \<Rightarrow> egress_server \<Rightarrow> egress_server" where
  "egress_quota_deny slot scope s =
     (let s = (if conn_quota_scope (conn s slot) = QUOTA_NONE then
                 on_metrics (\<lambda>m. m\<lparr>metric_quota_denials := metric_quota_denials m + 1\<rparr>)
                   (on_conn slot (\<lambda>c. c\<lparr>conn_quota_scope := scope\<rparr>) s)
               else s)
      in on_conn slot (\<lambda>c. c\<lparr>conn_result := ERR_DENIED\<rparr>) s)"

section \<open>Receipts\<close>

definition EGRESS_MAX_ADDRESS_TEXT :: nat where
  "EGRESS_MAX_ADDRESS_TEXT = 46"

definition receipt_of :: "egress_server \<Rightarrow> egress_connection \<Rightarrow> u64 \<Rightarrow> egress_receipt" where
  "receipt_of s c now =
     \<lparr>receipt_id = conn_generation c, receipt_protocol = conn_protocol c,
      receipt_host = snprintf_s (EGRESS_MAX_HOST + 1) (conn_host c), receipt_port = conn_port c,
      receipt_result = conn_result c, started_unix_ms = conn_started_unix_ms c,
      duration_ms = (if started_mono_ms c \<le> now then now - started_mono_ms c else 0),
      bytes_from_client = conn_bytes_from_client c, bytes_to_client = conn_bytes_to_client c,
      receipt_quota_scope = conn_quota_scope c, quota_connection_max_bytes = quota_bytes c,
      quota_execution_max_bytes = quota_total_bytes c, quota_connection_observed_bytes = quota_stream_used c,
      quota_execution_before_bytes = quota_total_before c,
      quota_execution_after_bytes =
        (if known_principal s (conn_principal_index c) then principal_bytes_total s ! the (conn_principal_index c) else 0),
      policy_digest_hex = snprintf_s 65 (conn_policy_digest c),
      receipt_invocation_id = snprintf_s (EGRESS_MAX_INVOCATION_ID + 1) (conn_invocation_id c),
      tls_sni_verified = conn_tls_sni_verified c, receipt_principal = snprintf_s (EGRESS_MAX_USERNAME + 1) (conn_principal c),
      policy_generation = conn_policy_generation c,
      receipt_attestor = [], attestation_key_id = [], attestation_hex = [],
      upstream_address = snprintf_s EGRESS_MAX_ADDRESS_TEXT (conn_upstream_address c)\<rparr>"

definition bytes_to_hex :: "bytes \<Rightarrow> bytes" where
  "bytes_to_hex bs = concat (map hex_pair bs)"

definition audit_failure :: "egress_server \<Rightarrow> egress_server" where
  "audit_failure s = on_metrics (\<lambda>m. m\<lparr>metric_audit_failures := metric_audit_failures m + 1\<rparr>) s"

text \<open>The attestation of a receipt: whether it succeeded, the receipt with it, and the server.\<close>

definition attest_receipt ::
  "kernel \<Rightarrow> egress_receipt \<Rightarrow> egress_server \<Rightarrow> bool \<times> egress_receipt \<times> egress_server" where
  "attest_receipt K receipt s =
     (case srv_attestor s of
        None \<Rightarrow> (True, receipt, s)
      | Some attestor \<Rightarrow>
          let (result, signature, s) =
            (case egress_receipt_canonical (Some receipt) 2048 of
               None \<Rightarrow> (ERR_MEMORY, [], s)
             | Some canonical \<Rightarrow>
                 if canonical = [] then (ERR_MEMORY, [], s)
                 else
                   let s = ask (Call_attest canonical (max_signature_bytes attestor)) s in
                   (fst (k_attest K (srv_trace s)), snd (k_attest K (srv_trace s)), s))
          in if result = EGRESS_OK \<and> 0 < length signature \<and> length signature \<le> max_signature_bytes attestor then
               (True, receipt\<lparr>receipt_attestor := snprintf_s 64 (attestor_name attestor),
                  attestation_key_id := snprintf_s 128 (attestor_key_id attestor),
                  attestation_hex := bytes_to_hex signature\<rparr>, s)
             else (False, receipt, audit_failure s))"

definition audit_receipt :: "kernel \<Rightarrow> egress_receipt \<Rightarrow> egress_server \<Rightarrow> egress_server" where
  "audit_receipt K receipt s =
     (let s = ask (Call_audit receipt) s;
          (alloc_ok, events, sync_ok) = k_audit K (srv_trace s);
          (journal, audit, ok) = egress_audit_append alloc_ok events sync_ok (srv_journal s) (srv_audit s) (Some receipt);
          s = s\<lparr>srv_journal := journal, srv_audit := audit\<rparr>
      in if ok then s else audit_failure s)"

definition egress_receipt_emit :: "kernel \<Rightarrow> egress_connection \<Rightarrow> egress_server \<Rightarrow> egress_server" where
  "egress_receipt_emit K c s =
     (let (now, s) = monotonic_now K s;
          (attestation_ok, receipt, s) = attest_receipt K (receipt_of s c now) s;
          s = (if receipt_sink (srv_config s) \<noteq> None then ask (Call_sink receipt) s else s);
          s = on_metrics (\<lambda>m. m\<lparr>metric_receipts := metric_receipts m + 1\<rparr>) s
      in if srv_audit s \<noteq> None \<and> attestation_ok then audit_receipt K receipt s else s)"

end
