(* ===== verification/Egress_Connection.thy ===== *)
theory Egress_Connection
  imports Egress_Server_State
begin

text \<open>
  \<^verbatim>\<open>src/src/server/connection.c\<close>: a connection from its acceptance to the relay, and its end. A connection is
  named by its slot. Return values that the C code uses as a truth value are booleans. The loop of
  the SOCKS dialogue is a partial function: not returning is \<open>None\<close>.
\<close>

section \<open>Open commands\<close>

text \<open>A command that has been freed stays in the map without references: its number is the address of the block.\<close>

definition open_command_release :: "nat \<Rightarrow> egress_server \<Rightarrow> egress_server" where
  "open_command_release command s =
     (case open_commands s command of
        None \<Rightarrow> s
      | Some c \<Rightarrow>
          if cmd_references c \<noteq> 1 then
            s\<lparr>open_commands := (open_commands s)(command \<mapsto> c\<lparr>cmd_references := cmd_references c - 1\<rparr>)\<rparr>
          else
            let s = ask (Call_close_fd (cmd_client_fd c)) (ask (Call_release (cmd_server_socket c)) s) in
            s\<lparr>open_commands := (open_commands s)(command \<mapsto> c\<lparr>cmd_references := 0\<rparr>)\<rparr>)"

definition egress_open_command_complete :: "kernel \<Rightarrow> pointer \<Rightarrow> egress_result \<Rightarrow> egress_server \<Rightarrow> egress_server" where
  "egress_open_command_complete K p result s =
     (case p of
        None \<Rightarrow> s
      | Some command \<Rightarrow>
          let s = (case open_commands s command of
                None \<Rightarrow> s
              | Some c \<Rightarrow>
                  if cmd_completed c then s
                  else
                    let s = ask (Call_cancelled command) s;
                        cancelled = k_cancelled K (srv_trace s);
                        s = s\<lparr>open_commands := (open_commands s)(command \<mapsto> c\<lparr>
                              cmd_result := (if cancelled \<and> result = EGRESS_OK then ERR_CANCELLED else result),
                              cmd_completed := True\<rparr>)\<rparr>
                    in ask (Call_broadcast command) s)
          in open_command_release command s)"

section \<open>The end of a connection\<close>

definition unwatch_client :: "nat \<Rightarrow> egress_server \<Rightarrow> egress_server" where
  "unwatch_client slot s =
     (if client_watch (conn s slot) \<noteq> 0 then ask (Call_unwatch (client_watch (conn s slot))) s else s)"

definition unwatch_upstream :: "nat \<Rightarrow> egress_server \<Rightarrow> egress_server" where
  "unwatch_upstream slot s =
     (if upstream_watch (conn s slot) \<noteq> 0 then ask (Call_unwatch (upstream_watch (conn s slot))) s else s)"

definition release_client :: "nat \<Rightarrow> egress_server \<Rightarrow> egress_server" where
  "release_client slot s =
     on_conn slot (\<lambda>c. c\<lparr>client_socket := None, client_fd := - 1\<rparr>) (ask (Call_release (client_socket (conn s slot))) s)"

definition release_upstream :: "nat \<Rightarrow> egress_server \<Rightarrow> egress_server" where
  "release_upstream slot s =
     on_conn slot (\<lambda>c. c\<lparr>upstream_socket := None, upstream_fd := - 1\<rparr>)
       (ask (Call_release (upstream_socket (conn s slot))) s)"

definition release_tls :: "nat \<Rightarrow> egress_server \<Rightarrow> egress_server" where
  "release_tls slot s =
     (if tls_session (conn s slot) \<noteq> None \<and> config_tls_provider (srv_config s) \<noteq> None then
        on_conn slot (\<lambda>c. c\<lparr>tls_session := None\<rparr>) (ask (Call_tls_release (tls_session (conn s slot))) s)
      else s)"

definition close_command :: "kernel \<Rightarrow> nat \<Rightarrow> egress_server \<Rightarrow> egress_server" where
  "close_command K slot s =
     (let c = conn s slot in
      if open_command c \<noteq> None then
        egress_open_command_complete K (open_command c) (if conn_result c = EGRESS_OK then ERR_IO else conn_result c)
          (on_conn slot (\<lambda>c. c\<lparr>open_command := None\<rparr>) s)
      else s)"

text \<open>The counters of the server and of the principal when a connection ends.\<close>

definition close_accounts :: "nat \<Rightarrow> egress_server \<Rightarrow> egress_server" where
  "close_accounts slot s =
     (let c = conn s slot;
          s = (if quota_admitted c \<and> known_principal s (conn_principal_index c) \<and>
                  principal_active s ! the (conn_principal_index c) \<noteq> 0 then
                 s\<lparr>principal_active := (principal_active s)[the (conn_principal_index c) :=
                     principal_active s ! the (conn_principal_index c) - 1]\<rparr>
               else s)
      in on_metrics (\<lambda>m. m\<lparr>
           metric_bytes_from_clients := metric_bytes_from_clients m + conn_bytes_from_client c,
           metric_bytes_to_clients := metric_bytes_to_clients m + conn_bytes_to_client c,
           metric_denied := (if conn_result c = ERR_DENIED then metric_denied m + 1 else metric_denied m)\<rparr>) s)"

definition clear_slot :: "nat \<Rightarrow> egress_server \<Rightarrow> egress_server" where
  "clear_slot slot s =
     (let s = on_conn slot (\<lambda>c. connection_zero\<lparr>client_fd := - 1, upstream_fd := - 1,
                conn_generation := conn_generation c\<rparr>) s
      in on_metrics (\<lambda>m. m\<lparr>metric_active := metric_active m - 1\<rparr>)
           (s\<lparr>connection_count := connection_count s - 1\<rparr>))"

definition egress_connection_close :: "kernel \<Rightarrow> nat \<Rightarrow> egress_server \<Rightarrow> egress_server" where
  "egress_connection_close K slot s =
     (if conn_state (conn s slot) = CONNECTION_UNUSED then s
      else
        let s = close_command K slot s;
            s = unwatch_client slot s;
            s = unwatch_upstream slot s;
            s = release_tls slot s;
            s = release_client slot s;
            s = release_upstream slot s;
            s = close_accounts slot s;
            s = egress_receipt_emit K (conn s slot) s
        in clear_slot slot s)"

section \<open>Failures\<close>

definition queue_to_client :: "nat \<Rightarrow> bytes \<Rightarrow> egress_server \<Rightarrow> bool \<times> egress_server" where
  "queue_to_client slot bs s =
     (let (ok, b) = buffer_append (upstream_to_client (conn s slot)) bs;
          s = on_conn slot (\<lambda>c. c\<lparr>upstream_to_client := b\<rparr>) s
      in if \<not> ok then (False, s)
         else (True, on_conn slot (\<lambda>c. c\<lparr>quota_client_exempt_bytes :=
                 add_saturating (quota_client_exempt_bytes c) (of_nat (length bs))\<rparr>) s))"

definition http_line :: "string \<Rightarrow> bytes" where
  "http_line text = cstr text @ [13, 10]"

definition failure_response :: "egress_protocol \<Rightarrow> egress_result \<Rightarrow> bool \<Rightarrow> bytes" where
  "failure_response protocol result authentication_failure =
     (if protocol = PROTOCOL_SOCKS5 then [5, if result = ERR_DENIED then 2 else 1, 0, 1, 0, 0, 0, 0, 0, 0]
      else if authentication_failure then
        http_line ''HTTP/1.1 407 Proxy Authentication Required'' @
        http_line ''Proxy-Authenticate: Basic realm=\"maelys-egress\"'' @
        http_line ''Connection: close'' @ http_line ''Content-Length: 0'' @ http_line ''''
      else
        http_line (if result = ERR_DENIED then ''HTTP/1.1 403 Forbidden''
                   else if result = ERR_PROTOCOL then ''HTTP/1.1 400 Bad Request''
                   else ''HTTP/1.1 502 Bad Gateway'') @
        http_line ''Connection: close'' @ http_line ''Content-Length: 0'' @ http_line '''')"

definition egress_connection_fail :: "kernel \<Rightarrow> nat \<Rightarrow> egress_result \<Rightarrow> bool \<Rightarrow> egress_server \<Rightarrow> egress_server" where
  "egress_connection_fail K slot result authentication_failure s =
     (let s = (if authentication_failure
               then on_metrics (\<lambda>m. m\<lparr>metric_auth_failures := metric_auth_failures m + 1\<rparr>) s else s);
          s = on_conn slot (\<lambda>c. c\<lparr>conn_result := (if conn_result c = EGRESS_OK then result else conn_result c),
                close_after_flush := True\<rparr>) s;
          s = on_conn slot (\<lambda>c. c\<lparr>upstream_watch := 0\<rparr>) (unwatch_upstream slot s);
          s = release_upstream slot s
      in if conn_protocol (conn s slot) = PROTOCOL_CONNECTOR then egress_connection_close K slot s
         else snd (queue_to_client slot (failure_response (conn_protocol (conn s slot)) result authentication_failure) s))"

section \<open>Watches\<close>

definition watch_or_modify ::
  "kernel \<Rightarrow> int \<Rightarrow> flag set \<Rightarrow> u64 \<Rightarrow> u64 \<Rightarrow> egress_server \<Rightarrow> bool \<times> u64 \<times> egress_server" where
  "watch_or_modify K fd interests token watch s =
     (if watch \<noteq> 0 then
        let s = ask (Call_modify watch interests) s in (k_result K (srv_trace s) = SYS_OK, watch, s)
      else
        let s = ask (Call_watch fd interests token) s; (result, new) = k_watch K (srv_trace s) in
        (result = SYS_OK, if result = SYS_OK then new else watch, s))"

definition client_read_interest :: "egress_connection \<Rightarrow> flag set" where
  "client_read_interest c = (if tls_session c \<noteq> None \<and> tls_read_interest c \<noteq> {} then tls_read_interest c else {FLAG_READ})"

definition client_write_interest :: "egress_connection \<Rightarrow> flag set" where
  "client_write_interest c =
     (if tls_session c \<noteq> None \<and> tls_write_interest c \<noteq> {} then tls_write_interest c else {FLAG_WRITE})"

text \<open>The interests of one side; asking for the room of a buffer may compact it.\<close>

definition client_interests :: "egress_connection \<Rightarrow> flag set \<times> egress_connection" where
  "client_interests c =
     (let (interests, c) =
        (if conn_state c = CONNECTION_TLS_HANDSHAKE then (tls_handshake_interest c, c)
         else
           let (readable, c) =
             (if \<not> close_after_flush c \<and> \<not> quota_exhausted c \<and> \<not> client_eof c then
                let (n, b) = buffer_available (client_to_upstream c) in (0 < n, c\<lparr>client_to_upstream := b\<rparr>)
              else (False, c))
           in ((if readable then client_read_interest c else {}) \<union>
               (if buf_length (upstream_to_client c) \<noteq> 0 then client_write_interest c else {}) \<union>
               tls_shutdown_interest c, c))
      in (if client_hup c \<and> \<not> client_eof c \<and> interests \<inter> client_read_interest c = {} then {} else interests, c))"

definition upstream_interests :: "egress_connection \<Rightarrow> flag set \<times> egress_connection" where
  "upstream_interests c =
     (let (interests, c) =
        (if conn_state c = CONNECTION_CONNECTING then ({FLAG_WRITE}, c)
         else if conn_state c = CONNECTION_RELAY then
           let (readable, c) =
             (if \<not> quota_exhausted c \<and> \<not> upstream_eof c then
                let (n, b) = buffer_available (upstream_to_client c) in (0 < n, c\<lparr>upstream_to_client := b\<rparr>)
              else (False, c))
           in ((if readable then {FLAG_READ} else {}) \<union>
               (if buf_length (client_to_upstream c) \<noteq> 0 then {FLAG_WRITE} else {}), c)
         else ({}, c))
      in (if upstream_hup c \<and> \<not> upstream_eof c \<and> FLAG_READ \<notin> interests then {} else interests, c))"

definition watch_client :: "kernel \<Rightarrow> nat \<Rightarrow> egress_server \<Rightarrow> bool \<times> egress_server" where
  "watch_client K slot s =
     (let (interests, c) = client_interests (conn s slot); s = on_conn slot (\<lambda>_. c) s in
      if interests = {} then (True, on_conn slot (\<lambda>c. c\<lparr>client_watch := 0\<rparr>) (unwatch_client slot s))
      else
        let (ok, watch, s) = watch_or_modify K (client_fd c) interests
              (connection_token slot (conn_generation c) TOKEN_SIDE_CLIENT) (client_watch c) s
        in (ok, on_conn slot (\<lambda>c. c\<lparr>client_watch := watch\<rparr>) s))"

definition watch_upstream :: "kernel \<Rightarrow> nat \<Rightarrow> egress_server \<Rightarrow> bool \<times> egress_server" where
  "watch_upstream K slot s =
     (let (interests, c) = upstream_interests (conn s slot); s = on_conn slot (\<lambda>_. c) s in
      if interests = {} then (True, on_conn slot (\<lambda>c. c\<lparr>upstream_watch := 0\<rparr>) (unwatch_upstream slot s))
      else
        let (ok, watch, s) = watch_or_modify K (upstream_fd c) interests
              (connection_token slot (conn_generation c) TOKEN_SIDE_UPSTREAM) (upstream_watch c) s
        in (ok, on_conn slot (\<lambda>c. c\<lparr>upstream_watch := watch\<rparr>) s))"

definition egress_connection_update_watches :: "kernel \<Rightarrow> nat \<Rightarrow> egress_server \<Rightarrow> bool \<times> egress_server" where
  "egress_connection_update_watches K slot s =
     (if conn_state (conn s slot) = CONNECTION_UNUSED then (True, s)
      else
        let (ok, s) = watch_client K slot s in
        if \<not> ok then (False, s)
        else if upstream_fd (conn s slot) < 0 then (True, s)
        else watch_upstream K slot s)"

section \<open>From the request to the relay\<close>

definition touch :: "kernel \<Rightarrow> nat \<Rightarrow> egress_server \<Rightarrow> egress_server" where
  "touch K slot s = (let (now, s) = monotonic_now K s in on_conn slot (\<lambda>c. c\<lparr>last_activity_ms := now\<rparr>) s)"

definition egress_connection_enforce_tunnel_identity :: "kernel \<Rightarrow> nat \<Rightarrow> egress_server \<Rightarrow> bool \<times> egress_server" where
  "egress_connection_enforce_tunnel_identity K slot s =
     (let c = conn s slot in
      if conn_state c \<noteq> CONNECTION_IDENTITY \<or> buf_length (client_to_upstream c) = 0 then (True, s)
      else
        case egress_tls_client_hello_matches (Some (buffer_content (client_to_upstream c))) (Some (conn_host c)) of
          Hello_incomplete \<Rightarrow> (True, s)
        | Hello_rejected _ \<Rightarrow>
            egress_connection_update_watches K slot (egress_connection_fail K slot ERR_DENIED False s)
        | Hello_match \<Rightarrow>
            egress_connection_update_watches K slot (touch K slot
              (on_conn slot (\<lambda>c. c\<lparr>conn_tls_sni_verified := True, conn_state := CONNECTION_RELAY\<rparr>) s)))"

definition address_text :: "egress_address \<Rightarrow> bytes" where
  "address_text a =
     (case addr_storage a of
        Sockaddr_in _ v \<Rightarrow> inet_ntop4 (octet4 v 0) (octet4 v 1) (octet4 v 2) (octet4 v 3)
      | Sockaddr_in6 _ _ v _ \<Rightarrow> inet_ntop6 v
      | Sockaddr_other _ \<Rightarrow> [])"

definition connected_response :: "egress_protocol \<Rightarrow> bytes option" where
  "connected_response protocol =
     (if protocol = PROTOCOL_HTTP_CONNECT then
        Some (http_line ''HTTP/1.1 200 Connection Established'' @ http_line ''Proxy-Agent: maelys-egress'' @ http_line '''')
      else if protocol = PROTOCOL_SOCKS5 then Some [5, 0, 0, 1, 0, 0, 0, 0, 0, 0]
      else None)"

definition tunnel :: "egress_protocol \<Rightarrow> bool" where
  "tunnel protocol \<longleftrightarrow>
     protocol = PROTOCOL_HTTP_CONNECT \<or> protocol = PROTOCOL_SOCKS5 \<or> protocol = PROTOCOL_CONNECTOR"

text \<open>The last part of \<^verbatim>\<open>egress_connection_connected\<close>: the open command of a native stream.\<close>

definition connected_command :: "kernel \<Rightarrow> nat \<Rightarrow> egress_server \<Rightarrow> egress_server" where
  "connected_command K slot s =
     (case open_command (conn s slot) of
        None \<Rightarrow> s
      | Some command \<Rightarrow>
          if conn_state (conn s slot) = CONNECTION_UNUSED then s
          else
            let s = ask (Call_cancelled command) s in
            if k_cancelled K (srv_trace s) then
              egress_connection_close K slot (on_conn slot (\<lambda>c. c\<lparr>conn_result := ERR_CANCELLED\<rparr>) s)
            else
              egress_open_command_complete K (Some command) EGRESS_OK (on_conn slot (\<lambda>c. c\<lparr>open_command := None\<rparr>) s))"

definition connected_identity :: "kernel \<Rightarrow> nat \<Rightarrow> egress_server \<Rightarrow> egress_server" where
  "connected_identity K slot s =
     (let (ok, s) = egress_connection_enforce_tunnel_identity K slot s;
          (ok, s) = (if ok \<and> conn_state (conn s slot) \<noteq> CONNECTION_UNUSED
                     then egress_connection_update_watches K slot s else (ok, s))
      in if ok then connected_command K slot s else egress_connection_close K slot s)"

definition egress_connection_connected :: "kernel \<Rightarrow> nat \<Rightarrow> egress_server \<Rightarrow> egress_server" where
  "egress_connection_connected K slot s =
     (let d = the (conn_destination (conn s slot));
          s = (if 0 < address_index (conn s slot) then
                 on_conn slot (\<lambda>c. c\<lparr>conn_upstream_address := address_text (addresses d ! (address_index c - 1))\<rparr>) s
               else s);
          s = on_conn slot (\<lambda>c. c\<lparr>conn_state := (if tunnel (conn_protocol c) \<and> require_tls_sni d
                then CONNECTION_IDENTITY else CONNECTION_RELAY)\<rparr>) s;
          s = touch K slot s;
          (queued, s) = (case connected_response (conn_protocol (conn s slot)) of
              None \<Rightarrow> (True, s) | Some response \<Rightarrow> queue_to_client slot response s)
      in if \<not> queued then egress_connection_close K slot (on_conn slot (\<lambda>c. c\<lparr>conn_result := ERR_MEMORY\<rparr>) s)
         else connected_identity K slot s)"

text \<open>The loop over the addresses that are left.\<close>

fun connect_loop :: "kernel \<Rightarrow> nat \<Rightarrow> egress_address list \<Rightarrow> egress_server \<Rightarrow> bool \<times> egress_server" where
  "connect_loop K slot [] s =
     egress_connection_update_watches K slot (egress_connection_fail K slot ERR_IO False s)"
| "connect_loop K slot (address # rest) s =
     (let s = on_conn slot (\<lambda>c. c\<lparr>address_index := address_index c + 1\<rparr>) s;
          s = ask (Call_socket (sa_family (addr_storage address))) s;
          (created, upstream) = k_socket K (srv_trace s)
      in if created \<noteq> SYS_OK then connect_loop K slot rest s
         else
           let s = on_conn slot (\<lambda>c. c\<lparr>upstream_socket := Some upstream, upstream_fd := k_fd K upstream\<rparr>) s;
               s = ask (Call_connect upstream address) s;
               (started, state) = k_connect K (srv_trace s)
           in if started = SYS_OK \<and> state = CONNECT_CONNECTED then (True, egress_connection_connected K slot s)
              else if started = SYS_OK then
                egress_connection_update_watches K slot (on_conn slot (\<lambda>c. c\<lparr>conn_state := CONNECTION_CONNECTING\<rparr>) s)
              else connect_loop K slot rest (release_upstream slot s))"

definition egress_connection_connect_next :: "kernel \<Rightarrow> nat \<Rightarrow> egress_server \<Rightarrow> bool \<times> egress_server" where
  "egress_connection_connect_next K slot s =
     (let c = conn s slot in
      connect_loop K slot (drop (address_index c) (addresses (the (conn_destination c)))) s)"

section \<open>Requests\<close>

definition deny_request :: "kernel \<Rightarrow> nat \<Rightarrow> egress_server \<Rightarrow> bool \<times> egress_server" where
  "deny_request K slot s =
     egress_connection_update_watches K slot (egress_connection_fail K slot ERR_DENIED False s)"

text \<open>The identity of the request and the limits of its principal.\<close>

definition request_identity :: "nat \<Rightarrow> proxy_request \<Rightarrow> egress_server \<Rightarrow> egress_server" where
  "request_identity slot request s =
     (let s = on_conn slot (\<lambda>c. c\<lparr>conn_protocol := request_protocol request, conn_port := request_port request,
            conn_host := snprintf_s (EGRESS_MAX_HOST + 1) (request_host request),
            conn_invocation_id := snprintf_s (EGRESS_MAX_INVOCATION_ID + 1) (request_invocation_id request),
            conn_principal_index := request_principal_index request\<rparr>) s
      in if known_principal s (request_principal_index request) then
           let i = the (request_principal_index request); p = principals (srv_config s) ! i in
           on_conn slot (\<lambda>c. c\<lparr>conn_principal := snprintf_s (EGRESS_MAX_USERNAME + 1) (username p),
             quota_bytes := max_bytes_per_connection p, quota_total_bytes := max_bytes_total p,
             quota_total_before := principal_bytes_total s ! i\<rparr>) s
         else s)"

definition too_many_active :: "proxy_request \<Rightarrow> egress_server \<Rightarrow> bool" where
  "too_many_active request s =
     (known_principal s (request_principal_index request) \<and>
      (let i = the (request_principal_index request); p = principals (srv_config s) ! i in
       max_active_connections p \<noteq> 0 \<and> max_active_connections p \<le> principal_active s ! i))"

definition select_destination :: "nat \<Rightarrow> egress_destination \<Rightarrow> egress_server \<Rightarrow> egress_server" where
  "select_destination slot selected s =
     on_conn slot (\<lambda>c. c\<lparr>conn_destination := Some (selected\<lparr>dest_host := conn_host c\<rparr>),
       conn_policy_digest := snprintf_s 65 (digest_hex (srv_policy s)),
       conn_policy_generation := metric_policy_generation (srv_metrics s)\<rparr>) s"

definition admit_request :: "nat \<Rightarrow> proxy_request \<Rightarrow> egress_server \<Rightarrow> egress_server" where
  "admit_request slot request s =
     (let s = (if known_principal s (request_principal_index request) then
                 let i = the (request_principal_index request) in
                 on_conn slot (\<lambda>c. c\<lparr>quota_admitted := True\<rparr>)
                   (s\<lparr>principal_active := (principal_active s)[i := principal_active s ! i + 1]\<rparr>)
               else s)
      in on_metrics (\<lambda>m. m\<lparr>metric_admitted := metric_admitted m + 1\<rparr>) s)"

text \<open>The bytes for the upstream: those of the request, then what the client sent after it.\<close>

definition forward_input :: "proxy_request \<Rightarrow> egress_buffer \<Rightarrow> egress_buffer option" where
  "forward_input request input =
     (let forward = (case forward_bytes request of None \<Rightarrow> [] | Some bs \<Rightarrow> bs) in
      if buf_length input < request_consumed request then None
      else
        let extra_length = buf_length input - request_consumed request in
        if buf_capacity input < length forward + extra_length then None
        else
          let data = (if extra_length \<noteq> 0 then write_at (buf_data input) (length forward)
                  (read_at (buf_data input) (buf_offset input + request_consumed request) extra_length)
                else buf_data input);
              data = (if forward \<noteq> [] then write_at data 0 forward else data)
          in Some (input\<lparr>buf_data := data, buf_offset := 0, buf_length := length forward + extra_length\<rparr>))"

definition charge_request :: "kernel \<Rightarrow> nat \<Rightarrow> egress_server \<Rightarrow> bool \<times> egress_server" where
  "charge_request K slot s =
     (let c = conn s slot; n = (of_nat (buf_length (client_to_upstream c)) :: u64);
          (allowance, scope) = egress_quota_allowance s c
      in if allowance < n \<or> allowance = 0 \<and> (quota_bytes c \<noteq> 0 \<or> quota_total_bytes c \<noteq> 0) then
           deny_request K slot (egress_quota_deny slot scope s)
         else egress_connection_connect_next K slot (egress_quota_charge slot n s))"

definition egress_connection_begin_request :: "kernel \<Rightarrow> nat \<Rightarrow> proxy_request \<Rightarrow> egress_server \<Rightarrow> bool \<times> egress_server" where
  "egress_connection_begin_request K slot request s =
     (let s = request_identity slot request s in
      if too_many_active request s then
        deny_request K slot (on_metrics (\<lambda>m. m\<lparr>metric_quota_denials := metric_quota_denials m + 1\<rparr>)
          (on_conn slot (\<lambda>c. c\<lparr>conn_quota_scope := QUOTA_ACTIVE_CONNECTIONS\<rparr>) s))
      else
        case egress_policy_find (srv_policy s) (Some (request_host request)) (request_port request) of
          None \<Rightarrow> deny_request K slot s
        | Some selected \<Rightarrow>
            let s = select_destination slot selected s in
            if require_tls_sni selected \<and> request_protocol request = PROTOCOL_HTTP_FORWARD then deny_request K slot s
            else
              let s = admit_request slot request s in
              (case forward_input request (client_to_upstream (conn s slot)) of
                 None \<Rightarrow> (False, s)
               | Some input \<Rightarrow> charge_request K slot (on_conn slot (\<lambda>c. c\<lparr>client_to_upstream := input\<rparr>) s)))"

section \<open>The proxy handshake\<close>

definition socks_step :: "kernel \<Rightarrow> nat \<Rightarrow> egress_server \<Rightarrow> socks_outcome \<times> egress_server" where
  "socks_step K slot s =
     (let c = conn s slot;
          out = egress_parse_socks_frame (srv_config s) (conn_socks_phase c)
            (authenticated_invocation_id c, conn_principal_index c) (buffer_content (client_to_upstream c))
      in (out, on_conn slot (\<lambda>c. c\<lparr>conn_socks_phase := socks_phase out,
            authenticated_invocation_id := fst (socks_identity out), conn_principal_index := snd (socks_identity out)\<rparr>) s))"

partial_function (option) parse_socks :: "kernel \<Rightarrow> nat \<Rightarrow> egress_server \<Rightarrow> (bool \<times> egress_server) option" where
  "parse_socks K slot s =
     (let (out, s) = socks_step K slot s in
      if socks_code out = Socks_incomplete then Some (True, s)
      else
        let (queued, s) = (if socks_response out \<noteq> [] then queue_to_client slot (socks_response out) s else (True, s)) in
        if \<not> queued then Some (False, s)
        else if socks_code out = Socks_request then Some (egress_connection_begin_request K slot (socks_request out) s)
        else
          let s = (if socks_consumed out \<noteq> 0 then
                     on_conn slot (\<lambda>c. c\<lparr>client_to_upstream := buffer_consume (client_to_upstream c) (socks_consumed out)\<rparr>) s
                   else s)
          in if socks_code out = Socks_frame then parse_socks K slot s
             else Some (True, on_conn slot (\<lambda>c. c\<lparr>conn_result :=
                    (if socks_code out = Socks_authentication_error then ERR_DENIED else ERR_PROTOCOL),
                    close_after_flush := True\<rparr>) s))"

definition handshake_http :: "kernel \<Rightarrow> nat \<Rightarrow> egress_server \<Rightarrow> bool \<times> egress_server" where
  "handshake_http K slot s =
     (case egress_parse_http_request (k_alloc K (srv_trace s) 0) (k_alloc K (srv_trace s) 1) (srv_config s)
        (buffer_content (client_to_upstream (conn s slot))) of
        Http_incomplete \<Rightarrow> (True, s)
      | Http_protocol_error \<Rightarrow>
          (True, egress_connection_fail K slot ERR_PROTOCOL False
             (on_conn slot (\<lambda>c. c\<lparr>conn_protocol := PROTOCOL_HTTP_CONNECT\<rparr>) s))
      | Http_authentication_error \<Rightarrow>
          (True, egress_connection_fail K slot ERR_DENIED True
             (on_conn slot (\<lambda>c. c\<lparr>conn_protocol := PROTOCOL_HTTP_CONNECT\<rparr>) s))
      | Http_complete request \<Rightarrow> egress_connection_begin_request K slot request s)"

definition egress_connection_process_handshake :: "kernel \<Rightarrow> nat \<Rightarrow> egress_server \<Rightarrow> (bool \<times> egress_server) option" where
  "egress_connection_process_handshake K slot s =
     (let input = client_to_upstream (conn s slot) in
      if buf_length input = 0 then Some (True, s)
      else if conn_protocol (conn s slot) = PROTOCOL_SOCKS5 \<or> buf_data input ! buf_offset input = 5 then
        (case parse_socks K slot (on_conn slot (\<lambda>c. c\<lparr>conn_protocol := PROTOCOL_SOCKS5\<rparr>) s) of
           None \<Rightarrow> None
         | Some (parsed, s) \<Rightarrow>
             if \<not> parsed \<and> conn_state (conn s slot) \<noteq> CONNECTION_UNUSED
             then Some (parsed, egress_connection_fail K slot ERR_PROTOCOL False s)
             else Some (parsed, s))
      else Some (handshake_http K slot s))"

section \<open>Accepting clients\<close>

definition egress_listener_unix_peer_allowed :: "kernel \<Rightarrow> int \<Rightarrow> egress_server \<Rightarrow> bool \<times> egress_server" where
  "egress_listener_unix_peer_allowed K client s =
     (if \<not> listen_unix (srv_config s) \<or> unix_peer_policy (srv_config s) = UNIX_PEER_AUTHENTICATED then (True, s)
      else let s = ask (Call_peer client) s in (k_peer K (srv_trace s), s))"

definition tls_interest :: "tls_step \<Rightarrow> flag set" where
  "tls_interest step = (if step = TLS_WANT_READ then {FLAG_READ} else if step = TLS_WANT_WRITE then {FLAG_WRITE} else {})"

definition egress_relay_advance_tls_handshake :: "kernel \<Rightarrow> nat \<Rightarrow> egress_server \<Rightarrow> bool \<times> egress_server" where
  "egress_relay_advance_tls_handshake K slot s =
     (let s = ask (Call_tls_handshake (tls_session (conn s slot))) s;
          step = k_tls_step K (srv_trace s);
          s = on_conn slot (\<lambda>c. c\<lparr>tls_handshake_interest := tls_interest step\<rparr>) s
      in if step = TLS_COMPLETE then
           (True, on_conn slot (\<lambda>c. c\<lparr>conn_state := CONNECTION_HANDSHAKE, tls_handshake_interest := {}\<rparr>) s)
         else
           let wants = (step = TLS_WANT_READ \<or> step = TLS_WANT_WRITE) in
           (wants, if wants then s else on_conn slot (\<lambda>c. c\<lparr>conn_result := ERR_CRYPTO\<rparr>) s))"

text \<open>The first free slot, or \<open>max_connections\<close>.\<close>

definition free_slot :: "egress_server \<Rightarrow> nat" where
  "free_slot s = length (takeWhile (\<lambda>c. conn_state c \<noteq> CONNECTION_UNUSED) (connections s))"

definition allocate_buffer :: "kernel \<Rightarrow> egress_server \<Rightarrow> bool \<times> egress_buffer \<times> egress_server" where
  "allocate_buffer K s =
     (let s = ask (Call_malloc (buffer_bytes (srv_config s))) s; block = k_block K (srv_trace s) in
      (block \<noteq> None, \<lparr>buf_data = (case block of None \<Rightarrow> [] | Some bs \<Rightarrow> bs), buf_capacity = buffer_bytes (srv_config s),
         buf_offset = 0, buf_length = 0\<rparr>, s))"

text \<open>The part that accepted clients and native streams share: a connection in a free slot.\<close>

definition open_slot ::
  "kernel \<Rightarrow> nat \<Rightarrow> (egress_connection \<Rightarrow> egress_connection) \<Rightarrow> egress_server \<Rightarrow> bool \<times> egress_server" where
  "open_slot K slot setup s =
     (let s = s\<lparr>next_id := next_id s + 1\<rparr>;
          s = on_conn slot (\<lambda>_. setup (connection_zero\<lparr>conn_generation := next_id s, upstream_fd := - 1\<rparr>)) s;
          (ok1, input, s) = allocate_buffer K s;
          (ok2, output, s) = allocate_buffer K s;
          (mono, s) = monotonic_now K s;
          (wall, s) = wall_now K s;
          s = on_conn slot (\<lambda>c. c\<lparr>client_to_upstream := input, upstream_to_client := output, started_mono_ms := mono,
                conn_started_unix_ms := wall, last_activity_ms := mono,
                handshake_deadline_ms := add_saturating mono (handshake_timeout_ms (srv_config s))\<rparr>) s
      in (ok1 \<and> ok2, s))"

definition start_tls :: "kernel \<Rightarrow> nat \<Rightarrow> egress_server \<Rightarrow> egress_server" where
  "start_tls K slot s =
     (if config_tls_provider (srv_config s) = None then s
      else
        let s = ask (Call_tls_create (client_fd (conn s slot))) s;
            (result, session) = k_tls_create K (srv_trace s)
        in if result = EGRESS_OK then
             let (ok, s) = egress_relay_advance_tls_handshake K slot (on_conn slot (\<lambda>c. c\<lparr>tls_session := session\<rparr>) s) in
             if ok then s else on_conn slot (\<lambda>c. c\<lparr>conn_result := ERR_CRYPTO\<rparr>) s
           else on_conn slot (\<lambda>c. c\<lparr>conn_result := result\<rparr>) s)"

definition accept_client :: "kernel \<Rightarrow> nat \<Rightarrow> nat \<Rightarrow> egress_server \<Rightarrow> egress_server" where
  "accept_client K client slot s =
     (let (allocated, s) = open_slot K slot (\<lambda>c. c\<lparr>
            conn_state := (if config_tls_provider (srv_config s) \<noteq> None then CONNECTION_TLS_HANDSHAKE else CONNECTION_HANDSHAKE),
            client_socket := Some client, client_fd := k_fd K client, conn_principal_index := None\<rparr>) s;
          s = on_conn slot (\<lambda>c. c\<lparr>conn_policy_digest := snprintf_s 65 (digest_hex (srv_policy s)),
            conn_policy_generation := metric_policy_generation (srv_metrics s)\<rparr>) s;
          s = on_metrics (\<lambda>m. m\<lparr>metric_active := metric_active m + 1\<rparr>) (s\<lparr>connection_count := connection_count s + 1\<rparr>);
          s = start_tls K slot s;
          c = conn s slot;
          (ok, s) = (if \<not> allocated \<or> config_tls_provider (srv_config s) \<noteq> None \<and> tls_session c = None \<or>
              conn_result c \<noteq> EGRESS_OK then (False, s)
            else egress_connection_update_watches K slot s)
      in if ok then s
         else egress_connection_close K slot
           (on_conn slot (\<lambda>c. c\<lparr>conn_result := (if conn_result c = EGRESS_OK then ERR_MEMORY else conn_result c)\<rparr>) s))"

text \<open>One round of the loop, once a client is accepted.\<close>

definition accept_round :: "kernel \<Rightarrow> nat \<Rightarrow> egress_server \<Rightarrow> egress_server" where
  "accept_round K client s =
     (let (allowed, s) = egress_listener_unix_peer_allowed K (k_fd K client) s in
      if \<not> allowed then ask (Call_release (Some client)) s
      else
        let s = on_metrics (\<lambda>m. m\<lparr>metric_accepted := metric_accepted m + 1\<rparr>) s in
        if max_connections (srv_config s) \<le> connection_count s then ask (Call_release (Some client)) s
        else
          let slot = free_slot s in
          if slot = max_connections (srv_config s) then ask (Call_release (Some client)) s
          else accept_client K client slot s)"

partial_function (option) egress_connection_accept_all :: "kernel \<Rightarrow> egress_server \<Rightarrow> egress_server option" where
  "egress_connection_accept_all K s =
     (let s = ask (Call_accept (listener_socket s)) s; (result, client) = k_socket K (srv_trace s) in
      if result \<noteq> SYS_OK then Some s else egress_connection_accept_all K (accept_round K client s))"

end
