(* ===== verification/Egress_Relay.thy ===== *)
theory Egress_Relay
  imports Egress_Connection
begin

text \<open>
  \<^verbatim>\<open>src/src/server/relay.c\<close>: the data plane. The flag \<^verbatim>\<open>made_progress\<close> is passed in and out, since a call that
  finds no allowance leaves it as it was. On the platforms of the server \<^verbatim>\<open>size_t\<close> has 64 bits, so an
  allowance and a size have the same range.
\<close>

section \<open>Reading\<close>

record read_outcome =
  read_ok :: bool
  read_progress :: bool
  read_buffer :: egress_buffer
  read_count :: u64
  read_eof :: bool

definition store_received :: "egress_buffer \<Rightarrow> bytes \<Rightarrow> egress_buffer" where
  "store_received b bs = b\<lparr>buf_data := write_at (buf_data b) (buf_offset b + buf_length b) bs,
     buf_length := buf_length b + length bs\<rparr>"

definition read_into :: "kernel \<Rightarrow> pointer \<Rightarrow> egress_buffer \<Rightarrow> nat \<Rightarrow> egress_server \<Rightarrow> read_outcome \<times> egress_server" where
  "read_into K socket b maximum s =
     (let out = \<lparr>read_ok = True, read_progress = False, read_buffer = b, read_count = 0, read_eof = False\<rparr> in
      case socket of
        None \<Rightarrow> (out\<lparr>read_ok := False\<rparr>, s)
      | Some handle \<Rightarrow>
          let (available, b) = buffer_available b;
              out = out\<lparr>read_buffer := b\<rparr>;
              available = (if maximum < available then maximum else available)
          in if available = 0 then (out, s)
             else
               let s = ask (Call_receive handle available) s; (result, received) = k_receive K (srv_trace s) in
               if result = SYS_OK then
                 (out\<lparr>read_progress := True, read_buffer := store_received b received,
                    read_count := of_nat (length received)\<rparr>, s)
               else if result = SYS_ERR_CLOSED then (out\<lparr>read_progress := True, read_eof := True\<rparr>, s)
               else (out\<lparr>read_ok := (result = SYS_ERR_WOULD_BLOCK)\<rparr>, s))"

definition in_handshake :: "egress_connection \<Rightarrow> bool" where
  "in_handshake c \<longleftrightarrow> conn_state c = CONNECTION_HANDSHAKE \<or> conn_state c = CONNECTION_TLS_HANDSHAKE"

definition charge_payload :: "nat \<Rightarrow> u64 \<Rightarrow> egress_server \<Rightarrow> egress_server" where
  "charge_payload slot amount s = (if in_handshake (conn s slot) then s else egress_quota_charge slot amount s)"

text \<open>A read from a client without TLS, and one through a TLS session.\<close>

definition read_plain_client :: "kernel \<Rightarrow> nat \<Rightarrow> nat \<Rightarrow> egress_server \<Rightarrow> bool \<times> bool \<times> egress_server" where
  "read_plain_client K slot maximum s =
     (let c = conn s slot;
          (out, s) = read_into K (client_socket c) (client_to_upstream c) maximum s;
          s = on_conn slot (\<lambda>c. c\<lparr>client_to_upstream := read_buffer out,
                conn_bytes_from_client := conn_bytes_from_client c + read_count out,
                client_eof := (client_eof c \<or> read_eof out)\<rparr>) s
      in (read_ok out, read_progress out, if read_ok out then charge_payload slot (read_count out) s else s))"

definition read_tls_client :: "kernel \<Rightarrow> nat \<Rightarrow> nat \<Rightarrow> egress_server \<Rightarrow> bool \<times> bool \<times> egress_server" where
  "read_tls_client K slot maximum s =
     (let (available, b) = buffer_available (client_to_upstream (conn s slot));
          s = on_conn slot (\<lambda>c. c\<lparr>client_to_upstream := b\<rparr>) s;
          available = (if maximum < available then maximum else available)
      in if available = 0 then (True, False, s)
         else
           let s = ask (Call_tls_read (tls_session (conn s slot)) available) s;
               (step, received) = k_tls_read K (srv_trace s);
               s = on_conn slot (\<lambda>c. c\<lparr>tls_read_interest := tls_interest step\<rparr>) s
           in if step = TLS_COMPLETE \<and> received \<noteq> [] then
                let s = on_conn slot (\<lambda>c. c\<lparr>client_to_upstream := store_received (client_to_upstream c) received,
                      conn_bytes_from_client := conn_bytes_from_client c + of_nat (length received)\<rparr>) s;
                    s = charge_payload slot (of_nat (length received)) s
                in (True, True, on_conn slot (\<lambda>c. c\<lparr>tls_read_interest := {}\<rparr>) s)
              else if step = TLS_CLOSED then
                (True, True, on_conn slot (\<lambda>c. c\<lparr>client_eof := True, tls_read_interest := {}\<rparr>) s)
              else
                (step = TLS_WANT_READ \<or> step = TLS_WANT_WRITE, False,
                 if step = TLS_FAILED then on_conn slot (\<lambda>c. c\<lparr>conn_result := ERR_CRYPTO\<rparr>) s else s))"

definition exhaust_quota :: "nat \<Rightarrow> quota_scope \<Rightarrow> egress_server \<Rightarrow> egress_server" where
  "exhaust_quota slot scope s = on_conn slot (\<lambda>c. c\<lparr>quota_exhausted := True\<rparr>) (egress_quota_deny slot scope s)"

definition read_from_client :: "kernel \<Rightarrow> nat \<Rightarrow> bool \<Rightarrow> egress_server \<Rightarrow> bool \<times> bool \<times> egress_server" where
  "read_from_client K slot progress s =
     (let c = conn s slot;
          (allowance, scope) = (if in_handshake c then (- 1, QUOTA_NONE) else egress_quota_allowance s c)
      in if allowance = 0 then (True, progress, exhaust_quota slot scope s)
         else if tls_session c = None then read_plain_client K slot (unat allowance) s
         else read_tls_client K slot (unat allowance) s)"

section \<open>Writing\<close>

record write_outcome =
  write_ok :: bool
  write_progress :: bool
  write_buffer :: egress_buffer
  write_count :: u64

definition write_from :: "kernel \<Rightarrow> pointer \<Rightarrow> egress_buffer \<Rightarrow> nat \<Rightarrow> egress_server \<Rightarrow> write_outcome \<times> egress_server" where
  "write_from K socket b maximum s =
     (let out = \<lparr>write_ok = True, write_progress = False, write_buffer = b, write_count = 0\<rparr> in
      if buf_length b = 0 then (out, s)
      else
        let requested = (if buf_length b < maximum then buf_length b else maximum) in
        case socket of
          None \<Rightarrow> (out\<lparr>write_ok := False\<rparr>, s)
        | Some handle \<Rightarrow>
            if requested = 0 then (out\<lparr>write_ok := False\<rparr>, s)
            else
              let s = ask (Call_send handle (read_at (buf_data b) (buf_offset b) requested)) s;
                  (result, written) = k_send K (srv_trace s)
              in if result = SYS_OK then
                   (out\<lparr>write_progress := (written \<noteq> 0), write_buffer := buffer_consume b written,
                      write_count := of_nat written\<rparr>, s)
                 else (out\<lparr>write_ok := (result = SYS_ERR_WOULD_BLOCK)\<rparr>, s))"

text \<open>Bytes of the server itself are exempt from the quota; all others are charged.\<close>

definition charge_written :: "nat \<Rightarrow> u64 \<Rightarrow> egress_server \<Rightarrow> egress_server" where
  "charge_written slot written s =
     (if quota_client_exempt_bytes (conn s slot) \<noteq> 0
      then on_conn slot (\<lambda>c. c\<lparr>quota_client_exempt_bytes := quota_client_exempt_bytes c - written\<rparr>) s
      else egress_quota_charge slot written s)"

definition write_plain_client :: "kernel \<Rightarrow> nat \<Rightarrow> nat \<Rightarrow> egress_server \<Rightarrow> bool \<times> bool \<times> egress_server" where
  "write_plain_client K slot maximum s =
     (let c = conn s slot;
          (out, s) = write_from K (client_socket c) (upstream_to_client c) maximum s;
          s = on_conn slot (\<lambda>c. c\<lparr>upstream_to_client := write_buffer out,
                conn_bytes_to_client := conn_bytes_to_client c + write_count out\<rparr>) s
      in (write_ok out, write_progress out,
          if write_ok out \<and> write_count out \<noteq> 0 then charge_written slot (write_count out) s else s))"

definition write_tls_client :: "kernel \<Rightarrow> nat \<Rightarrow> nat \<Rightarrow> egress_server \<Rightarrow> bool \<times> bool \<times> egress_server" where
  "write_tls_client K slot maximum s =
     (let b = upstream_to_client (conn s slot) in
      if buf_length b = 0 then (True, False, s)
      else
        let requested = (if buf_length b < maximum then buf_length b else maximum);
            s = ask (Call_tls_write (tls_session (conn s slot)) (read_at (buf_data b) (buf_offset b) requested)) s;
            (step, written) = k_tls_write K (srv_trace s);
            s = on_conn slot (\<lambda>c. c\<lparr>tls_write_interest := tls_interest step\<rparr>) s
        in if step = TLS_COMPLETE \<and> written \<noteq> 0 then
             let s = on_conn slot (\<lambda>c. c\<lparr>upstream_to_client := buffer_consume b written,
                   conn_bytes_to_client := conn_bytes_to_client c + of_nat written\<rparr>) s;
                 s = charge_written slot (of_nat written) s
             in (True, True, on_conn slot (\<lambda>c. c\<lparr>tls_write_interest := {}\<rparr>) s)
           else
             (step = TLS_WANT_READ \<or> step = TLS_WANT_WRITE, False,
              if step = TLS_FAILED then on_conn slot (\<lambda>c. c\<lparr>conn_result := ERR_CRYPTO\<rparr>) s else s))"

definition write_to_client :: "kernel \<Rightarrow> nat \<Rightarrow> bool \<Rightarrow> egress_server \<Rightarrow> bool \<times> bool \<times> egress_server" where
  "write_to_client K slot progress s =
     (let c = conn s slot; exempt = quota_client_exempt_bytes c;
          (allowance, scope) = (if exempt \<noteq> 0 then (exempt, QUOTA_NONE) else egress_quota_allowance s c)
      in if allowance = 0 then (True, progress, exhaust_quota slot scope s)
         else if tls_session c = None then write_plain_client K slot (unat allowance) s
         else write_tls_client K slot (unat allowance) s)"

section \<open>Half-close and completion\<close>

definition shutdown_upstream :: "nat \<Rightarrow> egress_server \<Rightarrow> egress_server" where
  "shutdown_upstream slot s =
     (let c = conn s slot in
      if client_eof c \<and> buf_length (client_to_upstream c) = 0 \<and> upstream_socket c \<noteq> None \<and> \<not> upstream_write_shutdown c
      then on_conn slot (\<lambda>c. c\<lparr>upstream_write_shutdown := True\<rparr>) (ask (Call_shutdown (the (upstream_socket c))) s)
      else s)"

definition shutdown_client :: "kernel \<Rightarrow> nat \<Rightarrow> egress_server \<Rightarrow> bool \<times> egress_server" where
  "shutdown_client K slot s =
     (let c = conn s slot in
      if upstream_eof c \<and> buf_length (upstream_to_client c) = 0 \<and> client_socket c \<noteq> None \<and> \<not> client_write_shutdown c then
        if tls_session c = None then
          (True, on_conn slot (\<lambda>c. c\<lparr>client_write_shutdown := True\<rparr>) (ask (Call_shutdown (the (client_socket c))) s))
        else
          let s = ask (Call_tls_shutdown (tls_session c)) s;
              step = k_tls_step K (srv_trace s);
              s = on_conn slot (\<lambda>c. c\<lparr>tls_shutdown_interest := tls_interest step\<rparr>) s
          in if step = TLS_COMPLETE \<or> step = TLS_CLOSED then
               (True, on_conn slot (\<lambda>c. c\<lparr>client_write_shutdown := True, tls_shutdown_interest := {}\<rparr>) s)
             else if step \<noteq> TLS_WANT_READ \<and> step \<noteq> TLS_WANT_WRITE then
               (False, on_conn slot (\<lambda>c. c\<lparr>conn_result := ERR_CRYPTO\<rparr>) s)
             else (True, s)
      else (True, s))"

definition apply_half_closes :: "kernel \<Rightarrow> nat \<Rightarrow> egress_server \<Rightarrow> bool \<times> egress_server" where
  "apply_half_closes K slot s = shutdown_client K slot (shutdown_upstream slot s)"

definition connection_complete :: "egress_connection \<Rightarrow> bool" where
  "connection_complete c =
     (if close_after_flush c then buf_length (upstream_to_client c) = 0
      else conn_state c = CONNECTION_RELAY \<and> client_eof c \<and> upstream_eof c \<and>
        buf_length (client_to_upstream c) = 0 \<and> buf_length (upstream_to_client c) = 0)"

section \<open>Events\<close>

text \<open>A step of the dispatcher: an early return, or the value of \<^verbatim>\<open>ok\<close> and the server.\<close>

datatype relay_step = Relay_return egress_server | Relay_continue bool egress_server

definition peer_hup :: "nat \<Rightarrow> u64 \<Rightarrow> flag set \<Rightarrow> egress_server \<Rightarrow> flag set \<times> egress_server" where
  "peer_hup slot side flags s =
     (if FLAG_HUP \<in> flags \<and> FLAG_READ \<notin> flags \<and> FLAG_ERROR \<notin> flags then
        (insert FLAG_READ flags,
         if side = TOKEN_SIDE_CLIENT then on_conn slot (\<lambda>c. c\<lparr>client_hup := True\<rparr>) s
         else if conn_state (conn s slot) \<noteq> CONNECTION_CONNECTING then on_conn slot (\<lambda>c. c\<lparr>upstream_hup := True\<rparr>) s
         else s)
      else (flags, s))"

definition touch_if :: "kernel \<Rightarrow> nat \<Rightarrow> bool \<Rightarrow> egress_server \<Rightarrow> egress_server" where
  "touch_if K slot moved s = (if moved then touch K slot s else s)"

definition client_input :: "kernel \<Rightarrow> nat \<Rightarrow> egress_server \<Rightarrow> (bool \<times> relay_step) option" where
  "client_input K slot s =
     (let (ok, progress, s) = read_from_client K slot False s;
          s = touch_if K slot (ok \<and> progress) s;
          following = (if ok \<and> conn_state (conn s slot) = CONNECTION_HANDSHAKE then egress_connection_process_handshake K slot s
                  else if ok \<and> conn_state (conn s slot) = CONNECTION_IDENTITY
                  then Some (egress_connection_enforce_tunnel_identity K slot s)
                  else Some (ok, s));
          checked = (ok \<and> (conn_state (conn s slot) = CONNECTION_HANDSHAKE \<or> conn_state (conn s slot) = CONNECTION_IDENTITY))
      in case following of
           None \<Rightarrow> None
         | Some (ok, s) \<Rightarrow>
             if checked \<and> conn_state (conn s slot) = CONNECTION_UNUSED then Some (progress, Relay_return s)
             else Some (progress, Relay_continue ok s))"

definition client_output :: "kernel \<Rightarrow> nat \<Rightarrow> flag set \<Rightarrow> bool \<Rightarrow> bool \<Rightarrow> egress_server \<Rightarrow> bool \<times> egress_server" where
  "client_output K slot flags progress ok s =
     (let c = conn s slot;
          (ok, s) = (if ok \<and> conn_state c \<noteq> CONNECTION_TLS_HANDSHAKE \<and> buf_length (upstream_to_client c) \<noteq> 0 \<and>
              flags \<inter> client_write_interest c \<noteq> {} then
              let (ok, progress, s) = write_to_client K slot progress s in (ok, touch_if K slot (ok \<and> progress) s)
            else (ok, s))
      in (ok, if FLAG_ERROR \<in> flags \<and> FLAG_READ \<notin> flags then on_conn slot (\<lambda>c. c\<lparr>client_eof := True\<rparr>) s else s))"

definition client_event :: "kernel \<Rightarrow> nat \<Rightarrow> flag set \<Rightarrow> egress_server \<Rightarrow> relay_step option" where
  "client_event K slot flags s =
     (let c = conn s slot;
          first = (if conn_state c = CONNECTION_TLS_HANDSHAKE \<and> flags \<inter> tls_handshake_interest c \<noteq> {} then
                     let (ok, s) = egress_relay_advance_tls_handshake K slot s in Some (False, Relay_continue ok s)
                   else if flags \<inter> client_read_interest c \<noteq> {} \<and> \<not> close_after_flush c then client_input K slot s
                   else Some (False, Relay_continue True s))
      in case first of
           None \<Rightarrow> None
         | Some (_, Relay_return s) \<Rightarrow> Some (Relay_return s)
         | Some (progress, Relay_continue ok s) \<Rightarrow>
             let (ok, s) = client_output K slot flags progress ok s in Some (Relay_continue ok s))"

definition upstream_input :: "kernel \<Rightarrow> nat \<Rightarrow> egress_server \<Rightarrow> bool \<times> egress_server" where
  "upstream_input K slot s =
     (let c = conn s slot;
          (out, s) = read_into K (upstream_socket c) (upstream_to_client c) (2 ^ 64 - 1) s;
          s = on_conn slot (\<lambda>c. c\<lparr>upstream_to_client := read_buffer out, upstream_eof := (upstream_eof c \<or> read_eof out)\<rparr>) s
      in (read_ok out, touch_if K slot (read_ok out \<and> read_progress out) s))"

definition upstream_output :: "kernel \<Rightarrow> nat \<Rightarrow> egress_server \<Rightarrow> bool \<times> egress_server" where
  "upstream_output K slot s =
     (let c = conn s slot;
          (out, s) = write_from K (upstream_socket c) (client_to_upstream c) (2 ^ 64 - 1) s;
          s = on_conn slot (\<lambda>c. c\<lparr>client_to_upstream := write_buffer out\<rparr>) s
      in (write_ok out, touch_if K slot (write_ok out \<and> write_progress out) s))"

definition upstream_connecting :: "kernel \<Rightarrow> nat \<Rightarrow> egress_server \<Rightarrow> relay_step" where
  "upstream_connecting K slot s =
     (let s = ask (Call_connect_complete (upstream_socket (conn s slot))) s in
      if k_result K (srv_trace s) = SYS_OK then
        let s = egress_connection_connected K slot s in
        if conn_state (conn s slot) = CONNECTION_UNUSED then Relay_return s else Relay_continue True s
      else
        let s = ask (Call_unwatch (upstream_watch (conn s slot))) s;
            s = on_conn slot (\<lambda>c. c\<lparr>upstream_watch := 0\<rparr>) s;
            (ok, s) = egress_connection_connect_next K slot (release_upstream slot s)
        in Relay_continue ok s)"

definition upstream_event :: "kernel \<Rightarrow> nat \<Rightarrow> flag set \<Rightarrow> egress_server \<Rightarrow> relay_step" where
  "upstream_event K slot flags s =
     (let state = conn_state (conn s slot) in
      if state = CONNECTION_CONNECTING \<and> flags \<inter> {FLAG_WRITE, FLAG_ERROR, FLAG_HUP} \<noteq> {} then upstream_connecting K slot s
      else if state = CONNECTION_RELAY then
        let (ok, s) = (if FLAG_READ \<in> flags then upstream_input K slot s else (True, s));
            (ok, s) = (if ok \<and> FLAG_WRITE \<in> flags then upstream_output K slot s else (ok, s))
        in Relay_continue ok
             (if FLAG_ERROR \<in> flags \<and> FLAG_READ \<notin> flags then on_conn slot (\<lambda>c. c\<lparr>upstream_eof := True\<rparr>) s else s)
      else Relay_continue True s)"

text \<open>What follows every event.\<close>

definition close_failed :: "kernel \<Rightarrow> nat \<Rightarrow> egress_server \<Rightarrow> egress_server" where
  "close_failed K slot s =
     egress_connection_close K slot
       (on_conn slot (\<lambda>c. c\<lparr>conn_result := (if conn_result c = EGRESS_OK then ERR_IO else conn_result c)\<rparr>) s)"

definition check_quota :: "nat \<Rightarrow> egress_server \<Rightarrow> egress_server" where
  "check_quota slot s =
     (if quota_admitted (conn s slot) then
        let (allowance, scope) = egress_quota_allowance s (conn s slot) in
        if allowance = 0 \<and> scope \<noteq> QUOTA_NONE then exhaust_quota slot scope s else s
      else s)"

definition relay_finish :: "kernel \<Rightarrow> nat \<Rightarrow> bool \<Rightarrow> egress_server \<Rightarrow> egress_server" where
  "relay_finish K slot ok s =
     (if \<not> ok then close_failed K slot s
      else
        let s = check_quota slot s; c = conn s slot in
        if quota_exhausted c \<and> buf_length (client_to_upstream c) = 0 then egress_connection_close K slot s
        else
          let (ok, s) = apply_half_closes K slot s in
          if \<not> ok then close_failed K slot s
          else if connection_complete (conn s slot) then egress_connection_close K slot s
          else
            let (ok, s) = egress_connection_update_watches K slot s in
            if ok then s
            else egress_connection_close K slot (on_conn slot (\<lambda>c. c\<lparr>conn_result := ERR_IO\<rparr>) s))"

definition egress_relay_dispatch :: "kernel \<Rightarrow> nat \<Rightarrow> u64 \<Rightarrow> flag set \<Rightarrow> egress_server \<Rightarrow> egress_server option" where
  "egress_relay_dispatch K slot side flags s =
     (let (flags, s) = peer_hup slot side flags s;
          step = (if side = TOKEN_SIDE_CLIENT then client_event K slot flags s
                  else if side = TOKEN_SIDE_UPSTREAM then Some (upstream_event K slot flags s)
                  else Some (Relay_continue True s))
      in case step of
           None \<Rightarrow> None
         | Some (Relay_return s) \<Rightarrow> Some s
         | Some (Relay_continue ok s) \<Rightarrow> Some (relay_finish K slot ok s))"

end
