(* ===== verification/Egress_Lifecycle.thy ===== *)
theory Egress_Lifecycle
  imports Egress_Relay
begin

text \<open>
  The life of a connection as an abstract step relation. A step of \<open>life\<close> is one atomic change that a
  connection may cause; the operations of \<^verbatim>\<open>connection.c\<close> and \<^verbatim>\<open>relay.c\<close> are sequences of such steps, so what
  every step preserves, every operation preserves.
\<close>

section \<open>The steps\<close>

text \<open>The part of a connection that only the steps named below may change.\<close>

definition same_core :: "egress_connection \<Rightarrow> egress_connection \<Rightarrow> bool" where
  "same_core c c' \<longleftrightarrow>
     conn_state c' = conn_state c \<and> conn_destination c' = conn_destination c \<and> quota_admitted c' = quota_admitted c \<and>
     quota_bytes c' = quota_bytes c \<and> quota_total_bytes c' = quota_total_bytes c \<and>
     quota_stream_used c' = quota_stream_used c \<and> conn_tls_sni_verified c' = conn_tls_sni_verified c \<and>
     (quota_admitted c \<longrightarrow> conn_principal_index c' = conn_principal_index c) \<and>
     (conn_destination c \<noteq> None \<longrightarrow> conn_protocol c' = conn_protocol c) \<and>
     (buffer_wf (client_to_upstream c) \<longrightarrow> buffer_wf (client_to_upstream c')) \<and>
     (buffer_wf (upstream_to_client c) \<longrightarrow> buffer_wf (upstream_to_client c'))"

text \<open>A destination that asks for a TLS server name is reached through a tunnel only.\<close>

definition reachable_by :: "egress_connection \<Rightarrow> bool" where
  "reachable_by c \<longleftrightarrow> (case conn_destination c of None \<Rightarrow> False | Some d \<Rightarrow> require_tls_sni d \<longrightarrow> tunnel (conn_protocol c))"

definition same_counters :: "egress_metrics \<Rightarrow> egress_metrics \<Rightarrow> bool" where
  "same_counters m m' \<longleftrightarrow> metric_receipts m' = metric_receipts m \<and> metric_active m' = metric_active m"

fun plain_call :: "sys_call \<Rightarrow> bool" where
  "plain_call (Call_connect _ _) = False"
| "plain_call _ = True"

definition may_open :: "connection_state \<Rightarrow> bool" where
  "may_open st \<longleftrightarrow> st = CONNECTION_HANDSHAKE \<or> st = CONNECTION_CONNECTING"

inductive life :: "kernel \<Rightarrow> nat \<Rightarrow> egress_server \<Rightarrow> egress_server \<Rightarrow> bool" for K slot where
  call: "plain_call x \<Longrightarrow> life K slot s (ask x s)"
| connect: "conn_destination (conn s slot) = Some d \<Longrightarrow> a \<in> set (addresses d) \<Longrightarrow> life K slot s (ask (Call_connect h a) s)"
| metrics: "same_counters (srv_metrics s) (f (srv_metrics s)) \<Longrightarrow> life K slot s (on_metrics f s)"
| commands: "dom (open_commands s) \<subseteq> dom m \<Longrightarrow> life K slot s (s\<lparr>open_commands := m\<rparr>)"
| update: "same_core (conn s slot) (f (conn s slot)) \<Longrightarrow> life K slot s (on_conn slot f s)"
| charge: "amount \<le> fst (egress_quota_allowance s (conn s slot)) \<Longrightarrow> life K slot s (egress_quota_charge slot amount s)"
| identify: "conn_state (conn s slot) = CONNECTION_HANDSHAKE \<Longrightarrow> \<not> quota_admitted (conn s slot) \<Longrightarrow>
    conn_destination (conn s slot) = None \<Longrightarrow>
    life K slot s (request_identity slot r s)"
| select: "conn_state (conn s slot) = CONNECTION_HANDSHAKE \<Longrightarrow>
    egress_policy_find (srv_policy s) (Some h) p = Some d \<Longrightarrow> life K slot s (select_destination slot d s)"
| admit: "conn_state (conn s slot) = CONNECTION_HANDSHAKE \<Longrightarrow> \<not> quota_admitted (conn s slot) \<Longrightarrow>
    quota_stream_used (conn s slot) = 0 \<Longrightarrow> conn_principal_index (conn s slot) = request_principal_index r \<Longrightarrow>
    (known_principal s (request_principal_index r) \<Longrightarrow>
      quota_bytes (conn s slot) = max_bytes_per_connection (principals (srv_config s) ! the (request_principal_index r)) \<and>
      quota_total_bytes (conn s slot) = max_bytes_total (principals (srv_config s) ! the (request_principal_index r))) \<Longrightarrow>
    \<not> too_many_active r s \<Longrightarrow> life K slot s (admit_request slot r s)"
| secured: "conn_state (conn s slot) = CONNECTION_TLS_HANDSHAKE \<Longrightarrow>
    life K slot s (on_conn slot (\<lambda>c. c\<lparr>conn_state := CONNECTION_HANDSHAKE, tls_handshake_interest := {}\<rparr>) s)"
| connecting: "may_open (conn_state (conn s slot)) \<Longrightarrow> reachable_by (conn s slot) \<Longrightarrow>
    life K slot s (on_conn slot (\<lambda>c. c\<lparr>conn_state := CONNECTION_CONNECTING\<rparr>) s)"
| guarded: "may_open (conn_state (conn s slot)) \<Longrightarrow> reachable_by (conn s slot) \<Longrightarrow>
    life K slot s (on_conn slot (\<lambda>c. c\<lparr>conn_state := CONNECTION_IDENTITY\<rparr>) s)"
| relayed: "may_open (conn_state (conn s slot)) \<Longrightarrow> conn_destination (conn s slot) = Some d \<Longrightarrow> \<not> require_tls_sni d \<Longrightarrow>
    life K slot s (on_conn slot (\<lambda>c. c\<lparr>conn_state := CONNECTION_RELAY\<rparr>) s)"
| verified: "conn_state (conn s slot) = CONNECTION_IDENTITY \<Longrightarrow>
    egress_tls_client_hello_matches (Some (buffer_content (client_to_upstream (conn s slot)))) (Some (conn_host (conn s slot))) =
      Hello_match \<Longrightarrow>
    life K slot s (on_conn slot (\<lambda>c. c\<lparr>conn_tls_sni_verified := True, conn_state := CONNECTION_RELAY\<rparr>) s)"
| close: "life K slot s (egress_connection_close K slot s)"

abbreviation lives :: "kernel \<Rightarrow> nat \<Rightarrow> egress_server \<Rightarrow> egress_server \<Rightarrow> bool" where
  "lives K slot \<equiv> (life K slot)\<^sup>*\<^sup>*"

section \<open>Frames\<close>

lemma conn_simps [simp]:
  "connections (ask x s) = connections s" "connections (on_metrics g s) = connections s"
  "conn (ask x s) i = conn s i" "conn (on_metrics g s) i = conn s i" "conn (s\<lparr>open_commands := m\<rparr>) i = conn s i"
  "length (connections (on_conn slot f s)) = length (connections s)"
  "i \<noteq> slot \<Longrightarrow> conn (on_conn slot f s) i = conn s i"
  "slot < length (connections s) \<Longrightarrow> conn (on_conn slot f s) slot = f (conn s slot)"
  by (simp_all add: ask_def on_metrics_def on_conn_def conn_def)

text \<open>The rest of the server, which a change of a connection or of a counter leaves alone.\<close>

lemma rest_simps [simp]:
  "srv_config (ask x s) = srv_config s" "srv_config (on_metrics g s) = srv_config s" "srv_config (on_conn slot f s) = srv_config s"
  "srv_policy (ask x s) = srv_policy s" "srv_policy (on_metrics g s) = srv_policy s" "srv_policy (on_conn slot f s) = srv_policy s"
  "srv_metrics (ask x s) = srv_metrics s" "srv_metrics (on_metrics g s) = g (srv_metrics s)"
  "srv_metrics (on_conn slot f s) = srv_metrics s"
  "srv_trace (ask x s) = x # srv_trace s" "srv_trace (on_metrics g s) = srv_trace s" "srv_trace (on_conn slot f s) = srv_trace s"
  "principal_active (ask x s) = principal_active s" "principal_active (on_metrics g s) = principal_active s"
  "principal_active (on_conn slot f s) = principal_active s"
  "principal_bytes_total (ask x s) = principal_bytes_total s" "principal_bytes_total (on_metrics g s) = principal_bytes_total s"
  "principal_bytes_total (on_conn slot f s) = principal_bytes_total s"
  "connection_count (ask x s) = connection_count s" "connection_count (on_metrics g s) = connection_count s"
  "connection_count (on_conn slot f s) = connection_count s"
  "next_id (ask x s) = next_id s" "next_id (on_metrics g s) = next_id s" "next_id (on_conn slot f s) = next_id s"
  "open_commands (ask x s) = open_commands s" "open_commands (on_metrics g s) = open_commands s"
  "open_commands (on_conn slot f s) = open_commands s"
  "admin_connections (ask x s) = admin_connections s" "admin_connections (on_metrics g s) = admin_connections s"
  "admin_connections (on_conn slot f s) = admin_connections s"
  by (simp_all add: ask_def on_metrics_def on_conn_def)

lemma known_principal_cong: "srv_config s = srv_config t \<Longrightarrow> known_principal s = known_principal t"
  by (rule ext) (simp add: known_principal_def split: option.split)

lemma known_principal_simps [simp]:
  "known_principal (ask x s) = known_principal s" "known_principal (on_metrics g s) = known_principal s"
  "known_principal (on_conn slot f s) = known_principal s"
  by (rule known_principal_cong, simp)+

lemma connections_on_conn: "connections (on_conn slot f s) = (connections s)[slot := f (conn s slot)]"
  by (simp add: on_conn_def)

text \<open>The connection calls of a trace.\<close>

definition connect_calls :: "trace \<Rightarrow> sys_call list" where
  "connect_calls tr = filter (\<lambda>x. \<not> plain_call x) tr"

lemma connect_calls_Cons [simp]: "connect_calls (x # tr) = (if plain_call x then connect_calls tr else x # connect_calls tr)"
  by (simp add: connect_calls_def)

text \<open>
  What the release of resources leaves alone: everything but the trace, the open commands, the
  journal and counters that no invariant is about.
\<close>

definition same_rest :: "egress_server \<Rightarrow> egress_server \<Rightarrow> bool" where
  "same_rest s s' \<longleftrightarrow>
     srv_config s' = srv_config s \<and> srv_policy s' = srv_policy s \<and> principal_active s' = principal_active s \<and>
     principal_bytes_total s' = principal_bytes_total s \<and> connection_count s' = connection_count s \<and>
     next_id s' = next_id s \<and> metric_active (srv_metrics s') = metric_active (srv_metrics s) \<and>
     connect_calls (srv_trace s') = connect_calls (srv_trace s) \<and> admin_connections s' = admin_connections s"

lemma same_rest_refl [simp]: "same_rest s s"
  by (simp add: same_rest_def)

lemma same_rest_trans: "same_rest s t \<Longrightarrow> same_rest t u \<Longrightarrow> same_rest s u"
  by (simp add: same_rest_def)

lemma same_rest_simps [simp]:
  "plain_call x \<Longrightarrow> same_rest s (ask x t) \<longleftrightarrow> same_rest s t"
  "same_rest s (on_conn slot f t) \<longleftrightarrow> same_rest s t"
  "same_rest s (t\<lparr>open_commands := m\<rparr>) \<longleftrightarrow> same_rest s t"
  "same_rest s (t\<lparr>srv_journal := j, srv_audit := a\<rparr>) \<longleftrightarrow> same_rest s t"
  by (simp_all add: same_rest_def on_conn_def)

section \<open>Closing\<close>

text \<open>The steps of \<open>egress_connection_close\<close> before the counters: only the slot itself changes, and not its core.\<close>

definition releases :: "nat \<Rightarrow> egress_server \<Rightarrow> egress_server \<Rightarrow> bool" where
  "releases slot s s' \<longleftrightarrow> same_rest s s' \<and> metric_receipts (srv_metrics s') = metric_receipts (srv_metrics s) \<and>
     (\<exists>c. connections s' = (connections s)[slot := c] \<and>
        (slot < length (connections s) \<longrightarrow> same_core (conn s slot) c \<and> conn_generation c = conn_generation (conn s slot)))"

lemma same_core_refl [simp]: "same_core c c"
  by (simp add: same_core_def)

lemma releases_refl [simp]: "releases slot s s"
  unfolding releases_def by (auto intro!: exI[of _ "conn s slot"] simp: conn_def)

lemma same_core_trans: "same_core a b \<Longrightarrow> same_core b c \<Longrightarrow> same_core a c"
  by (auto simp: same_core_def)

lemma releases_trans: "releases slot s t \<Longrightarrow> releases slot t u \<Longrightarrow> releases slot s u"
  unfolding releases_def by (force simp: conn_def intro: same_rest_trans same_core_trans)

lemma releases_ask [intro]: "releases slot s t \<Longrightarrow> plain_call x \<Longrightarrow> releases slot s (ask x t)"
  by (simp add: releases_def)

lemma releases_on_conn [intro]:
  assumes "releases slot s t" "same_core (conn t slot) (f (conn t slot))"
    "conn_generation (f (conn t slot)) = conn_generation (conn t slot)"
  shows "releases slot s (on_conn slot f t)"
proof -
  have "releases slot t (on_conn slot f t)"
    using assms(2,3) unfolding releases_def by (auto simp: connections_on_conn)
  then show ?thesis using assms(1) releases_trans by blast
qed

lemma releases_commands [intro]: "releases slot s t \<Longrightarrow> releases slot s (t\<lparr>open_commands := m\<rparr>)"
  by (simp add: releases_def)

lemma open_command_release_releases: "releases slot s t \<Longrightarrow> releases slot s (open_command_release p t)"
  unfolding open_command_release_def Let_def
  by (auto split: option.split intro!: releases_commands releases_ask)

lemma open_command_complete_releases: "releases slot s t \<Longrightarrow> releases slot s (egress_open_command_complete K p r t)"
  unfolding egress_open_command_complete_def Let_def
  by (auto split: option.split intro!: open_command_release_releases releases_commands releases_ask)

lemma release_steps:
  "releases slot s t \<Longrightarrow> releases slot s (close_command K slot t)"
  "releases slot s t \<Longrightarrow> releases slot s (unwatch_client slot t)"
  "releases slot s t \<Longrightarrow> releases slot s (unwatch_upstream slot t)"
  "releases slot s t \<Longrightarrow> releases slot s (release_tls slot t)"
  "releases slot s t \<Longrightarrow> releases slot s (release_client slot t)"
  "releases slot s t \<Longrightarrow> releases slot s (release_upstream slot t)"
  by (auto simp: close_command_def unwatch_client_def unwatch_upstream_def release_tls_def release_client_def
      release_upstream_def Let_def same_core_def intro!: releases_on_conn releases_ask open_command_complete_releases)

lemma audit_receipt_effect:
  "same_rest s (audit_receipt K r s)" "connections (audit_receipt K r s) = connections s"
  "metric_receipts (srv_metrics (audit_receipt K r s)) = metric_receipts (srv_metrics s)"
  unfolding audit_receipt_def Let_def
  by (auto simp: audit_failure_def same_rest_def split: prod.split)

lemma attest_receipt_effect:
  assumes "attest_receipt K r s = (ok, r', s')"
  shows "same_rest s s'" "connections s' = connections s" "metric_receipts (srv_metrics s') = metric_receipts (srv_metrics s)"
  using assms unfolding attest_receipt_def Let_def
  by (auto simp: audit_failure_def same_rest_def split: prod.splits option.splits if_splits)

lemma receipt_emit_effect:
  "same_rest s (egress_receipt_emit K c s)" "connections (egress_receipt_emit K c s) = connections s"
  "metric_receipts (srv_metrics (egress_receipt_emit K c s)) = metric_receipts (srv_metrics s) + 1"
proof -
  let ?t = "ask Call_monotonic s"
  obtain ok r s1 where att: "attest_receipt K (receipt_of ?t c (k_clock K (srv_trace ?t))) ?t = (ok, r, s1)" by (metis prod_cases3)
  define s2 where "s2 = on_metrics (\<lambda>m. m\<lparr>metric_receipts := metric_receipts m + 1\<rparr>)
    (if receipt_sink (srv_config s1) \<noteq> None then ask (Call_sink r) s1 else s1)"
  have emit: "egress_receipt_emit K c s = (if srv_audit s2 \<noteq> None \<and> ok then audit_receipt K r s2 else s2)"
    using att by (simp add: egress_receipt_emit_def monotonic_now_def Let_def s2_def)
  have s2: "same_rest s s2" "connections s2 = connections s" "metric_receipts (srv_metrics s2) = metric_receipts (srv_metrics s) + 1"
    using attest_receipt_effect[OF att] by (auto simp: s2_def same_rest_def)
  show "same_rest s (egress_receipt_emit K c s)" "connections (egress_receipt_emit K c s) = connections s"
    "metric_receipts (srv_metrics (egress_receipt_emit K c s)) = metric_receipts (srv_metrics s) + 1"
    unfolding emit using s2 audit_receipt_effect[where s = s2 and K = K and r = r] same_rest_trans by auto
qed

definition cleared :: "egress_connection \<Rightarrow> egress_connection" where
  "cleared c = connection_zero\<lparr>client_fd := - 1, upstream_fd := - 1, conn_generation := conn_generation c\<rparr>"

definition released_active :: "egress_server \<Rightarrow> egress_connection \<Rightarrow> nat list" where
  "released_active s c =
     (if quota_admitted c \<and> known_principal s (conn_principal_index c) \<and> principal_active s ! the (conn_principal_index c) \<noteq> 0
      then (principal_active s)[the (conn_principal_index c) := principal_active s ! the (conn_principal_index c) - 1]
      else principal_active s)"

lemma close_effect:
  fixes K :: kernel
  assumes "slot < length (connections s)" "conn_state (conn s slot) \<noteq> CONNECTION_UNUSED"
  defines "s' \<equiv> egress_connection_close K slot s"
  shows "connections s' = (connections s)[slot := cleared (conn s slot)]" "principal_active s' = released_active s (conn s slot)"
    "srv_config s' = srv_config s" "srv_policy s' = srv_policy s" "principal_bytes_total s' = principal_bytes_total s"
    "connection_count s' = connection_count s - 1" "next_id s' = next_id s"
    "metric_active (srv_metrics s') = metric_active (srv_metrics s) - 1"
    "metric_receipts (srv_metrics s') = metric_receipts (srv_metrics s) + 1"
    "connect_calls (srv_trace s') = connect_calls (srv_trace s)" "admin_connections s' = admin_connections s"
proof -
  define s1 where "s1 = release_upstream slot (release_client slot (release_tls slot (unwatch_upstream slot
    (unwatch_client slot (close_command K slot s)))))"
  define s2 where "s2 = close_accounts slot s1"
  define s3 where "s3 = egress_receipt_emit K (conn s2 slot) s2"
  have s': "s' = clear_slot slot s3"
    using assms(2) by (simp add: s'_def egress_connection_close_def Let_def s1_def s2_def s3_def)
  have rel: "releases slot s s1" unfolding s1_def by (intro release_steps) simp
  then obtain c where c: "connections s1 = (connections s)[slot := c]" "same_core (conn s slot) c"
    "conn_generation c = conn_generation (conn s slot)"
    unfolding releases_def using assms(1) by blast
  have slot1: "conn s1 slot = c" using c(1) assms(1) by (simp add: conn_def)
  have rest1: "same_rest s s1" "metric_receipts (srv_metrics s1) = metric_receipts (srv_metrics s)" using rel by (simp_all add: releases_def)
  have acc: "connections s2 = connections s1" "srv_config s2 = srv_config s1" "srv_policy s2 = srv_policy s1"
    "principal_bytes_total s2 = principal_bytes_total s1" "connection_count s2 = connection_count s1" "next_id s2 = next_id s1"
    "metric_active (srv_metrics s2) = metric_active (srv_metrics s1)" "srv_trace s2 = srv_trace s1"
    "metric_receipts (srv_metrics s2) = metric_receipts (srv_metrics s1)" "principal_active s2 = released_active s1 c"
    "admin_connections s2 = admin_connections s1"
    by (auto simp: s2_def close_accounts_def Let_def slot1 released_active_def)
  have act: "released_active s1 c = released_active s (conn s slot)"
  proof -
    have "known_principal s1 = known_principal s" using rest1(1) by (intro known_principal_cong) (simp add: same_rest_def)
    moreover have "principal_active s1 = principal_active s" using rest1(1) by (simp add: same_rest_def)
    moreover have "quota_admitted c = quota_admitted (conn s slot)"
      "quota_admitted c \<Longrightarrow> conn_principal_index c = conn_principal_index (conn s slot)"
      using c(2) by (auto simp: same_core_def)
    ultimately show ?thesis unfolding released_active_def by (cases "quota_admitted c") simp_all
  qed
  note emit = receipt_emit_effect[where s = s2 and K = K and c = "conn s2 slot", folded s3_def]
  have conn3: "conn s3 slot = c" using emit(2) acc(1) slot1 by (simp add: conn_def)
  have gen: "cleared c = cleared (conn s slot)" using c(3) by (simp add: cleared_def)
  show "connections s' = (connections s)[slot := cleared (conn s slot)]"
    using emit(2) acc(1) c(1) conn3 gen by (simp add: s' clear_slot_def Let_def connections_on_conn cleared_def)
  show "principal_active s' = released_active s (conn s slot)"
    "srv_config s' = srv_config s" "srv_policy s' = srv_policy s" "principal_bytes_total s' = principal_bytes_total s"
    "connection_count s' = connection_count s - 1" "next_id s' = next_id s"
    "metric_active (srv_metrics s') = metric_active (srv_metrics s) - 1"
    "metric_receipts (srv_metrics s') = metric_receipts (srv_metrics s) + 1"
    "connect_calls (srv_trace s') = connect_calls (srv_trace s)" "admin_connections s' = admin_connections s"
    using emit(1,3) acc rest1 act by (simp_all add: s' clear_slot_def Let_def same_rest_def)
qed

lemma close_unused: "conn_state (conn s slot) = CONNECTION_UNUSED \<Longrightarrow> egress_connection_close K slot s = s"
  by (simp add: egress_connection_close_def)

section \<open>The invariant\<close>

definition pinned :: "egress_policy set \<Rightarrow> egress_destination \<Rightarrow> bool" where
  "pinned Ps d \<longleftrightarrow> (\<exists>p\<in>Ps. \<exists>h port e. egress_policy_find p (Some h) port = Some e \<and>
     addresses d = addresses e \<and> require_tls_sni d = require_tls_sni e)"

fun pinned_call :: "egress_policy set \<Rightarrow> sys_call \<Rightarrow> bool" where
  "pinned_call Ps (Call_connect _ a) \<longleftrightarrow> (\<exists>d. pinned Ps d \<and> a \<in> set (addresses d))"
| "pinned_call Ps _ \<longleftrightarrow> True"

definition quota_inv :: "egress_server \<Rightarrow> egress_connection \<Rightarrow> bool" where
  "quota_inv s c \<longleftrightarrow> (quota_admitted c \<longrightarrow> known_principal s (conn_principal_index c) \<and>
     (let p = principals (srv_config s) ! the (conn_principal_index c) in
      quota_bytes c = max_bytes_per_connection p \<and> quota_total_bytes c = max_bytes_total p) \<and>
     (quota_bytes c \<noteq> 0 \<longrightarrow> quota_stream_used c \<le> quota_bytes c))"

definition state_inv :: "egress_policy set \<Rightarrow> egress_connection \<Rightarrow> bool" where
  "state_inv Ps c \<longleftrightarrow>
     (\<forall>d. conn_destination c = Some d \<longrightarrow> pinned Ps d) \<and>
     (conn_state c \<in> {CONNECTION_CONNECTING, CONNECTION_IDENTITY, CONNECTION_RELAY} \<longrightarrow> conn_destination c \<noteq> None) \<and>
     (conn_state c = CONNECTION_CONNECTING \<longrightarrow> reachable_by c) \<and>
     (\<forall>d. conn_state c = CONNECTION_RELAY \<and> conn_destination c = Some d \<and> require_tls_sni d \<longrightarrow> conn_tls_sni_verified c) \<and>
     (conn_state c = CONNECTION_UNUSED \<longrightarrow> \<not> quota_admitted c)"

definition in_use :: "egress_connection \<Rightarrow> bool" where
  "in_use c \<longleftrightarrow> conn_state c \<noteq> CONNECTION_UNUSED"

definition admitted_as :: "nat \<Rightarrow> egress_connection \<Rightarrow> bool" where
  "admitted_as i c \<longleftrightarrow> quota_admitted c \<and> conn_principal_index c = Some i"

definition count_if :: "('a \<Rightarrow> bool) \<Rightarrow> 'a list \<Rightarrow> nat" where
  "count_if P xs = length (filter P xs)"

text \<open>The accounts of the principals.\<close>

definition account_ok :: "egress_principal \<Rightarrow> u64 \<Rightarrow> nat \<Rightarrow> nat \<Rightarrow> bool" where
  "account_ok p used active admitted \<longleftrightarrow>
     (max_bytes_total p \<noteq> 0 \<longrightarrow> used \<le> max_bytes_total p) \<and> active = admitted \<and>
     (max_active_connections p \<noteq> 0 \<longrightarrow> active \<le> max_active_connections p)"

definition accounts_inv :: "egress_server \<Rightarrow> bool" where
  "accounts_inv s \<longleftrightarrow>
     length (principals (srv_config s)) \<le> length (principal_bytes_total s) \<and>
     length (principals (srv_config s)) \<le> length (principal_active s) \<and>
     (\<forall>i<length (principals (srv_config s)).
        account_ok (principals (srv_config s) ! i) (principal_bytes_total s ! i) (principal_active s ! i)
          (count_if (admitted_as i) (connections s)))"

text \<open>Every connection that was opened is in a slot or has its receipt.\<close>

definition ledger_inv :: "egress_server \<Rightarrow> bool" where
  "ledger_inv s \<longleftrightarrow>
     connection_count s = count_if in_use (connections s) \<and>
     metric_active (srv_metrics s) = of_nat (connection_count s) \<and>
     next_id s = metric_receipts (srv_metrics s) + of_nat (connection_count s)"

definition server_inv :: "egress_policy set \<Rightarrow> egress_server \<Rightarrow> bool" where
  "server_inv Ps s \<longleftrightarrow>
     srv_policy s \<in> Ps \<and> length (connections s) = max_connections (srv_config s) \<and>
     (\<forall>c\<in>set (connections s). quota_inv s c \<and> state_inv Ps c) \<and>
     (\<forall>x\<in>set (connect_calls (srv_trace s)). pinned_call Ps x) \<and>
     accounts_inv s \<and> ledger_inv s"

lemma count_update:
  assumes "i < length xs"
  shows "count_if P (xs[i := y]) + (if P (xs ! i) then 1 else 0) = count_if P xs + (if P y then 1 else 0)"
proof -
  have split: "count_if P (ys @ z # zs) = count_if P ys + (if P z then 1 else 0) + count_if P zs" for ys z zs
    by (simp add: count_if_def)
  have "count_if P xs = count_if P (take i xs @ xs ! i # drop (Suc i) xs)"
    by (rule arg_cong[of _ _ "count_if P"]) (rule id_take_nth_drop[OF assms])
  then show ?thesis unfolding upd_conv_take_nth_drop[OF assms] split by simp
qed

lemma count_same: "i < length xs \<Longrightarrow> P y = P (xs ! i) \<Longrightarrow> count_if P (xs[i := y]) = count_if P xs"
  using count_update[of i xs P y] by (auto split: if_splits)

lemma quota_inv_cong: "srv_config s = srv_config t \<Longrightarrow> quota_inv s c = quota_inv t c"
  using known_principal_cong[of s t] by (simp add: quota_inv_def)

lemma server_inv_slot:
  assumes "server_inv Ps s" "slot < length (connections s)"
  shows "quota_inv s (conn s slot)" "state_inv Ps (conn s slot)"
  using assms by (simp_all add: server_inv_def conn_def)

text \<open>A change of one connection.\<close>

lemma server_inv_on_conn:
  assumes inv: "server_inv Ps s"
    and new: "slot < length (connections s) \<Longrightarrow> quota_inv s (f (conn s slot)) \<and> state_inv Ps (f (conn s slot)) \<and>
      in_use (f (conn s slot)) = in_use (conn s slot) \<and> (\<forall>i. admitted_as i (f (conn s slot)) = admitted_as i (conn s slot))"
  shows "server_inv Ps (on_conn slot f s)"
proof (cases "slot < length (connections s)")
  case False
  then have "on_conn slot f s = s" by (simp add: on_conn_def list_update_beyond not_less)
  then show ?thesis using inv by simp
next
  case True
  note keep = new[OF True]
  let ?cs = "(connections s)[slot := f (conn s slot)]"
  have "count_if in_use ?cs = count_if in_use (connections s)" "\<And>i. count_if (admitted_as i) ?cs = count_if (admitted_as i) (connections s)"
    using keep True by (auto simp: conn_def intro!: count_same)
  moreover have "\<forall>c\<in>set ?cs. quota_inv s c \<and> state_inv Ps c"
    using inv keep set_update_subset_insert[of "connections s" slot] unfolding server_inv_def by blast
  moreover have "quota_inv (on_conn slot f s) c = quota_inv s c" for c by (rule quota_inv_cong) simp
  ultimately show ?thesis
    using inv by (simp add: server_inv_def accounts_inv_def ledger_inv_def connections_on_conn)
qed

lemma server_inv_ask: "server_inv Ps s \<Longrightarrow> (\<not> plain_call x \<Longrightarrow> pinned_call Ps x) \<Longrightarrow> server_inv Ps (ask x s)"
  using quota_inv_cong[of "ask x s" s] by (auto simp: server_inv_def accounts_inv_def ledger_inv_def)

lemma server_inv_metrics: "server_inv Ps s \<Longrightarrow> same_counters (srv_metrics s) (f (srv_metrics s)) \<Longrightarrow> server_inv Ps (on_metrics f s)"
  using quota_inv_cong[of "on_metrics f s" s]
  by (auto simp: server_inv_def accounts_inv_def ledger_inv_def same_counters_def)

lemma server_inv_commands: "server_inv Ps s \<Longrightarrow> server_inv Ps (s\<lparr>open_commands := m\<rparr>)"
  using quota_inv_cong[of "s\<lparr>open_commands := m\<rparr>" s] by (auto simp: server_inv_def accounts_inv_def ledger_inv_def)

lemma server_inv_update:
  assumes "server_inv Ps s" "same_core (conn s slot) (f (conn s slot))"
  shows "server_inv Ps (on_conn slot f s)"
proof (rule server_inv_on_conn[OF assms(1)])
  assume "slot < length (connections s)"
  note old = server_inv_slot[OF assms(1) this]
  show "quota_inv s (f (conn s slot)) \<and> state_inv Ps (f (conn s slot)) \<and>
      in_use (f (conn s slot)) = in_use (conn s slot) \<and> (\<forall>i. admitted_as i (f (conn s slot)) = admitted_as i (conn s slot))"
    using old assms(2)
    by (auto simp: same_core_def quota_inv_def state_inv_def in_use_def admitted_as_def reachable_by_def split: option.splits)
qed

lemma add_saturating_le:
  assumes "used \<le> m" "amount \<le> m - used"
  shows "add_saturating used amount \<le> m"
proof -
  have le: "unat used \<le> unat m" "unat amount \<le> unat m - unat used"
    using assms by (simp_all add: word_le_nat_alt unat_sub)
  have m: "unat m < 2 ^ 64" using unsigned_less[where 'a = nat, of m] by simp
  have "unat (- 1 - used) = 2 ^ 64 - 1 - unat used"
    using unat_sub[of used "- 1"] by (simp add: unsigned_minus_1_eq_mask mask_eq_exp_minus_1)
  then have "\<not> - 1 - used < amount" using le m by (simp add: word_less_nat_alt)
  moreover have "unat (used + amount) = unat used + unat amount" using le m by (simp add: unat_word_ariths)
  ultimately show ?thesis using le by (simp add: add_saturating_def word_le_nat_alt)
qed

text \<open>An amount within the allowance exceeds neither limit.\<close>

lemma allowance_bounds:
  assumes "quota_admitted c" "known_principal s (conn_principal_index c)" "amount \<noteq> 0"
    "amount \<le> fst (egress_quota_allowance s c)"
  shows "quota_bytes c \<noteq> 0 \<Longrightarrow> quota_stream_used c \<le> quota_bytes c \<and> amount \<le> quota_bytes c - quota_stream_used c"
    "quota_total_bytes c \<noteq> 0 \<Longrightarrow>
      principal_bytes_total s ! the (conn_principal_index c) \<le> quota_total_bytes c \<and>
      amount \<le> quota_total_bytes c - principal_bytes_total s ! the (conn_principal_index c)"
proof -
  let ?t = "principal_bytes_total s ! the (conn_principal_index c)"
  let ?stream = "quota_remaining (quota_bytes c) (quota_stream_used c)" and ?all = "quota_remaining (quota_total_bytes c) ?t"
  have "quota_bytes c \<noteq> 0 \<Longrightarrow> amount \<le> ?stream" "quota_total_bytes c \<noteq> 0 \<Longrightarrow> amount \<le> ?all"
    using assms by (auto simp: egress_quota_allowance_def Let_def quota_remaining_def split: if_splits)
  then show "quota_bytes c \<noteq> 0 \<Longrightarrow> quota_stream_used c \<le> quota_bytes c \<and> amount \<le> quota_bytes c - quota_stream_used c"
    "quota_total_bytes c \<noteq> 0 \<Longrightarrow> ?t \<le> quota_total_bytes c \<and> amount \<le> quota_total_bytes c - ?t"
    using assms(3) by (auto simp: quota_remaining_def split: if_splits)
qed

lemma server_inv_bytes:
  assumes "server_inv Ps s" "max_bytes_total (principals (srv_config s) ! i) \<noteq> 0 \<Longrightarrow> t \<le> max_bytes_total (principals (srv_config s) ! i)"
  shows "server_inv Ps (s\<lparr>principal_bytes_total := (principal_bytes_total s)[i := t]\<rparr>)"
proof -
  let ?s = "s\<lparr>principal_bytes_total := (principal_bytes_total s)[i := t]\<rparr>"
  have "account_ok (principals (srv_config s) ! j) (principal_bytes_total ?s ! j) (principal_active s ! j)
      (count_if (admitted_as j) (connections s))" if "j < length (principals (srv_config s))" for j
  proof -
    have "account_ok (principals (srv_config s) ! j) (principal_bytes_total s ! j) (principal_active s ! j)
        (count_if (admitted_as j) (connections s))"
      "j < length (principal_bytes_total s)" using assms(1) that by (auto simp: server_inv_def accounts_inv_def)
    then show ?thesis using assms(2) by (cases "i = j") (auto simp: account_ok_def)
  qed
  moreover have "quota_inv ?s c = quota_inv s c" for c by (rule quota_inv_cong) simp
  ultimately show ?thesis using assms(1) by (simp add: server_inv_def accounts_inv_def ledger_inv_def)
qed

lemma server_inv_charge:
  assumes inv: "server_inv Ps s" and slot: "slot < length (connections s)"
    and amount: "amount \<le> fst (egress_quota_allowance s (conn s slot))"
  shows "server_inv Ps (egress_quota_charge slot amount s)"
proof (cases "amount = 0 \<or> \<not> quota_admitted (conn s slot) \<or> \<not> known_principal s (conn_principal_index (conn s slot))")
  case True
  then show ?thesis using inv by (auto simp: egress_quota_charge_def Let_def)
next
  case False
  define c where "c = conn s slot"
  define i where "i = the (conn_principal_index c)"
  define s1 where "s1 = on_conn slot (\<lambda>c. c\<lparr>quota_stream_used := add_saturating (quota_stream_used c) amount\<rparr>) s"
  define t where "t = add_saturating (principal_bytes_total s ! i) amount"
  have s': "egress_quota_charge slot amount s = s1\<lparr>principal_bytes_total := (principal_bytes_total s)[i := t]\<rparr>"
    using False by (simp add: egress_quota_charge_def Let_def s1_def i_def c_def t_def)
  note bounds = allowance_bounds[of c s amount, folded i_def]
  have old: "quota_inv s c" "state_inv Ps c" using server_inv_slot[OF inv slot] by (simp_all add: c_def)
  have "server_inv Ps s1" unfolding s1_def
  proof (rule server_inv_on_conn[OF inv])
    have "quota_inv s (c\<lparr>quota_stream_used := add_saturating (quota_stream_used c) amount\<rparr>)"
      using old(1) bounds(1) add_saturating_le False amount by (auto simp: quota_inv_def c_def)
    then show "quota_inv s ((conn s slot)\<lparr>quota_stream_used := add_saturating (quota_stream_used (conn s slot)) amount\<rparr>) \<and>
      state_inv Ps ((conn s slot)\<lparr>quota_stream_used := add_saturating (quota_stream_used (conn s slot)) amount\<rparr>) \<and>
      in_use ((conn s slot)\<lparr>quota_stream_used := add_saturating (quota_stream_used (conn s slot)) amount\<rparr>) = in_use (conn s slot) \<and>
      (\<forall>i. admitted_as i ((conn s slot)\<lparr>quota_stream_used := add_saturating (quota_stream_used (conn s slot)) amount\<rparr>) =
         admitted_as i (conn s slot))"
      using old(2) by (auto simp: c_def state_inv_def in_use_def admitted_as_def reachable_by_def)
  qed
  moreover have "max_bytes_total (principals (srv_config s) ! i) \<noteq> 0 \<Longrightarrow> t \<le> max_bytes_total (principals (srv_config s) ! i)"
    using old(1) bounds(2) add_saturating_le False amount by (auto simp: quota_inv_def c_def i_def t_def Let_def)
  ultimately show ?thesis unfolding s' using server_inv_bytes[of Ps s1 i t] by (simp add: s1_def)
qed

lemma server_inv_identify:
  assumes inv: "server_inv Ps s" and st: "conn_state (conn s slot) = CONNECTION_HANDSHAKE" "\<not> quota_admitted (conn s slot)"
    "conn_destination (conn s slot) = None"
  shows "server_inv Ps (request_identity slot r s)"
proof -
  have step: "server_inv Ps (on_conn slot f s)"
    if "conn_state (f (conn s slot)) = CONNECTION_HANDSHAKE" "\<not> quota_admitted (f (conn s slot))"
      "conn_destination (f (conn s slot)) = None" "server_inv Ps s" "conn_state (conn s slot) = CONNECTION_HANDSHAKE"
      "\<not> quota_admitted (conn s slot)" for f s
    using that by (intro server_inv_on_conn) (auto simp: quota_inv_def state_inv_def in_use_def admitted_as_def)
  show ?thesis
  proof (cases "slot < length (connections s)")
    case True
    then show ?thesis
      unfolding request_identity_def Let_def by (auto intro!: step simp: st inv)
  next
    case False
    then have "on_conn slot f s = s" for f by (simp add: on_conn_def list_update_beyond not_less)
    then show ?thesis using inv by (simp add: request_identity_def Let_def)
  qed
qed

lemma server_inv_select:
  assumes inv: "server_inv Ps s" and st: "conn_state (conn s slot) = CONNECTION_HANDSHAKE"
    and found: "egress_policy_find (srv_policy s) (Some h) p = Some d"
  shows "server_inv Ps (select_destination slot d s)"
  unfolding select_destination_def
proof (rule server_inv_on_conn[OF inv])
  assume slot: "slot < length (connections s)"
  have "pinned Ps (d\<lparr>dest_host := x\<rparr>)" for x
    using found inv unfolding pinned_def server_inv_def by (intro bexI[of _ "srv_policy s"]) auto
  then show "quota_inv s ((conn s slot)\<lparr>conn_destination := Some (d\<lparr>dest_host := conn_host (conn s slot)\<rparr>),
        conn_policy_digest := snprintf_s 65 (digest_hex (srv_policy s)),
        conn_policy_generation := metric_policy_generation (srv_metrics s)\<rparr>) \<and>
      state_inv Ps ((conn s slot)\<lparr>conn_destination := Some (d\<lparr>dest_host := conn_host (conn s slot)\<rparr>),
        conn_policy_digest := snprintf_s 65 (digest_hex (srv_policy s)),
        conn_policy_generation := metric_policy_generation (srv_metrics s)\<rparr>) \<and>
      in_use ((conn s slot)\<lparr>conn_destination := Some (d\<lparr>dest_host := conn_host (conn s slot)\<rparr>),
        conn_policy_digest := snprintf_s 65 (digest_hex (srv_policy s)),
        conn_policy_generation := metric_policy_generation (srv_metrics s)\<rparr>) = in_use (conn s slot) \<and>
      (\<forall>i. admitted_as i ((conn s slot)\<lparr>conn_destination := Some (d\<lparr>dest_host := conn_host (conn s slot)\<rparr>),
        conn_policy_digest := snprintf_s 65 (digest_hex (srv_policy s)),
        conn_policy_generation := metric_policy_generation (srv_metrics s)\<rparr>) = admitted_as i (conn s slot))"
    using server_inv_slot[OF inv slot] st by (auto simp: quota_inv_def state_inv_def in_use_def admitted_as_def)
qed

text \<open>A change of the state of a connection that is in use.\<close>

lemma server_inv_state:
  assumes inv: "server_inv Ps s" and use: "in_use (conn s slot)" "in_use (f (conn s slot))"
    and core: "quota_admitted (f (conn s slot)) = quota_admitted (conn s slot)" "quota_bytes (f (conn s slot)) = quota_bytes (conn s slot)"
      "quota_total_bytes (f (conn s slot)) = quota_total_bytes (conn s slot)"
      "quota_stream_used (f (conn s slot)) = quota_stream_used (conn s slot)"
      "conn_principal_index (f (conn s slot)) = conn_principal_index (conn s slot)"
    and st: "slot < length (connections s) \<Longrightarrow> state_inv Ps (conn s slot) \<Longrightarrow> state_inv Ps (f (conn s slot))"
  shows "server_inv Ps (on_conn slot f s)"
proof (rule server_inv_on_conn[OF inv])
  assume slot: "slot < length (connections s)"
  show "quota_inv s (f (conn s slot)) \<and> state_inv Ps (f (conn s slot)) \<and>
      in_use (f (conn s slot)) = in_use (conn s slot) \<and> (\<forall>i. admitted_as i (f (conn s slot)) = admitted_as i (conn s slot))"
    using server_inv_slot[OF inv slot] st[OF slot] use core by (simp add: quota_inv_def admitted_as_def)
qed

text \<open>The two steps that change the accounts: an admission and the end of a connection.\<close>

lemma server_inv_admit:
  assumes inv: "server_inv Ps s" and slot: "slot < length (connections s)"
    and st: "conn_state (conn s slot) = CONNECTION_HANDSHAKE" "\<not> quota_admitted (conn s slot)" "quota_stream_used (conn s slot) = 0"
      "conn_principal_index (conn s slot) = request_principal_index r"
    and limits: "known_principal s (request_principal_index r) \<Longrightarrow>
      quota_bytes (conn s slot) = max_bytes_per_connection (principals (srv_config s) ! the (request_principal_index r)) \<and>
      quota_total_bytes (conn s slot) = max_bytes_total (principals (srv_config s) ! the (request_principal_index r))"
    and few: "\<not> too_many_active r s"
  shows "server_inv Ps (admit_request slot r s)"
proof (cases "known_principal s (request_principal_index r)")
  case False
  then show ?thesis using inv by (auto simp: admit_request_def same_counters_def intro!: server_inv_metrics)
next
  case True
  then obtain i where i: "request_principal_index r = Some i" "i < length (principals (srv_config s))"
    by (auto simp: known_principal_def split: option.splits)
  define c where "c = (conn s slot)\<lparr>quota_admitted := True\<rparr>"
  define cs where "cs = (connections s)[slot := c]"
  define s1 where "s1 = s\<lparr>principal_active := (principal_active s)[i := principal_active s ! i + 1], connections := cs\<rparr>"
  have s': "admit_request slot r s = on_metrics (\<lambda>m. m\<lparr>metric_admitted := metric_admitted m + 1\<rparr>) s1"
    using True i by (simp add: admit_request_def Let_def s1_def on_conn_def conn_def cs_def c_def)
  have keep: "quota_inv s1 d = quota_inv s d" for d by (rule quota_inv_cong) (simp add: s1_def)
  have "quota_inv s c" "state_inv Ps c"
    using server_inv_slot[OF inv slot] st i limits[OF True] True by (auto simp: c_def quota_inv_def state_inv_def)
  then have all: "\<forall>d\<in>set cs. quota_inv s d \<and> state_inv Ps d"
    using inv set_update_subset_insert[of "connections s" slot c] unfolding server_inv_def cs_def by blast
  have use: "count_if in_use cs = count_if in_use (connections s)"
    unfolding cs_def using slot by (intro count_same) (simp_all add: c_def in_use_def conn_def)
  have adm: "count_if (admitted_as j) cs = count_if (admitted_as j) (connections s) + (if j = i then 1 else 0)" for j
    using count_update[OF slot, of "admitted_as j" c] st i(1) by (auto simp: cs_def c_def admitted_as_def conn_def split: if_splits)
  have "account_ok (principals (srv_config s) ! j) (principal_bytes_total s ! j) (principal_active s1 ! j) (count_if (admitted_as j) cs)"
    if "j < length (principals (srv_config s))" for j
  proof -
    have old: "account_ok (principals (srv_config s) ! j) (principal_bytes_total s ! j) (principal_active s ! j)
        (count_if (admitted_as j) (connections s))" "j < length (principal_active s)"
      using inv that by (auto simp: server_inv_def accounts_inv_def)
    moreover have "j = i \<Longrightarrow> max_active_connections (principals (srv_config s) ! j) \<noteq> 0 \<Longrightarrow>
        principal_active s ! j < max_active_connections (principals (srv_config s) ! j)"
      using few True i by (auto simp: too_many_active_def Let_def)
    ultimately show ?thesis using adm[of j] by (cases "j = i") (auto simp: account_ok_def s1_def)
  qed
  then have "server_inv Ps s1"
    using inv all use keep by (auto simp: server_inv_def accounts_inv_def ledger_inv_def s1_def cs_def)
  then show ?thesis unfolding s' by (auto simp: same_counters_def intro!: server_inv_metrics)
qed

lemma released_active_count:
  assumes inv: "server_inv Ps s" and slot: "slot < length (connections s)" and i: "i < length (principals (srv_config s))"
  shows "released_active s (conn s slot) ! i = count_if (admitted_as i) ((connections s)[slot := cleared (conn s slot)])"
proof -
  let ?c = "conn s slot"
  have acc: "principal_active s ! i = count_if (admitted_as i) (connections s)" "i < length (principal_active s)"
    using inv i by (auto simp: server_inv_def accounts_inv_def account_ok_def)
  have "count_if (admitted_as i) ((connections s)[slot := cleared ?c]) + (if admitted_as i ?c then 1 else 0) =
      count_if (admitted_as i) (connections s)"
    using count_update[OF slot, of "admitted_as i" "cleared ?c"]
    by (simp add: admitted_as_def cleared_def connection_zero_def conn_def)
  moreover have "known_principal s (conn_principal_index ?c)" if "quota_admitted ?c"
    using server_inv_slot(1)[OF inv slot] that by (simp add: quota_inv_def)
  ultimately show ?thesis using acc
    by (auto simp: released_active_def admitted_as_def known_principal_def nth_list_update split: option.splits if_splits)
qed

lemma server_inv_close:
  assumes inv: "server_inv Ps s" and slot: "slot < length (connections s)"
  shows "server_inv Ps (egress_connection_close K slot s)"
proof (cases "conn_state (conn s slot) = CONNECTION_UNUSED")
  case True
  then show ?thesis using inv by (simp add: close_unused)
next
  case False
  note eff = close_effect[OF slot False, of K]
  define cs where "cs = (connections s)[slot := cleared (conn s slot)]"
  have clear: "quota_inv s (cleared (conn s slot))" "state_inv Ps (cleared (conn s slot))" "\<not> in_use (cleared (conn s slot))"
    by (simp_all add: cleared_def connection_zero_def quota_inv_def state_inv_def in_use_def)
  have all: "\<forall>d\<in>set cs. quota_inv s d \<and> state_inv Ps d"
    using inv clear set_update_subset_insert[of "connections s" slot "cleared (conn s slot)"] unfolding server_inv_def cs_def by blast
  have use: "count_if in_use cs + 1 = count_if in_use (connections s)"
    using count_update[OF slot, of in_use "cleared (conn s slot)"] clear(3) False by (simp add: in_use_def conn_def cs_def)
  have act: "released_active s (conn s slot) ! i \<le> principal_active s ! i" for i
    by (cases "the (conn_principal_index (conn s slot)) < length (principal_active s)")
      (auto simp: released_active_def nth_list_update list_update_beyond)
  have "account_ok (principals (srv_config s) ! i) (principal_bytes_total s ! i) (released_active s (conn s slot) ! i)
      (count_if (admitted_as i) cs)" if "i < length (principals (srv_config s))" for i
    using inv that released_active_count[OF inv slot that] act[of i]
    by (auto simp: server_inv_def accounts_inv_def account_ok_def cs_def)
  moreover have "length (released_active s (conn s slot)) = length (principal_active s)" by (simp add: released_active_def)
  ultimately have accounts: "accounts_inv (egress_connection_close K slot s)"
    using inv unfolding server_inv_def accounts_inv_def eff cs_def by simp
  have "ledger_inv (egress_connection_close K slot s)"
    using inv use unfolding server_inv_def ledger_inv_def eff cs_def[symmetric] by (auto simp: of_nat_diff)
  moreover have "quota_inv (egress_connection_close K slot s) d = quota_inv s d" for d by (rule quota_inv_cong) (rule eff)
  ultimately show ?thesis using inv all accounts by (simp add: server_inv_def eff cs_def)
qed

text \<open>What every step keeps: the configuration, the policy, the other connections.\<close>

definition same_frame :: "nat \<Rightarrow> egress_server \<Rightarrow> egress_server \<Rightarrow> bool" where
  "same_frame slot s s' \<longleftrightarrow> srv_config s' = srv_config s \<and> srv_policy s' = srv_policy s \<and>
     length (connections s') = length (connections s) \<and> (\<forall>i. i \<noteq> slot \<longrightarrow> conn s' i = conn s i) \<and>
     admin_connections s' = admin_connections s"

lemma same_frame_on_conn [simp]: "same_frame slot s (on_conn slot f t) \<longleftrightarrow> same_frame slot s t"
  by (simp add: same_frame_def)

lemma same_frame_simps [simp]:
  "same_frame slot s s" "same_frame slot s (ask x t) \<longleftrightarrow> same_frame slot s t" "same_frame slot s (on_metrics g t) \<longleftrightarrow> same_frame slot s t"
  "same_frame slot s (t\<lparr>open_commands := m\<rparr>) \<longleftrightarrow> same_frame slot s t"
  "same_frame slot s (t\<lparr>principal_active := a\<rparr>) \<longleftrightarrow> same_frame slot s t"
  "same_frame slot s (t\<lparr>principal_bytes_total := b\<rparr>) \<longleftrightarrow> same_frame slot s t"
  by (simp_all add: same_frame_def conn_def)

lemma close_frame:
  assumes "slot < length (connections s)"
  shows "same_frame slot s (egress_connection_close K slot s)"
  using close_effect[OF assms, of K] close_unused[of s slot K]
  by (cases "conn_state (conn s slot) = CONNECTION_UNUSED") (simp_all add: same_frame_def conn_def)

lemma life_frame: "life K slot s s' \<Longrightarrow> slot < length (connections s) \<Longrightarrow> same_frame slot s s'"
  by (cases rule: life.cases)
    (auto simp: egress_quota_charge_def request_identity_def select_destination_def admit_request_def Let_def intro: close_frame)

lemma life_inv:
  assumes "life K slot s s'" "slot < length (connections s)" "server_inv Ps s"
  shows "server_inv Ps s'"
  using assms(1)
proof cases
  case (connect d a h)
  then have "pinned Ps d" using server_inv_slot(2)[OF assms(3,2)] by (simp add: state_inv_def)
  then show ?thesis unfolding connect(1) using connect(3) assms(3) by (intro server_inv_ask) auto
next
  case secured
  then show ?thesis using assms by (auto intro!: server_inv_state simp: in_use_def state_inv_def)
next
  case connecting
  then show ?thesis using assms
    by (auto intro!: server_inv_state simp: in_use_def state_inv_def may_open_def reachable_by_def split: option.splits)
next
  case guarded
  then show ?thesis using assms
    by (auto intro!: server_inv_state simp: in_use_def state_inv_def may_open_def reachable_by_def split: option.splits)
next
  case (relayed d)
  then show ?thesis using assms by (auto intro!: server_inv_state simp: in_use_def state_inv_def may_open_def)
next
  case verified
  then show ?thesis using assms by (auto intro!: server_inv_state simp: in_use_def state_inv_def)
qed (use assms in \<open>auto intro: server_inv_ask server_inv_metrics server_inv_commands server_inv_update server_inv_charge
      server_inv_identify server_inv_select server_inv_admit server_inv_close\<close>)

text \<open>The buffers stay inside their blocks.\<close>

definition buffers_ok :: "egress_connection \<Rightarrow> bool" where
  "buffers_ok c \<longleftrightarrow> (in_use c \<longrightarrow> buffer_wf (client_to_upstream c) \<and> buffer_wf (upstream_to_client c))"

lemma cleared_buffers: "buffers_ok (cleared c)"
  by (simp add: buffers_ok_def in_use_def cleared_def connection_zero_def)

lemma close_conn:
  assumes "slot < length (connections s)" "conn_state (conn s slot) \<noteq> CONNECTION_UNUSED"
  shows "conn (egress_connection_close K slot s) slot = cleared (conn s slot)"
  using close_effect(1)[OF assms, of K] assms(1) by (simp add: conn_def)

lemma life_buffers:
  assumes "life K slot s s'" "slot < length (connections s)" "buffers_ok (conn s slot)"
  shows "buffers_ok (conn s' slot)"
  using assms(1)
proof cases
  case close
  then show ?thesis using close_conn[OF assms(2), of K] close_unused[of s slot K] assms(3) cleared_buffers
    by (cases "conn_state (conn s slot) = CONNECTION_UNUSED") auto
qed (use assms in \<open>auto simp: buffers_ok_def in_use_def same_core_def egress_quota_charge_def request_identity_def
      select_destination_def admit_request_def Let_def may_open_def conn_def on_conn_def on_metrics_def\<close>)

lemma lives_keep:
  assumes "lives K slot s s'" "slot < length (connections s)"
  shows "same_frame slot s s'" "server_inv Ps s \<Longrightarrow> server_inv Ps s'" "buffers_ok (conn s slot) \<Longrightarrow> buffers_ok (conn s' slot)"
proof -
  have "same_frame slot s s' \<and> (server_inv Ps s \<longrightarrow> server_inv Ps s') \<and> (buffers_ok (conn s slot) \<longrightarrow> buffers_ok (conn s' slot))"
    using assms(1)
  proof induction
    case (step t u)
    then have "slot < length (connections t)" using assms(2) by (simp add: same_frame_def)
    then show ?case
      using step life_frame[OF step(2)] life_inv[OF step(2)] life_buffers[OF step(2)] by (auto simp: same_frame_def)
  qed simp
  then show "same_frame slot s s'" "server_inv Ps s \<Longrightarrow> server_inv Ps s'" "buffers_ok (conn s slot) \<Longrightarrow> buffers_ok (conn s' slot)" by auto
qed

end
