(* ===== verification/Egress_Conduct.thy ===== *)
theory Egress_Conduct
  imports Egress_Lifecycle
begin

text \<open>
  The operations of \<^verbatim>\<open>connection.c\<close> and \<^verbatim>\<open>relay.c\<close> are sequences of steps of \<open>life\<close>. Most of their steps are
  quiet: they change neither the core of the connection nor any account. The laws of the
  environment that the proofs rely on are those of \<open>kernel_ok\<close>.
\<close>

section \<open>Quiet steps\<close>

inductive quiet :: "nat \<Rightarrow> egress_server \<Rightarrow> egress_server \<Rightarrow> bool" for slot s where
  refl [intro, simp]: "quiet slot s s"
| call: "quiet slot s t \<Longrightarrow> plain_call x \<Longrightarrow> quiet slot s (ask x t)"
| connect: "quiet slot s t \<Longrightarrow> conn_destination (conn t slot) = Some d \<Longrightarrow> a \<in> set (addresses d) \<Longrightarrow>
    quiet slot s (ask (Call_connect h a) t)"
| metrics: "quiet slot s t \<Longrightarrow> same_counters (srv_metrics t) (f (srv_metrics t)) \<Longrightarrow> quiet slot s (on_metrics f t)"
| commands: "quiet slot s t \<Longrightarrow> dom (open_commands t) \<subseteq> dom m \<Longrightarrow> quiet slot s (t\<lparr>open_commands := m\<rparr>)"
| update: "quiet slot s t \<Longrightarrow> same_core (conn t slot) (f (conn t slot)) \<Longrightarrow>
    (close_after_flush (conn t slot) \<Longrightarrow> close_after_flush (f (conn t slot))) \<Longrightarrow> quiet slot s (on_conn slot f t)"

lemmas quiet_steps = quiet.call quiet.metrics quiet.commands quiet.update

lemma quiet_trans: "quiet slot t u \<Longrightarrow> quiet slot s t \<Longrightarrow> quiet slot s u"
  by (induction rule: quiet.induct) (blast intro: quiet.intros)+

lemma quiet_lives: "quiet slot s t \<Longrightarrow> lives K slot s t"
  by (induction rule: quiet.induct) (blast intro: life.intros rtranclp.rtrancl_into_rtrancl)+

definition same_accounts :: "egress_server \<Rightarrow> egress_server \<Rightarrow> bool" where
  "same_accounts s t \<longleftrightarrow> srv_config t = srv_config s \<and> srv_policy t = srv_policy s \<and> principal_active t = principal_active s \<and>
     principal_bytes_total t = principal_bytes_total s \<and> length (connections t) = length (connections s)"

lemma conn_on_conn: "conn (on_conn slot f s) slot = (if slot < length (connections s) then f (conn s slot) else conn s slot)"
  by (simp add: conn_def on_conn_def list_update_beyond)

lemma quiet_facts:
  assumes "quiet slot s t"
  shows "same_core (conn s slot) (conn t slot)" "same_accounts s t"
    "close_after_flush (conn s slot) \<Longrightarrow> close_after_flush (conn t slot)"
proof -
  have "same_core (conn s slot) (conn t slot) \<and> same_accounts s t \<and> (close_after_flush (conn s slot) \<longrightarrow> close_after_flush (conn t slot))"
    using assms by induction (auto simp: same_accounts_def conn_on_conn intro: same_core_trans)
  then show "same_core (conn s slot) (conn t slot)" "same_accounts s t"
    "close_after_flush (conn s slot) \<Longrightarrow> close_after_flush (conn t slot)" by auto
qed

lemma quiet_core:
  assumes "quiet slot s t"
  shows "conn_state (conn t slot) = conn_state (conn s slot)" "conn_destination (conn t slot) = conn_destination (conn s slot)"
    "quota_admitted (conn t slot) = quota_admitted (conn s slot)" "length (connections t) = length (connections s)"
    "quota_stream_used (conn t slot) = quota_stream_used (conn s slot)"
    "srv_config t = srv_config s" "srv_policy t = srv_policy s"
  using quiet_facts[OF assms] by (simp_all add: same_core_def same_accounts_def)

lemma quiet_reachable: "quiet slot s t \<Longrightarrow> reachable_by (conn s slot) \<Longrightarrow> reachable_by (conn t slot)"
  using quiet_facts(1)[of slot s t] by (auto simp: same_core_def reachable_by_def split: option.splits)

lemma quiet_allowance:
  assumes "quiet slot s t"
  shows "egress_quota_allowance t (conn t slot) = egress_quota_allowance s (conn s slot)"
proof -
  have "known_principal t = known_principal s" by (rule known_principal_cong) (rule quiet_core[OF assms])
  then show ?thesis
    using quiet_facts(1,2)[OF assms] unfolding egress_quota_allowance_def
    by (cases "quota_admitted (conn s slot)") (simp_all add: same_core_def same_accounts_def Let_def)
qed

section \<open>Quiet operations\<close>

lemma quiet_open_command_release: "quiet slot s t \<Longrightarrow> quiet slot s (open_command_release p t)"
  unfolding open_command_release_def Let_def by (auto split: option.split intro!: quiet_steps)

lemma quiet_open_command_complete: "quiet slot s t \<Longrightarrow> quiet slot s (egress_open_command_complete K p r t)"
  unfolding egress_open_command_complete_def Let_def
  by (auto split: option.split intro!: quiet_steps quiet_open_command_release)

lemma quiet_touch: "quiet slot s t \<Longrightarrow> quiet slot s (touch K slot t)"
  by (auto simp: touch_def monotonic_now_def Let_def same_core_def intro!: quiet_steps)

lemma quiet_touch_if: "quiet slot s t \<Longrightarrow> quiet slot s (touch_if K slot b t)"
  by (simp add: touch_if_def quiet_touch)

lemma quiet_release:
  "quiet slot s t \<Longrightarrow> quiet slot s (unwatch_client slot t)" "quiet slot s t \<Longrightarrow> quiet slot s (unwatch_upstream slot t)"
  "quiet slot s t \<Longrightarrow> quiet slot s (release_upstream slot t)"
  by (auto simp: unwatch_client_def unwatch_upstream_def release_upstream_def same_core_def intro!: quiet_steps)

lemma quiet_quota_deny: "quiet slot s t \<Longrightarrow> quiet slot s (egress_quota_deny slot scope t)"
  by (auto simp: egress_quota_deny_def Let_def same_core_def same_counters_def intro!: quiet_steps)

lemma quiet_exhaust: "quiet slot s t \<Longrightarrow> quiet slot s (exhaust_quota slot scope t)"
  by (auto simp: exhaust_quota_def same_core_def intro!: quiet_steps quiet_quota_deny)

lemma quiet_check_quota: "quiet slot s t \<Longrightarrow> quiet slot s (check_quota slot t)"
  by (auto simp: check_quota_def split: prod.split intro: quiet_exhaust)

lemma quiet_queue: "quiet slot s t \<Longrightarrow> quiet slot s (snd (queue_to_client slot bs t))"
  unfolding queue_to_client_def Let_def
  by (auto simp: same_core_def split: prod.split dest: buffer_append_ok(1) intro!: quiet_steps)

lemma quiet_queue_to_client: "queue_to_client slot bs t = (ok, t') \<Longrightarrow> quiet slot s t \<Longrightarrow> quiet slot s t'"
  using quiet_queue[of slot s t bs] by simp

lemma client_interests_core:
  assumes "client_interests c = (i, c')"
  shows "same_core c c'" "close_after_flush c' = close_after_flush c"
  using assms unfolding client_interests_def Let_def
  by (auto simp: same_core_def split: prod.splits if_splits dest: buffer_available_ok(1))

lemma upstream_interests_core:
  assumes "upstream_interests c = (i, c')"
  shows "same_core c c'" "close_after_flush c' = close_after_flush c"
  using assms unfolding upstream_interests_def Let_def
  by (auto simp: same_core_def split: prod.splits if_splits dest: buffer_available_ok(1))

lemma quiet_watch_or_modify: "watch_or_modify K fd i tok w t = (ok, w', t') \<Longrightarrow> quiet slot s t \<Longrightarrow> quiet slot s t'"
  unfolding watch_or_modify_def Let_def by (auto split: if_splits prod.splits intro: quiet_steps)

lemma quiet_watches:
  assumes "watch_client K slot t = (ok, t')" "quiet slot s t"
  shows "quiet slot s t'"
proof -
  obtain i c where c: "client_interests (conn t slot) = (i, c)" by fastforce
  have q: "quiet slot s (on_conn slot (\<lambda>_. c) t)" using assms(2) client_interests_core[OF c] by (intro quiet.update) auto
  have upd: "quiet slot s u \<Longrightarrow> quiet slot s (on_conn slot (\<lambda>c. c\<lparr>client_watch := w\<rparr>) u)" for u w
    by (rule quiet.update) (simp_all add: same_core_def)
  show ?thesis
    using assms(1) q unfolding watch_client_def Let_def c
    by (auto split: prod.splits if_splits intro!: upd quiet_release dest: quiet_watch_or_modify)
qed

lemma quiet_watches_upstream:
  assumes "watch_upstream K slot t = (ok, t')" "quiet slot s t"
  shows "quiet slot s t'"
proof -
  obtain i c where c: "upstream_interests (conn t slot) = (i, c)" by fastforce
  have q: "quiet slot s (on_conn slot (\<lambda>_. c) t)" using assms(2) upstream_interests_core[OF c] by (intro quiet.update) auto
  have upd: "quiet slot s u \<Longrightarrow> quiet slot s (on_conn slot (\<lambda>c. c\<lparr>upstream_watch := w\<rparr>) u)" for u w
    by (rule quiet.update) (simp_all add: same_core_def)
  show ?thesis
    using assms(1) q unfolding watch_upstream_def Let_def c
    by (auto split: prod.splits if_splits intro!: upd quiet_release dest: quiet_watch_or_modify)
qed

lemma quiet_update_watches: "egress_connection_update_watches K slot t = (ok, t') \<Longrightarrow> quiet slot s t \<Longrightarrow> quiet slot s t'"
  unfolding egress_connection_update_watches_def Let_def
  by (auto split: prod.splits if_splits dest: quiet_watches quiet_watches_upstream)

lemma quiet_half_closes: "apply_half_closes K slot t = (ok, t') \<Longrightarrow> quiet slot s t \<Longrightarrow> quiet slot s t'"
  unfolding apply_half_closes_def shutdown_client_def shutdown_upstream_def Let_def
  by (auto simp: same_core_def split: if_splits intro!: quiet_steps)

lemma quiet_peer_hup: "peer_hup slot side flags t = (flags', t') \<Longrightarrow> quiet slot s t \<Longrightarrow> quiet slot s t'"
  unfolding peer_hup_def by (auto simp: same_core_def split: if_splits intro!: quiet_steps)

section \<open>Ends\<close>

text \<open>A connection that still waits for a request has no destination and no quota.\<close>

definition pristine :: "egress_connection \<Rightarrow> bool" where
  "pristine c \<longleftrightarrow> \<not> quota_admitted c \<and> quota_stream_used c = 0 \<and> conn_destination c = None"

definition fresh :: "egress_connection \<Rightarrow> bool" where
  "fresh c \<longleftrightarrow> (in_handshake c \<and> \<not> close_after_flush c \<longrightarrow> pristine c)"

definition ends :: "kernel \<Rightarrow> nat \<Rightarrow> egress_server \<Rightarrow> egress_server \<Rightarrow> bool" where
  "ends K slot s t \<longleftrightarrow> lives K slot s t \<and> fresh (conn t slot)"

lemma quiet_fresh:
  assumes "quiet slot s t" "fresh (conn s slot)"
  shows "fresh (conn t slot)"
  using assms quiet_core[OF assms(1)] quiet_facts(3)[OF assms(1)] by (auto simp: fresh_def pristine_def in_handshake_def)

lemma lives_quiet: "lives K slot s t \<Longrightarrow> quiet slot t u \<Longrightarrow> lives K slot s u"
  by (meson quiet_lives rtranclp_trans)

lemma ends_quiet: "ends K slot s t \<Longrightarrow> quiet slot t u \<Longrightarrow> ends K slot s u"
  by (auto simp: ends_def intro: lives_quiet quiet_fresh)

lemma lives_ends: "lives K slot s t \<Longrightarrow> ends K slot t u \<Longrightarrow> ends K slot s u"
  by (auto simp: ends_def intro: rtranclp_trans)

lemma lives_length: "lives K slot s t \<Longrightarrow> slot < length (connections s) \<Longrightarrow> slot < length (connections t)"
  using lives_keep(1)[of K slot s t] by (simp add: same_frame_def)

lemma ends_close:
  assumes "lives K slot s t" "slot < length (connections s)"
  shows "ends K slot s (egress_connection_close K slot t)"
proof -
  have "fresh (conn (egress_connection_close K slot t) slot)"
    using close_conn[OF lives_length[OF assms], of K] close_unused[of t slot K]
    by (cases "conn_state (conn t slot) = CONNECTION_UNUSED")
      (simp_all add: fresh_def in_handshake_def cleared_def connection_zero_def)
  then show ?thesis using assms(1) by (auto simp: ends_def intro: rtranclp.rtrancl_into_rtrancl life.close)
qed

lemma ends_lives: "ends K slot s t \<Longrightarrow> lives K slot s t"
  by (simp add: ends_def)

lemma quiet_result: "quiet slot s t \<Longrightarrow> quiet slot s (on_conn slot (\<lambda>c. c\<lparr>conn_result := r c\<rparr>) t)"
  by (rule quiet.update) (simp_all add: same_core_def)

lemma ends_close_result:
  "lives K slot s t \<Longrightarrow> slot < length (connections s) \<Longrightarrow>
    ends K slot s (egress_connection_close K slot (on_conn slot (\<lambda>c. c\<lparr>conn_result := r c\<rparr>) t))"
  by (rule ends_close[OF lives_quiet[OF _ quiet_result[OF quiet.refl]]])

lemma ends_fail:
  assumes "lives K slot s t" "slot < length (connections s)"
  shows "ends K slot s (egress_connection_fail K slot r a t)"
proof -
  define u where "u = (if a then on_metrics (\<lambda>m. m\<lparr>metric_auth_failures := metric_auth_failures m + 1\<rparr>) t else t)"
  define v where "v = on_conn slot (\<lambda>c. c\<lparr>conn_result := (if conn_result c = EGRESS_OK then r else conn_result c), close_after_flush := True\<rparr>) u"
  define w where "w = release_upstream slot (on_conn slot (\<lambda>c. c\<lparr>upstream_watch := 0\<rparr>) (unwatch_upstream slot v))"
  have "quiet slot t v" by (auto simp: u_def v_def same_core_def same_counters_def intro!: quiet_steps)
  moreover have "quiet slot v w" unfolding w_def
    by (intro quiet_release quiet.update quiet.refl) (simp_all add: same_core_def)
  moreover have "close_after_flush (conn v slot)"
    using lives_length[OF assms] by (simp add: v_def u_def conn_on_conn)
  ultimately have q: "quiet slot t w" "close_after_flush (conn w slot)" by (auto intro: quiet_trans quiet_facts(3))
  have fail: "egress_connection_fail K slot r a t = (if conn_protocol (conn w slot) = PROTOCOL_CONNECTOR
      then egress_connection_close K slot w else snd (queue_to_client slot (failure_response (conn_protocol (conn w slot)) r a) w))"
    by (simp add: egress_connection_fail_def Let_def u_def v_def w_def)
  have lw: "lives K slot s w" using assms(1) q(1) by (rule lives_quiet)
  then have "ends K slot s w" using q(2) by (simp add: ends_def fresh_def)
  then show ?thesis unfolding fail using ends_close[OF lw assms(2)] ends_quiet quiet_queue by simp
qed

lemma ends_watches: "ends K slot s t \<Longrightarrow> egress_connection_update_watches K slot t = (ok, t') \<Longrightarrow> ends K slot s t'"
  by (rule ends_quiet[OF _ quiet_update_watches[OF _ quiet.refl]])

lemma ends_deny:
  assumes "lives K slot s t" "slot < length (connections s)" "deny_request K slot t = (ok, t')"
  shows "ends K slot s t'"
  using assms ends_fail ends_watches unfolding deny_request_def by blast

section \<open>From the request to the relay\<close>

lemma on_conn_same: "f (conn s slot) = g (conn s slot) \<Longrightarrow> on_conn slot f s = on_conn slot g s"
  by (simp add: on_conn_def)

lemma ends_identity:
  assumes "ends K slot s t" "slot < length (connections s)" "egress_connection_enforce_tunnel_identity K slot t = (ok, t')"
  shows "ends K slot s t'"
proof (cases "conn_state (conn t slot) \<noteq> CONNECTION_IDENTITY \<or> buf_length (client_to_upstream (conn t slot)) = 0")
  case True
  then show ?thesis using assms by (simp add: egress_connection_enforce_tunnel_identity_def Let_def)
next
  case False
  let ?m = "egress_tls_client_hello_matches (Some (buffer_content (client_to_upstream (conn t slot)))) (Some (conn_host (conn t slot)))"
  let ?v = "on_conn slot (\<lambda>c. c\<lparr>conn_tls_sni_verified := True, conn_state := CONNECTION_RELAY\<rparr>) t"
  have lt: "lives K slot s t" using assms(1) by (simp add: ends_def)
  have "ends K slot s (touch K slot ?v)" if "?m = Hello_match"
  proof (rule ends_quiet[OF _ quiet_touch[OF quiet.refl]])
    have "life K slot t ?v" using False that by (intro life.verified) auto
    then show "ends K slot s ?v"
      using lt lives_length[OF lt assms(2)] unfolding ends_def
      by (auto simp: conn_on_conn fresh_def in_handshake_def intro: rtranclp.rtrancl_into_rtrancl)
  qed
  then show ?thesis
    using assms(1,3) False ends_watches[OF ends_fail[OF lt assms(2)]] ends_watches
    by (auto simp: egress_connection_enforce_tunnel_identity_def Let_def split: hello_result.splits)
qed

lemma ends_connected_command:
  assumes "ends K slot s t" "slot < length (connections s)"
  shows "ends K slot s (connected_command K slot t)"
proof (cases "open_command (conn t slot)")
  case None
  then show ?thesis using assms(1) by (simp add: connected_command_def)
next
  case (Some command)
  let ?t = "ask (Call_cancelled command) t"
  have "quiet slot t ?t" by (intro quiet_steps quiet.refl) simp
  then have a: "ends K slot s (egress_connection_close K slot (on_conn slot (\<lambda>c. c\<lparr>conn_result := ERR_CANCELLED\<rparr>) ?t))"
    using lives_quiet[OF ends_lives[OF assms(1)]] assms(2) by (intro ends_close_result)
  have "quiet slot t (egress_open_command_complete K (Some command) EGRESS_OK (on_conn slot (\<lambda>c. c\<lparr>open_command := None\<rparr>) ?t))"
    by (intro quiet_open_command_complete quiet_steps quiet.refl) (simp_all add: same_core_def)
  then have b: "ends K slot s (egress_open_command_complete K (Some command) EGRESS_OK (on_conn slot (\<lambda>c. c\<lparr>open_command := None\<rparr>) ?t))"
    using assms(1) ends_quiet by blast
  show ?thesis using Some assms(1) a b by (simp add: connected_command_def Let_def)
qed

lemma ends_connected_identity:
  assumes "ends K slot s t" "slot < length (connections s)"
  shows "ends K slot s (connected_identity K slot t)"
proof -
  obtain ok u where u: "egress_connection_enforce_tunnel_identity K slot t = (ok, u)" by fastforce
  have eu: "ends K slot s u" by (rule ends_identity[OF assms u])
  obtain ok' v where v: "egress_connection_update_watches K slot u = (ok', v)" by fastforce
  have ev: "ends K slot s v" by (rule ends_watches[OF eu v])
  have close: "ends K slot s x \<Longrightarrow> ends K slot s (egress_connection_close K slot x)" for x
    using assms(2) ends_close ends_lives by blast
  show ?thesis
    using eu ev close ends_connected_command assms(2) unfolding connected_identity_def u by (simp add: v)
qed

text \<open>The connection is established: the guard of the tunnel, or the relay.\<close>

definition ready :: "egress_connection \<Rightarrow> bool" where
  "ready c \<longleftrightarrow> may_open (conn_state c) \<and> reachable_by c"

lemma quiet_ready: "quiet slot s t \<Longrightarrow> ready (conn s slot) \<Longrightarrow> ready (conn t slot)"
  using quiet_core(1)[of slot s t] quiet_reachable[of slot s t] by (simp add: ready_def)

lemma ends_established:
  assumes "lives K slot s t" "slot < length (connections s)" "ready (conn t slot)" "d = the (conn_destination (conn t slot))"
  shows "ends K slot s (on_conn slot (\<lambda>c. c\<lparr>conn_state := (if tunnel (conn_protocol c) \<and> require_tls_sni d
     then CONNECTION_IDENTITY else CONNECTION_RELAY)\<rparr>) t)" (is "ends K slot s (on_conn slot ?f t)")
proof -
  have d: "conn_destination (conn t slot) = Some d" using assms(3,4) by (auto simp: ready_def reachable_by_def split: option.splits)
  have "life K slot t (on_conn slot ?f t)"
  proof (cases "require_tls_sni d")
    case True
    then have "on_conn slot ?f t = on_conn slot (\<lambda>c. c\<lparr>conn_state := CONNECTION_IDENTITY\<rparr>) t"
      using assms(3) d by (intro on_conn_same) (simp add: ready_def reachable_by_def)
    then show ?thesis using assms(3) life.guarded by (simp add: ready_def)
  next
    case False
    then have "on_conn slot ?f t = on_conn slot (\<lambda>c. c\<lparr>conn_state := CONNECTION_RELAY\<rparr>) t" by simp
    then show ?thesis using assms(3) d False life.relayed by (simp add: ready_def)
  qed
  then show ?thesis
    using assms(1) lives_length[OF assms(1,2)] unfolding ends_def
    by (auto simp: conn_on_conn fresh_def in_handshake_def intro: rtranclp.rtrancl_into_rtrancl)
qed

lemma ends_connected:
  assumes "lives K slot s t" "slot < length (connections s)" "ready (conn t slot)"
  shows "ends K slot s (egress_connection_connected K slot t)"
proof -
  define d where "d = the (conn_destination (conn t slot))"
  define u where "u = (if 0 < address_index (conn t slot) then
    on_conn slot (\<lambda>c. c\<lparr>conn_upstream_address := address_text (addresses d ! (address_index c - 1))\<rparr>) t else t)"
  define v where "v = touch K slot (on_conn slot (\<lambda>c. c\<lparr>conn_state := (if tunnel (conn_protocol c) \<and> require_tls_sni d
     then CONNECTION_IDENTITY else CONNECTION_RELAY)\<rparr>) u)"
  have q: "quiet slot t u" by (auto simp: u_def same_core_def intro!: quiet_steps)
  have "d = the (conn_destination (conn u slot))" by (simp add: d_def quiet_core[OF q])
  then have v: "ends K slot s v"
    unfolding v_def using ends_established[OF lives_quiet[OF assms(1) q] assms(2) quiet_ready[OF q assms(3)]]
    by (intro ends_quiet[OF _ quiet_touch[OF quiet.refl]])
  obtain queued w where w: "(case connected_response (conn_protocol (conn v slot)) of
      None \<Rightarrow> (True, v) | Some response \<Rightarrow> queue_to_client slot response v) = (queued, w)" by fastforce
  then have ew: "ends K slot s w"
    using v ends_quiet quiet_queue_to_client quiet.refl by (fastforce split: option.splits)
  have "ends K slot s (egress_connection_close K slot (on_conn slot (\<lambda>c. c\<lparr>conn_result := ERR_MEMORY\<rparr>) w))"
    by (rule ends_close_result[OF ends_lives[OF ew] assms(2)])
  moreover have "egress_connection_connected K slot t =
    (if \<not> queued then egress_connection_close K slot (on_conn slot (\<lambda>c. c\<lparr>conn_result := ERR_MEMORY\<rparr>) w)
     else connected_identity K slot w)"
    unfolding egress_connection_connected_def Let_def d_def[symmetric] u_def[symmetric] v_def[symmetric] w by simp
  ultimately show ?thesis using ends_connected_identity[OF ew assms(2)] by simp
qed

text \<open>The addresses are tried in turn.\<close>

lemma ends_connect_loop:
  assumes "lives K slot s t" "slot < length (connections s)" "ready (conn t slot)" "conn_destination (conn t slot) = Some d"
    "set as \<subseteq> set (addresses d)" "connect_loop K slot as t = (ok, t')"
  shows "ends K slot s t'"
  using assms
proof (induction as arbitrary: t)
  case Nil
  then show ?case using ends_watches[OF ends_fail] by simp
next
  case (Cons a as)
  define u where "u = ask (Call_socket (sa_family (addr_storage a))) (on_conn slot (\<lambda>c. c\<lparr>address_index := address_index c + 1\<rparr>) t)"
  obtain r up where up: "k_socket K (srv_trace u) = (r, up)" by fastforce
  define v where "v = ask (Call_connect up a) (on_conn slot (\<lambda>c. c\<lparr>upstream_socket := Some up, upstream_fd := k_fd K up\<rparr>) u)"
  obtain st cs where cs: "k_connect K (srv_trace v) = (st, cs)" by fastforce
  have loop: "connect_loop K slot (a # as) t =
    (if r \<noteq> SYS_OK then connect_loop K slot as u
     else if st = SYS_OK \<and> cs = CONNECT_CONNECTED then (True, egress_connection_connected K slot v)
     else if st = SYS_OK then egress_connection_update_watches K slot (on_conn slot (\<lambda>c. c\<lparr>conn_state := CONNECTION_CONNECTING\<rparr>) v)
     else connect_loop K slot as (release_upstream slot v))"
    unfolding connect_loop.simps Let_def u_def[symmetric] up prod.case v_def[symmetric] cs by simp
  have u: "quiet slot t u" unfolding u_def by (intro quiet_steps quiet.refl) (simp_all add: same_core_def)
  have "quiet slot t (on_conn slot (\<lambda>c. c\<lparr>upstream_socket := Some up, upstream_fd := k_fd K up\<rparr>) u)"
    by (intro quiet.update u) (simp_all add: same_core_def)
  moreover have "a \<in> set (addresses d)" using Cons.prems(5) by simp
  ultimately have v: "quiet slot t v" unfolding v_def using Cons.prems(4) quiet_core(2) by (intro quiet.connect) auto
  have w: "quiet slot t (release_upstream slot v)" by (rule quiet_release(3)[OF v])
  have opened: "ends K slot s (on_conn slot (\<lambda>c. c\<lparr>conn_state := CONNECTION_CONNECTING\<rparr>) v)"
  proof -
    have lv: "lives K slot s v" by (rule lives_quiet[OF Cons.prems(1) v])
    have "life K slot v (on_conn slot (\<lambda>c. c\<lparr>conn_state := CONNECTION_CONNECTING\<rparr>) v)"
      using quiet_ready[OF v Cons.prems(3)] by (intro life.connecting) (simp_all add: ready_def)
    then show ?thesis using lv lives_length[OF lv Cons.prems(2)] unfolding ends_def
      by (auto simp: conn_on_conn fresh_def in_handshake_def intro: rtranclp.rtrancl_into_rtrancl)
  qed
  have rec: "ends K slot s t'" if "connect_loop K slot as x = (ok, t')" "quiet slot t x" for x
    using Cons.IH[OF lives_quiet[OF Cons.prems(1) that(2)] Cons.prems(2) quiet_ready[OF that(2) Cons.prems(3)]] that
      Cons.prems(4,5) quiet_core(2)[OF that(2)] by simp
  show ?case
    using Cons.prems(6) rec u w opened ends_watches ends_connected[OF lives_quiet[OF Cons.prems(1) v] Cons.prems(2) quiet_ready[OF v Cons.prems(3)]]
    unfolding loop by (auto split: if_splits)
qed

lemma ends_connect_next:
  assumes "lives K slot s t" "slot < length (connections s)" "ready (conn t slot)" "egress_connection_connect_next K slot t = (ok, t')"
  shows "ends K slot s t'"
proof -
  obtain d where d: "conn_destination (conn t slot) = Some d" using assms(3) by (auto simp: ready_def reachable_by_def split: option.splits)
  show ?thesis
    using assms(4) d unfolding egress_connection_connect_next_def Let_def
    by (intro ends_connect_loop[OF assms(1-3) d]) (auto dest: in_set_dropD)
qed

section \<open>Requests\<close>

lemma charge_keeps:
  "conn_state (conn (egress_quota_charge slot n t) slot) = conn_state (conn t slot)"
  "conn_destination (conn (egress_quota_charge slot n t) slot) = conn_destination (conn t slot)"
  "conn_protocol (conn (egress_quota_charge slot n t) slot) = conn_protocol (conn t slot)"
  by (cases "slot < length (connections t)"; simp add: egress_quota_charge_def Let_def conn_def on_conn_def list_update_beyond)+

lemma ends_charge_request:
  assumes "lives K slot s t" "slot < length (connections s)" "ready (conn t slot)" "charge_request K slot t = (ok, t')"
  shows "ends K slot s t'"
proof -
  define n where "n = (of_nat (buf_length (client_to_upstream (conn t slot))) :: u64)"
  obtain allowance scope where a: "egress_quota_allowance t (conn t slot) = (allowance, scope)" by fastforce
  have deny: "lives K slot s (egress_quota_deny slot scope t)" by (rule lives_quiet[OF assms(1) quiet_quota_deny[OF quiet.refl]])
  have "ready (conn (egress_quota_charge slot n t) slot)" using assms(3) by (simp add: ready_def reachable_by_def charge_keeps split: option.splits)
  moreover have "lives K slot s (egress_quota_charge slot n t)" if "\<not> allowance < n"
    using assms(1) life.charge[of n t slot K] a that by (auto intro: rtranclp.rtrancl_into_rtrancl)
  ultimately show ?thesis
    using assms(4) ends_deny[OF deny assms(2)] ends_connect_next assms(2)
    unfolding charge_request_def Let_def a n_def[symmetric] by (auto split: if_splits)
qed

lemma forward_input_wf:
  assumes "forward_input r b = Some b'" "buffer_wf b"
  shows "buffer_wf b'"
proof -
  define fwd where "fwd = (case forward_bytes r of None \<Rightarrow> [] | Some bs \<Rightarrow> bs)"
  define extra where "extra = buf_length b - request_consumed r"
  define bs where "bs = read_at (buf_data b) (buf_offset b + request_consumed r) extra"
  define data where "data = (if extra \<noteq> 0 then write_at (buf_data b) (length fwd) bs else buf_data b)"
  have fit: "length fwd + extra \<le> buf_capacity b" "request_consumed r \<le> buf_length b"
    and b': "b' = b\<lparr>buf_data := (if fwd \<noteq> [] then write_at data 0 fwd else data), buf_offset := 0, buf_length := length fwd + extra\<rparr>"
    using assms(1) unfolding forward_input_def Let_def fwd_def[symmetric] extra_def[symmetric] bs_def[symmetric] data_def[symmetric]
    by (auto split: if_splits)
  have "length bs = extra" using fit(2) assms(2) by (simp add: bs_def extra_def buffer_wf_def)
  then have "length data = buf_capacity b" using fit(1) assms(2) by (simp add: data_def buffer_wf_def)
  then show ?thesis using fit(1) by (simp add: b' buffer_wf_def)
qed

lemma request_identity_conn:
  fixes r :: proxy_request
  assumes "slot < length (connections t)"
  defines "c \<equiv> conn (request_identity slot r t) slot"
  shows "conn_state c = conn_state (conn t slot)" "quota_admitted c = quota_admitted (conn t slot)"
    "quota_stream_used c = quota_stream_used (conn t slot)" "conn_destination c = conn_destination (conn t slot)"
    "conn_protocol c = request_protocol r" "conn_principal_index c = request_principal_index r"
    "srv_config (request_identity slot r t) = srv_config t"
    "known_principal t (request_principal_index r) \<Longrightarrow>
      quota_bytes c = max_bytes_per_connection (principals (srv_config t) ! the (request_principal_index r)) \<and>
      quota_total_bytes c = max_bytes_total (principals (srv_config t) ! the (request_principal_index r))"
  using assms(1) by (simp_all add: c_def request_identity_def Let_def)

lemma select_destination_conn:
  assumes "slot < length (connections t)"
  shows "conn (select_destination slot d t) slot = (conn t slot)\<lparr>conn_destination := Some (d\<lparr>dest_host := conn_host (conn t slot)\<rparr>),
       conn_policy_digest := snprintf_s 65 (digest_hex (srv_policy t)),
       conn_policy_generation := metric_policy_generation (srv_metrics t)\<rparr>"
    "known_principal (select_destination slot d t) = known_principal t"
    "too_many_active r (select_destination slot d t) = too_many_active r t" "srv_config (select_destination slot d t) = srv_config t"
  using assms by (simp_all add: select_destination_def too_many_active_def Let_def)

lemma admit_request_conn:
  "conn_state (conn (admit_request slot r t) slot) = conn_state (conn t slot)"
  "conn_destination (conn (admit_request slot r t) slot) = conn_destination (conn t slot)"
  "conn_protocol (conn (admit_request slot r t) slot) = conn_protocol (conn t slot)"
  by (cases "slot < length (connections t)"; simp add: admit_request_def Let_def conn_def on_conn_def on_metrics_def list_update_beyond)+

text \<open>The destination was found: admission, then the charge for what the client already sent.\<close>

lemma begin_selected:
  assumes lives: "lives K slot s t" "slot < length (connections s)"
    and t: "conn_state (conn t slot) = CONNECTION_HANDSHAKE" "\<not> quota_admitted (conn t slot)" "quota_stream_used (conn t slot) = 0"
      "conn_principal_index (conn t slot) = request_principal_index r"
      "known_principal t (request_principal_index r) \<Longrightarrow>
        quota_bytes (conn t slot) = max_bytes_per_connection (principals (srv_config t) ! the (request_principal_index r)) \<and>
        quota_total_bytes (conn t slot) = max_bytes_total (principals (srv_config t) ! the (request_principal_index r))"
      "\<not> too_many_active r t" "reachable_by (conn t slot)"
    and run: "(case forward_input r (client_to_upstream (conn (admit_request slot r t) slot)) of
        None \<Rightarrow> (False, admit_request slot r t)
      | Some input \<Rightarrow> charge_request K slot (on_conn slot (\<lambda>c. c\<lparr>client_to_upstream := input\<rparr>) (admit_request slot r t))) = (ok, t')"
  shows "lives K slot s t'" "ok \<Longrightarrow> ends K slot s t'"
proof -
  let ?u = "admit_request slot r t"
  have u: "lives K slot s ?u" using lives(1) life.admit[OF t(1-4) _ t(6)] t(5) by (blast intro: rtranclp.rtrancl_into_rtrancl)
  have ready: "ready (conn ?u slot)" using t(1,7) by (simp add: ready_def may_open_def reachable_by_def admit_request_conn split: option.splits)
  have "ends K slot s t'" if f: "forward_input r (client_to_upstream (conn ?u slot)) = Some input" for input
  proof -
    have q: "quiet slot ?u (on_conn slot (\<lambda>c. c\<lparr>client_to_upstream := input\<rparr>) ?u)"
      using forward_input_wf[OF f] by (intro quiet.update quiet.refl) (simp_all add: same_core_def)
    show ?thesis
      using run f ends_charge_request[OF lives_quiet[OF u q] lives(2) quiet_ready[OF q ready]] by simp
  qed
  then show "lives K slot s t'" "ok \<Longrightarrow> ends K slot s t'"
    using run u ends_lives by (auto split: option.splits)
qed

lemma ends_begin_request:
  assumes lives: "lives K slot s t" "slot < length (connections s)"
    and t: "conn_state (conn t slot) = CONNECTION_HANDSHAKE" "pristine (conn t slot)"
    and protocol: "request_protocol r \<noteq> PROTOCOL_NONE" and run: "egress_connection_begin_request K slot r t = (ok, t')"
  shows "lives K slot s t'" "ok \<Longrightarrow> ends K slot s t'"
proof -
  define u where "u = request_identity slot r t"
  have slot: "slot < length (connections t)" by (rule lives_length[OF lives])
  have u: "lives K slot s u"
    unfolding u_def using lives(1) life.identify t by (blast intro: rtranclp.rtrancl_into_rtrancl dest: pristine_def[THEN iffD1])
  note uc = request_identity_conn[OF slot, of r, folded u_def]
  have uslot: "slot < length (connections u)" by (rule lives_length[OF u lives(2)])
  have uk: "known_principal u = known_principal t" by (rule known_principal_cong) (rule uc)
  have denied: "lives K slot s t' \<and> (ok \<longrightarrow> ends K slot s t')" if "deny_request K slot x = (ok, t')" "lives K slot s x" for x
    using ends_deny[OF that(2) lives(2) that(1)] ends_lives by blast
  show "lives K slot s t'" "ok \<Longrightarrow> ends K slot s t'"
  proof (atomize(full), cases "too_many_active r u")
    case True
    have "quiet slot u (on_metrics (\<lambda>m. m\<lparr>metric_quota_denials := metric_quota_denials m + 1\<rparr>)
          (on_conn slot (\<lambda>c. c\<lparr>conn_quota_scope := QUOTA_ACTIVE_CONNECTIONS\<rparr>) u))"
      by (intro quiet_steps quiet.refl) (simp_all add: same_core_def same_counters_def)
    then show "lives K slot s t' \<and> (ok \<longrightarrow> ends K slot s t')"
      using run True by (intro denied[OF _ lives_quiet[OF u]]) (simp_all add: egress_connection_begin_request_def u_def[symmetric])
  next
    case few: False
    show "lives K slot s t' \<and> (ok \<longrightarrow> ends K slot s t')"
    proof (cases "egress_policy_find (srv_policy u) (Some (request_host r)) (request_port r)")
      case None
      then show ?thesis using run few denied[OF _ u] unfolding egress_connection_begin_request_def Let_def u_def[symmetric] by simp
    next
      case (Some d)
      define v where "v = select_destination slot d u"
      note vc = select_destination_conn[OF uslot, where d = d, folded v_def]
      have v: "lives K slot s v" unfolding v_def using u life.select[OF _ Some] uc(1) t(1) by (auto intro: rtranclp.rtrancl_into_rtrancl)
      show ?thesis
      proof (cases "require_tls_sni d \<and> request_protocol r = PROTOCOL_HTTP_FORWARD")
        case True
        then show ?thesis using run few Some denied[OF _ v]
          unfolding egress_connection_begin_request_def Let_def u_def[symmetric] by (simp add: v_def)
      next
        case False
        then have reach: "reachable_by (conn v slot)"
          using protocol uc(5) by (cases "request_protocol r") (auto simp: reachable_by_def vc tunnel_def)
        have "(case forward_input r (client_to_upstream (conn (admit_request slot r v) slot)) of None \<Rightarrow> (False, admit_request slot r v)
          | Some input \<Rightarrow> charge_request K slot (on_conn slot (\<lambda>c. c\<lparr>client_to_upstream := input\<rparr>) (admit_request slot r v))) = (ok, t')"
          using run few Some False unfolding egress_connection_begin_request_def Let_def u_def[symmetric] v_def by simp
        note step = begin_selected[OF v lives(2) _ _ _ _ _ _ reach this]
        show ?thesis using step few t uc uk vc by (simp add: pristine_def)
      qed
    qed
  qed
qed

section \<open>The proxy handshake\<close>

lemma greeting_code:
  "socks_code (socks_greeting bs c (socks_start p w)) \<noteq> Socks_request"
  "socks_code (socks_greeting bs c (socks_start p w)) = Socks_frame \<Longrightarrow> socks_phase (socks_greeting bs c (socks_start p w)) \<in> {1, 2}"
  by (cases "greeting_methods bs"; auto simp: socks_greeting_def greeting_methods_def Let_def split: prod.splits if_splits)+

lemma password_code:
  "socks_code (socks_password bs c (socks_start p w)) \<noteq> Socks_request"
  "socks_code (socks_password bs c (socks_start p w)) = Socks_frame \<Longrightarrow> socks_phase (socks_password bs c (socks_start p w)) = 2"
proof -
  have "password_fields bs = Inl code \<Longrightarrow> code = Socks_incomplete \<or> code = Socks_protocol_error" for code
    by (auto simp: password_fields_def Let_def split: if_splits)
  then show "socks_code (socks_password bs c (socks_start p w)) \<noteq> Socks_request"
    "socks_code (socks_password bs c (socks_start p w)) = Socks_frame \<Longrightarrow> socks_phase (socks_password bs c (socks_start p w)) = 2"
    by (cases "password_fields bs"; force simp: socks_password_def Let_def split: prod.splits if_splits)+
qed

lemma connect_code:
  "socks_code (socks_connect bs (socks_start p w)) = Socks_request \<Longrightarrow>
    request_protocol (socks_request (socks_connect bs (socks_start p w))) = PROTOCOL_SOCKS5"
  by (auto simp: socks_connect_def Let_def dest: connect_fields_Inl split: sum.splits prod.splits option.splits if_splits)

lemma socks_request_protocol:
  "socks_code (egress_parse_socks_frame c p w bs) = Socks_request \<Longrightarrow>
    request_protocol (socks_request (egress_parse_socks_frame c p w bs)) = PROTOCOL_SOCKS5"
  using greeting_code(1)[of bs c p w] password_code(1)[of bs c p w] connect_code[of bs p w]
  by (auto simp: egress_parse_socks_frame_def Let_def split: if_splits)

text \<open>A frame that is not the last one moves the dialogue to a later phase.\<close>

lemma socks_frame_phase:
  "socks_code (egress_parse_socks_frame c p w bs) = Socks_frame \<Longrightarrow>
    0 \<le> p \<and> p < socks_phase (egress_parse_socks_frame c p w bs) \<and> socks_phase (egress_parse_socks_frame c p w bs) \<le> 2"
  using connect_not_frame[of bs p w] greeting_code(2)[of bs c p w] password_code(2)[of bs c p w]
  by (auto simp: egress_parse_socks_frame_def Let_def split: if_splits)

lemma http_destination_protocol: "http_destination m t = Some (p, h, q, ot) \<Longrightarrow> p \<noteq> PROTOCOL_NONE"
  by (auto simp: http_destination_def Let_def split: if_splits option.splits prod.splits)

lemma http_request_protocol: "egress_parse_http_request a b c bs = Http_complete r \<Longrightarrow> request_protocol r \<noteq> PROTOCOL_NONE"
  unfolding egress_parse_http_request_def http_header_def http_finish_def Let_def
  by (auto dest!: http_destination_protocol split: if_splits option.splits prod.splits)

text \<open>One round of the SOCKS dialogue.\<close>

definition waiting :: "egress_connection \<Rightarrow> bool" where
  "waiting c \<longleftrightarrow> conn_state c = CONNECTION_HANDSHAKE \<and> pristine c"

lemma quiet_waiting: "quiet slot s t \<Longrightarrow> waiting (conn s slot) \<Longrightarrow> waiting (conn t slot)"
  using quiet_core[of slot s t] by (simp add: waiting_def pristine_def)

lemma socks_step_quiet: "socks_step K slot t = (out, t') \<Longrightarrow> waiting (conn t slot) \<Longrightarrow> quiet slot s t \<Longrightarrow> quiet slot s t'"
  unfolding socks_step_def Let_def by (auto simp: same_core_def waiting_def pristine_def intro!: quiet.update)

lemma queue_keeps_phase: "queue_to_client slot bs t = (ok, t') \<Longrightarrow> conn_socks_phase (conn t' slot) = conn_socks_phase (conn t slot)"
  by (auto simp: queue_to_client_def Let_def conn_on_conn split: prod.splits if_splits)

definition socks_consume :: "nat \<Rightarrow> nat \<Rightarrow> egress_server \<Rightarrow> egress_server" where
  "socks_consume slot n t = (if n \<noteq> 0 then
     on_conn slot (\<lambda>c. c\<lparr>client_to_upstream := buffer_consume (client_to_upstream c) n\<rparr>) t else t)"

lemma socks_consume_quiet: "quiet slot s t \<Longrightarrow> quiet slot s (socks_consume slot n t)"
  by (auto simp: socks_consume_def same_core_def dest: buffer_consume_ok(1) intro!: quiet.update)

lemma parse_socks_unfold:
  assumes "socks_step K slot t = (out, u)"
    "(if socks_response out \<noteq> [] then queue_to_client slot (socks_response out) u else (True, u)) = (queued, v)"
  shows "parse_socks K slot t =
    (if socks_code out = Socks_incomplete then Some (True, u)
     else if \<not> queued then Some (False, v)
     else if socks_code out = Socks_request then Some (egress_connection_begin_request K slot (socks_request out) v)
     else if socks_code out = Socks_frame then parse_socks K slot (socks_consume slot (socks_consumed out) v)
     else Some (True, on_conn slot (\<lambda>c. c\<lparr>conn_result := (if socks_code out = Socks_authentication_error then ERR_DENIED else ERR_PROTOCOL),
       close_after_flush := True\<rparr>) (socks_consume slot (socks_consumed out) v)))"
  unfolding socks_consume_def by (subst parse_socks.simps) (use assms in \<open>simp add: Let_def\<close>)

lemma parse_socks_ends:
  assumes "lives K slot s t" "slot < length (connections s)" "waiting (conn t slot)"
  shows "\<exists>ok t'. parse_socks K slot t = Some (ok, t') \<and> lives K slot s t' \<and> (ok \<longrightarrow> ends K slot s t')"
  using assms
proof (induction "nat (2 - conn_socks_phase (conn t slot))" arbitrary: t rule: less_induct)
  case less
  have slot: "slot < length (connections t)" by (rule lives_length[OF less.prems(1,2)])
  obtain out u where step: "socks_step K slot t = (out, u)" by fastforce
  obtain queued v where v: "(if socks_response out \<noteq> [] then queue_to_client slot (socks_response out) u else (True, u)) = (queued, v)"
    by fastforce
  define w where "w = socks_consume slot (socks_consumed out) v"
  have u: "quiet slot t u" by (rule socks_step_quiet[OF step less.prems(3) quiet.refl])
  have qv: "quiet slot t v" using u v by (auto split: if_splits intro: quiet_queue_to_client)
  have w: "quiet slot t w" unfolding w_def by (rule socks_consume_quiet[OF qv])
  note wait = quiet_waiting[OF _ less.prems(3)] and live = lives_quiet[OF less.prems(1)]
  have out: "out = egress_parse_socks_frame (srv_config t) (conn_socks_phase (conn t slot))
      (authenticated_invocation_id (conn t slot), conn_principal_index (conn t slot)) (buffer_content (client_to_upstream (conn t slot)))"
    and phase_u: "conn_socks_phase (conn u slot) = socks_phase out"
    using step slot by (auto simp: socks_step_def Let_def)
  have "conn_socks_phase (conn v slot) = conn_socks_phase (conn u slot)" using v by (auto split: if_splits dest: queue_keeps_phase)
  then have phase: "conn_socks_phase (conn w slot) = socks_phase out" using phase_u by (simp add: w_def socks_consume_def conn_on_conn)
  have stop: "ends K slot s u" "ends K slot s w"
    using wait[OF u] wait[OF w] live[OF u] live[OF w] by (simp_all add: ends_def fresh_def waiting_def)
  have fin: "quiet slot w (on_conn slot (\<lambda>c. c\<lparr>conn_result := (if socks_code out = Socks_authentication_error then ERR_DENIED else ERR_PROTOCOL),
       close_after_flush := True\<rparr>) w)" by (intro quiet.update quiet.refl) (simp_all add: same_core_def)
  have started: "\<exists>ok t'. egress_connection_begin_request K slot (socks_request out) v = (ok, t') \<and> lives K slot s t' \<and> (ok \<longrightarrow> ends K slot s t')"
    if "socks_code out = Socks_request"
  proof -
    obtain ok t' where run: "egress_connection_begin_request K slot (socks_request out) v = (ok, t')" by fastforce
    have "request_protocol (socks_request out) \<noteq> PROTOCOL_NONE" using socks_request_protocol that unfolding out by simp
    then show ?thesis using ends_begin_request[OF live[OF qv] less.prems(2) _ _ _ run] wait[OF qv] run by (auto simp: waiting_def)
  qed
  have rec: "\<exists>ok t'. parse_socks K slot w = Some (ok, t') \<and> lives K slot s t' \<and> (ok \<longrightarrow> ends K slot s t')"
    if "socks_code out = Socks_frame"
  proof (rule less.hyps[OF _ live[OF w] less.prems(2) wait[OF w]])
    show "nat (2 - conn_socks_phase (conn w slot)) < nat (2 - conn_socks_phase (conn t slot))"
      using socks_frame_phase that unfolding phase out by force
  qed
  show ?case
    unfolding parse_socks_unfold[OF step v] w_def[symmetric]
    using stop started rec live[OF qv] live[OF u] ends_quiet[OF stop(2) fin] ends_lives by (cases "socks_code out") auto
qed

end
