(* ===== verification/Egress_Dispatch.thy ===== *)
theory Egress_Dispatch
  imports Egress_Conduct
begin

text \<open>
  An event of the reactor is a sequence of steps of \<open>life\<close>, and the dispatcher always returns. The laws
  of the system library and of the TLS provider are the hypotheses of \<open>kernel_ok\<close>: a call moves no
  more bytes than it was given room for, and \<^verbatim>\<open>malloc\<close> returns a block of the size asked for.
\<close>

section \<open>The environment\<close>

fun call_ok :: "kernel \<Rightarrow> trace \<Rightarrow> bool" where
  "call_ok K (Call_receive h n # tr) \<longleftrightarrow> length (snd (k_receive K (Call_receive h n # tr))) \<le> n"
| "call_ok K (Call_send h bs # tr) \<longleftrightarrow> snd (k_send K (Call_send h bs # tr)) \<le> length bs"
| "call_ok K (Call_tls_read p n # tr) \<longleftrightarrow> length (snd (k_tls_read K (Call_tls_read p n # tr))) \<le> n"
| "call_ok K (Call_tls_write p bs # tr) \<longleftrightarrow> snd (k_tls_write K (Call_tls_write p bs # tr)) \<le> length bs"
| "call_ok K (Call_malloc n # tr) \<longleftrightarrow> (case k_block K (Call_malloc n # tr) of None \<Rightarrow> True | Some block \<Rightarrow> length block = n)"
| "call_ok K tr \<longleftrightarrow> True"

definition kernel_ok :: "kernel \<Rightarrow> bool" where
  "kernel_ok K \<longleftrightarrow> (\<forall>tr. call_ok K tr)"

lemma kernel_okD:
  assumes "kernel_ok K"
  shows "length (snd (k_receive K (Call_receive h n # tr))) \<le> n" "snd (k_send K (Call_send h bs # tr)) \<le> length bs"
    "length (snd (k_tls_read K (Call_tls_read p n # tr))) \<le> n" "snd (k_tls_write K (Call_tls_write p bs # tr)) \<le> length bs"
    "k_block K (Call_malloc n # tr) = Some block \<Longrightarrow> length block = n"
  using assms[unfolded kernel_ok_def, THEN spec, of "Call_receive h n # tr"] assms[unfolded kernel_ok_def, THEN spec, of "Call_send h bs # tr"]
    assms[unfolded kernel_ok_def, THEN spec, of "Call_tls_read p n # tr"] assms[unfolded kernel_ok_def, THEN spec, of "Call_tls_write p bs # tr"]
    assms[unfolded kernel_ok_def, THEN spec, of "Call_malloc n # tr"] by simp_all

section \<open>The handshake\<close>

lemma waiting_fresh: "waiting c \<Longrightarrow> fresh c"
  by (simp add: waiting_def fresh_def)

lemma handshake_http_ends:
  assumes "lives K slot s t" "slot < length (connections s)" "waiting (conn t slot)" "handshake_http K slot t = (ok, t')"
  shows "lives K slot s t'" "ok \<Longrightarrow> ends K slot s t'"
proof -
  let ?p = "egress_parse_http_request (k_alloc K (srv_trace t) 0) (k_alloc K (srv_trace t) 1) (srv_config t)
    (buffer_content (client_to_upstream (conn t slot)))"
  have "quiet slot t (on_conn slot (\<lambda>c. c\<lparr>conn_protocol := PROTOCOL_HTTP_CONNECT\<rparr>) t)"
    using assms(3) by (intro quiet.update quiet.refl) (simp_all add: same_core_def waiting_def pristine_def)
  then have failed: "ends K slot s (egress_connection_fail K slot r a (on_conn slot (\<lambda>c. c\<lparr>conn_protocol := PROTOCOL_HTTP_CONNECT\<rparr>) t))" for r a
    using ends_fail lives_quiet[OF assms(1)] assms(2) by blast
  have "ends K slot s t" using assms(1,3) by (simp add: ends_def waiting_fresh)
  moreover have "lives K slot s t'" "ok \<Longrightarrow> ends K slot s t'" if "?p = Http_complete r" for r
    using ends_begin_request[OF assms(1,2) _ _ http_request_protocol[OF that], of ok t'] assms(3,4) that
    by (auto simp: handshake_http_def waiting_def)
  ultimately show "lives K slot s t'" "ok \<Longrightarrow> ends K slot s t'"
    using assms(4) failed failed[THEN ends_lives] assms(1) unfolding handshake_http_def by (cases ?p; auto)+
qed

lemma process_handshake_ends:
  assumes "lives K slot s t" "slot < length (connections s)" "waiting (conn t slot)"
  shows "\<exists>ok t'. egress_connection_process_handshake K slot t = Some (ok, t') \<and> lives K slot s t' \<and> (ok \<longrightarrow> ends K slot s t')"
proof -
  let ?b = "client_to_upstream (conn t slot)"
  let ?u = "on_conn slot (\<lambda>c. c\<lparr>conn_protocol := PROTOCOL_SOCKS5\<rparr>) t"
  consider "buf_length ?b = 0" | "buf_length ?b \<noteq> 0" "conn_protocol (conn t slot) = PROTOCOL_SOCKS5 \<or> buf_data ?b ! buf_offset ?b = 5"
    | "buf_length ?b \<noteq> 0" "\<not> (conn_protocol (conn t slot) = PROTOCOL_SOCKS5 \<or> buf_data ?b ! buf_offset ?b = 5)" by blast
  then show ?thesis
  proof cases
    case 1
    then show ?thesis using assms(1,3) by (auto simp: egress_connection_process_handshake_def ends_def waiting_fresh)
  next
    case 2
    have q: "quiet slot t ?u"
      using assms(3) by (intro quiet.update quiet.refl) (simp_all add: same_core_def waiting_def pristine_def)
    obtain ok v where v: "parse_socks K slot ?u = Some (ok, v)" "lives K slot s v" "ok \<longrightarrow> ends K slot s v"
      using parse_socks_ends[OF lives_quiet[OF assms(1) q] assms(2) quiet_waiting[OF q assms(3)]] by blast
    then have "egress_connection_process_handshake K slot t =
      (if \<not> ok \<and> conn_state (conn v slot) \<noteq> CONNECTION_UNUSED then Some (ok, egress_connection_fail K slot ERR_PROTOCOL False v) else Some (ok, v))"
      using 2 by (simp add: egress_connection_process_handshake_def)
    then show ?thesis using v ends_lives[OF ends_fail[OF v(2) assms(2)]] by auto
  next
    case 3
    obtain ok t' where run: "handshake_http K slot t = (ok, t')" by fastforce
    then show ?thesis
      using 3 handshake_http_ends[OF assms run] by (auto simp: egress_connection_process_handshake_def)
  qed
qed

text \<open>A step of the TLS handshake.\<close>

lemma tls_handshake_ends:
  assumes "ends K slot s t" "slot < length (connections s)" "conn_state (conn t slot) = CONNECTION_TLS_HANDSHAKE"
    "egress_relay_advance_tls_handshake K slot t = (ok, t')"
  shows "ends K slot s t'"
proof -
  define u where "u = ask (Call_tls_handshake (tls_session (conn t slot))) t"
  define step where "step = k_tls_step K (srv_trace u)"
  define v where "v = on_conn slot (\<lambda>c. c\<lparr>tls_handshake_interest := tls_interest step\<rparr>) u"
  define w where "w = on_conn slot (\<lambda>c. c\<lparr>conn_state := CONNECTION_HANDSHAKE, tls_handshake_interest := {}\<rparr>) v"
  have q: "quiet slot t v" unfolding v_def u_def by (intro quiet_steps quiet.refl) (simp_all add: same_core_def)
  have ev: "ends K slot s v" by (rule ends_quiet[OF assms(1) q])
  have sv: "conn_state (conn v slot) = CONNECTION_TLS_HANDSHAKE" using quiet_core(1)[OF q] assms(3) by simp
  have "life K slot v w" unfolding w_def by (rule life.secured[OF sv])
  moreover have "fresh (conn w slot)"
    using ev sv unfolding w_def conn_on_conn ends_def by (auto simp: fresh_def pristine_def in_handshake_def)
  ultimately have ew: "ends K slot s w" using ends_lives[OF ev] by (auto simp: ends_def intro: rtranclp.rtrancl_into_rtrancl)
  have "ends K slot s (on_conn slot (\<lambda>c. c\<lparr>conn_result := ERR_CRYPTO\<rparr>) v)" by (rule ends_quiet[OF ev quiet_result[OF quiet.refl]])
  moreover have "egress_relay_advance_tls_handshake K slot t = (if step = TLS_COMPLETE then (True, w)
    else (step = TLS_WANT_READ \<or> step = TLS_WANT_WRITE,
      if step = TLS_WANT_READ \<or> step = TLS_WANT_WRITE then v else on_conn slot (\<lambda>c. c\<lparr>conn_result := ERR_CRYPTO\<rparr>) v))"
    unfolding egress_relay_advance_tls_handshake_def Let_def u_def[symmetric] step_def[symmetric] v_def[symmetric] w_def[symmetric] by simp
  ultimately show ?thesis using assms(4) ev ew by (auto split: if_splits)
qed

section \<open>The data plane\<close>

text \<open>What reading and writing does to a connection: at most a charge within the allowance.\<close>

definition moves :: "kernel \<Rightarrow> nat \<Rightarrow> egress_server \<Rightarrow> egress_server \<Rightarrow> bool" where
  "moves K slot t u \<longleftrightarrow> lives K slot t u \<and> conn_state (conn u slot) = conn_state (conn t slot) \<and>
     (fresh (conn t slot) \<longrightarrow> fresh (conn u slot)) \<and> (waiting (conn t slot) \<longrightarrow> waiting (conn u slot))"

lemma quiet_moves: "quiet slot t u \<Longrightarrow> moves K slot t u"
  by (auto simp: moves_def intro: quiet_lives quiet_fresh quiet_waiting dest: quiet_core)

lemma moves_trans: "moves K slot t u \<Longrightarrow> moves K slot u v \<Longrightarrow> moves K slot t v"
  unfolding moves_def by (auto intro: rtranclp_trans)

lemma charge_moves:
  assumes "amount \<le> fst (egress_quota_allowance t (conn t slot))"
  shows "moves K slot t (egress_quota_charge slot amount t)"
proof -
  have "close_after_flush (conn (egress_quota_charge slot amount t) slot) = close_after_flush (conn t slot)"
    by (cases "slot < length (connections t)") (simp_all add: egress_quota_charge_def Let_def conn_def on_conn_def list_update_beyond)
  moreover have "pristine (conn t slot) \<Longrightarrow> egress_quota_charge slot amount t = t" by (simp add: pristine_def egress_quota_charge_def Let_def)
  moreover have "in_handshake (conn (egress_quota_charge slot amount t) slot) = in_handshake (conn t slot)"
    by (simp add: in_handshake_def charge_keeps)
  ultimately show ?thesis
    using life.charge[OF assms] charge_keeps(1)[of slot amount t] unfolding moves_def waiting_def fresh_def by auto
qed

lemma charge_payload_moves:
  "(\<not> in_handshake (conn t slot) \<Longrightarrow> amount \<le> fst (egress_quota_allowance t (conn t slot))) \<Longrightarrow> moves K slot t (charge_payload slot amount t)"
  using charge_moves quiet_moves[OF quiet.refl] by (simp add: charge_payload_def)

lemma of_nat_le_word: "n \<le> unat a \<Longrightarrow> (of_nat n :: u64) \<le> a"
  using order_trans[OF mod_less_eq_dividend] by (simp add: word_le_nat_alt unat_of_nat)

lemma store_received_wf:
  assumes "buffer_available b = (n, b')" "buffer_wf b'" "length bs \<le> n"
  shows "buffer_wf (store_received b' bs)"
proof -
  have "n = buf_capacity b' - buf_offset b' - buf_length b'" using assms(1) by (auto simp: buffer_available_def Let_def)
  then show ?thesis
    using assms(2,3) unfolding store_received_def by (intro buffer_fill_ok(1)) (auto simp: buffer_wf_def)
qed

lemma read_into_ok:
  assumes "kernel_ok K" "read_into K p b m t = (out, u)"
  shows "quiet slot t u" "unat (read_count out) \<le> m" "buffer_wf b \<Longrightarrow> buffer_wf (read_buffer out)" "conn u slot = conn t slot"
proof -
  obtain n b' where room: "buffer_available b = (n, b')" by fastforce
  have "length (snd (k_receive K (Call_receive h (min m n) # srv_trace t))) \<le> min m n" for h using kernel_okD(1)[OF assms(1)] .
  then have le: "unat (of_nat (length bs) :: u64) \<le> m \<and> (buffer_wf b \<longrightarrow> buffer_wf (store_received b' bs))"
    if "k_receive K (Call_receive h (min m n) # srv_trace t) = (r, bs)" for h r bs
    using store_received_wf[OF room, of bs] buffer_available_ok(1)[OF _ room] that order_trans[OF mod_less_eq_dividend] unfolding unat_of_nat
    by (metis min.bounded_iff snd_conv)
  have min: "(if m < n then m else n) = min m n" by simp
  show "quiet slot t u" "unat (read_count out) \<le> m" "buffer_wf b \<Longrightarrow> buffer_wf (read_buffer out)" "conn u slot = conn t slot"
    using assms(2) unfolding read_into_def Let_def room prod.case min
    by (auto simp: buffer_available_ok[OF _ room] split: option.splits if_splits prod.splits intro: quiet.call dest: le)
qed

lemma read_plain_moves:
  assumes "kernel_ok K" "slot < length (connections t)" "read_plain_client K slot (unat a) t = (ok, progress, u)"
    "\<not> in_handshake (conn t slot) \<Longrightarrow> a \<le> fst (egress_quota_allowance t (conn t slot))"
  shows "moves K slot t u"
proof -
  obtain out v where v: "read_into K (client_socket (conn t slot)) (client_to_upstream (conn t slot)) (unat a) t = (out, v)" by fastforce
  note read = read_into_ok[OF assms(1) v]
  define w where "w = on_conn slot (\<lambda>c. c\<lparr>client_to_upstream := read_buffer out,
                conn_bytes_from_client := conn_bytes_from_client c + read_count out, client_eof := (client_eof c \<or> read_eof out)\<rparr>) v"
  have q: "quiet slot t w" unfolding w_def by (intro quiet.update read(1)) (simp_all add: same_core_def read(3,4))
  have "read_count out \<le> a" using read(2) by (simp add: word_le_nat_alt)
  then have "moves K slot w (charge_payload slot (read_count out) w)"
    using assms(4) quiet_allowance[OF q] quiet_core(1)[OF q] by (intro charge_payload_moves) (auto simp: in_handshake_def)
  moreover have "u = (if read_ok out then charge_payload slot (read_count out) w else w)"
    using assms(3) unfolding read_plain_client_def Let_def v prod.case w_def[symmetric] by auto
  ultimately show ?thesis using quiet_moves[OF q, of K] moves_trans by auto
qed

lemma read_tls_moves:
  assumes "kernel_ok K" "slot < length (connections t)" "read_tls_client K slot (unat a) t = (ok, progress, u)"
    "\<not> in_handshake (conn t slot) \<Longrightarrow> a \<le> fst (egress_quota_allowance t (conn t slot))"
  shows "moves K slot t u"
proof -
  obtain n b where room: "buffer_available (client_to_upstream (conn t slot)) = (n, b)" by fastforce
  define v where "v = on_conn slot (\<lambda>c. c\<lparr>client_to_upstream := b\<rparr>) t"
  define m where "m = (if unat a < n then unat a else n)"
  define w where "w = ask (Call_tls_read (tls_session (conn v slot)) m) v"
  obtain step bs where ans: "k_tls_read K (srv_trace w) = (step, bs)" by fastforce
  define x where "x = on_conn slot (\<lambda>c. c\<lparr>tls_read_interest := tls_interest step\<rparr>) w"
  define y where "y = on_conn slot (\<lambda>c. c\<lparr>client_to_upstream := store_received (client_to_upstream c) bs,
                      conn_bytes_from_client := conn_bytes_from_client c + of_nat (length bs)\<rparr>) x"
  have v: "quiet slot t v" unfolding v_def by (intro quiet.update quiet.refl) (auto simp: same_core_def dest: buffer_available_ok(1)[OF _ room])
  have x: "quiet slot t x" unfolding x_def w_def by (intro quiet_steps v) (simp_all add: same_core_def)
  have conn_x: "client_to_upstream (conn x slot) = b" using assms(2) by (simp add: x_def w_def v_def)
  have len: "length bs \<le> m" using kernel_okD(3)[OF assms(1), of "tls_session (conn v slot)" m "srv_trace v"] ans by (simp add: w_def)
  then have small: "length bs \<le> n" "of_nat (length bs) \<le> a" by (auto simp: m_def intro!: of_nat_le_word split: if_splits)
  have y: "quiet slot t y"
    unfolding y_def using store_received_wf[OF room] small(1) by (intro quiet.update x) (simp_all add: same_core_def conn_x)
  then have "moves K slot y (charge_payload slot (of_nat (length bs)) y)"
    using assms(4) quiet_allowance[OF y] quiet_core(1)[OF y] small(2) by (intro charge_payload_moves) (auto simp: in_handshake_def)
  then have charged: "moves K slot t (charge_payload slot (of_nat (length bs)) y)" using quiet_moves[OF y] moves_trans by blast
  have last: "moves K slot t z \<Longrightarrow> moves K slot t (on_conn slot (\<lambda>c. c\<lparr>tls_read_interest := {}\<rparr>) z)" for z
    by (erule moves_trans) (intro quiet_moves quiet.update quiet.refl; simp add: same_core_def)
  have "moves K slot t (on_conn slot (\<lambda>c. c\<lparr>client_eof := True, tls_read_interest := {}\<rparr>) x)"
    by (intro quiet_moves quiet.update x; simp add: same_core_def)
  then show ?thesis
    using assms(3) last[OF charged] quiet_moves[OF v, of K] quiet_moves[OF x, of K] quiet_moves[OF quiet_result[OF x], of K]
    unfolding read_tls_client_def Let_def room prod.case v_def[symmetric] m_def[symmetric] w_def[symmetric] ans x_def[symmetric] y_def[symmetric]
    by (auto split: if_splits)
qed

lemma read_from_client_moves:
  assumes "kernel_ok K" "slot < length (connections t)" "read_from_client K slot p t = (ok, progress, u)"
  shows "moves K slot t u"
proof -
  obtain a scope where a: "(if in_handshake (conn t slot) then (- 1, QUOTA_NONE) else egress_quota_allowance t (conn t slot)) = (a, scope)"
    by fastforce
  then have le: "\<not> in_handshake (conn t slot) \<Longrightarrow> a \<le> fst (egress_quota_allowance t (conn t slot))" by (simp split: if_splits)
  show ?thesis
    using assms(3) read_plain_moves[OF assms(1,2) _ le] read_tls_moves[OF assms(1,2) _ le] quiet_moves[OF quiet_exhaust[OF quiet.refl]]
    unfolding read_from_client_def Let_def a prod.case by (auto split: if_splits)
qed

lemma send_bound:
  assumes "kernel_ok K" "k_send K (Call_send h (read_at d at n) # tr) = (r, w)"
  shows "w \<le> n"
  using kernel_okD(2)[OF assms(1), of h "read_at d at n" tr] assms(2) by (simp add: read_at_def)

lemma write_from_ok:
  assumes "kernel_ok K" "write_from K p b m t = (out, u)"
  shows "quiet slot t u" "unat (write_count out) \<le> m" "buffer_wf b \<Longrightarrow> buffer_wf (write_buffer out)" "conn u slot = conn t slot"
proof -
  have le: "unat (of_nat w :: u64) \<le> m"
    if "k_send K (Call_send h (read_at d at n) # tr) = (r, w)" "n \<le> m" for h d at n tr r w
    using send_bound[OF assms(1) that(1)] that(2) order_trans[OF mod_less_eq_dividend] unfolding unat_of_nat by (meson order_trans)
  show "quiet slot t u" "unat (write_count out) \<le> m" "buffer_wf b \<Longrightarrow> buffer_wf (write_buffer out)" "conn u slot = conn t slot"
    using assms(2) unfolding write_from_def Let_def
    by (auto simp: buffer_consume_ok split: option.splits if_splits prod.splits intro: quiet.call dest: le)
qed

lemma charge_written_moves:
  assumes "quota_client_exempt_bytes (conn t slot) = 0 \<Longrightarrow> amount \<le> fst (egress_quota_allowance t (conn t slot))"
  shows "moves K slot t (charge_written slot amount t)"
  using assms charge_moves quiet_moves[OF quiet.update[OF quiet.refl]] by (simp add: charge_written_def same_core_def)

lemma write_plain_moves:
  assumes "kernel_ok K" "slot < length (connections t)" "write_plain_client K slot (unat a) t = (ok, progress, u)"
    "quota_client_exempt_bytes (conn t slot) = 0 \<Longrightarrow> a \<le> fst (egress_quota_allowance t (conn t slot))"
  shows "moves K slot t u"
proof -
  obtain out v where v: "write_from K (client_socket (conn t slot)) (upstream_to_client (conn t slot)) (unat a) t = (out, v)" by fastforce
  note wrote = write_from_ok[OF assms(1) v]
  define w where "w = on_conn slot (\<lambda>c. c\<lparr>upstream_to_client := write_buffer out, conn_bytes_to_client := conn_bytes_to_client c + write_count out\<rparr>) v"
  have q: "quiet slot t w" unfolding w_def by (intro quiet.update wrote(1)) (simp_all add: same_core_def wrote(3,4))
  have "write_count out \<le> a" using wrote(2) by (simp add: word_le_nat_alt)
  moreover have "quota_client_exempt_bytes (conn w slot) = quota_client_exempt_bytes (conn t slot)" by (simp add: w_def conn_on_conn wrote(4))
  ultimately have "moves K slot w (charge_written slot (write_count out) w)"
    using assms(4) quiet_allowance[OF q] by (intro charge_written_moves) auto
  then have "moves K slot t (charge_written slot (write_count out) w)" using quiet_moves[OF q] moves_trans by blast
  moreover have "u = (if write_ok out \<and> write_count out \<noteq> 0 then charge_written slot (write_count out) w else w)"
    using assms(3) unfolding write_plain_client_def Let_def v prod.case w_def[symmetric] by auto
  ultimately show ?thesis using quiet_moves[OF q, of K] by auto
qed

lemma write_tls_moves:
  assumes "kernel_ok K" "slot < length (connections t)" "write_tls_client K slot (unat a) t = (ok, progress, u)"
    "quota_client_exempt_bytes (conn t slot) = 0 \<Longrightarrow> a \<le> fst (egress_quota_allowance t (conn t slot))"
  shows "moves K slot t u"
proof -
  define b where "b = upstream_to_client (conn t slot)"
  define m where "m = (if buf_length b < unat a then buf_length b else unat a)"
  define w where "w = ask (Call_tls_write (tls_session (conn t slot)) (read_at (buf_data b) (buf_offset b) m)) t"
  obtain step k where ans: "k_tls_write K (srv_trace w) = (step, k)" by fastforce
  define x where "x = on_conn slot (\<lambda>c. c\<lparr>tls_write_interest := tls_interest step\<rparr>) w"
  define y where "y = on_conn slot (\<lambda>c. c\<lparr>upstream_to_client := buffer_consume b k, conn_bytes_to_client := conn_bytes_to_client c + of_nat k\<rparr>) x"
  have x: "quiet slot t x" unfolding x_def w_def by (intro quiet_steps quiet.refl) (simp_all add: same_core_def)
  have conn_x: "upstream_to_client (conn x slot) = b" using assms(2) by (simp add: x_def w_def b_def)
  have y: "quiet slot t y" unfolding y_def by (intro quiet.update x) (simp_all add: same_core_def conn_x buffer_consume_ok)
  have "length (read_at (buf_data b) (buf_offset b) m) \<le> m" by (simp add: read_at_def)
  then have "k \<le> m" using kernel_okD(4)[OF assms(1), of "tls_session (conn t slot)" "read_at (buf_data b) (buf_offset b) m" "srv_trace t"] ans
    by (simp add: w_def)
  then have "of_nat k \<le> a" by (auto simp: m_def intro!: of_nat_le_word split: if_splits)
  moreover have "quota_client_exempt_bytes (conn y slot) = quota_client_exempt_bytes (conn t slot)" using assms(2) by (simp add: y_def x_def w_def)
  ultimately have "moves K slot y (charge_written slot (of_nat k) y)"
    using assms(4) quiet_allowance[OF y] by (intro charge_written_moves) auto
  then have "moves K slot t (charge_written slot (of_nat k) y)" using quiet_moves[OF y] moves_trans by blast
  then have charged: "moves K slot t (on_conn slot (\<lambda>c. c\<lparr>tls_write_interest := {}\<rparr>) (charge_written slot (of_nat k) y))"
    by (rule moves_trans) (intro quiet_moves quiet.update quiet.refl; simp add: same_core_def)
  show ?thesis
    using assms(3) charged quiet_moves[OF quiet.refl, of K slot t] quiet_moves[OF x, of K] quiet_moves[OF quiet_result[OF x], of K]
    unfolding write_tls_client_def Let_def b_def[symmetric] m_def[symmetric] w_def[symmetric] ans prod.case x_def[symmetric] y_def[symmetric]
    by (auto split: if_splits)
qed

lemma write_to_client_moves:
  assumes "kernel_ok K" "slot < length (connections t)" "write_to_client K slot p t = (ok, progress, u)"
  shows "moves K slot t u"
proof -
  obtain a scope where a: "(if quota_client_exempt_bytes (conn t slot) \<noteq> 0 then (quota_client_exempt_bytes (conn t slot), QUOTA_NONE)
      else egress_quota_allowance t (conn t slot)) = (a, scope)" by fastforce
  then have le: "quota_client_exempt_bytes (conn t slot) = 0 \<Longrightarrow> a \<le> fst (egress_quota_allowance t (conn t slot))" by (simp split: if_splits)
  show ?thesis
    using assms(3) write_plain_moves[OF assms(1,2) _ le] write_tls_moves[OF assms(1,2) _ le] quiet_moves[OF quiet_exhaust[OF quiet.refl]]
    unfolding write_to_client_def Let_def a prod.case by (auto split: if_splits)
qed

lemma quiet_upstream:
  assumes "kernel_ok K"
  shows "upstream_input K slot t = (ok, t') \<Longrightarrow> quiet slot t t'" "upstream_output K slot t = (ok, t') \<Longrightarrow> quiet slot t t'"
proof -
  have r: "quiet slot t (on_conn slot (\<lambda>c. c\<lparr>upstream_to_client := read_buffer out, upstream_eof := (upstream_eof c \<or> read_eof out)\<rparr>) u)"
    if "read_into K p (upstream_to_client (conn t slot)) m t = (out, u)" for p m out u
    using read_into_ok[OF assms that] by (intro quiet.update) (simp_all add: same_core_def)
  have w: "quiet slot t (on_conn slot (\<lambda>c. c\<lparr>client_to_upstream := write_buffer out\<rparr>) u)"
    if "write_from K p (client_to_upstream (conn t slot)) m t = (out, u)" for p m out u
    using write_from_ok[OF assms that] by (intro quiet.update) (simp_all add: same_core_def)
  show "upstream_input K slot t = (ok, t') \<Longrightarrow> quiet slot t t'" "upstream_output K slot t = (ok, t') \<Longrightarrow> quiet slot t t'"
    unfolding upstream_input_def upstream_output_def Let_def by (auto split: prod.splits intro!: quiet_touch_if intro: r w)
qed

section \<open>Events\<close>

definition step_ok :: "kernel \<Rightarrow> nat \<Rightarrow> egress_server \<Rightarrow> relay_step \<Rightarrow> bool" where
  "step_ok K slot s step \<longleftrightarrow> (case step of Relay_return u \<Rightarrow> ends K slot s u
     | Relay_continue ok u \<Rightarrow> lives K slot s u \<and> (ok \<longrightarrow> ends K slot s u))"

lemma ends_moves: "ends K slot s t \<Longrightarrow> moves K slot t u \<Longrightarrow> ends K slot s u"
  unfolding ends_def moves_def by (auto intro: rtranclp_trans)

lemma ends_refl: "fresh (conn s slot) \<Longrightarrow> ends K slot s s"
  by (simp add: ends_def)

lemma client_input_ok:
  assumes "kernel_ok K" "ends K slot s t" "slot < length (connections s)" "\<not> close_after_flush (conn t slot)"
  shows "\<exists>progress step. client_input K slot t = Some (progress, step) \<and> step_ok K slot s step"
proof -
  have slot: "slot < length (connections t)" by (rule lives_length[OF ends_lives[OF assms(2)] assms(3)])
  obtain ok progress u where read: "read_from_client K slot False t = (ok, progress, u)" by (metis prod_cases3)
  define v where "v = touch_if K slot (ok \<and> progress) u"
  have mv: "moves K slot t v"
    unfolding v_def using moves_trans[OF read_from_client_moves[OF assms(1) slot read] quiet_moves[OF quiet_touch_if[OF quiet.refl]]] .
  have ev: "ends K slot s v" by (rule ends_moves[OF assms(2) mv])
  have wait: "waiting (conn v slot)" if "conn_state (conn v slot) = CONNECTION_HANDSHAKE"
    using mv that assms(2,4) by (auto simp: moves_def waiting_def ends_def fresh_def in_handshake_def)
  define checked where "checked \<longleftrightarrow> ok \<and> (conn_state (conn v slot) = CONNECTION_HANDSHAKE \<or> conn_state (conn v slot) = CONNECTION_IDENTITY)"
  consider "ok" "conn_state (conn v slot) = CONNECTION_HANDSHAKE" | "ok" "conn_state (conn v slot) = CONNECTION_IDENTITY"
    | "\<not> ok \<or> conn_state (conn v slot) \<noteq> CONNECTION_HANDSHAKE \<and> conn_state (conn v slot) \<noteq> CONNECTION_IDENTITY" by blast
  then obtain k x where "client_input K slot t = (if checked \<and> conn_state (conn x slot) = CONNECTION_UNUSED
      then Some (progress, Relay_return x) else Some (progress, Relay_continue k x))"
    "lives K slot s x" "k \<longrightarrow> ends K slot s x"
  proof cases
    case 1
    then obtain k x where "egress_connection_process_handshake K slot v = Some (k, x)" "lives K slot s x" "k \<longrightarrow> ends K slot s x"
      using process_handshake_ends[OF ends_lives[OF ev] assms(3) wait] by blast
    then show ?thesis using that[of x k] 1 unfolding client_input_def read Let_def prod.case v_def[symmetric] checked_def[symmetric] by simp
  next
    case 2
    obtain k x where x: "egress_connection_enforce_tunnel_identity K slot v = (k, x)" by fastforce
    then show ?thesis
      using that[of x k] 2 ends_identity[OF ev assms(3) x] ends_lives unfolding client_input_def read Let_def prod.case v_def[symmetric] checked_def[symmetric] by simp
  next
    case 3
    then show ?thesis using that[of v ok] ev ends_lives unfolding client_input_def read Let_def prod.case v_def[symmetric] checked_def[symmetric] by auto
  qed
  then show ?thesis by (auto simp: step_ok_def ends_def fresh_def in_handshake_def)
qed

lemma client_output_ok:
  assumes "kernel_ok K" "lives K slot s t" "ok \<longrightarrow> ends K slot s t" "slot < length (connections s)"
    "client_output K slot flags progress ok t = (ok', t')"
  shows "lives K slot s t'" "ok' \<longrightarrow> ends K slot s t'"
proof -
  have slot: "slot < length (connections t)" by (rule lives_length[OF assms(2,4)])
  obtain k p u where w: "write_to_client K slot progress t = (k, p, u)" by (metis prod_cases3)
  have mv: "moves K slot t (touch_if K slot (k \<and> p) u)"
    using moves_trans[OF write_to_client_moves[OF assms(1) slot w] quiet_moves[OF quiet_touch_if[OF quiet.refl]]] .
  define go where "go \<longleftrightarrow> ok \<and> conn_state (conn t slot) \<noteq> CONNECTION_TLS_HANDSHAKE \<and> buf_length (upstream_to_client (conn t slot)) \<noteq> 0 \<and>
              flags \<inter> client_write_interest (conn t slot) \<noteq> {}"
  define v where "v = (if go then touch_if K slot (k \<and> p) u else t)"
  have v: "lives K slot s v" "ok \<longrightarrow> ends K slot s v"
    using assms(2,3) ends_moves[OF _ mv] ends_lives by (auto simp: v_def go_def)
  have q: "quiet slot v (if FLAG_ERROR \<in> flags \<and> FLAG_READ \<notin> flags then on_conn slot (\<lambda>c. c\<lparr>client_eof := True\<rparr>) v else v)"
    by (auto simp: same_core_def intro!: quiet.update)
  have "ok' = (if go then k else ok)" "t' = (if FLAG_ERROR \<in> flags \<and> FLAG_READ \<notin> flags then on_conn slot (\<lambda>c. c\<lparr>client_eof := True\<rparr>) v else v)"
    using assms(5) unfolding client_output_def Let_def go_def[symmetric] w prod.case by (cases go; auto simp: v_def)+
  then show "lives K slot s t'" "ok' \<longrightarrow> ends K slot s t'"
    using v lives_quiet[OF v(1) q] ends_quiet[OF _ q] by (auto simp: go_def)
qed

lemma client_event_ok:
  assumes "kernel_ok K" "ends K slot s t" "slot < length (connections s)"
  shows "\<exists>step. client_event K slot flags t = Some step \<and> step_ok K slot s step"
proof -
  define first where "first = (if conn_state (conn t slot) = CONNECTION_TLS_HANDSHAKE \<and> flags \<inter> tls_handshake_interest (conn t slot) \<noteq> {} then
       case egress_relay_advance_tls_handshake K slot t of (ok, s) \<Rightarrow> Some (False, Relay_continue ok s)
     else if flags \<inter> client_read_interest (conn t slot) \<noteq> {} \<and> \<not> close_after_flush (conn t slot) then client_input K slot t
     else Some (False, Relay_continue True t))"
  obtain ok u where hs: "egress_relay_advance_tls_handshake K slot t = (ok, u)" by fastforce
  have "\<exists>p step. first = Some (p, step) \<and> step_ok K slot s step"
    using tls_handshake_ends[OF assms(2,3) _ hs] client_input_ok[OF assms] assms(2) ends_lives hs unfolding first_def
    by (auto simp: step_ok_def)
  then obtain p step where first: "first = Some (p, step)" "step_ok K slot s step" by blast
  show ?thesis
  proof (cases step)
    case (Relay_return v)
    then show ?thesis using first unfolding client_event_def Let_def first_def[symmetric] by simp
  next
    case (Relay_continue k v)
    obtain k' w where out: "client_output K slot flags p k v = (k', w)" by fastforce
    have "step_ok K slot s (Relay_continue k' w)"
      using first(2) client_output_ok[OF assms(1) _ _ assms(3) out] by (simp add: step_ok_def Relay_continue)
    then show ?thesis using first out Relay_continue unfolding client_event_def Let_def first_def[symmetric] by simp
  qed
qed

lemma upstream_connecting_ok:
  assumes "lives K slot s t" "slot < length (connections s)" "ready (conn t slot)"
  shows "step_ok K slot s (upstream_connecting K slot t)"
proof -
  define u where "u = ask (Call_connect_complete (upstream_socket (conn t slot))) t"
  define v where "v = release_upstream slot (on_conn slot (\<lambda>c. c\<lparr>upstream_watch := 0\<rparr>) (ask (Call_unwatch (upstream_watch (conn u slot))) u))"
  have u: "quiet slot t u" unfolding u_def by (intro quiet_steps quiet.refl) simp
  have v: "quiet slot t v" unfolding v_def by (intro quiet_release quiet_steps u) (simp_all add: same_core_def)
  obtain ok w where w: "egress_connection_connect_next K slot v = (ok, w)" by fastforce
  have "ends K slot s w" by (rule ends_connect_next[OF lives_quiet[OF assms(1) v] assms(2) quiet_ready[OF v assms(3)] w])
  moreover have "ends K slot s (egress_connection_connected K slot u)"
    by (rule ends_connected[OF lives_quiet[OF assms(1) u] assms(2) quiet_ready[OF u assms(3)]])
  ultimately show ?thesis
    using ends_lives unfolding upstream_connecting_def Let_def u_def[symmetric] v_def[symmetric] w prod.case by (auto simp: step_ok_def)
qed

text \<open>A connection attempt is under way only to a destination that may be reached.\<close>

definition opening_ok :: "egress_connection \<Rightarrow> bool" where
  "opening_ok c \<longleftrightarrow> (conn_state c = CONNECTION_CONNECTING \<longrightarrow> reachable_by c)"

lemma upstream_event_ok:
  assumes "kernel_ok K" "ends K slot s t" "slot < length (connections s)" "opening_ok (conn t slot)"
  shows "step_ok K slot s (upstream_event K slot flags t)"
proof -
  have stay: "step_ok K slot s (Relay_continue ok u)" if "quiet slot t u" for ok u
    using ends_quiet[OF assms(2) that] ends_lives by (simp add: step_ok_def)
  have eof: "quiet slot t (if b then on_conn slot (\<lambda>c. c\<lparr>upstream_eof := True\<rparr>) u else u)" if "quiet slot t u" for b u
    using that by (auto simp: same_core_def intro!: quiet.update)
  obtain ok u where u: "(if FLAG_READ \<in> flags then upstream_input K slot t else (True, t)) = (ok, u)" by fastforce
  obtain ok' v where v: "(if ok \<and> FLAG_WRITE \<in> flags then upstream_output K slot u else (ok, u)) = (ok', v)" by fastforce
  have "quiet slot t u" using u quiet_upstream(1)[OF assms(1)] by (auto split: if_splits)
  moreover have "quiet slot u v" using v quiet_upstream(2)[OF assms(1)] by (auto split: if_splits)
  ultimately have q: "quiet slot t v" using quiet_trans by blast
  have "ready (conn t slot)" if "conn_state (conn t slot) = CONNECTION_CONNECTING"
    using that assms(4) by (simp add: ready_def may_open_def opening_ok_def)
  then show ?thesis
    using upstream_connecting_ok[OF ends_lives[OF assms(2)] assms(3)] stay[OF quiet.refl] stay[OF eof[OF q]]
    unfolding upstream_event_def Let_def u prod.case v by simp
qed

lemma relay_finish_ends:
  assumes "lives K slot s t" "ok \<longrightarrow> ends K slot s t" "slot < length (connections s)"
  shows "ends K slot s (relay_finish K slot ok t)"
proof (cases ok)
  case False
  then show ?thesis using ends_close_result[OF assms(1,3)] by (simp add: relay_finish_def close_failed_def)
next
  case True
  define u where "u = check_quota slot t"
  obtain k v where v: "apply_half_closes K slot u = (k, v)" by fastforce
  obtain k' w where w: "egress_connection_update_watches K slot v = (k', w)" by fastforce
  have u: "ends K slot s u" unfolding u_def using ends_quiet assms(2) True quiet_check_quota[OF quiet.refl] by blast
  have ev: "ends K slot s v" by (rule ends_quiet[OF u quiet_half_closes[OF v quiet.refl]])
  have ew: "ends K slot s w" by (rule ends_watches[OF ev w])
  show ?thesis
    using True ev ew ends_close[OF ends_lives[OF u] assms(3)] ends_close[OF ends_lives[OF ev] assms(3)]
      ends_close_result[OF ends_lives[OF ev] assms(3)] ends_close_result[OF ends_lives[OF ew] assms(3)]
    unfolding relay_finish_def Let_def u_def[symmetric] v w prod.case close_failed_def by simp
qed

text \<open>An event is handled to its end, by steps of the life of the connection.\<close>

lemma dispatch_ends:
  assumes "kernel_ok K" "slot < length (connections s)" "fresh (conn s slot)" "opening_ok (conn s slot)"
  shows "\<exists>s'. egress_relay_dispatch K slot side flags s = Some s' \<and> ends K slot s s'"
proof -
  obtain flags' t where t: "peer_hup slot side flags s = (flags', t)" by fastforce
  have q: "quiet slot s t" by (rule quiet_peer_hup[OF t quiet.refl])
  have et: "ends K slot s t" by (rule ends_quiet[OF ends_refl[OF assms(3)] q])
  have reach: "opening_ok (conn t slot)"
    using assms(4) quiet_core(1)[OF q] quiet_reachable[OF q] by (auto simp: opening_ok_def)
  have idle: "step_ok K slot s (Relay_continue True t)" using et ends_lives[OF et] by (simp add: step_ok_def)
  have "\<exists>step. (if side = TOKEN_SIDE_CLIENT then client_event K slot flags' t
      else if side = TOKEN_SIDE_UPSTREAM then Some (upstream_event K slot flags' t) else Some (Relay_continue True t)) = Some step \<and>
    step_ok K slot s step"
    using client_event_ok[OF assms(1) et assms(2), of flags'] upstream_event_ok[OF assms(1) et assms(2) reach, of flags'] idle by simp
  then obtain step where step: "(if side = TOKEN_SIDE_CLIENT then client_event K slot flags' t
      else if side = TOKEN_SIDE_UPSTREAM then Some (upstream_event K slot flags' t) else Some (Relay_continue True t)) = Some step"
    "step_ok K slot s step" by blast
  show ?thesis
    using step(2) relay_finish_ends[OF _ _ assms(2)] unfolding egress_relay_dispatch_def Let_def t prod.case step(1)
    by (cases step) (auto simp: step_ok_def)
qed

end
