(* ===== verification/Egress_Connector.thy ===== *)
theory Egress_Connector
  imports Egress_Connection
begin

text \<open>
  The listening sockets of \<^verbatim>\<open>src/src/server/listener.c\<close> and the native streams of \<^verbatim>\<open>src/src/server/connector.c\<close>.

  A native stream is opened by an embedder thread: it queues a command, and the thread of the
  reactor opens the connection. The two halves of \<^verbatim>\<open>egress_server_open_stream\<close>, before and after the
  wait, are two operations; the reactor runs between them. Connecting the private pair is an event of
  its own, \<open>Call_connect_local\<close>: it reaches the listener of the pair itself.
\<close>

section \<open>Listeners\<close>

definition egress_listener_is_loopback_host :: "bytes \<Rightarrow> bool" where
  "egress_listener_is_loopback_host host \<longleftrightarrow> host = cstr ''127.0.0.1'' \<or> host = cstr ''::1''"

fun listen_loop :: "kernel \<Rightarrow> egress_address list \<Rightarrow> egress_server \<Rightarrow> pointer \<times> egress_server" where
  "listen_loop K [] s = (None, s)"
| "listen_loop K (address # rest) s =
     (let s = ask (Call_socket (sa_family (addr_storage address))) s; (created, handle) = k_socket K (srv_trace s) in
      if created \<noteq> SYS_OK then listen_loop K rest s
      else
        let s = ask (Call_bind handle (addr_storage address)) s in
        if k_result K (srv_trace s) \<noteq> SYS_OK then listen_loop K rest (ask (Call_release (Some handle)) s)
        else
          let s = ask (Call_listen handle 128) s in
          if k_result K (srv_trace s) \<noteq> SYS_OK then listen_loop K rest (ask (Call_release (Some handle)) s)
          else (Some handle, s))"

text \<open>The listener and the port it is bound to.\<close>

definition egress_listener_create_tcp ::
  "kernel \<Rightarrow> bytes \<Rightarrow> u16 \<Rightarrow> egress_server \<Rightarrow> (nat \<times> u16) option \<times> egress_server" where
  "egress_listener_create_tcp K host port s =
     (let s = ask (Call_resolve_numeric host port) s in
      case k_addresses K (srv_trace s) of
        None \<Rightarrow> (None, s)
      | Some found \<Rightarrow>
          let (listener, s) = listen_loop K found s in
          (case listener of
             None \<Rightarrow> (None, s)
           | Some handle \<Rightarrow>
               let s = ask (Call_getsockname handle) s in
               (case k_sockname K (srv_trace s) of
                  Some (Sockaddr_in p _) \<Rightarrow> (Some (handle, p), s)
                | Some (Sockaddr_in6 p _ _ _) \<Rightarrow> (Some (handle, p), s)
                | _ \<Rightarrow> (None, ask (Call_release (Some handle)) s))))"

definition egress_listener_unlink_unix_identity :: "bytes \<Rightarrow> egress_server \<Rightarrow> egress_server" where
  "egress_listener_unlink_unix_identity path s = (if path \<noteq> [] then ask (Call_unlink path) s else s)"

text \<open>The answer about a path tells whether it names a socket.\<close>

definition egress_listener_create_unix :: "kernel \<Rightarrow> bytes \<Rightarrow> egress_server \<Rightarrow> pointer \<times> egress_server" where
  "egress_listener_create_unix K path s =
     (let s = ask (Call_path_identity path) s in
      if fst (k_identity K (srv_trace s)) \<noteq> SYS_ERR_NOT_FOUND then (None, s)
      else
        let s = ask (Call_socket 1) s; (created, handle) = k_socket K (srv_trace s) in
        if created \<noteq> SYS_OK then (None, s)
        else
          let s = ask (Call_bind_unix handle path) s in
          if k_result K (srv_trace s) \<noteq> SYS_OK then (None, ask (Call_release (Some handle)) s)
          else
            let s = ask (Call_path_identity path) s; (present, is_socket) = k_identity K (srv_trace s) in
            if present \<noteq> SYS_OK \<or> \<not> is_socket then (None, ask (Call_release (Some handle)) s)
            else
              let s = ask (Call_chmod path) s;
                  changed = (k_result K (srv_trace s) = SYS_OK);
                  (listening, s) = (if changed then let s = ask (Call_listen handle 128) s in (k_result K (srv_trace s) = SYS_OK, s)
                                    else (False, s))
              in if \<not> listening then (None, egress_listener_unlink_unix_identity path (ask (Call_release (Some handle)) s))
                 else (Some handle, s))"

text \<open>The loop that accepts the relayed end of a private pair: a socket, or the failure.\<close>

partial_function (option) pair_accept ::
  "kernel \<Rightarrow> nat \<Rightarrow> u64 \<Rightarrow> egress_server \<Rightarrow> (pointer \<times> egress_server) option" where
  "pair_accept K listener deadline s =
     (let s = ask (Call_fd_wait (k_fd K listener) {FLAG_READ} deadline) s in
      if k_result K (srv_trace s) \<noteq> SYS_OK then Some (None, s)
      else
        let s = ask (Call_accept (Some listener)) s; (accepted, socket) = k_socket K (srv_trace s) in
        if accepted = SYS_OK then Some (Some socket, s)
        else if accepted \<noteq> SYS_ERR_WOULD_BLOCK then Some (None, s)
        else pair_accept K listener deadline s)"

text \<open>The label \<^verbatim>\<open>done\<close> after a failure, with the sockets that exist by then.\<close>

definition pair_failed :: "nat \<Rightarrow> pointer \<Rightarrow> pointer \<Rightarrow> egress_server \<Rightarrow> (nat \<times> int) option \<times> egress_server" where
  "pair_failed listener client server_socket s =
     (None, ask (Call_close_fd (- 1)) (ask (Call_release server_socket) (ask (Call_release client) (ask (Call_release (Some listener)) s))))"

definition pair_detach :: "kernel \<Rightarrow> nat \<Rightarrow> nat \<Rightarrow> nat \<Rightarrow> egress_server \<Rightarrow> (nat \<times> int) option \<times> egress_server" where
  "pair_detach K listener client server_socket s =
     (let s = ask (Call_detach client) s in
      if k_result K (srv_trace s) \<noteq> SYS_OK then pair_failed listener (Some client) (Some server_socket) s
      else
        let fd = k_fd K client; s = ask (Call_set_blocking fd) s in
        if k_result K (srv_trace s) \<noteq> SYS_OK then
          (None, ask (Call_close_fd fd) (ask (Call_release (Some server_socket)) (ask (Call_release None) (ask (Call_release (Some listener)) s))))
        else (Some (server_socket, fd), ask (Call_release (Some listener)) s))"

definition pair_connect ::
  "kernel \<Rightarrow> nat \<Rightarrow> sockaddr \<Rightarrow> egress_server \<Rightarrow> ((nat \<times> int) option \<times> egress_server) option" where
  "pair_connect K listener address s =
     (let s = ask (Call_socket 2) s; (created, client) = k_socket K (srv_trace s) in
      if created \<noteq> SYS_OK then Some (pair_failed listener None None s)
      else
        let s = ask (Call_connect_local client address) s; (started, state) = k_connect K (srv_trace s) in
        if started \<noteq> SYS_OK then Some (pair_failed listener (Some client) None s)
        else
          let (now, s) = monotonic_now K s; deadline = add_saturating now 5000 in
          (case pair_accept K listener deadline s of
             None \<Rightarrow> None
           | Some (None, s) \<Rightarrow> Some (pair_failed listener (Some client) None s)
           | Some (Some socket, s) \<Rightarrow>
               if state = CONNECT_CONNECTED then Some (pair_detach K listener client socket s)
               else
                 let s = ask (Call_fd_wait (k_fd K client) {FLAG_WRITE} deadline) s in
                 if k_result K (srv_trace s) \<noteq> SYS_OK then Some (pair_failed listener (Some client) (Some socket) s)
                 else
                   let s = ask (Call_connect_complete (Some client)) s in
                   if k_result K (srv_trace s) \<noteq> SYS_OK then Some (pair_failed listener (Some client) (Some socket) s)
                   else Some (pair_detach K listener client socket s)))"

text \<open>The relayed end and the descriptor of the embedder; 127.0.0.1 with a port that the kernel picks.\<close>

definition egress_listener_create_private_tcp_pair ::
  "kernel \<Rightarrow> egress_server \<Rightarrow> ((nat \<times> int) option \<times> egress_server) option" where
  "egress_listener_create_private_tcp_pair K s =
     (let s = ask (Call_socket 2) s; (created, listener) = k_socket K (srv_trace s) in
      if created \<noteq> SYS_OK then Some (None, s)
      else
        let s = ask (Call_bind listener (Sockaddr_in 0 0x7f000001)) s in
        if k_result K (srv_trace s) \<noteq> SYS_OK then Some (pair_failed listener None None s)
        else
          let s = ask (Call_listen listener 1) s in
          if k_result K (srv_trace s) \<noteq> SYS_OK then Some (pair_failed listener None None s)
          else
            let s = ask (Call_getsockname listener) s in
            (case k_sockname K (srv_trace s) of
               None \<Rightarrow> Some (pair_failed listener None None s)
             | Some address \<Rightarrow> pair_connect K listener address s))"

section \<open>Open commands\<close>

text \<open>A command is opened as a connection of its own, or completed with an error.\<close>

definition command_request :: "open_command \<Rightarrow> proxy_request" where
  "command_request c = request_zero\<lparr>request_protocol := PROTOCOL_CONNECTOR, request_port := cmd_port c,
     request_principal_index := cmd_principal_index c, request_host := snprintf_s (EGRESS_MAX_HOST + 1) (cmd_host c),
     request_invocation_id := snprintf_s (EGRESS_MAX_INVOCATION_ID + 1) (cmd_invocation_id c)\<rparr>"

definition open_native :: "kernel \<Rightarrow> nat \<Rightarrow> open_command \<Rightarrow> nat \<Rightarrow> egress_server \<Rightarrow> egress_server" where
  "open_native K command c slot s =
     (let socket = cmd_server_socket c;
          s = s\<lparr>open_commands := (open_commands s)(command \<mapsto> c\<lparr>cmd_server_socket := None\<rparr>)\<rparr>;
          (allocated, s) = open_slot K slot (\<lambda>n. n\<lparr>conn_state := CONNECTION_HANDSHAKE, client_socket := socket,
             client_fd := (case socket of None \<Rightarrow> - 1 | Some h \<Rightarrow> k_fd K h), conn_principal_index := cmd_principal_index c,
             conn_protocol := PROTOCOL_CONNECTOR, open_command := Some command\<rparr>) s;
          s = on_metrics (\<lambda>m. m\<lparr>metric_accepted := metric_accepted m + 1, metric_active := metric_active m + 1\<rparr>)
            (s\<lparr>connection_count := connection_count s + 1\<rparr>)
      in if \<not> allocated then egress_connection_close K slot (on_conn slot (\<lambda>n. n\<lparr>conn_result := ERR_MEMORY\<rparr>) s)
         else
           let (ok, s) = egress_connection_begin_request K slot (command_request c) s in
           if \<not> ok \<and> conn_state (conn s slot) \<noteq> CONNECTION_UNUSED
           then egress_connection_close K slot (on_conn slot (\<lambda>n. n\<lparr>conn_result := ERR_IO\<rparr>) s)
           else s)"

definition process_command :: "kernel \<Rightarrow> nat \<Rightarrow> egress_server \<Rightarrow> egress_server" where
  "process_command K command s =
     (let s = ask (Call_cancelled command) s; cancelled = k_cancelled K (srv_trace s);
          (stopping, s) = (if cancelled then (True, s) else load_stopping K s)
      in if cancelled \<or> stopping then egress_open_command_complete K (Some command) ERR_CANCELLED s
         else if max_connections (srv_config s) \<le> connection_count s then egress_open_command_complete K (Some command) ERR_STATE s
         else
           let slot = free_slot s in
           if slot = max_connections (srv_config s) then egress_open_command_complete K (Some command) ERR_STATE s
           else
             case open_commands s command of
               None \<Rightarrow> s
             | Some c \<Rightarrow> open_native K command c slot s)"

definition egress_open_commands_process :: "kernel \<Rightarrow> egress_server \<Rightarrow> egress_server" where
  "egress_open_commands_process K s = fold (process_command K) (command_queue s) (s\<lparr>command_queue := []\<rparr>)"

definition cancel_slot :: "kernel \<Rightarrow> nat \<Rightarrow> egress_server \<Rightarrow> egress_server" where
  "cancel_slot K slot s =
     (case open_command (conn s slot) of
        None \<Rightarrow> s
      | Some command \<Rightarrow>
          if conn_state (conn s slot) = CONNECTION_UNUSED then s
          else
            let s = ask (Call_cancelled command) s in
            if k_cancelled K (srv_trace s)
            then egress_connection_close K slot (on_conn slot (\<lambda>c. c\<lparr>conn_result := ERR_CANCELLED\<rparr>) s)
            else s)"

definition egress_open_commands_cancel :: "kernel \<Rightarrow> egress_server \<Rightarrow> egress_server" where
  "egress_open_commands_cancel K s = fold (cancel_slot K) [0..<max_connections (srv_config s)] s"

definition egress_open_commands_reject :: "kernel \<Rightarrow> egress_result \<Rightarrow> egress_server \<Rightarrow> egress_server" where
  "egress_open_commands_reject K result s =
     fold (\<lambda>command. egress_open_command_complete K (Some command) result) (command_queue s) (s\<lparr>command_queue := []\<rparr>)"

section \<open>Connectors\<close>

text \<open>The principal of a connector: index, user name and invocation id.\<close>

definition bind_identity :: "egress_config \<Rightarrow> bool \<Rightarrow> bytes option \<Rightarrow> bytes option \<Rightarrow> bool \<times> identity" where
  "bind_identity config native user key =
     (if native then
        (if native_only config \<and> native_principal_bound config \<and> length (principals config) = 1
         then (True, (snprintf_s (EGRESS_MAX_INVOCATION_ID + 1) (invocation_id (principals config ! 0)), Some 0))
         else (False, ([], None)))
      else if \<not> native_principal_bound config then egress_credentials_lookup config user key
      else (False, ([], None)))"

definition egress_server_connector_bind ::
  "kernel \<Rightarrow> bool \<Rightarrow> bytes option \<Rightarrow> bytes option \<Rightarrow> egress_server \<Rightarrow>
     egress_result \<times> (nat \<times> bytes \<times> bytes) option \<times> egress_server" where
  "egress_server_connector_bind K native user key s =
     (if \<not> native \<and> (user = None \<or> key = None) then (ERR_ARGUMENT, None, s)
      else
        let (stopping, s) = (if srv_finalized s then (True, s) else load_stopping K s) in
        if stopping then (ERR_STATE, None, s)
        else
          let (authenticated, (invocation, index)) = bind_identity (srv_config s) native user key in
          if \<not> authenticated \<or> \<not> known_principal s index then
            (ERR_DENIED, None, on_metrics (\<lambda>m. m\<lparr>metric_auth_failures := metric_auth_failures m + 1\<rparr>) s)
          else
            (EGRESS_OK,
             Some (the index, snprintf_s (EGRESS_MAX_USERNAME + 1) (username (principals (srv_config s) ! the index)),
                   snprintf_s (EGRESS_MAX_INVOCATION_ID + 1) invocation),
             s\<lparr>srv_references := srv_references s + 1\<rparr>))"

definition server_loop_wake_if_live :: "kernel \<Rightarrow> egress_server \<Rightarrow> bool \<times> egress_server" where
  "server_loop_wake_if_live K s =
     (if srv_finalized s then (False, s)
      else let s = ask Call_wake s in (k_result K (srv_trace s) = SYS_OK, s))"

text \<open>The first half of \<^verbatim>\<open>egress_server_open_stream\<close>: the command is queued, or the call returns.\<close>

definition queue_command :: "kernel \<Rightarrow> nat \<Rightarrow> open_command \<Rightarrow> u64 \<Rightarrow> egress_server \<Rightarrow> (egress_result + nat \<times> u64) \<times> egress_server" where
  "queue_command K command c timeout s =
     (let s = s\<lparr>open_commands := (open_commands s)(command \<mapsto> c)\<rparr>;
          (stopping, s) = load_stopping K s
      in if stopping \<or> srv_finalized s then (Inl ERR_CANCELLED, open_command_release command s)
         else
           let s = s\<lparr>open_commands := (open_commands s)(command \<mapsto> c\<lparr>cmd_references := cmd_references c + 1\<rparr>),
                 command_queue := command_queue s @ [command]\<rparr>;
               (now, s) = monotonic_now K s;
               (woke, s) = server_loop_wake_if_live K s
           in (Inr (command, add_saturating now timeout), s))"

definition open_stream_submit ::
  "kernel \<Rightarrow> nat option \<Rightarrow> bytes option \<Rightarrow> bytes option \<Rightarrow> bytes option \<Rightarrow> u16 \<Rightarrow> u64 \<Rightarrow> egress_server \<Rightarrow>
     ((egress_result + nat \<times> u64) \<times> egress_server) option" where
  "open_stream_submit K index who invocation host port timeout s =
     (if who = None \<or> invocation = None \<or> host = None \<or> port = 0 \<or> timeout = 0 \<or> egress_canonical_host host \<noteq> host
      then Some (Inl ERR_ARGUMENT, s)
      else
        let (stopping, s) = load_stopping K s in
        if stopping \<or> srv_finalized s then Some (Inl ERR_STATE, s)
        else
          let s = ask Call_new_command s in
          (case k_command K (srv_trace s) of
             None \<Rightarrow> Some (Inl ERR_MEMORY, s)
           | Some command \<Rightarrow>
               let synchronised = k_alloc K (srv_trace s) 0 in
               (case (if synchronised then egress_listener_create_private_tcp_pair K s else Some (None, s)) of
                  None \<Rightarrow> None
                | Some (None, s) \<Rightarrow> Some (Inl ERR_IO, ask (Call_close_fd (- 1)) (ask (Call_release None) s))
                | Some (Some (socket, fd), s) \<Rightarrow>
                    Some (queue_command K command
                      \<lparr>cmd_references = 1, cmd_server_socket = Some socket, cmd_client_fd = fd, cmd_completed = False,
                       cmd_result = EGRESS_OK, cmd_principal_index = index,
                       cmd_principal = snprintf_s (EGRESS_MAX_USERNAME + 1) (the who),
                       cmd_invocation_id = snprintf_s (EGRESS_MAX_INVOCATION_ID + 1) (the invocation),
                       cmd_host = snprintf_s (EGRESS_MAX_HOST + 1) (the host), cmd_port = port\<rparr> timeout s))))"

text \<open>
  The second half. The loop waits until the command is completed, the deadline passes or the wait fails; it waits again after
  a wakeup without completion. What other threads do during a wait is the argument \<open>others\<close>. The result is the one that the loop leaves
  behind, which counts unless the command is completed.
\<close>

partial_function (option) open_stream_wait ::
  "kernel \<Rightarrow> (egress_server \<Rightarrow> egress_server) \<Rightarrow> nat \<Rightarrow> u64 \<Rightarrow> egress_server \<Rightarrow> (egress_result \<times> egress_server) option" where
  "open_stream_wait K others command deadline s =
     (case open_commands s command of
        None \<Rightarrow> None
      | Some c \<Rightarrow>
          if cmd_completed c then Some (ERR_IO, s)
          else
            let s = ask (Call_wait command deadline) s; waited = k_result K (srv_trace s); s = others s in
            if waited = SYS_ERR_TIMEOUT then Some (ERR_TIMEOUT, s)
            else if waited \<noteq> SYS_OK then Some (ERR_IO, s)
            else open_stream_wait K others command deadline s)"

text \<open>The end of the call: its result, the descriptor, and the server.\<close>

definition open_stream_finish :: "kernel \<Rightarrow> nat \<Rightarrow> egress_result \<Rightarrow> egress_server \<Rightarrow> (egress_result \<times> int \<times> egress_server) option" where
  "open_stream_finish K command result s =
     (case open_commands s command of
        None \<Rightarrow> None
      | Some c \<Rightarrow>
          let result = (if cmd_completed c then cmd_result c else result) in
          if result = EGRESS_OK then
            Some (result, cmd_client_fd c, open_command_release command
              (s\<lparr>open_commands := (open_commands s)(command \<mapsto> c\<lparr>cmd_client_fd := - 1\<rparr>)\<rparr>))
          else
            let (woke, s) = server_loop_wake_if_live K s in
            Some (result, - 1, open_command_release command s))"

text \<open>The whole call; the other threads also run between the two halves.\<close>

definition egress_server_open_stream ::
  "kernel \<Rightarrow> (egress_server \<Rightarrow> egress_server) \<Rightarrow> nat option \<Rightarrow> bytes option \<Rightarrow> bytes option \<Rightarrow> bytes option \<Rightarrow> u16 \<Rightarrow> u64 \<Rightarrow>
     egress_server \<Rightarrow> (egress_result \<times> int \<times> egress_server) option" where
  "egress_server_open_stream K others index who invocation host port timeout s =
     (case open_stream_submit K index who invocation host port timeout s of
        None \<Rightarrow> None
      | Some (Inl error, s) \<Rightarrow> Some (error, - 1, s)
      | Some (Inr (command, deadline), s) \<Rightarrow>
          (case open_stream_wait K others command deadline (others s) of
             None \<Rightarrow> None
           | Some (result, s) \<Rightarrow> open_stream_finish K command result s))"

end
