(* ===== verification/Egress_Server.thy ===== *)
theory Egress_Server
  imports Egress_Dispatch Egress_Admin Egress_Connector
begin

text \<open>
  \<^verbatim>\<open>src/src/server/server.c\<close>: creation, policy generations, deadlines, the loop of the reactor, stop and
  destruction. The loop runs on one thread; policies are replaced, streams requested and the server
  stopped by other threads, between the handlers of the loop or, for the flag \<^verbatim>\<open>stopping\<close>, at any time.
\<close>

section \<open>Policies and deadlines\<close>

text \<open>The copy of a policy, if every allocation succeeds.\<close>

definition clone_policy :: "bool \<Rightarrow> egress_policy \<Rightarrow> egress_policy option" where
  "clone_policy alloc_ok source =
     (if \<not> alloc_ok then None else Some (source\<lparr>pol_capacity := length (destinations source), sealed := True\<rparr>))"

definition connection_deadline :: "egress_server \<Rightarrow> egress_connection \<Rightarrow> u64" where
  "connection_deadline s c =
     (if conn_state c = CONNECTION_TLS_HANDSHAKE \<or> conn_state c = CONNECTION_HANDSHAKE \<or>
        conn_state c = CONNECTION_CONNECTING \<or> conn_state c = CONNECTION_IDENTITY
      then handshake_deadline_ms c
      else add_saturating (last_activity_ms c) (idle_timeout_ms (srv_config s)))"

definition next_deadline :: "kernel \<Rightarrow> egress_server \<Rightarrow> u64" where
  "next_deadline K s =
     (let deadline = fold (\<lambda>c d. if conn_state c = CONNECTION_UNUSED then d
                             else if connection_deadline s c < d then connection_deadline s c else d)
            (take (max_connections (srv_config s)) (connections s)) (k_infinite K)
      in fold (\<lambda>c d. if 0 \<le> admin_fd c \<and> admin_deadline_ms c < d then admin_deadline_ms c else d) (admin_connections s) deadline)"

definition expire_slot :: "kernel \<Rightarrow> u64 \<Rightarrow> nat \<Rightarrow> egress_server \<Rightarrow> egress_server" where
  "expire_slot K now slot s =
     (let c = conn s slot in
      if conn_state c = CONNECTION_UNUSED \<or> now < connection_deadline s c then s
      else egress_connection_close K slot (on_conn slot (\<lambda>c. c\<lparr>conn_result := ERR_TIMEOUT\<rparr>) s))"

definition expire_admin :: "u64 \<Rightarrow> nat \<Rightarrow> egress_server \<Rightarrow> egress_server" where
  "expire_admin now slot s =
     (if 0 \<le> admin_fd (admin_conn s slot) \<and> admin_deadline_ms (admin_conn s slot) \<le> now then egress_admin_close slot s else s)"

definition expire_connections :: "kernel \<Rightarrow> egress_server \<Rightarrow> egress_server" where
  "expire_connections K s =
     (let (now, s) = monotonic_now K s;
          s = fold (expire_slot K now) [0..<max_connections (srv_config s)] s
      in fold (expire_admin now) [0..<EGRESS_MAX_ADMIN_CONNECTIONS] s)"

section \<open>Creation\<close>

definition egress_server_control_release :: "egress_server \<Rightarrow> egress_server option" where
  "egress_server_control_release s = (if srv_references s \<noteq> 1 then Some (s\<lparr>srv_references := srv_references s - 1\<rparr>) else None)"

text \<open>The checks of the configuration. The file system may have changed when it is asked again before the bind.\<close>

definition create_allowed :: "'fd filesystem \<Rightarrow> egress_config \<Rightarrow> bool" where
  "create_allowed fs c =
     (let loopback = (\<not> native_only c \<and> \<not> listen_unix c \<and> egress_listener_is_loopback_host (listen_host c));
          local_endpoint = (native_only c \<or> listen_unix c \<or> loopback)
      in \<not> (\<not> local_endpoint \<and> config_tls_provider c = None) \<and>
         \<not> (unix_principal_bound c \<and> (\<not> listen_unix c \<or> unix_peer_policy c \<noteq> UNIX_PEER_SAME_EUID \<or>
              length (principals c) \<le> unix_principal_index c)) \<and>
         \<not> (native_principal_bound c \<and> (\<not> native_only c \<or> listen_unix c \<or> length (principals c) \<noteq> 1 \<or> authentication_set c \<or>
              unix_principal_bound c \<or> unauthenticated_loopback c \<or> config_tls_provider c \<noteq> None)) \<and>
         \<not> (\<not> authentication_set c \<and> \<not> unix_principal_bound c \<and> \<not> native_principal_bound c \<and>
              (listen_unix c \<or> \<not> unauthenticated_loopback c \<or> \<not> loopback)) \<and>
         \<not> (listen_unix c \<and> \<not> egress_unix_parent_is_private fs (unix_path c)))"

definition server_zero :: "egress_policy \<Rightarrow> egress_config \<Rightarrow> bytes \<Rightarrow> egress_audit option \<Rightarrow> attestor option \<Rightarrow> egress_server" where
  "server_zero policy config journal audit attestor =
     \<lparr>srv_references = 1, srv_policy = policy, srv_config = config, listener_socket = None, listener_watch = 0, bound_port = 0,
      admin_listener_socket = None, admin_listener_watch = 0, admin_bound_port = 0, unix_socket_created = False,
      connections = replicate (max_connections config) (connection_zero\<lparr>client_fd := - 1, upstream_fd := - 1\<rparr>),
      connection_count = 0, srv_started = False, srv_running = False, srv_stopping = False, srv_finalized = False,
      command_queue = [], open_commands = Map.empty, next_id = 0, principal_active = replicate EGRESS_MAX_PRINCIPALS 0,
      principal_bytes_total = replicate EGRESS_MAX_PRINCIPALS 0,
      srv_metrics = \<lparr>metric_accepted = 0, metric_active = 0, metric_admitted = 0, metric_denied = 0, metric_auth_failures = 0,
        metric_quota_denials = 0, metric_bytes_from_clients = 0, metric_bytes_to_clients = 0, metric_receipts = 0,
        metric_policy_generation = 1, metric_reload_failures = 0, metric_audit_failures = 0\<rparr>,
      admin_connections = replicate EGRESS_MAX_ADMIN_CONNECTIONS (admin_zero\<lparr>admin_fd := - 1\<rparr>), next_admin_generation = 0,
      srv_audit = audit, srv_journal = journal, srv_attestor = attestor, srv_trace = []\<rparr>"

text \<open>The proxy listener: its socket and watch, or the error.\<close>

definition bind_listener :: "kernel \<Rightarrow> 'fd filesystem \<Rightarrow> egress_server \<Rightarrow> egress_result \<times> egress_server" where
  "bind_listener K fs s =
     (let c = srv_config s in
      if native_only c then (EGRESS_OK, s)
      else if listen_unix c \<and> \<not> egress_unix_parent_is_private fs (unix_path c) then (ERR_DENIED, s)
      else
        let (listener, port, s) =
              (if listen_unix c then let (h, s) = egress_listener_create_unix K (unix_path c) s in (h, 0, s)
               else let (r, s) = egress_listener_create_tcp K (listen_host c) (config_port c) s in
                 (map_option fst r, case r of None \<Rightarrow> 0 | Some (_, p) \<Rightarrow> p, s));
            s = s\<lparr>listener_socket := listener, bound_port := port, unix_socket_created := (listen_unix c \<and> listener \<noteq> None)\<rparr>
        in case listener of
             None \<Rightarrow> (ERR_IO, s)
           | Some h \<Rightarrow>
               let s = ask (Call_watch (k_fd K h) {FLAG_READ} TOKEN_LISTENER) s; (result, watch) = k_watch K (srv_trace s) in
               if result \<noteq> SYS_OK then (ERR_IO, s) else (EGRESS_OK, s\<lparr>listener_watch := watch\<rparr>))"

definition bind_admin :: "kernel \<Rightarrow> egress_server \<Rightarrow> egress_result \<times> egress_server" where
  "bind_admin K s =
     (let c = srv_config s in
      if \<not> admin_enabled c then (EGRESS_OK, s)
      else
        let (r, s) = egress_listener_create_tcp K (admin_host c) (admin_port c) s in
        case r of
          None \<Rightarrow> (ERR_IO, s)
        | Some (h, p) \<Rightarrow>
            let s = s\<lparr>admin_listener_socket := Some h, admin_bound_port := p\<rparr>;
                s = ask (Call_watch (k_fd K h) {FLAG_READ} TOKEN_ADMIN_LISTENER) s; (result, watch) = k_watch K (srv_trace s)
            in if result \<noteq> SYS_OK then (ERR_IO, s) else (EGRESS_OK, s\<lparr>admin_listener_watch := watch\<rparr>))"

text \<open>
  The objects of the configuration are given with it. Of a server that cannot be completed only
  the result remains; its destruction is \<open>maelys_egress_server_destroy\<close> below.
\<close>

definition maelys_egress_server_create ::
  "kernel \<Rightarrow> 'fd filesystem \<Rightarrow> 'fd filesystem \<Rightarrow> bool \<Rightarrow> bool \<Rightarrow> egress_policy option \<Rightarrow> egress_config option \<Rightarrow>
     bytes \<Rightarrow> egress_audit option \<Rightarrow> attestor option \<Rightarrow> egress_result \<times> egress_server option" where
  "maelys_egress_server_create K fs fs_bind calloc_ok clone_ok policy config journal audit attestor =
     (case (policy, config) of
        (Some p, Some c) \<Rightarrow>
          if \<not> sealed p then (ERR_ARGUMENT, None)
          else if \<not> create_allowed fs c then (ERR_DENIED, None)
          else if \<not> calloc_ok then (ERR_MEMORY, None)
          else
            (case clone_policy clone_ok p of
               None \<Rightarrow> (ERR_MEMORY, None)
             | Some copy \<Rightarrow>
                 let s = ask Call_loop_create (server_zero copy c journal
                       (map_option (\<lambda>a. a\<lparr>audit_references := audit_references a + 1\<rparr>) audit)
                       (map_option (\<lambda>a. a\<lparr>attestor_references := attestor_references a + 1\<rparr>) attestor))
                 in if k_result K (srv_trace s) \<noteq> SYS_OK then (ERR_IO, None)
                    else
                      let (result, s) = bind_listener K fs_bind s in
                      if result \<noteq> EGRESS_OK then (result, None)
                      else
                        let (result, s) = bind_admin K s in
                        if result \<noteq> EGRESS_OK then (result, None) else (EGRESS_OK, Some s))
      | _ \<Rightarrow> (ERR_ARGUMENT, None))"

section \<open>Calls of other threads\<close>

definition maelys_egress_server_port :: "egress_server option \<Rightarrow> u16" where
  "maelys_egress_server_port s = (case s of None \<Rightarrow> 0 | Some s \<Rightarrow> bound_port s)"

definition maelys_egress_server_admin_port :: "egress_server option \<Rightarrow> u16" where
  "maelys_egress_server_admin_port s = (case s of None \<Rightarrow> 0 | Some s \<Rightarrow> admin_bound_port s)"

definition maelys_egress_server_is_running :: "kernel \<Rightarrow> egress_server \<Rightarrow> bool \<times> egress_server" where
  "maelys_egress_server_is_running K s =
     (if \<not> srv_running s then (False, s) else let (stopping, s) = load_stopping K s in (\<not> stopping, s))"

definition reload_failure :: "egress_server \<Rightarrow> egress_server" where
  "reload_failure s = on_metrics (\<lambda>m. m\<lparr>metric_reload_failures := metric_reload_failures m + 1\<rparr>) s"

text \<open>The generation is 0 where the call fails.\<close>

definition maelys_egress_server_replace_policy ::
  "kernel \<Rightarrow> bool \<Rightarrow> egress_policy option \<Rightarrow> egress_server \<Rightarrow> egress_result \<times> u64 \<times> egress_server" where
  "maelys_egress_server_replace_policy K clone_ok policy s =
     (case policy of
        None \<Rightarrow> (ERR_ARGUMENT, 0, reload_failure s)
      | Some p \<Rightarrow>
          if \<not> sealed p then (ERR_ARGUMENT, 0, reload_failure s)
          else
            case clone_policy clone_ok p of
              None \<Rightarrow> (ERR_MEMORY, 0, reload_failure s)
            | Some copy \<Rightarrow>
                let (stopping, s) = load_stopping K s in
                if stopping then (ERR_STATE, 0, reload_failure s)
                else
                  let generation = metric_policy_generation (srv_metrics s) + 1 in
                  (EGRESS_OK, generation,
                   on_metrics (\<lambda>m. m\<lparr>metric_policy_generation := generation\<rparr>) (s\<lparr>srv_policy := copy\<rparr>)))"

definition maelys_egress_server_policy_generation :: "egress_server option \<Rightarrow> u64" where
  "maelys_egress_server_policy_generation s = (case s of None \<Rightarrow> 0 | Some s \<Rightarrow> metric_policy_generation (srv_metrics s))"

definition maelys_egress_server_metrics_snapshot :: "bool \<Rightarrow> egress_server option \<Rightarrow> egress_result \<times> egress_metrics option" where
  "maelys_egress_server_metrics_snapshot calloc_ok s =
     (case s of
        None \<Rightarrow> (ERR_ARGUMENT, None)
      | Some s \<Rightarrow> if \<not> calloc_ok then (ERR_MEMORY, None) else (EGRESS_OK, Some (srv_metrics s)))"

definition maelys_egress_server_stop :: "kernel \<Rightarrow> egress_server \<Rightarrow> egress_result \<times> egress_server" where
  "maelys_egress_server_stop K s =
     (let s = ask Call_loop_stop (s\<lparr>srv_stopping := True\<rparr>) in
      (if k_result K (srv_trace s) = SYS_OK then EGRESS_OK else ERR_IO, s))"

section \<open>The loop\<close>

definition connection_event :: "kernel \<Rightarrow> u64 \<Rightarrow> flag set \<Rightarrow> egress_server \<Rightarrow> egress_server option" where
  "connection_event K token flags s =
     (let (slot, generation, side) = decode_token token in
      if max_connections (srv_config s) \<le> slot then Some s
      else if conn_state (conn s slot) = CONNECTION_UNUSED \<or> conn_generation (conn s slot) \<noteq> generation then Some s
      else egress_relay_dispatch K slot side flags s)"

definition admin_event :: "kernel \<Rightarrow> u64 \<Rightarrow> flag set \<Rightarrow> egress_server \<Rightarrow> egress_server" where
  "admin_event K token flags s =
     (let (slot, generation, side) = decode_token (token AND NOT TOKEN_ADMIN_FLAG) in
      if slot < EGRESS_MAX_ADMIN_CONNECTIONS \<and> 0 \<le> admin_fd (admin_conn s slot) \<and> admin_generation (admin_conn s slot) = generation
      then egress_admin_dispatch K slot flags s
      else s)"

definition run_event :: "kernel \<Rightarrow> u64 \<times> flag set \<Rightarrow> egress_server \<Rightarrow> egress_server option" where
  "run_event K event s =
     (let (token, flags) = event in
      if token = TOKEN_LISTENER then (if FLAG_READ \<in> flags then egress_connection_accept_all K s else Some s)
      else if token = TOKEN_ADMIN_LISTENER then (if FLAG_READ \<in> flags then egress_admin_accept_all K s else Some s)
      else if token AND TOKEN_ADMIN_FLAG \<noteq> 0 then Some (admin_event K token flags s)
      else connection_event K token flags s)"

fun run_events :: "kernel \<Rightarrow> (u64 \<times> flag set) list \<Rightarrow> egress_server \<Rightarrow> egress_server option" where
  "run_events K [] s = Some s"
| "run_events K (e # es) s = (case run_event K e s of None \<Rightarrow> None | Some s \<Rightarrow> run_events K es s)"

text \<open>
  One round: the result of the loop when it ends there. At most 128 events are fetched.
\<close>

definition run_round :: "kernel \<Rightarrow> egress_server \<Rightarrow> (egress_result option \<times> egress_server) option" where
  "run_round K s =
     (let s = egress_open_commands_cancel K (egress_open_commands_process K s);
          s = ask (Call_loop_step (next_deadline K s)) s;
          (result, events, stopped) = k_step K (srv_trace s)
      in if result \<noteq> SYS_OK then Some (Some ERR_IO, s)
         else if stopped then Some (Some EGRESS_OK, s)
         else
           case run_events K (take 128 events) s of
             None \<Rightarrow> None
           | Some s \<Rightarrow>
               Some (None, expire_connections K (egress_open_commands_cancel K (egress_open_commands_process K s))))"

partial_function (option) run_loop :: "kernel \<Rightarrow> egress_server \<Rightarrow> (egress_result \<times> egress_server) option" where
  "run_loop K s =
     (let (stopping, s) = load_stopping K s in
      if stopping then Some (EGRESS_OK, s)
      else
        case run_round K s of
          None \<Rightarrow> None
        | Some (Some result, s) \<Rightarrow> Some (result, s)
        | Some (None, s) \<Rightarrow> run_loop K s)"

text \<open>The end of the loop: every connection is closed.\<close>

definition end_slot :: "kernel \<Rightarrow> egress_result \<Rightarrow> nat \<Rightarrow> egress_server \<Rightarrow> egress_server" where
  "end_slot K result slot s =
     (let c = conn s slot;
          s = (if conn_state c \<noteq> CONNECTION_UNUSED \<and> conn_result c = EGRESS_OK
               then on_conn slot (\<lambda>c. c\<lparr>conn_result := (if result = EGRESS_OK then ERR_CANCELLED else result)\<rparr>) s else s)
      in egress_connection_close K slot s)"

definition end_run :: "kernel \<Rightarrow> egress_result \<Rightarrow> egress_server \<Rightarrow> egress_server" where
  "end_run K result s =
     (let s = egress_open_commands_reject K ERR_CANCELLED s;
          s = fold (end_slot K result) [0..<max_connections (srv_config s)] s
      in s\<lparr>srv_running := False\<rparr>)"

definition maelys_egress_server_run :: "kernel \<Rightarrow> egress_server \<Rightarrow> (egress_result \<times> egress_server) option" where
  "maelys_egress_server_run K s =
     (let (stopping, s) = load_stopping K s in
      if stopping then Some (ERR_STATE, s)
      else if srv_started s then Some (ERR_STATE, s)
      else
        case run_loop K (s\<lparr>srv_started := True, srv_running := True\<rparr>) of
          None \<Rightarrow> None
        | Some (result, s) \<Rightarrow> Some (result, end_run K result s))"

text \<open>Destruction while the loop runs only stops it. The last release frees the structure.\<close>

definition destroy_listeners :: "egress_server \<Rightarrow> egress_server" where
  "destroy_listeners s =
     (let s = (if listener_watch s \<noteq> 0 then ask (Call_unwatch (listener_watch s)) s else s);
          s = (if admin_listener_watch s \<noteq> 0 then ask (Call_unwatch (admin_listener_watch s)) s else s);
          s = fold (\<lambda>slot s. if 0 \<le> admin_fd (admin_conn s slot) then egress_admin_close slot s else s)
            [0..<EGRESS_MAX_ADMIN_CONNECTIONS] s;
          s = (ask (Call_release (listener_socket s)) s)\<lparr>listener_socket := None\<rparr>;
          s = (ask (Call_release (admin_listener_socket s)) s)\<lparr>admin_listener_socket := None\<rparr>
      in if unix_socket_created s
         then (egress_listener_unlink_unix_identity (unix_path (srv_config s)) s)\<lparr>unix_socket_created := False\<rparr> else s)"

definition principal_zero :: egress_principal where
  "principal_zero = \<lparr>username = [], secret = [], invocation_id = [], max_active_connections = 0, max_bytes_per_connection = 0,
     max_bytes_total = 0\<rparr>"

definition maelys_egress_server_destroy :: "kernel \<Rightarrow> egress_server \<Rightarrow> egress_server option" where
  "maelys_egress_server_destroy K s =
     (if srv_running s then Some (ask Call_loop_stop (s\<lparr>srv_stopping := True\<rparr>))
      else if srv_finalized s then Some s
      else
        let s = egress_open_commands_reject K ERR_CANCELLED (s\<lparr>srv_finalized := True, srv_stopping := True\<rparr>);
            s = fold (egress_connection_close K) [0..<length (connections s)] s;
            s = ask Call_loop_destroy (destroy_listeners s);
            s = s\<lparr>srv_config := (srv_config s)\<lparr>principals := map (\<lambda>_. principal_zero) (principals (srv_config s))\<rparr>, srv_audit := None, srv_attestor := None, connections := []\<rparr>
        in egress_server_control_release s)"

end
