(* ===== verification/Egress_Service.thy ===== *)
theory Egress_Service
  imports Egress_Server
begin

text \<open>
  The server as a transition system: the handlers of the loop and the calls of other threads are its
  steps. What every reachable state satisfies: connections go to pinned addresses of installed
  policies, no principal exceeds its limits, a destination that asks for a TLS server name is relayed
  only after the check, no buffer leaves its block, and every connection is accounted for.
\<close>

section \<open>The invariant\<close>

definition admin_ok :: "egress_admin_connection \<Rightarrow> bool" where
  "admin_ok c \<longleftrightarrow> length (admin_request c) < EGRESS_ADMIN_BUFFER \<and> length (admin_response c) < EGRESS_ADMIN_BUFFER \<and>
     admin_response_offset c \<le> length (admin_response c)"

definition good :: "egress_policy set \<Rightarrow> egress_server \<Rightarrow> bool" where
  "good Ps s \<longleftrightarrow> server_inv Ps s \<and> (\<forall>c\<in>set (connections s). fresh c \<and> buffers_ok c) \<and>
     length (admin_connections s) = EGRESS_MAX_ADMIN_CONNECTIONS \<and> (\<forall>c\<in>set (admin_connections s). admin_ok c)"

text \<open>Changes that the invariant does not see.\<close>

definition inert :: "egress_server \<Rightarrow> egress_server \<Rightarrow> bool" where
  "inert s s' \<longleftrightarrow>
     srv_config s' = srv_config s \<and> srv_policy s' = srv_policy s \<and> connections s' = connections s \<and>
     principal_active s' = principal_active s \<and> principal_bytes_total s' = principal_bytes_total s \<and>
     connection_count s' = connection_count s \<and> next_id s' = next_id s \<and>
     same_counters (srv_metrics s) (srv_metrics s') \<and> connect_calls (srv_trace s') = connect_calls (srv_trace s)"

lemma inert_refl [simp]: "inert s s"
  by (simp add: inert_def same_counters_def)

lemma inert_trans: "inert s t \<Longrightarrow> inert t u \<Longrightarrow> inert s u"
  by (simp add: inert_def same_counters_def)

lemma inert_simps [simp]:
  "plain_call x \<Longrightarrow> inert s (ask x t) \<longleftrightarrow> inert s t"
  "inert s (t\<lparr>open_commands := m\<rparr>) \<longleftrightarrow> inert s t" "inert s (t\<lparr>command_queue := q\<rparr>) \<longleftrightarrow> inert s t"
  "inert s (t\<lparr>srv_stopping := b\<rparr>) \<longleftrightarrow> inert s t" "inert s (t\<lparr>srv_references := n\<rparr>) \<longleftrightarrow> inert s t"
  "inert s (t\<lparr>srv_started := b\<rparr>) \<longleftrightarrow> inert s t" "inert s (t\<lparr>srv_running := b\<rparr>) \<longleftrightarrow> inert s t"
  "inert s (t\<lparr>admin_connections := cs\<rparr>) \<longleftrightarrow> inert s t" "inert s (t\<lparr>next_admin_generation := g\<rparr>) \<longleftrightarrow> inert s t"
  "inert s (t\<lparr>listener_socket := l, bound_port := p, unix_socket_created := b\<rparr>) \<longleftrightarrow> inert s t"
  "inert s (t\<lparr>listener_watch := w\<rparr>) \<longleftrightarrow> inert s t" "inert s (t\<lparr>admin_listener_watch := w\<rparr>) \<longleftrightarrow> inert s t"
  "inert s (t\<lparr>admin_listener_socket := l, admin_bound_port := p\<rparr>) \<longleftrightarrow> inert s t"
  "inert s (on_admin slot f t) \<longleftrightarrow> inert s t"
  by (simp_all add: inert_def on_admin_def)

lemma inert_metrics: "inert s t \<Longrightarrow> same_counters (srv_metrics t) (f (srv_metrics t)) \<Longrightarrow> inert s (on_metrics f t)"
  by (simp add: inert_def same_counters_def)

lemma inert_inv:
  assumes "inert s t" "server_inv Ps s"
  shows "server_inv Ps t"
proof -
  have "quota_inv t c = quota_inv s c" for c using assms(1) by (intro quota_inv_cong) (simp add: inert_def)
  then show ?thesis using assms by (simp add: inert_def server_inv_def accounts_inv_def ledger_inv_def same_counters_def)
qed

lemma good_inert:
  assumes "good Ps s" "inert s t" "admin_connections t = admin_connections s"
  shows "good Ps t"
  using assms inert_inv[OF assms(2)] by (simp add: good_def inert_def)

lemma good_slot:
  assumes "good Ps s" "slot < length (connections s)"
  shows "fresh (conn s slot)" "buffers_ok (conn s slot)" "opening_ok (conn s slot)"
  using assms server_inv_slot(2)[of Ps s slot] by (simp_all add: good_def conn_def state_inv_def opening_ok_def)

lemma all_conns: "(\<forall>c\<in>set (connections s). P c) \<longleftrightarrow> (\<forall>i<length (connections s). P (conn s i))"
  by (simp add: all_set_conv_all_nth conn_def)

text \<open>The invariant but for the buffers of one connection, which may lack their blocks until it is closed.\<close>

definition almost :: "egress_policy set \<Rightarrow> nat \<Rightarrow> egress_server \<Rightarrow> bool" where
  "almost Ps slot s \<longleftrightarrow> server_inv Ps s \<and> (\<forall>i<length (connections s). i \<noteq> slot \<longrightarrow> fresh (conn s i) \<and> buffers_ok (conn s i)) \<and>
     length (admin_connections s) = EGRESS_MAX_ADMIN_CONNECTIONS \<and> (\<forall>c\<in>set (admin_connections s). admin_ok c)"

lemma almost_ends:
  assumes "almost Ps slot s" "slot < length (connections s)" "ends K slot s s'" "buffers_ok (conn s' slot)"
  shows "good Ps s'"
proof -
  note keep = lives_keep[OF ends_lives[OF assms(3)] assms(2)]
  have frame: "length (connections s') = length (connections s)" "\<And>i. i \<noteq> slot \<Longrightarrow> conn s' i = conn s i"
    "admin_connections s' = admin_connections s" using keep(1) by (auto simp: same_frame_def)
  have "\<forall>c\<in>set (connections s'). fresh c \<and> buffers_ok c"
    unfolding all_conns
  proof (intro allI impI)
    fix i assume i: "i < length (connections s')"
    show "fresh (conn s' i) \<and> buffers_ok (conn s' i)"
    proof (cases "i = slot")
      case True
      then show ?thesis using assms(3,4) by (simp add: ends_def)
    next
      case False
      have "i < length (connections s)" using i frame(1) by simp
      then show ?thesis using assms(1) False unfolding frame(2)[OF False] almost_def by blast
    qed
  qed
  moreover have "server_inv Ps s'" using keep(2) assms(1) by (simp add: almost_def)
  ultimately show ?thesis using assms(1) frame(3) by (simp add: good_def almost_def)
qed

lemma good_almost: "good Ps s \<Longrightarrow> almost Ps slot s"
  unfolding good_def almost_def all_conns by blast

text \<open>What happens to one connection.\<close>

lemma good_ends:
  assumes "good Ps s" "slot < length (connections s)" "ends K slot s s'"
  shows "good Ps s'"
  using almost_ends[OF good_almost[OF assms(1)] assms(2,3)] lives_keep(3)[OF ends_lives[OF assms(3)] assms(2)] good_slot(2)[OF assms(1,2)]
  by blast

lemma good_length: "good Ps s \<Longrightarrow> length (connections s) = max_connections (srv_config s)"
  by (simp add: good_def server_inv_def)

lemma good_close_result:
  assumes "good Ps s" "slot < length (connections s)"
  shows "good Ps (egress_connection_close K slot (on_conn slot (\<lambda>c. c\<lparr>conn_result := r c\<rparr>) s))"
  using good_ends[OF assms] ends_close_result[of K slot s s r] assms(2) by blast

lemma good_close: "good Ps s \<Longrightarrow> slot < length (connections s) \<Longrightarrow> good Ps (egress_connection_close K slot s)"
  using good_ends ends_close[of K slot s s] by blast

lemma good_dispatch:
  assumes "kernel_ok K" "good Ps s" "slot < length (connections s)"
  shows "\<exists>s'. egress_relay_dispatch K slot side flags s = Some s' \<and> good Ps s'"
  using dispatch_ends[OF assms(1,3) good_slot(1,3)[OF assms(2,3)]] good_ends[OF assms(2,3)] by blast

section \<open>A new connection\<close>

lemma server_inv_open:
  assumes inv: "server_inv Ps s" and slot: "slot < length (connections s)" "conn_state (conn s slot) = CONNECTION_UNUSED"
    and c: "conn_state c \<in> {CONNECTION_HANDSHAKE, CONNECTION_TLS_HANDSHAKE}" "pristine c"
    and s': "connections s' = (connections s)[slot := c]" "connection_count s' = connection_count s + 1" "next_id s' = next_id s + 1"
      "metric_active (srv_metrics s') = metric_active (srv_metrics s) + 1" "metric_receipts (srv_metrics s') = metric_receipts (srv_metrics s)"
      "srv_config s' = srv_config s" "srv_policy s' = srv_policy s" "principal_active s' = principal_active s"
      "principal_bytes_total s' = principal_bytes_total s" "connect_calls (srv_trace s') = connect_calls (srv_trace s)"
  shows "server_inv Ps s'"
proof -
  let ?cs = "(connections s)[slot := c]"
  have new: "quota_inv s c" "state_inv Ps c" "in_use c" "\<And>i. \<not> admitted_as i c"
    using c by (auto simp: quota_inv_def state_inv_def in_use_def admitted_as_def pristine_def)
  have old: "\<not> in_use (conn s slot)" "\<And>i. \<not> admitted_as i (conn s slot)"
    using slot(2) server_inv_slot(2)[OF inv slot(1)] by (auto simp: in_use_def admitted_as_def state_inv_def)
  have "count_if in_use ?cs = count_if in_use (connections s) + 1"
    using count_update[OF slot(1), of in_use c] new(3) old(1) by (simp add: conn_def)
  moreover have "count_if (admitted_as i) ?cs = count_if (admitted_as i) (connections s)" for i
    using count_same[OF slot(1), of "admitted_as i" c] new(4) old(2) by (simp add: conn_def)
  moreover have "\<forall>d\<in>set ?cs. quota_inv s d \<and> state_inv Ps d"
    using inv new set_update_subset_insert[of "connections s" slot c] unfolding server_inv_def by blast
  moreover have "quota_inv s' d = quota_inv s d" for d by (rule quota_inv_cong) (rule s')
  ultimately show ?thesis using inv by (simp add: server_inv_def accounts_inv_def ledger_inv_def s')
qed

definition opened :: "egress_server \<Rightarrow> egress_connection" where
  "opened s = connection_zero\<lparr>conn_generation := next_id s + 1, upstream_fd := - 1\<rparr>"

lemma open_slot_effect:
  assumes "open_slot K slot prep s = (ok, s')" "slot < length (connections s)"
  obtains c where "connections s' = (connections s)[slot := c]" "inert (s\<lparr>connections := (connections s)[slot := c], next_id := next_id s + 1\<rparr>) s'"
    "admin_connections s' = admin_connections s"
    "conn_state c = conn_state (prep (opened s))" "pristine c = pristine (prep (opened s))"
    "conn_protocol c = conn_protocol (prep (opened s))"
    "kernel_ok K \<Longrightarrow> ok \<Longrightarrow> buffers_ok c"
proof -
  define t where "t = on_conn slot (\<lambda>_. prep (connection_zero\<lparr>conn_generation := next_id (s\<lparr>next_id := next_id s + 1\<rparr>), upstream_fd := - 1\<rparr>))
    (s\<lparr>next_id := next_id s + 1\<rparr>)"
  obtain ok1 b1 t1 where b1: "allocate_buffer K t = (ok1, b1, t1)" by (metis prod_cases3)
  obtain ok2 b2 t2 where b2: "allocate_buffer K t1 = (ok2, b2, t2)" by (metis prod_cases3)
  define t4 where "t4 = ask Call_wall (ask Call_monotonic t2)"
  define mono where "mono = k_clock K (Call_monotonic # srv_trace t2)"
  define c where "c = (prep (opened s))\<lparr>client_to_upstream := b1, upstream_to_client := b2, started_mono_ms := mono,
                conn_started_unix_ms := k_clock K (srv_trace t4), last_activity_ms := mono,
                handshake_deadline_ms := add_saturating mono (handshake_timeout_ms (srv_config s))\<rparr>"
  have t1: "t1 = ask (Call_malloc (buffer_bytes (srv_config t))) t" and t2: "t2 = ask (Call_malloc (buffer_bytes (srv_config t1))) t1"
    using b1 b2 by (auto simp: allocate_buffer_def Let_def)
  have "open_slot K slot prep s = (ok1 \<and> ok2, on_conn slot (\<lambda>c. c\<lparr>client_to_upstream := b1, upstream_to_client := b2,
      started_mono_ms := mono, conn_started_unix_ms := k_clock K (srv_trace t4), last_activity_ms := mono,
      handshake_deadline_ms := add_saturating mono (handshake_timeout_ms (srv_config t4))\<rparr>) t4)"
    unfolding open_slot_def Let_def t_def[symmetric] b1 prod.case b2 monotonic_now_def wall_now_def by (simp add: t4_def mono_def)
  moreover have "conn t4 slot = prep (opened s)" "srv_config t4 = srv_config s"
    using assms(2) by (simp_all add: t4_def t1 t2 t_def on_conn_def conn_def ask_def opened_def)
  ultimately have ans: "ok = (ok1 \<and> ok2)" "s' = on_conn slot (\<lambda>_. c) t4"
    using assms(1) by (auto simp: c_def intro!: on_conn_same)
  have wf: "kernel_ok K \<Longrightarrow> ok1 \<Longrightarrow> buffer_wf b1" "kernel_ok K \<Longrightarrow> ok2 \<Longrightarrow> buffer_wf b2"
    using b1 b2 kernel_okD(5) by (auto simp: allocate_buffer_def Let_def buffer_wf_def split: option.splits)
  show thesis
  proof (rule that[of c])
    show "connections s' = (connections s)[slot := c]" by (simp add: ans t4_def t1 t2 t_def on_conn_def ask_def)
    show "inert (s\<lparr>connections := (connections s)[slot := c], next_id := next_id s + 1\<rparr>) s'"
      by (simp add: ans t4_def t1 t2 t_def on_conn_def ask_def inert_def same_counters_def)
    show "kernel_ok K \<Longrightarrow> ok \<Longrightarrow> buffers_ok c" using wf ans(1) by (simp add: c_def buffers_ok_def)
  qed (simp_all add: ans t4_def t1 t2 t_def c_def pristine_def on_conn_def ask_def)
qed

lemma open_almost:
  assumes good: "good Ps s" and slot: "slot < length (connections s)" "conn_state (conn s slot) = CONNECTION_UNUSED"
    and run: "open_slot K slot prep s = (ok, s')"
    and st: "conn_state (prep (opened s)) \<in> {CONNECTION_HANDSHAKE, CONNECTION_TLS_HANDSHAKE}" "pristine (prep (opened s))"
    and f: "\<And>m. metric_active (f m) = metric_active m + 1 \<and> metric_receipts (f m) = metric_receipts m"
  defines "t \<equiv> on_metrics f (s'\<lparr>connection_count := connection_count s' + 1\<rparr>)"
  shows "almost Ps slot t" "length (connections t) = length (connections s)" "conn_state (conn t slot) = conn_state (prep (opened s))"
    "pristine (conn t slot)" "kernel_ok K \<Longrightarrow> ok \<Longrightarrow> buffers_ok (conn t slot)" "srv_config t = srv_config s"
proof -
  obtain c where c: "connections s' = (connections s)[slot := c]" "inert (s\<lparr>connections := (connections s)[slot := c], next_id := next_id s + 1\<rparr>) s'"
    "admin_connections s' = admin_connections s" "conn_state c = conn_state (prep (opened s))" "pristine c = pristine (prep (opened s))"
    "kernel_ok K \<Longrightarrow> ok \<Longrightarrow> buffers_ok c"
    using open_slot_effect[OF run slot(1)] by metis
  have cs: "connections t = (connections s)[slot := c]" by (simp add: t_def c(1) on_metrics_def)
  have "server_inv Ps t"
    by (rule server_inv_open[where s = s and slot = slot and c = c])
      (use good slot st c(2,4,5) f cs in \<open>auto simp: good_def t_def inert_def same_counters_def on_metrics_def\<close>)
  moreover have "i \<noteq> slot \<Longrightarrow> i < length (connections s) \<Longrightarrow> fresh (conn t i) \<and> buffers_ok (conn t i)" for i
    using good_slot[OF good, of i] by (simp add: conn_def cs)
  ultimately show "almost Ps slot t"
    using good c(3) unfolding almost_def by (auto simp: good_def cs) (simp_all add: t_def)
  show "length (connections t) = length (connections s)" by (simp add: cs)
  show "conn_state (conn t slot) = conn_state (prep (opened s))" "pristine (conn t slot)" "kernel_ok K \<Longrightarrow> ok \<Longrightarrow> buffers_ok (conn t slot)"
    using c(4-6) st slot(1) by (simp_all add: conn_def cs)
  show "srv_config t = srv_config s" using c(2) by (simp add: t_def inert_def)
qed

lemma free_slot_unused:
  assumes "free_slot s < length (connections s)"
  shows "conn_state (conn s (free_slot s)) = CONNECTION_UNUSED"
  using assms nth_length_takeWhile[of "\<lambda>c. conn_state c \<noteq> CONNECTION_UNUSED" "connections s"] by (simp add: free_slot_def conn_def)

lemma free_slot_le: "free_slot s \<le> length (connections s)"
  by (simp add: free_slot_def length_takeWhile_le)

lemma close_buffers:
  assumes "slot < length (connections s)"
  shows "buffers_ok (conn (egress_connection_close K slot s) slot)"
  using close_conn[OF assms, of K] close_unused[of s slot K] cleared_buffers
  by (cases "conn_state (conn s slot) = CONNECTION_UNUSED") (simp_all add: buffers_ok_def in_use_def)

lemma start_tls_ends:
  assumes "ends K slot s t" "slot < length (connections s)"
    "config_tls_provider (srv_config t) \<noteq> None \<Longrightarrow> conn_state (conn t slot) = CONNECTION_TLS_HANDSHAKE"
  shows "ends K slot s (start_tls K slot t)"
proof (cases "config_tls_provider (srv_config t) = None")
  case True
  then show ?thesis using assms(1) by (simp add: start_tls_def)
next
  case False
  define u where "u = ask (Call_tls_create (client_fd (conn t slot))) t"
  obtain result session where ans: "k_tls_create K (srv_trace u) = (result, session)" by fastforce
  define v where "v = on_conn slot (\<lambda>c. c\<lparr>tls_session := session\<rparr>) u"
  obtain ok w where w: "egress_relay_advance_tls_handshake K slot v = (ok, w)" by fastforce
  have u: "quiet slot t u" unfolding u_def by (intro quiet_steps quiet.refl) simp
  have v: "quiet slot t v" unfolding v_def by (intro quiet_steps u) (simp_all add: same_core_def)
  have "conn_state (conn v slot) = CONNECTION_TLS_HANDSHAKE" using quiet_core(1)[OF v] assms(3)[OF False] by simp
  then have ew: "ends K slot s w" using tls_handshake_ends[OF ends_quiet[OF assms(1) v] assms(2) _ w] by simp
  show ?thesis
    using False ew ends_quiet[OF ew quiet_result[OF quiet.refl]] ends_quiet[OF assms(1) quiet_result[OF u]]
    unfolding start_tls_def Let_def u_def[symmetric] ans prod.case v_def[symmetric] w by auto
qed

lemma good_accept_client:
  assumes good: "good Ps s" and slot: "slot < length (connections s)" "conn_state (conn s slot) = CONNECTION_UNUSED" and K: "kernel_ok K"
  shows "good Ps (accept_client K client slot s)"
proof -
  define prep :: "egress_connection \<Rightarrow> egress_connection" where "prep = (\<lambda>c. c\<lparr>
      conn_state := (if config_tls_provider (srv_config s) \<noteq> None then CONNECTION_TLS_HANDSHAKE else CONNECTION_HANDSHAKE),
      client_socket := Some client, client_fd := k_fd K client, conn_principal_index := None\<rparr>)"
  obtain allocated s1 where s1: "open_slot K slot prep s = (allocated, s1)" by fastforce
  define t where "t = on_metrics (\<lambda>m. m\<lparr>metric_active := metric_active m + 1\<rparr>) (s1\<lparr>connection_count := connection_count s1 + 1\<rparr>)"
  define u where "u = on_conn slot (\<lambda>c. c\<lparr>conn_policy_digest := snprintf_s 65 (digest_hex (srv_policy s1)),
            conn_policy_generation := metric_policy_generation (srv_metrics s1)\<rparr>) t"
  define v where "v = start_tls K slot u"
  obtain ok w where w: "(if \<not> allocated \<or> config_tls_provider (srv_config v) \<noteq> None \<and> tls_session (conn v slot) = None \<or>
      conn_result (conn v slot) \<noteq> EGRESS_OK then (False, v) else egress_connection_update_watches K slot v) = (ok, w)" by fastforce
  have accept: "accept_client K client slot s = (if ok then w else egress_connection_close K slot
      (on_conn slot (\<lambda>c. c\<lparr>conn_result := (if conn_result c = EGRESS_OK then ERR_MEMORY else conn_result c)\<rparr>) w))"
  proof -
    let ?x = "on_conn slot (\<lambda>c. c\<lparr>conn_policy_digest := snprintf_s 65 (digest_hex (srv_policy s1)),
            conn_policy_generation := metric_policy_generation (srv_metrics s1)\<rparr>) s1"
    have "u = on_metrics (\<lambda>m. m\<lparr>metric_active := metric_active m + 1\<rparr>) (?x\<lparr>connection_count := connection_count ?x + 1\<rparr>)"
      by (simp add: u_def t_def on_conn_def on_metrics_def conn_def)
    note u' = this[symmetric]
    show ?thesis
      unfolding accept_client_def Let_def prep_def[symmetric] s1 prod.case u' v_def[symmetric] w by simp
  qed
  note open' = open_almost[OF good slot s1, of "\<lambda>m. m\<lparr>metric_active := metric_active m + 1\<rparr>", folded t_def]
  have st: "conn_state (prep (opened s)) \<in> {CONNECTION_HANDSHAKE, CONNECTION_TLS_HANDSHAKE}" "pristine (prep (opened s))"
    by (auto simp: prep_def opened_def connection_zero_def pristine_def)
  note t = open'[OF st]
  have q: "quiet slot t u" unfolding u_def by (intro quiet.update quiet.refl) (simp_all add: same_core_def)
  have tslot: "slot < length (connections t)" using t(2) slot(1) by simp
  have eu: "ends K slot t u" using ends_quiet[OF ends_refl q] t(4) by (simp add: fresh_def)
  have ev: "ends K slot t v"
    unfolding v_def by (rule start_tls_ends[OF eu tslot]) (use t(3,6) quiet_core(1,6)[OF q] in \<open>simp add: prep_def\<close>)
  have ew: "ends K slot t w" using w ev ends_watches by (auto split: if_splits)
  have closed: "ends K slot t (egress_connection_close K slot (on_conn slot (\<lambda>c. c\<lparr>conn_result := r c\<rparr>) w))" for r
    by (rule ends_close_result[OF ends_lives[OF ew] tslot])
  have wslot: "slot < length (connections w)" by (rule lives_length[OF ends_lives[OF ew] tslot])
  have "buffers_ok (conn w slot)" if ok
    using lives_keep(3)[OF ends_lives[OF ew] tslot] t(5) K w that by (auto split: if_splits)
  moreover have "buffers_ok (conn (egress_connection_close K slot (on_conn slot (\<lambda>c. c\<lparr>conn_result := r c\<rparr>) w)) slot)" for r
    using wslot by (intro close_buffers) simp
  ultimately show ?thesis
    unfolding accept using almost_ends[OF t(1) tslot ew] almost_ends[OF t(1) tslot closed] by simp
qed

lemma good_open_native:
  assumes good: "good Ps s" and slot: "slot < length (connections s)" "conn_state (conn s slot) = CONNECTION_UNUSED" and K: "kernel_ok K"
  shows "good Ps (open_native K command c slot s)"
proof -
  define s0 where "s0 = s\<lparr>open_commands := (open_commands s)(command \<mapsto> c\<lparr>cmd_server_socket := None\<rparr>)\<rparr>"
  define prep :: "egress_connection \<Rightarrow> egress_connection" where "prep = (\<lambda>n. n\<lparr>conn_state := CONNECTION_HANDSHAKE,
      client_socket := cmd_server_socket c, client_fd := (case cmd_server_socket c of None \<Rightarrow> - 1 | Some h \<Rightarrow> k_fd K h),
      conn_principal_index := cmd_principal_index c, conn_protocol := PROTOCOL_CONNECTOR, open_command := Some command\<rparr>)"
  obtain allocated s1 where s1: "open_slot K slot prep s0 = (allocated, s1)" by fastforce
  define t where "t = on_metrics (\<lambda>m. m\<lparr>metric_accepted := metric_accepted m + 1, metric_active := metric_active m + 1\<rparr>)
    (s1\<lparr>connection_count := connection_count s1 + 1\<rparr>)"
  obtain ok u where u: "egress_connection_begin_request K slot (command_request c) t = (ok, u)" by fastforce
  have run: "open_native K command c slot s =
    (if \<not> allocated then egress_connection_close K slot (on_conn slot (\<lambda>n. n\<lparr>conn_result := ERR_MEMORY\<rparr>) t)
     else if \<not> ok \<and> conn_state (conn u slot) \<noteq> CONNECTION_UNUSED
     then egress_connection_close K slot (on_conn slot (\<lambda>n. n\<lparr>conn_result := ERR_IO\<rparr>) u) else u)"
    unfolding open_native_def Let_def s0_def[symmetric] prep_def[symmetric] s1 prod.case t_def[symmetric] u by simp
  have good0: "good Ps s0" by (rule good_inert[OF good]) (simp_all add: s0_def)
  have slot0: "slot < length (connections s0)" "conn_state (conn s0 slot) = CONNECTION_UNUSED" using slot by (simp_all add: s0_def)
  have st: "conn_state (prep (opened s0)) \<in> {CONNECTION_HANDSHAKE, CONNECTION_TLS_HANDSHAKE}" "pristine (prep (opened s0))"
    by (auto simp: prep_def opened_def connection_zero_def pristine_def)
  note t = open_almost[OF good0 slot0 s1 st, of "\<lambda>m. m\<lparr>metric_accepted := metric_accepted m + 1, metric_active := metric_active m + 1\<rparr>",
      folded t_def, simplified]
  have tslot: "slot < length (connections t)" using t(2) slot0(1) by simp
  have "request_protocol (command_request c) \<noteq> PROTOCOL_NONE" by (simp add: command_request_def)
  then have lu: "lives K slot t u" "ok \<Longrightarrow> ends K slot t u"
    using ends_begin_request[OF rtranclp.rtrancl_refl tslot _ t(4) _ u] t(3) by (simp_all add: prep_def)
  have uslot: "slot < length (connections u)" by (rule lives_length[OF lu(1) tslot])
  have closed: "good Ps (egress_connection_close K slot (on_conn slot (\<lambda>n. n\<lparr>conn_result := r n\<rparr>) x))"
    if "lives K slot t x" for r x
    using almost_ends[OF t(1) tslot ends_close_result[OF that tslot]] close_buffers lives_length[OF that tslot] by simp
  have "ends K slot t u" if "ok \<or> conn_state (conn u slot) = CONNECTION_UNUSED"
    using that lu by (auto simp: ends_def fresh_def in_handshake_def)
  then have "good Ps u" if "ok \<or> conn_state (conn u slot) = CONNECTION_UNUSED" allocated
    using almost_ends[OF t(1) tslot] that lives_keep(3)[OF lu(1) tslot] t(5) K by blast
  then show ?thesis unfolding run using closed[OF rtranclp.rtrancl_refl] closed[OF lu(1)] by auto
qed

section \<open>The handlers of the loop\<close>

lemma load_stopping_inert: "load_stopping K s = (b, t) \<Longrightarrow> inert s t \<and> admin_connections t = admin_connections s"
  by (auto simp: load_stopping_def Let_def)

lemma command_complete_inert: "inert s (egress_open_command_complete K p r s) \<and> admin_connections (egress_open_command_complete K p r s) = admin_connections s"
  by (auto simp: egress_open_command_complete_def open_command_release_def Let_def split: option.split)

lemma good_complete: "good Ps s \<Longrightarrow> good Ps (egress_open_command_complete K p r s)"
  using command_complete_inert good_inert by blast

lemma good_process_command:
  assumes K: "kernel_ok K" and good: "good Ps s"
  shows "good Ps (process_command K command s)"
proof -
  define t where "t = ask (Call_cancelled command) s"
  obtain b u where u: "(if k_cancelled K (srv_trace t) then (True, t) else load_stopping K t) = (b, u)" by fastforce
  have "good Ps t" by (rule good_inert[OF good]) (simp_all add: t_def)
  then have gu: "good Ps u" using u load_stopping_inert good_inert by (auto split: if_splits)
  have native: "good Ps (open_native K command c (free_slot u) u)" if "free_slot u \<noteq> max_connections (srv_config u)" for c
  proof -
    have slot: "free_slot u < length (connections u)" using free_slot_le[of u] that good_length[OF gu] by simp
    show ?thesis by (rule good_open_native[OF gu slot free_slot_unused[OF slot] K])
  qed
  show ?thesis
    using gu native good_complete[OF gu] unfolding process_command_def Let_def t_def[symmetric] u prod.case by (auto split: option.split)
qed

lemma fold_good: "good Ps s \<Longrightarrow> (\<And>x s. x \<in> set xs \<Longrightarrow> good Ps s \<Longrightarrow> good Ps (f x s)) \<Longrightarrow> good Ps (fold f xs s)"
  by (induction xs arbitrary: s) simp_all

lemma good_commands:
  assumes "kernel_ok K" "good Ps s"
  shows "good Ps (egress_open_commands_process K s)" "good Ps (egress_open_commands_reject K r s)"
proof -
  have "good Ps (s\<lparr>command_queue := []\<rparr>)" by (rule good_inert[OF assms(2)]) simp_all
  then show "good Ps (egress_open_commands_process K s)" "good Ps (egress_open_commands_reject K r s)"
    unfolding egress_open_commands_process_def egress_open_commands_reject_def
    by (auto intro!: fold_good good_process_command good_complete assms(1))
qed

text \<open>Loops over the slots.\<close>

lemma fold_slots:
  assumes "good Ps s" "n \<le> length (connections s)"
    and step: "\<And>i t. i < length (connections t) \<Longrightarrow> fresh (conn t i) \<Longrightarrow> ends K i t (f i t)"
  shows "good Ps (fold f [0..<n] s)" "length (connections (fold f [0..<n] s)) = length (connections s)"
proof -
  have "good Ps (fold f [0..<n] s) \<and> length (connections (fold f [0..<n] s)) = length (connections s)"
    using assms(2)
  proof (induction n)
    case 0
    then show ?case using assms(1) by simp
  next
    case (Suc n)
    define t where "t = fold f [0..<n] s"
    have t: "good Ps t" "length (connections t) = length (connections s)" using Suc by (simp_all add: t_def)
    then have n: "n < length (connections t)" using Suc.prems by simp
    have e: "ends K n t (f n t)" by (rule step[OF n good_slot(1)[OF t(1) n]])
    then have "length (connections (f n t)) = length (connections t)"
      using lives_keep(1)[OF ends_lives[OF e] n] by (simp add: same_frame_def)
    then show ?case using good_ends[OF t(1) n e] t(2) by (simp add: t_def)
  qed
  then show "good Ps (fold f [0..<n] s)" "length (connections (fold f [0..<n] s)) = length (connections s)" by simp_all
qed

lemma cancel_slot_ends:
  assumes "slot < length (connections t)" "fresh (conn t slot)"
  shows "ends K slot t (cancel_slot K slot t)"
proof -
  have q: "quiet slot t (ask (Call_cancelled x) t)" for x by (intro quiet_steps quiet.refl) simp
  show ?thesis
    using ends_refl[OF assms(2)] ends_quiet[OF ends_refl[OF assms(2)] q] ends_close_result[OF quiet_lives[OF q] assms(1)]
    by (auto simp: cancel_slot_def Let_def split: option.split)
qed

lemma expire_slot_ends:
  "slot < length (connections t) \<Longrightarrow> fresh (conn t slot) \<Longrightarrow> ends K slot t (expire_slot K now slot t)"
  using ends_refl ends_close_result[OF rtranclp.rtrancl_refl] by (simp add: expire_slot_def Let_def)

lemma end_slot_ends:
  "slot < length (connections t) \<Longrightarrow> ends K slot t (end_slot K r slot t)"
  using ends_close_result[OF rtranclp.rtrancl_refl, of slot t K] ends_close[OF rtranclp.rtrancl_refl, of slot t K] by (simp add: end_slot_def Let_def)

lemma good_cancel: "good Ps s \<Longrightarrow> good Ps (egress_open_commands_cancel K s)"
  unfolding egress_open_commands_cancel_def using good_length[of Ps s] by (intro fold_slots(1)[OF _ _ cancel_slot_ends]) simp_all

section \<open>The administration listener\<close>

lemma admin_conn_simps [simp]:
  "admin_conn (ask x s) slot = admin_conn s slot" "admin_connections (on_admin slot f s) = (admin_connections s)[slot := f (admin_conn s slot)]"
  by (simp_all add: admin_conn_def on_admin_def)

lemma admin_ok_zero [simp]: "admin_ok (admin_zero\<lparr>admin_fd := f, admin_generation := g\<rparr>)"
  by (simp add: admin_ok_def admin_zero_def EGRESS_ADMIN_BUFFER_def)

definition admins_ok :: "egress_server \<Rightarrow> bool" where
  "admins_ok s \<longleftrightarrow> length (admin_connections s) = EGRESS_MAX_ADMIN_CONNECTIONS \<and> (\<forall>c\<in>set (admin_connections s). admin_ok c)"

lemma good_admins: "good Ps s \<Longrightarrow> inert s t \<Longrightarrow> admins_ok t \<Longrightarrow> good Ps t"
  using inert_inv[of s t Ps] by (simp add: good_def admins_ok_def) (simp add: inert_def)

lemma admins_ok_simps [simp]:
  "admins_ok (ask x s) = admins_ok s" "admins_ok (s\<lparr>next_admin_generation := g\<rparr>) = admins_ok s"
  by (simp_all add: admins_ok_def)

lemma admins_ok_on_admin: "admins_ok s \<Longrightarrow> admin_ok (f (admin_conn s slot)) \<Longrightarrow> admins_ok (on_admin slot f s)"
  using set_update_subset_insert[of "admin_connections s" slot] by (fastforce simp: admins_ok_def)

lemma admins_ok_slot: "admins_ok s \<Longrightarrow> slot < EGRESS_MAX_ADMIN_CONNECTIONS \<Longrightarrow> admin_ok (admin_conn s slot)"
  by (simp add: admins_ok_def admin_conn_def)

definition admin_step :: "egress_server \<Rightarrow> egress_server \<Rightarrow> bool" where
  "admin_step s t \<longleftrightarrow> inert s t \<and> admins_ok t"

lemma admin_step_ask [simp]: "plain_call x \<Longrightarrow> admin_step s (ask x t) = admin_step s t"
  by (simp add: admin_step_def)

lemma admin_step_on: "admin_step s t \<Longrightarrow> admin_ok (f (admin_conn t slot)) \<Longrightarrow> admin_step s (on_admin slot f t)"
  by (simp add: admin_step_def admins_ok_on_admin)

lemma admin_close_step: "admin_step s t \<Longrightarrow> admin_step s (egress_admin_close slot t)"
  by (auto simp: egress_admin_close_def Let_def intro!: admin_step_on)

lemma admin_watch_step:
  assumes "admin_watch K slot i t = (ok, t')" "admin_step s t" "slot < EGRESS_MAX_ADMIN_CONNECTIONS"
  shows "admin_step s t'"
proof -
  have "admin_ok (admin_conn t slot)" using assms(2,3) admins_ok_slot by (simp add: admin_step_def)
  moreover from this have "admin_ok ((admin_conn t slot)\<lparr>admin_watch_id := w\<rparr>)" for w by (simp add: admin_ok_def)
  ultimately show ?thesis
    using assms(1,2) by (auto simp: admin_watch_def watch_or_modify_def Let_def split: if_splits prod.splits intro!: admin_step_on)
qed

text \<open>Every response fits the arrays of the code.\<close>

lemma length_metric_line: "length (metric_line name v) \<le> 16 + length name + 20"
  using dec_u64_length[of v] by (simp add: metric_line_def)

lemma length_metrics_body: "length (metrics_body m) \<le> 1024"
proof -
  have line: "length (metric_line n v) \<le> 36 + length n" for n v using length_metric_line[of n v] by simp
  show ?thesis
    unfolding metrics_body_def
    using line[of "''connections_total''" "metric_accepted m"] line[of "''connections_active''" "metric_active m"]
      line[of "''admissions_total''" "metric_admitted m"] line[of "''denials_total''" "metric_denied m"]
      line[of "''auth_failures_total''" "metric_auth_failures m"] line[of "''quota_denials_total''" "metric_quota_denials m"]
      line[of "''bytes_from_clients_total''" "metric_bytes_from_clients m"] line[of "''bytes_to_clients_total''" "metric_bytes_to_clients m"]
      line[of "''receipts_total''" "metric_receipts m"] line[of "''policy_generation''" "metric_policy_generation m"]
      line[of "''policy_reload_failures_total''" "metric_reload_failures m"] line[of "''audit_failures_total''" "metric_audit_failures m"]
    by simp
qed

lemma admin_reply_fits:
  assumes "admin_reply s request = (status, content_type, body)"
  shows "length body \<le> 1024" "length (admin_response_text status content_type body) < EGRESS_ADMIN_BUFFER"
proof -
  show body: "length body \<le> 1024"
    using assms length_metrics_body[of "srv_metrics s"] dec_u64_length[of "metric_policy_generation (srv_metrics s)"]
    by (auto simp: admin_reply_def health_body_def split: if_splits)
  have "length status \<le> 23" "length content_type \<le> 25" using assms by (auto simp: admin_reply_def split: if_splits)
  moreover have "length (dec (length body)) \<le> 4" using length_dec[of "length body" 4] body by simp
  ultimately show "length (admin_response_text status content_type body) < EGRESS_ADMIN_BUFFER"
    using body by (simp add: admin_response_text_def http_line_def EGRESS_ADMIN_BUFFER_def)
qed

lemma prepare_response_step:
  assumes "admin_step s t" "slot < EGRESS_MAX_ADMIN_CONNECTIONS" "admin_response (admin_conn t slot) = []"
  shows "admin_step s (prepare_admin_response slot t)"
proof -
  obtain status content_type body where r: "admin_reply t (c_string (admin_request (admin_conn t slot))) = (status, content_type, body)"
    by (metis prod_cases3)
  have "admin_ok (admin_conn t slot)" using assms(1,2) admins_ok_slot by (simp add: admin_step_def)
  then have "admin_ok ((admin_conn t slot)\<lparr>admin_response := admin_response_text status content_type body\<rparr>)"
    using admin_reply_fits(2)[OF r] assms(3) by (simp add: admin_ok_def)
  then show ?thesis
    using assms(1) unfolding prepare_admin_response_def Let_def r prod.case by (auto intro!: admin_step_on admin_close_step)
qed

lemma admin_read_step:
  assumes "kernel_ok K" "admin_step s t" "slot < EGRESS_MAX_ADMIN_CONNECTIONS" "admin_response (admin_conn t slot) = []"
    "admin_read K slot t = (over, t')"
  shows "admin_step s t'"
proof -
  define n where "n = EGRESS_ADMIN_BUFFER - 1 - length (admin_request (admin_conn t slot))"
  define u where "u = ask (Call_receive (the (admin_socket (admin_conn t slot))) n) t"
  obtain r bs where ans: "k_receive K (srv_trace u) = (r, bs)" by fastforce
  have len: "length bs \<le> n" using kernel_okD(1)[OF assms(1), of "the (admin_socket (admin_conn t slot))" n "srv_trace t"] ans by (simp add: u_def)
  have u: "admin_step s u" using assms(2) by (simp add: u_def)
  have ok: "admin_ok (admin_conn t slot)" using assms(2,3) admins_ok_slot by (simp add: admin_step_def)
  define v where "v = on_admin slot (\<lambda>c. c\<lparr>admin_request := admin_request c @ bs\<rparr>) u"
  have v: "admin_step s v" unfolding v_def
    by (rule admin_step_on[OF u]) (use ok len in \<open>auto simp: admin_ok_def n_def u_def\<close>)
  have "slot < length (admin_connections t)" using assms(2,3) by (simp add: admin_step_def admins_ok_def)
  then have "admin_response (admin_conn v slot) = []" using assms(4) by (simp add: v_def u_def admin_conn_def on_admin_def ask_def)
  then have "admin_step s (prepare_admin_response slot v)" using prepare_response_step[OF v assms(3)] by blast
  then show ?thesis
    using assms(5) u admin_close_step unfolding admin_read_def Let_def n_def[symmetric] u_def[symmetric] ans prod.case v_def[symmetric]
    by (auto split: if_splits)
qed

lemma admin_write_step:
  assumes "kernel_ok K" "admin_step s t" "slot < EGRESS_MAX_ADMIN_CONNECTIONS" "admin_write K slot t = (over, t')"
  shows "admin_step s t'"
proof -
  define c where "c = admin_conn t slot"
  define u where "u = ask (Call_send (the (admin_socket c)) (drop (admin_response_offset c) (admin_response c))) t"
  obtain r w where ans: "k_send K (srv_trace u) = (r, w)" by fastforce
  have len: "w \<le> length (admin_response c) - admin_response_offset c"
    using kernel_okD(2)[OF assms(1), of "the (admin_socket c)" "drop (admin_response_offset c) (admin_response c)" "srv_trace t"] ans
    by (simp add: u_def)
  have u: "admin_step s u" using assms(2) by (simp add: u_def)
  have ok: "admin_ok c" using assms(2,3) admins_ok_slot by (simp add: admin_step_def c_def)
  define v where "v = on_admin slot (\<lambda>c. c\<lparr>admin_response_offset := admin_response_offset c + w\<rparr>) u"
  have "admin_step s v" unfolding v_def
    by (rule admin_step_on[OF u]) (use ok len in \<open>auto simp: admin_ok_def u_def c_def\<close>)
  then show ?thesis
    using assms(4) admin_close_step[OF u] admin_close_step
    unfolding admin_write_def Let_def c_def[symmetric] u_def[symmetric] ans prod.case v_def[symmetric] by (auto split: if_splits)
qed

lemma admin_dispatch_step:
  assumes "kernel_ok K" "admin_step s t" "slot < EGRESS_MAX_ADMIN_CONNECTIONS"
  shows "admin_step s (egress_admin_dispatch K slot flags t)"
proof -
  obtain over u where u: "(if admin_response (admin_conn t slot) = [] \<and> FLAG_READ \<in> flags then admin_read K slot t else (False, t)) = (over, u)"
    by fastforce
  obtain over' v where v: "(if admin_response (admin_conn u slot) \<noteq> [] \<and> FLAG_WRITE \<in> flags then admin_write K slot u else (False, u)) = (over', v)"
    by fastforce
  have su: "admin_step s u" using u assms admin_read_step[OF assms] by (auto split: if_splits)
  have sv: "admin_step s v" using v su admin_write_step[OF assms(1) su assms(3)] by (auto split: if_splits)
  have "admin_step s (snd (admin_watch K slot i v))" for i
    using admin_watch_step[OF _ sv assms(3), of K i] by (cases "admin_watch K slot i v") simp
  then show ?thesis
    using su sv admin_close_step[OF sv] unfolding egress_admin_dispatch_def Let_def u prod.case v by simp
qed

lemma admin_accept_step:
  assumes "admin_step s t"
  shows "admin_step s (admin_accept K client t)"
proof (cases "free_admin_slot t = EGRESS_MAX_ADMIN_CONNECTIONS")
  case True
  then show ?thesis using assms by (simp add: admin_accept_def)
next
  case False
  have slot: "free_admin_slot t < EGRESS_MAX_ADMIN_CONNECTIONS"
    using assms False length_takeWhile_le[of "\<lambda>c. 0 \<le> admin_fd c" "admin_connections t"]
    by (simp add: admin_step_def admins_ok_def free_admin_slot_def)
  define u where "u = on_admin (free_admin_slot t) (\<lambda>_. admin_zero\<lparr>admin_socket := Some client, admin_fd := k_fd K client,
        admin_generation := next_admin_generation t + 1, admin_deadline_ms := add_saturating (k_clock K (Call_monotonic # srv_trace t)) 5000\<rparr>)
      (ask Call_monotonic (t\<lparr>next_admin_generation := next_admin_generation t + 1\<rparr>))"
  have u: "admin_step s u" unfolding u_def
    by (rule admin_step_on) (use assms in \<open>simp_all add: admin_step_def admin_ok_def admin_zero_def EGRESS_ADMIN_BUFFER_def\<close>)
  obtain ok v where v: "admin_watch K (free_admin_slot t) {FLAG_READ} u = (ok, v)" by fastforce
  have sv: "admin_step s v" by (rule admin_watch_step[OF v u slot])
  have "admin_accept K client t = (if ok then v else egress_admin_close (free_admin_slot t) v)"
    using False v unfolding u_def by (simp add: admin_accept_def Let_def monotonic_now_def)
  then show ?thesis using sv admin_close_step[OF sv] by simp
qed

lemma admin_accept_all_step:
  assumes "egress_admin_accept_all K t = Some t'" "admin_step s t"
  shows "admin_step s t'"
proof -
  have "admin_step s t \<longrightarrow> admin_step s t'"
  proof (rule egress_admin_accept_all.raw_induct[OF _ assms(1)])
    fix f K t t'
    assume IH: "\<And>K t t'. f K t = Some t' \<Longrightarrow> admin_step s t \<longrightarrow> admin_step s t'"
      and run: "(let s = ask (Call_accept (admin_listener_socket t)) t; (result, client) = k_socket K (srv_trace s)
        in if result \<noteq> SYS_OK then Some s else f K (admin_accept K client s)) = Some t'"
    show "admin_step s t \<longrightarrow> admin_step s t'"
      using run IH admin_accept_step[of s "ask (Call_accept (admin_listener_socket t)) t" K] by (auto simp: Let_def split: prod.splits if_splits)
  qed
  then show ?thesis using assms(2) by blast
qed

lemma good_admin: "good Ps s \<Longrightarrow> admin_step s t \<Longrightarrow> good Ps t"
  using good_admins by (simp add: admin_step_def)

lemma good_step: "good Ps s \<Longrightarrow> admin_step s s"
  by (simp add: good_def admin_step_def admins_ok_def)

section \<open>The loop\<close>

lemma good_accept_round:
  assumes "kernel_ok K" "good Ps s"
  shows "good Ps (accept_round K client s)"
proof -
  obtain allowed t where t: "egress_listener_unix_peer_allowed K (k_fd K client) s = (allowed, t)" by fastforce
  define u where "u = on_metrics (\<lambda>m. m\<lparr>metric_accepted := metric_accepted m + 1\<rparr>) t"
  have "inert s t" "admin_connections t = admin_connections s"
    using t by (auto simp: egress_listener_unix_peer_allowed_def Let_def split: if_splits)
  then have gt: "good Ps t" using good_inert[OF assms(2)] by blast
  have gu: "good Ps u" by (rule good_inert[OF gt]) (auto simp: u_def same_counters_def intro!: inert_metrics)
  have release: "good Ps x \<Longrightarrow> good Ps (ask (Call_release p) x)" for x p by (rule good_inert) simp_all
  have "good Ps (accept_client K client (free_slot u) u)" if "free_slot u \<noteq> max_connections (srv_config u)"
  proof -
    have slot: "free_slot u < length (connections u)" using free_slot_le[of u] that good_length[OF gu] by simp
    show ?thesis by (rule good_accept_client[OF gu slot free_slot_unused[OF slot] assms(1)])
  qed
  then show ?thesis
    using release[OF gt] release[OF gu] unfolding accept_round_def t prod.case Let_def u_def[symmetric] by simp
qed

lemma good_accept_all:
  assumes "egress_connection_accept_all K s = Some s'" "kernel_ok K" "good Ps s"
  shows "good Ps s'"
proof -
  have "kernel_ok K \<longrightarrow> good Ps s \<longrightarrow> good Ps s'"
  proof (rule egress_connection_accept_all.raw_induct[OF _ assms(1)])
    fix f K t t'
    assume IH: "\<And>K t t'. f K t = Some t' \<Longrightarrow> kernel_ok K \<longrightarrow> good Ps t \<longrightarrow> good Ps t'"
      and run: "(let s = ask (Call_accept (listener_socket t)) t; (result, client) = k_socket K (srv_trace s)
        in if result \<noteq> SYS_OK then Some s else f K (accept_round K client s)) = Some t'"
    have "good Ps t \<Longrightarrow> good Ps (ask (Call_accept (listener_socket t)) t)" by (rule good_inert) simp_all
    then show "kernel_ok K \<longrightarrow> good Ps t \<longrightarrow> good Ps t'"
      using run IH good_accept_round[of K Ps] by (auto simp: Let_def split: prod.splits if_splits)
  qed
  then show ?thesis using assms(2,3) by blast
qed

lemma good_ask: "good Ps s \<Longrightarrow> plain_call x \<Longrightarrow> good Ps (ask x s)"
  by (rule good_inert) simp_all

lemma good_load: "load_stopping K s = (b, t) \<Longrightarrow> good Ps s \<Longrightarrow> good Ps t"
  using load_stopping_inert good_inert by blast

lemma good_expire:
  assumes "good Ps s"
  shows "good Ps (expire_connections K s)"
proof -
  define t where "t = ask Call_monotonic s"
  define u where "u = fold (expire_slot K (k_clock K (srv_trace t))) [0..<max_connections (srv_config t)] t"
  have gt: "good Ps t" unfolding t_def by (rule good_ask[OF assms]) simp
  have gu: "good Ps u" unfolding u_def
    using good_length[OF gt] by (intro fold_slots(1)[OF gt _ expire_slot_ends]) simp_all
  have "good Ps (fold (expire_admin n) xs u)" for n xs
    by (rule fold_good[OF gu]) (auto simp: expire_admin_def intro: good_admin admin_close_step good_step)
  then show ?thesis unfolding expire_connections_def monotonic_now_def Let_def prod.case t_def[symmetric] u_def[symmetric] by simp
qed

lemma good_connection_event:
  assumes "kernel_ok K" "good Ps s"
  shows "\<exists>t. connection_event K token flags s = Some t \<and> good Ps t"
  using assms good_dispatch[OF assms] good_length[OF assms(2)]
  by (auto simp: connection_event_def not_le split: prod.split)

lemma good_admin_event:
  assumes "kernel_ok K" "good Ps s"
  shows "good Ps (admin_event K token flags s)"
  using assms good_admin[OF assms(2) admin_dispatch_step[OF assms(1) good_step[OF assms(2)]]]
  by (auto simp: admin_event_def split: prod.split)

lemma good_event:
  assumes "kernel_ok K" "good Ps s" "run_event K e s = Some t"
  shows "good Ps t"
  using assms good_accept_all[OF _ assms(1,2)] good_admin[OF assms(2) admin_accept_all_step[OF _ good_step[OF assms(2)]]]
    good_admin_event[OF assms(1,2)] good_connection_event[OF assms(1,2), of "fst e" "snd e"]
  by (auto simp: run_event_def split: prod.splits if_splits)

lemma good_events:
  "kernel_ok K \<Longrightarrow> good Ps s \<Longrightarrow> run_events K es s = Some t \<Longrightarrow> good Ps t"
  by (induction es arbitrary: s) (auto split: option.splits dest: good_event)

lemma good_round:
  assumes "kernel_ok K" "good Ps s" "run_round K s = Some (r, t)"
  shows "good Ps t"
proof -
  define u where "u = egress_open_commands_cancel K (egress_open_commands_process K s)"
  define v where "v = ask (Call_loop_step (next_deadline K u)) u"
  obtain result events stopped where ans: "k_step K (srv_trace v) = (result, events, stopped)" by (metis prod_cases3)
  have round_end: "good Ps x \<Longrightarrow> good Ps (egress_open_commands_cancel K (egress_open_commands_process K x))" for x
    by (intro good_cancel good_commands(1) assms(1))
  have gv: "good Ps v" unfolding v_def u_def by (intro good_ask round_end assms(2)) simp
  show ?thesis
    using assms(3) gv good_events[OF assms(1) gv] round_end good_expire
    unfolding run_round_def Let_def u_def[symmetric] v_def[symmetric] ans prod.case by (auto split: if_splits option.splits)
qed

lemma good_run_loop:
  assumes "run_loop K s = Some (r, t)" "kernel_ok K" "good Ps s"
  shows "good Ps t"
proof -
  have "kernel_ok K \<longrightarrow> good Ps s \<longrightarrow> good Ps (snd (r, t))"
  proof (rule run_loop.raw_induct[OF _ assms(1)])
    fix f K s y
    assume IH: "\<And>K s y. f K s = Some y \<Longrightarrow> kernel_ok K \<longrightarrow> good Ps s \<longrightarrow> good Ps (snd y)"
      and run: "(let (stopping, s) = load_stopping K s in if stopping then Some (EGRESS_OK, s)
        else case run_round K s of None \<Rightarrow> None | Some (Some result, s) \<Rightarrow> Some (result, s) | Some (None, s) \<Rightarrow> f K s) = Some y"
    show "kernel_ok K \<longrightarrow> good Ps s \<longrightarrow> good Ps (snd y)"
    proof (intro impI)
      assume K: "kernel_ok K" and good: "good Ps s"
      obtain stopping t where t: "load_stopping K s = (stopping, t)" by fastforce
      note gt = good_load[OF t good]
      show "good Ps (snd y)"
        using run gt good_round[OF K gt] K unfolding t Let_def prod.case
        by (auto split: if_splits option.splits dest: IH[rule_format])
    qed
  qed
  then show ?thesis using assms(2,3) by simp
qed

text \<open>At the end of the loop every slot is unused.\<close>

lemma end_slot_unused:
  assumes "slot < length (connections s)"
  shows "conn_state (conn (end_slot K r slot s) slot) = CONNECTION_UNUSED"
proof -
  have "conn_state (conn (egress_connection_close K slot t) slot) = CONNECTION_UNUSED" if "slot < length (connections t)" for t
    using close_conn[OF that, of K] close_unused[of t slot K] by (cases "conn_state (conn t slot) = CONNECTION_UNUSED") (simp_all add: cleared_def connection_zero_def)
  then show ?thesis using assms by (simp add: end_slot_def Let_def)
qed

lemma end_slots_unused:
  assumes "good Ps s" "n \<le> length (connections s)" "i < n"
  shows "conn_state (conn (fold (end_slot K r) [0..<n] s) i) = CONNECTION_UNUSED"
  using assms(2,3)
proof (induction n)
  case (Suc n)
  define t where "t = fold (end_slot K r) [0..<n] s"
  have len: "n < length (connections t)"
    using fold_slots(2)[OF assms(1) _ end_slot_ends, where n = n] Suc.prems(1) by (simp add: t_def)
  have "conn (end_slot K r n t) i = conn t i" if "i \<noteq> n"
    using lives_keep(1)[OF ends_lives[OF end_slot_ends[OF len]] len] that by (auto simp: same_frame_def)
  then show ?case using Suc end_slot_unused[OF len] by (cases "i = n") (simp_all add: t_def[symmetric])
qed simp

lemma good_end_run:
  assumes "kernel_ok K" "good Ps s"
  shows "good Ps (end_run K r s)" "c \<in> set (connections (end_run K r s)) \<Longrightarrow> conn_state c = CONNECTION_UNUSED"
proof -
  define t where "t = egress_open_commands_reject K ERR_CANCELLED s"
  define u where "u = fold (end_slot K r) [0..<max_connections (srv_config t)] t"
  have gt: "good Ps t" unfolding t_def by (rule good_commands(2)[OF assms])
  have len: "max_connections (srv_config t) = length (connections t)" using good_length[OF gt] by simp
  have gu: "good Ps u" "length (connections u) = length (connections t)" unfolding u_def
    by (rule fold_slots[OF gt _ end_slot_ends]; simp add: len)+
  have run: "end_run K r s = u\<lparr>srv_running := False\<rparr>" unfolding end_run_def Let_def t_def[symmetric] u_def[symmetric] by simp
  show "good Ps (end_run K r s)" unfolding run by (rule good_inert[OF gu(1)]) simp_all
  have "\<forall>c\<in>set (connections u). conn_state c = CONNECTION_UNUSED"
    unfolding all_conns using end_slots_unused[OF gt, of "length (connections t)"] gu(2) len by (simp add: u_def)
  then show "c \<in> set (connections (end_run K r s)) \<Longrightarrow> conn_state c = CONNECTION_UNUSED" by (simp add: run)
qed

end
