(* ===== verification/Egress_System.thy ===== *)
theory Egress_System
  imports Egress_Service
begin

text \<open>
  Every state a server can reach: a server is created from a policy and a configuration that were
  built by calls of the public interface, then the handlers of its loop and the calls of other
  threads follow one another in any order. The invariant of \<open>Egress_Service\<close> holds in all of
  these states; the properties of the whole program are read off it.
\<close>

section \<open>Calls of other threads\<close>

text \<open>Changes that leave the administration connections alone too.\<close>

definition calm :: "egress_server \<Rightarrow> egress_server \<Rightarrow> bool" where
  "calm s t \<longleftrightarrow> inert s t \<and> admin_connections t = admin_connections s"

lemma calm_refl [simp]: "calm s s"
  by (simp add: calm_def)

lemma calm_trans: "calm s t \<Longrightarrow> calm t u \<Longrightarrow> calm s u"
  using inert_trans by (auto simp: calm_def)

lemma good_calm: "good Ps s \<Longrightarrow> calm s t \<Longrightarrow> good Ps t"
  using good_inert by (simp add: calm_def)

lemma calm_simps [simp]:
  "plain_call x \<Longrightarrow> calm s (ask x t) \<longleftrightarrow> calm s t"
  "calm s (t\<lparr>open_commands := m\<rparr>) \<longleftrightarrow> calm s t" "calm s (t\<lparr>open_commands := m, command_queue := q\<rparr>) \<longleftrightarrow> calm s t"
  "calm s (t\<lparr>srv_stopping := b\<rparr>) \<longleftrightarrow> calm s t" "calm s (t\<lparr>srv_references := n\<rparr>) \<longleftrightarrow> calm s t"
  "calm s (t\<lparr>srv_started := b\<rparr>) \<longleftrightarrow> calm s t" "calm s (t\<lparr>srv_running := b\<rparr>) \<longleftrightarrow> calm s t"
  "calm s (t\<lparr>listener_socket := l, bound_port := p, unix_socket_created := b\<rparr>) \<longleftrightarrow> calm s t"
  "calm s (t\<lparr>listener_watch := w\<rparr>) \<longleftrightarrow> calm s t" "calm s (t\<lparr>admin_listener_watch := w\<rparr>) \<longleftrightarrow> calm s t"
  "calm s (t\<lparr>admin_listener_socket := l, admin_bound_port := p\<rparr>) \<longleftrightarrow> calm s t"
  by (simp_all add: calm_def inert_def)

lemma calm_started: "calm s (s\<lparr>srv_started := b, srv_running := b'\<rparr>)"
  by simp

lemma calm_metrics: "calm s t \<Longrightarrow> same_counters (srv_metrics t) (f (srv_metrics t)) \<Longrightarrow> calm s (on_metrics f t)"
  using inert_metrics by (simp add: calm_def)

lemma calm_load: "load_stopping K t = (b, u) \<Longrightarrow> calm s t \<Longrightarrow> calm s u"
  by (auto simp: load_stopping_def Let_def)

lemma calm_release: "calm s t \<Longrightarrow> calm s (open_command_release p t)"
  by (auto simp: open_command_release_def Let_def split: option.split)

lemma calm_wake: "server_loop_wake_if_live K t = (b, u) \<Longrightarrow> calm s t \<Longrightarrow> calm s u"
  by (auto simp: server_loop_wake_if_live_def Let_def split: if_splits)

lemma calm_listen_loop: "listen_loop K as t = (h, u) \<Longrightarrow> calm s t \<Longrightarrow> calm s u"
  by (induction K as t rule: listen_loop.induct) (auto simp: Let_def split: prod.splits if_splits)

lemma calm_create_tcp: "egress_listener_create_tcp K host port t = (r, u) \<Longrightarrow> calm s t \<Longrightarrow> calm s u"
  by (auto simp: egress_listener_create_tcp_def Let_def dest!: calm_listen_loop[where s = s]
      split: prod.splits option.splits sockaddr.splits)

lemma calm_create_unix: "egress_listener_create_unix K path t = (r, u) \<Longrightarrow> calm s t \<Longrightarrow> calm s u"
  by (auto simp: egress_listener_create_unix_def egress_listener_unlink_unix_identity_def Let_def split: prod.splits if_splits)

lemma calm_bind_listener: "bind_listener K fs t = (r, u) \<Longrightarrow> calm s t \<Longrightarrow> calm s u"
  by (auto simp: bind_listener_def Let_def dest!: calm_create_unix[where s = s] calm_create_tcp[where s = s]
      split: prod.splits option.splits if_splits)

lemma calm_bind_admin: "bind_admin K t = (r, u) \<Longrightarrow> calm s t \<Longrightarrow> calm s u"
  by (auto simp: bind_admin_def Let_def dest!: calm_create_tcp[where s = s] split: prod.splits option.splits if_splits)

lemma calm_pair_accept:
  assumes "pair_accept K listener deadline t = Some (r, u)" "calm s t"
  shows "calm s u"
proof -
  have "calm s t \<longrightarrow> calm s (snd (r, u))"
  proof (rule pair_accept.raw_induct[OF _ assms(1)])
    fix f K listener deadline t y
    assume IH: "\<And>K listener deadline t y. f K listener deadline t = Some y \<Longrightarrow> calm s t \<longrightarrow> calm s (snd y)"
      and run: "(let s = ask (Call_fd_wait (k_fd K listener) {FLAG_READ} deadline) t in
      if k_result K (srv_trace s) \<noteq> SYS_OK then Some (None, s)
      else
        let s = ask (Call_accept (Some listener)) s; (accepted, socket) = k_socket K (srv_trace s) in
        if accepted = SYS_OK then Some (Some socket, s)
        else if accepted \<noteq> SYS_ERR_WOULD_BLOCK then Some (None, s)
        else f K listener deadline s) = Some y"
    show "calm s t \<longrightarrow> calm s (snd y)"
      using run by (auto simp: Let_def split: prod.splits if_splits dest!: IH[rule_format])
  qed
  then show ?thesis using assms(2) by simp
qed

lemma calm_pair_failed: "pair_failed l c h t = (r, u) \<Longrightarrow> calm s t \<Longrightarrow> calm s u"
  by (auto simp: pair_failed_def)

lemma calm_pair_detach: "pair_detach K l c h t = (r, u) \<Longrightarrow> calm s t \<Longrightarrow> calm s u"
  by (auto simp: pair_detach_def Let_def split: if_splits dest!: calm_pair_failed[where s = s])

lemma calm_pair_connect: "pair_connect K l a t = Some (r, u) \<Longrightarrow> calm s t \<Longrightarrow> calm s u"
  by (auto simp: pair_connect_def Let_def monotonic_now_def split: prod.splits if_splits option.splits
      dest!: calm_pair_failed[where s = s] calm_pair_detach[where s = s] calm_pair_accept[where s = s])

lemma calm_pair: "egress_listener_create_private_tcp_pair K t = Some (r, u) \<Longrightarrow> calm s t \<Longrightarrow> calm s u"
  by (auto simp: egress_listener_create_private_tcp_pair_def Let_def split: prod.splits if_splits option.splits
      dest!: calm_pair_failed[where s = s] calm_pair_connect[where s = s])

lemma calm_queue_command: "queue_command K p c timeout t = (r, u) \<Longrightarrow> calm s t \<Longrightarrow> calm s u"
  by (auto simp: queue_command_def Let_def monotonic_now_def split: prod.splits if_splits intro: calm_release
      dest!: calm_load[where s = s] calm_wake[where s = s])

lemma calm_submit: "open_stream_submit K i who invocation host port timeout t = Some (r, u) \<Longrightarrow> calm s t \<Longrightarrow> calm s u"
  by (auto simp: open_stream_submit_def Let_def split: prod.splits if_splits option.splits
      dest!: calm_load[where s = s] calm_pair[where s = s] calm_queue_command[where s = s])

lemma calm_finish: "open_stream_finish K p result t = Some (r, fd, u) \<Longrightarrow> calm s t \<Longrightarrow> calm s u"
  by (auto simp: open_stream_finish_def Let_def split: prod.splits if_splits option.splits intro!: calm_release dest!: calm_wake[where s = s])

lemma calm_connector_bind: "egress_server_connector_bind K native user key t = (r, c, u) \<Longrightarrow> calm s t \<Longrightarrow> calm s u"
  by (auto simp: egress_server_connector_bind_def Let_def same_counters_def split: prod.splits if_splits intro!: calm_metrics
      dest!: calm_load[where s = s])

section \<open>Reachable states\<close>

inductive reach :: "kernel \<Rightarrow> egress_policy set \<Rightarrow> egress_server \<Rightarrow> bool" for K where
  created: "maelys_egress_server_create K (fs :: nat filesystem) fs' calloc_ok clone_ok (Some (foldl policy_exec empty_policy ops))
      (Some (world_config (config_run (config_ops :: nat config_op list) (w\<lparr>world_config := the (snd (maelys_egress_config_create True))\<rparr>))))
      journal audit attestor = (EGRESS_OK, Some s) \<Longrightarrow>
    reach K {srv_policy s} s"
| started: "reach K Ps s \<Longrightarrow> reach K Ps (s\<lparr>srv_started := True, srv_running := True\<rparr>)"
| asked_stopping: "reach K Ps s \<Longrightarrow> load_stopping K s = (b, t) \<Longrightarrow> reach K Ps t"
| waited: "reach K Ps s \<Longrightarrow> reach K Ps (ask (Call_loop_step deadline) s)"
| event: "reach K Ps s \<Longrightarrow> run_event K e s = Some t \<Longrightarrow> reach K Ps t"
| processed: "reach K Ps s \<Longrightarrow> reach K Ps (egress_open_commands_process K s)"
| cancelled: "reach K Ps s \<Longrightarrow> reach K Ps (egress_open_commands_cancel K s)"
| expired: "reach K Ps s \<Longrightarrow> reach K Ps (expire_connections K s)"
| ended: "reach K Ps s \<Longrightarrow> reach K Ps (end_run K result s)"
| replaced: "reach K Ps s \<Longrightarrow>
    maelys_egress_server_replace_policy K clone_ok (Some (foldl policy_exec empty_policy ops)) s = (result, generation, t) \<Longrightarrow>
    reach K (insert (srv_policy t) Ps) t"
| stopped: "reach K Ps s \<Longrightarrow> maelys_egress_server_stop K s = (result, t) \<Longrightarrow> reach K Ps t"
| bound: "reach K Ps s \<Longrightarrow> egress_server_connector_bind K native user key s = (result, c, t) \<Longrightarrow> reach K Ps t"
| submitted: "reach K Ps s \<Longrightarrow> open_stream_submit K i who invocation host port timeout s = Some (queued, t) \<Longrightarrow> reach K Ps t"
| wait_command: "reach K Ps s \<Longrightarrow> reach K Ps (ask (Call_wait command deadline) s)"
| finished: "reach K Ps s \<Longrightarrow> open_stream_finish K command waited s = Some (result, fd, t) \<Longrightarrow> reach K Ps t"

text \<open>A new server, and a server with another policy.\<close>

lemma connection_zero_core:
  "conn_state connection_zero = CONNECTION_UNUSED" "\<not> quota_admitted connection_zero" "conn_destination connection_zero = None"
  by (simp_all add: connection_zero_def)

lemma good_server_zero:
  assumes "length (principals c) \<le> EGRESS_MAX_PRINCIPALS"
  shows "good {p} (server_zero p c journal audit attestor)"
proof -
  let ?z = "connection_zero\<lparr>client_fd := - 1, upstream_fd := - 1\<rparr>"
  have core: "\<not> in_use ?z" "\<not> admitted_as i ?z" "fresh ?z" "buffers_ok ?z" "quota_inv s ?z" "state_inv {p} ?z" for i s
    using connection_zero_core cleared_buffers[of connection_zero]
    by (simp_all add: in_use_def admitted_as_def fresh_def quota_inv_def state_inv_def cleared_def in_handshake_def connection_zero_def buffers_ok_def)
  have "accounts_inv (server_zero p c journal audit attestor)"
    using assms core(2) by (simp add: accounts_inv_def server_zero_def account_ok_def count_if_def)
  moreover have "ledger_inv (server_zero p c journal audit attestor)"
    using core(1) by (simp add: ledger_inv_def server_zero_def count_if_def)
  moreover have "admin_ok (admin_zero\<lparr>admin_fd := - 1\<rparr>)"
    by (simp add: admin_ok_def admin_zero_def EGRESS_ADMIN_BUFFER_def)
  ultimately show ?thesis
    using core by (simp add: good_def server_inv_def) (simp add: server_zero_def connect_calls_def)
qed

lemma clone_policy_inv:
  assumes "clone_policy ok p = Some q" "sealed p" "policy_inv p"
  shows "policy_inv q" "sealed q"
  using assms by (auto simp: clone_policy_def policy_inv_def sealed_ok_def split: if_splits)

lemma good_mono:
  assumes "good Ps s" "Ps \<subseteq> Qs"
  shows "good Qs s"
proof -
  have pin: "pinned Ps d \<Longrightarrow> pinned Qs d" for d using assms(2) by (auto simp: pinned_def)
  then have "pinned_call Ps x \<Longrightarrow> pinned_call Qs x" for x by (cases x) auto
  moreover have "state_inv Ps c \<Longrightarrow> state_inv Qs c" for c using pin by (auto simp: state_inv_def)
  ultimately show ?thesis using assms by (auto simp: good_def server_inv_def)
qed

lemma good_policy:
  assumes "good Ps s"
  shows "good (insert p Ps) (s\<lparr>srv_policy := p\<rparr>)"
proof -
  have "quota_inv (s\<lparr>srv_policy := p\<rparr>) c = quota_inv s c" for c by (rule quota_inv_cong) simp
  then show ?thesis
    using good_mono[OF assms subset_insertI[of Ps p]] by (simp add: good_def server_inv_def accounts_inv_def ledger_inv_def)
qed

lemma good_create:
  assumes run: "maelys_egress_server_create K fs fs' calloc_ok clone_ok (Some p) (Some c) journal audit attestor = (EGRESS_OK, Some s)"
    and c: "config_inv c" and p: "policy_inv p"
  shows "good {srv_policy s} s" "policy_inv (srv_policy s)" "sealed (srv_policy s)"
proof -
  obtain q where q: "sealed p" "clone_policy clone_ok p = Some q"
    using run by (auto simp: maelys_egress_server_create_def split: if_splits option.splits)
  define z where "z = server_zero q c journal (map_option (\<lambda>a. a\<lparr>audit_references := audit_references a + 1\<rparr>) audit)
    (map_option (\<lambda>a. a\<lparr>attestor_references := attestor_references a + 1\<rparr>) attestor)"
  have "calm z (ask Call_loop_create z)" by simp
  then have calm: "calm z s"
    using run q by (auto simp: maelys_egress_server_create_def Let_def z_def[symmetric] split: if_splits option.splits prod.splits
        dest!: calm_bind_listener[where s = z] calm_bind_admin[where s = z])
  have "good {q} z" unfolding z_def using c by (intro good_server_zero) (simp add: config_inv_def principals_inv_def)
  from good_calm[OF this calm] have good: "good {q} s" .
  moreover have "srv_policy s = q" using calm by (simp add: calm_def inert_def z_def server_zero_def)
  ultimately show "good {srv_policy s} s" "policy_inv (srv_policy s)" "sealed (srv_policy s)"
    using clone_policy_inv[OF q(2,1) p] by simp_all
qed

lemma good_replace:
  assumes run: "maelys_egress_server_replace_policy K clone_ok (Some p) s = (result, generation, t)" and good: "good Ps s"
    and p: "policy_inv p" and Ps: "\<forall>q\<in>Ps. policy_inv q \<and> sealed q"
  shows "good (insert (srv_policy t) Ps) t" "policy_inv (srv_policy t) \<and> sealed (srv_policy t)"
proof -
  have old: "srv_policy s \<in> Ps" using good by (simp add: good_def server_inv_def)
  have failure: "good Ps x \<Longrightarrow> good Ps (reload_failure x)" for x
    by (rule good_calm) (auto simp: reload_failure_def same_counters_def intro!: calm_metrics)
  have goodI: "good (insert (srv_policy x) Ps) x" if "good Ps x" for x using good_mono[OF that] by blast
  obtain b u where u: "load_stopping K s = (b, u)" by fastforce
  have gu: "good Ps u" by (rule good_load[OF u good])
  have same: "srv_policy u = srv_policy s" using load_stopping_inert[OF u] by (simp add: inert_def)
  have bump: "good Qs x \<Longrightarrow> good Qs (on_metrics (\<lambda>m. m\<lparr>metric_policy_generation := g\<rparr>) x)" for Qs x g
    by (rule good_calm) (auto simp: same_counters_def intro!: calm_metrics)
  have new: "good (insert q Ps) (on_metrics (\<lambda>m. m\<lparr>metric_policy_generation := g\<rparr>) (u\<lparr>srv_policy := q\<rparr>))" for q g
    by (rule bump[OF good_policy[OF gu]])
  show "good (insert (srv_policy t) Ps) t"
    using run goodI[OF failure[OF good]] goodI[OF failure[OF gu]] new
    by (auto simp: maelys_egress_server_replace_policy_def u Let_def split: if_splits option.splits)
  show "policy_inv (srv_policy t) \<and> sealed (srv_policy t)"
    using run Ps old same clone_policy_inv[OF _ _ p]
    by (auto simp: maelys_egress_server_replace_policy_def u Let_def reload_failure_def split: if_splits option.splits)
qed

lemma reach_inv:
  assumes "reach K Ps s" "kernel_ok K"
  shows "good Ps s \<and> (\<forall>p\<in>Ps. policy_inv p \<and> sealed p)"
  using assms(1)
proof induction
  case (created fs fs' calloc_ok clone_ok ops config_ops w journal audit attestor s)
  have "policy_inv (foldl policy_exec empty_policy ops)" by (rule policy_history_inv) (simp add: policy_inv_def empty_policy_def)
  then show ?case using good_create[OF created config_run_start] by simp
next
  case (replaced Ps s clone_ok ops result generation t)
  have "policy_inv (foldl policy_exec empty_policy ops)" by (rule policy_history_inv) (simp add: policy_inv_def empty_policy_def)
  then show ?case using good_replace[OF replaced(2) _ _ replaced.IH[THEN conjunct2]] replaced.IH by blast
next
  case (stopped Ps s result t)
  then have "calm s t" by (auto simp: maelys_egress_server_stop_def Let_def)
  then show ?case using stopped.IH good_calm by blast
qed (use assms(2) in \<open>auto intro: good_load good_ask good_event good_commands good_cancel good_expire good_end_run(1)
    good_calm[OF _ calm_started] good_calm[OF _ calm_connector_bind[OF _ calm_refl]]
    good_calm[OF _ calm_submit[OF _ calm_refl]] good_calm[OF _ calm_finish[OF _ calm_refl]]\<close>)

text \<open>The loop itself stays within the reachable states.\<close>

lemma reach_events: "run_events K es s = Some t \<Longrightarrow> reach K Ps s \<Longrightarrow> reach K Ps t"
  by (induction es arbitrary: s) (auto split: option.splits intro: reach.event)

lemma reach_round:
  assumes "run_round K s = Some (r, t)" "reach K Ps s"
  shows "reach K Ps t"
proof -
  define u where "u = egress_open_commands_cancel K (egress_open_commands_process K s)"
  define v where "v = ask (Call_loop_step (next_deadline K u)) u"
  obtain result events stopped where ans: "k_step K (srv_trace v) = (result, events, stopped)" by (metis prod_cases3)
  have rv: "reach K Ps v" unfolding v_def u_def by (intro reach.waited reach.cancelled reach.processed assms(2))
  show ?thesis
    using assms(1) rv unfolding run_round_def Let_def u_def[symmetric] v_def[symmetric] ans prod.case
    by (auto split: if_splits option.splits intro!: reach.expired reach.cancelled reach.processed dest: reach_events)
qed

lemma reach_run_loop:
  assumes "run_loop K s = Some (r, t)" "reach K Ps s"
  shows "reach K Ps t"
proof -
  have "reach K Ps s \<longrightarrow> reach K Ps (snd (r, t))"
  proof (rule run_loop.raw_induct[OF _ assms(1)])
    fix f K s y
    assume IH: "\<And>K s y. f K s = Some y \<Longrightarrow> reach K Ps s \<longrightarrow> reach K Ps (snd y)"
      and run: "(let (stopping, s) = load_stopping K s in if stopping then Some (EGRESS_OK, s)
        else case run_round K s of None \<Rightarrow> None | Some (Some result, s) \<Rightarrow> Some (result, s) | Some (None, s) \<Rightarrow> f K s) = Some y"
    obtain stopping t where t: "load_stopping K s = (stopping, t)" by fastforce
    have "reach K Ps s \<Longrightarrow> reach K Ps t" by (rule reach.asked_stopping[OF _ t])
    then show "reach K Ps s \<longrightarrow> reach K Ps (snd y)"
      using run reach_round[of K t _ _ Ps] unfolding t Let_def prod.case
      by (auto split: if_splits option.splits dest: IH[rule_format])
  qed
  then show ?thesis using assms(2) by simp
qed

section \<open>What the invariant says\<close>

lemma good_connect:
  assumes "good Ps s" "Call_connect h a \<in> set (srv_trace s)"
  obtains p host port d where "p \<in> Ps" "egress_policy_find p (Some host) port = Some d" "a \<in> set (addresses d)"
proof -
  have "Call_connect h a \<in> set (connect_calls (srv_trace s))" using assms(2) by (simp add: connect_calls_def)
  then have "pinned_call Ps (Call_connect h a)" using assms(1) by (auto simp: good_def server_inv_def)
  then show thesis using that by (auto simp: pinned_def)
qed

lemma good_relay:
  assumes "good Ps s" "c \<in> set (connections s)" "conn_state c = CONNECTION_RELAY"
  shows "\<exists>d. conn_destination c = Some d \<and> pinned Ps d \<and> (require_tls_sni d \<longrightarrow> conn_tls_sni_verified c)"
  using assms by (auto simp: good_def server_inv_def state_inv_def)

lemma good_account:
  assumes "good Ps s" "i < length (principals (srv_config s))"
  shows "account_ok (principals (srv_config s) ! i) (principal_bytes_total s ! i) (principal_active s ! i)
      (count_if (admitted_as i) (connections s))"
    "c \<in> set (connections s) \<Longrightarrow> admitted_as i c \<Longrightarrow> max_bytes_per_connection (principals (srv_config s) ! i) \<noteq> 0 \<Longrightarrow>
      quota_stream_used c \<le> max_bytes_per_connection (principals (srv_config s) ! i)"
  using assms by (auto simp: good_def server_inv_def accounts_inv_def quota_inv_def admitted_as_def Let_def)

lemma good_run:
  assumes "maelys_egress_server_run K s = Some (r, t)" "r \<noteq> ERR_STATE" "kernel_ok K" "good Ps s"
  shows "good Ps t" "\<forall>c\<in>set (connections t). conn_state c = CONNECTION_UNUSED"
proof -
  obtain b u where u: "load_stopping K s = (b, u)" by fastforce
  obtain v where v: "run_loop K (u\<lparr>srv_started := True, srv_running := True\<rparr>) = Some (r, v)" "t = end_run K r v"
    using assms(1,2) by (auto simp: maelys_egress_server_run_def u split: if_splits option.splits)
  have "good Ps (u\<lparr>srv_started := True, srv_running := True\<rparr>)" by (rule good_calm[OF good_load[OF u assms(4)]]) simp
  then have "good Ps v" by (rule good_run_loop[OF v(1) assms(3)])
  then show "good Ps t" "\<forall>c\<in>set (connections t). conn_state c = CONNECTION_UNUSED"
    using good_end_run[OF assms(3)] by (auto simp: v(2))
qed

lemma reach_run:
  assumes "maelys_egress_server_run K s = Some (r, t)" "reach K Ps s"
  shows "reach K Ps t"
proof -
  obtain b u where u: "load_stopping K s = (b, u)" by fastforce
  have "reach K Ps u" by (rule reach.asked_stopping[OF assms(2) u])
  then show ?thesis
    using assms(1) reach_run_loop[OF _ reach.started] reach.ended
    by (auto simp: maelys_egress_server_run_def u split: if_splits option.splits)
qed

text \<open>The guard of a tunnel: a connection leaves it for the relay only with a ClientHello that matches.\<close>

lemma fail_state:
  assumes "slot < length (connections s)"
  shows "conn_state (conn (egress_connection_fail K slot r a s) slot) \<in> {conn_state (conn s slot), CONNECTION_UNUSED}"
proof -
  define u where "u = on_conn slot (\<lambda>c. c\<lparr>conn_result := (if conn_result c = EGRESS_OK then r else conn_result c), close_after_flush := True\<rparr>)
    (if a then on_metrics (\<lambda>m. m\<lparr>metric_auth_failures := metric_auth_failures m + 1\<rparr>) s else s)"
  define v where "v = release_upstream slot (on_conn slot (\<lambda>c. c\<lparr>upstream_watch := 0\<rparr>) (unwatch_upstream slot u))"
  have u: "quiet slot s u" unfolding u_def by (intro quiet.update) (auto simp: same_core_def same_counters_def intro!: quiet_steps)
  have "quiet slot s v" unfolding v_def by (intro quiet_release quiet_steps u) (simp_all add: same_core_def)
  note v = quiet_core(1,4)[OF this] quiet_queue_to_client[OF _ this]
  have vslot: "slot < length (connections v)" using v(2) assms by simp
  have "conn_state (conn (egress_connection_close K slot v) slot) = CONNECTION_UNUSED"
    using close_conn[OF vslot, of K] close_unused[of v slot K]
    by (cases "conn_state (conn v slot) = CONNECTION_UNUSED") (simp_all add: cleared_def connection_zero_def)
  moreover have "conn_state (conn (snd (queue_to_client slot bs v)) slot) = conn_state (conn s slot)" for bs
    using quiet_core(1)[OF v(3)] by (metis prod.collapse)
  ultimately show ?thesis
    unfolding egress_connection_fail_def Let_def u_def[symmetric] v_def[symmetric] by simp
qed

lemma identity_relay:
  assumes run: "egress_connection_enforce_tunnel_identity K slot s = (ok, t)" and slot: "slot < length (connections s)"
    and st: "conn_state (conn s slot) = CONNECTION_IDENTITY" "conn_state (conn t slot) = CONNECTION_RELAY"
  shows "egress_tls_client_hello_matches (Some (buffer_content (client_to_upstream (conn s slot)))) (Some (conn_host (conn s slot))) = Hello_match"
    "conn_tls_sni_verified (conn t slot)"
proof -
  let ?m = "egress_tls_client_hello_matches (Some (buffer_content (client_to_upstream (conn s slot)))) (Some (conn_host (conn s slot)))"
  have keep: "conn_state (conn y slot) = conn_state (conn x slot) \<and> conn_tls_sni_verified (conn y slot) = conn_tls_sni_verified (conn x slot)"
    if "egress_connection_update_watches K slot x = (ok, y)" for x y
    using quiet_facts(1)[OF quiet_update_watches[OF that quiet.refl]] by (simp add: same_core_def)
  have nonempty: "buf_length (client_to_upstream (conn s slot)) \<noteq> 0" using run st by (auto simp: egress_connection_enforce_tunnel_identity_def Let_def split: if_splits)
  show m: "?m = Hello_match"
  proof (cases ?m)
    case (Hello_rejected x)
    then show ?thesis using run st nonempty keep fail_state[OF slot, of K ERR_DENIED False] by (auto simp: egress_connection_enforce_tunnel_identity_def Let_def split: if_splits)
  qed (use run st nonempty in \<open>auto simp: egress_connection_enforce_tunnel_identity_def Let_def\<close>)
  define u where "u = on_conn slot (\<lambda>c. c\<lparr>conn_tls_sni_verified := True, conn_state := CONNECTION_RELAY\<rparr>) s"
  have "conn_tls_sni_verified (conn (touch K slot u) slot)"
    using slot by (simp add: touch_def monotonic_now_def u_def)
  then show "conn_tls_sni_verified (conn t slot)"
    using run st nonempty keep m by (simp add: egress_connection_enforce_tunnel_identity_def Let_def u_def[symmetric])
qed

end
