(* ===== verification/Egress_Example.thy ===== *)
theory Egress_Example
  imports Egress_System
begin

text \<open>
  An example run: a server with a native principal is created with a policy for one host, another
  thread asks for a stream, and the loop opens it. Every call of the environment succeeds.
\<close>

definition demo_kernel :: kernel where
  "demo_kernel = \<lparr>k_clock = (\<lambda>_. 0), k_result = (\<lambda>_. SYS_OK), k_alloc = (\<lambda>_ _. True),
     k_block = (\<lambda>tr. case tr of Call_malloc n # _ \<Rightarrow> Some (replicate n 0) | _ \<Rightarrow> None), k_socket = (\<lambda>_. (SYS_OK, 5)),
     k_fd = int, k_peer = (\<lambda>_. True), k_receive = (\<lambda>_. (SYS_OK, [])), k_send = (\<lambda>_. (SYS_OK, 0)),
     k_connect = (\<lambda>_. (SYS_OK, CONNECT_CONNECTED)), k_watch = (\<lambda>_. (SYS_OK, 1)), k_tls_create = (\<lambda>_. (EGRESS_OK, None)),
     k_tls_step = (\<lambda>_. TLS_COMPLETE), k_tls_read = (\<lambda>_. (TLS_COMPLETE, [])), k_tls_write = (\<lambda>_. (TLS_COMPLETE, 0)),
     k_attest = (\<lambda>_. (EGRESS_OK, [])), k_audit = (\<lambda>_. (False, [], False)), k_cancelled = (\<lambda>_. False), k_stopping = (\<lambda>_. False),
     k_step = (\<lambda>_. (SYS_OK, [], True)), k_command = (\<lambda>_. Some 0), k_infinite = 0, k_addresses = (\<lambda>_. None),
     k_sockname = (\<lambda>_. Some (Sockaddr_in 9 0x7f000001)), k_identity = (\<lambda>_. (SYS_ERR_NOT_FOUND, False))\<rparr>"

lemma demo_kernel_ok: "kernel_ok demo_kernel"
  unfolding kernel_ok_def
proof
  fix tr
  show "call_ok demo_kernel tr" by (cases "(demo_kernel, tr)" rule: call_ok.cases) (simp_all add: demo_kernel_def)
qed

definition demo_config_ops :: "nat config_op list" where
  "demo_config_ops = [Op_set_limits 1 65536 1000 1000, Op_set_native_only 1,
     Op_set_native_principal (Some (cstr ''agent'')) (Some (cstr ''run:1'')),
     Op_set_principal_quota (Some (cstr ''agent'')) 2 1000 5000]"

definition demo_native :: egress_config where
  "demo_native = world_config (config_run demo_config_ops (demo_world\<lparr>world_config := the (snd (maelys_egress_config_create True))\<rparr>))"



lemma demo_native_eq: "demo_native = \<lparr>native_only = True, listen_unix = False, listen_host = [], config_port = 0, unix_path = [],
    unix_peer_policy = UNIX_PEER_AUTHENTICATED,
    principals = [\<lparr>username = cstr ''agent'', secret = [], invocation_id = cstr ''run:1'', max_active_connections = 2,
      max_bytes_per_connection = 1000, max_bytes_total = 5000\<rparr>],
    authentication_set = False, unauthenticated_loopback = False, unix_principal_bound = False, native_principal_bound = True,
    unix_principal_index = 0, max_connections = 1, buffer_bytes = 65536, handshake_timeout_ms = 1000, idle_timeout_ms = 1000,
    receipt_sink = None, receipt_context = None, config_tls_provider = None, admin_enabled = False,
    admin_host = cstr ''127.0.0.1'', admin_port = 0, config_audit = None, config_attestor = None\<rparr>"
  by (simp add: demo_native_def demo_config_ops_def demo_world_def config_run_def maelys_egress_config_create_def
    maelys_egress_config_set_limits_def EGRESS_MIN_BUFFER_BYTES_def EGRESS_MAX_BUFFER_BYTES_def EGRESS_HANDSHAKE_MAX_def
    maelys_egress_config_set_native_principal_def maelys_egress_config_set_principal_quota_v2_def Let_def config_zero_def
      maelys_egress_config_set_native_only_def canonical_principal_identity_def
      EGRESS_MAX_USERNAME_def EGRESS_MAX_INVOCATION_ID_def invocation_bounded_def username_char_def
      invocation_char_def principal_bound_def new_principal_def byte_class)

definition demo_clone :: egress_policy where
  "demo_clone = demo_policy\<lparr>pol_capacity := 1\<rparr>"

definition demo_server :: egress_server where
  "demo_server = ask Call_loop_create (server_zero demo_clone demo_native [] None None)"

lemma demo_create:
  assumes "k_result K [Call_loop_create] = SYS_OK"
  shows "maelys_egress_server_create K demo_fs demo_fs True True (Some (foldl policy_exec empty_policy demo_ops)) (Some demo_native)
     [] None None = (EGRESS_OK, Some demo_server)"
  unfolding demo_history using assms
  by (simp add: maelys_egress_server_create_def clone_policy_def demo_policy_def create_allowed_def demo_native_eq demo_clone_def
     bind_listener_def bind_admin_def demo_server_def Let_def ask_def server_zero_def)


definition demo_command :: open_command where
  "demo_command = \<lparr>cmd_references = 2, cmd_server_socket = Some 5, cmd_client_fd = 5, cmd_completed = False, cmd_result = EGRESS_OK,
     cmd_principal_index = Some 0, cmd_principal = cstr ''agent'', cmd_invocation_id = cstr ''run:1'', cmd_host = cstr ''github.com'',
     cmd_port = 443\<rparr>"

definition demo_trace :: trace where
  "demo_trace = [Call_wake, Call_monotonic, Call_stopping, Call_release (Some 5), Call_set_blocking 5, Call_detach 5,
     Call_accept (Some 5), Call_fd_wait 5 {FLAG_READ} (add_saturating 0 5000), Call_monotonic,
     Call_connect_local 5 (Sockaddr_in 9 0x7f000001), Call_socket 2, Call_getsockname 5, Call_listen 5 1,
     Call_bind 5 (Sockaddr_in 0 0x7f000001), Call_socket 2, Call_new_command, Call_stopping, Call_loop_create]"

definition demo_queued :: egress_server where
  "demo_queued = demo_server\<lparr>open_commands := [0 \<mapsto> demo_command], command_queue := [0], srv_trace := demo_trace\<rparr>"

definition demo_open :: egress_server where
  "demo_open = egress_open_commands_process demo_kernel demo_queued"

lemma demo_fields:
  "k_clock demo_kernel tr = 0" "k_result demo_kernel tr = SYS_OK" "k_alloc demo_kernel tr n" "k_block demo_kernel (Call_malloc n # tr) = Some (replicate n 0)"
  "k_socket demo_kernel tr = (SYS_OK, 5)" "k_fd demo_kernel p = int p" "k_connect demo_kernel tr = (SYS_OK, CONNECT_CONNECTED)"
  "k_command demo_kernel tr = Some 0" "k_sockname demo_kernel tr = Some (Sockaddr_in 9 0x7f000001)" "k_watch demo_kernel tr = (SYS_OK, 1)" "\<not> k_cancelled demo_kernel tr" "\<not> k_stopping demo_kernel tr"
  by (simp_all add: demo_kernel_def)

lemma demo_names: "snprintf_s (Suc EGRESS_MAX_INVOCATION_ID) (cstr ''run:1'') = cstr ''run:1''"
    "snprintf_s (Suc EGRESS_MAX_USERNAME) (cstr ''agent'') = cstr ''agent''"
    "snprintf_s (Suc EGRESS_MAX_HOST) (cstr ''github.com'') = cstr ''github.com''"
    by code_simp+

lemma demo_find: "egress_policy_find demo_clone (Some (cstr ''github.com'')) 443 = Some demo_destination"
  by (simp add: egress_policy_find_def demo_clone_def demo_policy_def demo_destination_def)


lemma demo_submit:
  "open_stream_submit demo_kernel (Some 0) (Some (cstr ''agent'')) (Some (cstr ''run:1'')) (Some (cstr ''github.com'')) 443 1000 demo_server
   = Some (Inr (0, add_saturating 0 1000), demo_queued)"
proof -
  have accept: "pair_accept demo_kernel 5 d s = Some (Some 5, ask (Call_accept (Some 5)) (ask (Call_fd_wait 5 {FLAG_READ} d) s))" for d s
    by (subst pair_accept.simps) (simp add: demo_fields Let_def)
  show ?thesis
    by (simp del: cstr_simps add: open_stream_submit_def demo_facts(2) load_stopping_def Let_def demo_fields demo_server_def server_zero_def ask_def
       egress_listener_create_private_tcp_pair_def pair_connect_def pair_detach_def monotonic_now_def accept[unfolded ask_def]
       queue_command_def server_loop_wake_if_live_def demo_names demo_queued_def demo_trace_def demo_command_def)
qed

text \<open>The stream is open: one connection, in relay, to the pinned address of the policy.\<close>

definition demo_address_of :: egress_address where
  "demo_address_of = \<lparr>addr_storage = demo_address, addr_length = 16\<rparr>"

lemmas demo_state_simps = conn_def on_conn_def on_metrics_def ask_def demo_fields Let_def

lemma demo_open_state:
  "map conn_state (connections demo_open) = [CONNECTION_RELAY] \<and> map conn_principal_index (connections demo_open) = [Some 0] \<and>
   Call_connect 5 demo_address_of \<in> set (srv_trace demo_open) \<and> srv_config demo_open = demo_native \<and> srv_policy demo_open = demo_clone \<and>
   connection_count demo_open = 1 \<and> next_id demo_open = 1 \<and> \<not> srv_started demo_open \<and> \<not> srv_stopping demo_open \<and>
   command_queue demo_open = [] \<and> map open_command (connections demo_open) = [None] \<and>
   open_commands demo_open 0 = Some (demo_command\<lparr>cmd_references := 1, cmd_server_socket := None, cmd_completed := True\<rparr>)"
  apply (simp del: cstr_simps add: demo_open_def egress_open_commands_process_def demo_queued_def process_command_def Let_def
      load_stopping_def demo_server_def server_zero_def demo_native_eq free_slot_def demo_fields connection_zero_def)
  apply (simp del: cstr_simps add: open_native_def open_slot_def allocate_buffer_def demo_fields monotonic_now_def wall_now_def demo_command_def)
  apply (simp del: cstr_simps add: egress_connection_begin_request_def command_request_def request_zero_def request_identity_def
      demo_names known_principal_def connection_zero_def buffer_zero_def too_many_active_def EGRESS_MAX_PRINCIPALS_def demo_find demo_state_simps)
  apply (simp del: cstr_simps add: select_destination_def admit_request_def demo_destination_def known_principal_def forward_input_def demo_state_simps)
  apply (simp del: cstr_simps add: charge_request_def egress_quota_allowance_def egress_quota_charge_def known_principal_def
      quota_remaining_def add_saturating_def demo_state_simps)
  apply (simp del: cstr_simps add: egress_connection_connect_next_def demo_state_simps)
  apply (simp del: cstr_simps add: egress_connection_connected_def tunnel_def touch_def monotonic_now_def connected_response_def demo_state_simps)
  apply (simp del: cstr_simps add: connected_identity_def egress_connection_enforce_tunnel_identity_def
      egress_connection_update_watches_def demo_state_simps)
  apply (simp del: cstr_simps add: watch_client_def client_interests_def client_read_interest_def watch_or_modify_def buffer_available_def demo_state_simps)
  apply (simp del: cstr_simps add: watch_upstream_def upstream_interests_def watch_or_modify_def buffer_available_def demo_state_simps)
  apply (simp del: cstr_simps add: connected_command_def egress_open_command_complete_def open_command_release_def demo_address_of_def demo_state_simps)
  done

lemma demo_server_reach:
  assumes "k_result K [Call_loop_create] = SYS_OK"
  shows "reach K {demo_clone} demo_server"
proof -
  have "srv_policy demo_server = demo_clone" by (simp add: demo_server_def server_zero_def ask_def)
  then show ?thesis using reach.created[OF demo_create[OF assms, unfolded demo_native_def]] by simp
qed

lemma demo_open_reach: "reach demo_kernel {demo_clone} demo_open"
proof -
  have "reach demo_kernel {demo_clone} demo_server" by (rule demo_server_reach) (simp add: demo_fields)
  then have "reach demo_kernel {demo_clone} demo_queued" using demo_submit by (rule reach.submitted)
  then show ?thesis unfolding demo_open_def by (rule reach.processed)
qed

text \<open>The loop on this state: the reactor reports the stop in the first round, and the stream is closed.\<close>

lemma demo_run: "\<exists>t. maelys_egress_server_run demo_kernel demo_open = Some (EGRESS_OK, t)"
proof -
  obtain s where s: "load_stopping demo_kernel demo_open = (False, s)"
    "s = demo_open\<lparr>srv_stopping := False, srv_trace := Call_stopping # srv_trace demo_open\<rparr>"
    using demo_open_state by (simp add: load_stopping_def Let_def demo_fields ask_def)
  define u where "u = s\<lparr>srv_started := True, srv_running := True\<rparr>"
  obtain v where v: "load_stopping demo_kernel u = (False, v)"
    "v = u\<lparr>srv_stopping := False, srv_trace := Call_stopping # srv_trace u\<rparr>"
    using s(2) by (simp add: load_stopping_def Let_def demo_fields ask_def u_def)
  have slot: "connections v = connections demo_open" "srv_config v = demo_native" "command_queue v = []" "conn v 0 = conn demo_open 0"
    using demo_open_state by (simp_all add: v(2) u_def s(2) conn_def)
  have "open_command (conn demo_open 0) = None" using demo_open_state by (auto simp: conn_def)
  then have "cancel_slot demo_kernel 0 (v\<lparr>command_queue := []\<rparr>) = v\<lparr>command_queue := []\<rparr>"
    using slot(4) by (simp add: cancel_slot_def conn_def)
  then have "\<exists>w. run_round demo_kernel v = Some (Some EGRESS_OK, w)"
    using slot(2,3) by (simp add: run_round_def egress_open_commands_process_def egress_open_commands_cancel_def demo_native_eq Let_def)
      (simp add: demo_kernel_def)
  then have "\<exists>w. run_loop demo_kernel u = Some (EGRESS_OK, w)" by (subst run_loop.simps) (auto simp: v(1))
  moreover have "\<not> srv_started s" using demo_open_state by (simp add: s(2))
  ultimately show ?thesis by (auto simp: maelys_egress_server_run_def s(1) u_def)
qed

text \<open>An environment in which no client arrives and the stop is requested after a few calls.\<close>

definition demo_stopper :: kernel where
  "demo_stopper = demo_kernel\<lparr>k_socket := (\<lambda>_. (SYS_ERR_WOULD_BLOCK, 0)), k_stopping := (\<lambda>tr. 5 < length tr),
     k_step := (\<lambda>_. (SYS_OK, [(TOKEN_LISTENER, {FLAG_READ})], False))\<rparr>"

lemma demo_stopper_ok: "kernel_ok demo_stopper"
  unfolding kernel_ok_def
proof
  fix tr
  show "call_ok demo_stopper tr" by (cases "(demo_stopper, tr)" rule: call_ok.cases) (simp_all add: demo_stopper_def demo_kernel_def)
qed

end
