(* ===== verification/Egress_Progress.thy ===== *)
theory Egress_Progress
  imports Egress_System
begin

text \<open>
  The loop of the server returns. Every handler returns, and each loop around a call of the
  environment makes at least one call per round, so the trace grows; once clients stop arriving the
  loops that accept them end, and once the stop is requested the loop of the reactor ends.
\<close>

section \<open>The trace grows\<close>

text \<open>Calls are only added to the trace, and a command keeps its number.\<close>

definition grows :: "egress_server \<Rightarrow> egress_server \<Rightarrow> bool" where
  "grows s t \<longleftrightarrow> length (srv_trace s) \<le> length (srv_trace t) \<and> dom (open_commands s) \<subseteq> dom (open_commands t)"

lemma grows_length: "grows s t \<Longrightarrow> length (srv_trace s) \<le> length (srv_trace t)"
  by (simp add: grows_def)

lemma grows_refl [simp]: "grows s s"
  by (simp add: grows_def)

lemma grows_trans: "grows s t \<Longrightarrow> grows t u \<Longrightarrow> grows s u"
  by (auto simp: grows_def)

lemma grows_ask [simp]: "grows s t \<Longrightarrow> grows s (ask x t)"
  by (simp add: grows_def)

lemma grows_simps [simp]:
  "grows s (on_conn slot f t) = grows s t" "grows s (on_metrics g t) = grows s t" "grows s (on_admin slot h t) = grows s t"
  "grows s (t\<lparr>command_queue := q\<rparr>) = grows s t" "grows s (t\<lparr>srv_references := n'\<rparr>) = grows s t" "grows s (t\<lparr>srv_policy := policy\<rparr>) = grows s t"
  "grows s (t\<lparr>srv_stopping := b\<rparr>) = grows s t" "grows s (t\<lparr>next_id := i\<rparr>) = grows s t"
  "grows s (t\<lparr>connection_count := n\<rparr>) = grows s t" "grows s (t\<lparr>principal_active := as\<rparr>) = grows s t"
  "grows s (t\<lparr>principal_bytes_total := bs\<rparr>) = grows s t" "grows s (t\<lparr>next_admin_generation := g'\<rparr>) = grows s t"
  "grows s (t\<lparr>srv_started := b\<rparr>) = grows s t" "grows s (t\<lparr>srv_running := b\<rparr>) = grows s t"
  "grows s (t\<lparr>srv_journal := j, srv_audit := a\<rparr>) = grows s t"
  by (simp_all add: grows_def on_admin_def)

lemma grows_commands_kept [simp]:
  "dom (open_commands t) \<subseteq> dom m \<Longrightarrow> grows s t \<Longrightarrow> grows s (t\<lparr>open_commands := m\<rparr>)"
  "dom (open_commands t) \<subseteq> dom m \<Longrightarrow> grows s t \<Longrightarrow> grows s (t\<lparr>open_commands := m, command_queue := q\<rparr>)"
  by (simp_all add: grows_def subset_trans[of "dom (open_commands s)" "dom (open_commands t)"])

lemma dom_insert [simp]: "dom f \<subseteq> insert p (dom f)"
  by auto

lemma grows_load: "load_stopping K t = (b, u) \<Longrightarrow> grows s t \<Longrightarrow> grows s u"
  by (auto simp: load_stopping_def Let_def)

lemma grows_complete: "grows s t \<Longrightarrow> grows s (egress_open_command_complete K p r t)"
  by (auto simp: egress_open_command_complete_def open_command_release_def Let_def split: option.split)

lemma grows_attest: "attest_receipt K r t = (ok, r', u) \<Longrightarrow> grows s t \<Longrightarrow> grows s u"
  by (auto simp: attest_receipt_def audit_failure_def Let_def split: option.splits if_splits prod.splits)

lemma grows_emit: "grows s t \<Longrightarrow> grows s (egress_receipt_emit K c t)"
  by (auto simp: egress_receipt_emit_def monotonic_now_def audit_receipt_def audit_failure_def Let_def split: prod.split
      dest!: grows_attest[where s = s])

lemma grows_release:
  "grows s t \<Longrightarrow> grows s (close_command K slot t)" "grows s t \<Longrightarrow> grows s (unwatch_client slot t)"
  "grows s t \<Longrightarrow> grows s (unwatch_upstream slot t)" "grows s t \<Longrightarrow> grows s (release_tls slot t)"
  "grows s t \<Longrightarrow> grows s (release_client slot t)" "grows s t \<Longrightarrow> grows s (release_upstream slot t)"
  "grows s t \<Longrightarrow> grows s (close_accounts slot t)" "grows s t \<Longrightarrow> grows s (clear_slot slot t)"
  by (simp_all add: close_command_def unwatch_client_def unwatch_upstream_def release_tls_def release_client_def
      release_upstream_def close_accounts_def clear_slot_def Let_def grows_complete)

lemma grows_close: "grows s t \<Longrightarrow> grows s (egress_connection_close K slot t)"
  by (simp add: egress_connection_close_def Let_def grows_release grows_emit)

lemma grows_life: "life K slot s t \<Longrightarrow> grows s t"
  by (induction rule: life.induct)
    (auto simp: egress_quota_charge_def request_identity_def select_destination_def admit_request_def Let_def intro: grows_close)

lemma grows_lives: "lives K slot s t \<Longrightarrow> grows s t"
  by (induction rule: rtranclp_induct) (auto intro: grows_trans grows_life)

lemma grows_ends: "ends K slot s t \<Longrightarrow> grows s t"
  by (rule grows_lives[OF ends_lives])

lemma grows_fold: "(\<And>x t. grows s t \<Longrightarrow> grows s (f x t)) \<Longrightarrow> grows s t \<Longrightarrow> grows s (fold f xs t)"
  by (induction xs arbitrary: t) simp_all

section \<open>The handlers\<close>

lemma grows_open_slot: "open_slot K slot prep t = (ok, u) \<Longrightarrow> grows s t \<Longrightarrow> grows s u"
  by (auto simp: open_slot_def allocate_buffer_def monotonic_now_def wall_now_def Let_def)

lemma grows_start_tls: "grows s t \<Longrightarrow> grows s (start_tls K slot t)"
  by (auto simp: start_tls_def egress_relay_advance_tls_handshake_def Let_def split: prod.split)

lemma grows_watch: "watch_or_modify K fd i token w t = (ok, w', u) \<Longrightarrow> grows s t \<Longrightarrow> grows s u"
  by (auto simp: watch_or_modify_def Let_def split: prod.splits if_splits)

lemma grows_watch_client:
  assumes "watch_client K slot t = (ok, u)" "grows s t"
  shows "grows s u"
proof -
  obtain i c where c: "client_interests (conn t slot) = (i, c)" by fastforce
  show ?thesis
    using assms unfolding watch_client_def c by (auto simp: Let_def grows_release split: prod.splits if_splits dest!: grows_watch[where s = s])
qed

lemma grows_watch_upstream:
  assumes "watch_upstream K slot t = (ok, u)" "grows s t"
  shows "grows s u"
proof -
  obtain i c where c: "upstream_interests (conn t slot) = (i, c)" by fastforce
  show ?thesis
    using assms unfolding watch_upstream_def c by (auto simp: Let_def grows_release split: prod.splits if_splits dest!: grows_watch[where s = s])
qed

lemma grows_watches: "egress_connection_update_watches K slot t = (ok, u) \<Longrightarrow> grows s t \<Longrightarrow> grows s u"
  by (auto simp: egress_connection_update_watches_def split: prod.splits if_splits dest!: grows_watch_client[where s = s] grows_watch_upstream[where s = s])

lemma grows_accept_client:
  assumes "grows s t"
  shows "grows s (accept_client K client slot t)"
proof -
  obtain allocated u where u: "open_slot K slot (\<lambda>c. c\<lparr>
      conn_state := (if config_tls_provider (srv_config t) \<noteq> None then CONNECTION_TLS_HANDSHAKE else CONNECTION_HANDSHAKE),
      client_socket := Some client, client_fd := k_fd K client, conn_principal_index := None\<rparr>) t = (allocated, u)" by fastforce
  define v where "v = on_conn slot (\<lambda>c. c\<lparr>conn_policy_digest := snprintf_s 65 (digest_hex (srv_policy u)),
      conn_policy_generation := metric_policy_generation (srv_metrics u)\<rparr>) u"
  define w where "w = start_tls K slot (on_metrics (\<lambda>m. m\<lparr>metric_active := metric_active m + 1\<rparr>) (v\<lparr>connection_count := connection_count v + 1\<rparr>))"
  have gw: "grows s w" unfolding w_def v_def by (rule grows_start_tls) (simp add: grows_open_slot[OF u assms])
  obtain ok x where x: "(if \<not> allocated \<or> config_tls_provider (srv_config w) \<noteq> None \<and> tls_session (conn w slot) = None \<or>
      conn_result (conn w slot) \<noteq> EGRESS_OK then (False, w) else egress_connection_update_watches K slot w) = (ok, x)" by fastforce
  have gx: "grows s x" using x gw grows_watches[OF _ gw] by (auto split: if_splits)
  show ?thesis
    using gx unfolding accept_client_def Let_def u prod.case v_def[symmetric] w_def[symmetric] x by (simp add: grows_close)
qed

lemma grows_accept_round:
  assumes "grows s t"
  shows "grows s (accept_round K client t)"
proof -
  obtain allowed u where u: "egress_listener_unix_peer_allowed K (k_fd K client) t = (allowed, u)" by fastforce
  have gu: "grows s u" using u assms by (auto simp: egress_listener_unix_peer_allowed_def Let_def split: if_splits)
  then show ?thesis unfolding accept_round_def u prod.case Let_def by (simp add: grows_accept_client)
qed

lemma grows_admin_close: "grows s t \<Longrightarrow> grows s (egress_admin_close slot t)"
  by (simp add: egress_admin_close_def Let_def)

lemma grows_admin_watch: "admin_watch K slot i t = (ok, u) \<Longrightarrow> grows s t \<Longrightarrow> grows s u"
  by (auto simp: admin_watch_def Let_def split: prod.splits dest!: grows_watch[where s = s])

lemma grows_admin_accept: "grows s t \<Longrightarrow> grows s (admin_accept K client t)"
  by (auto simp: admin_accept_def monotonic_now_def Let_def split: prod.split intro!: grows_admin_close
      dest!: grows_admin_watch[where s = s])

lemma grows_admin_response: "grows s t \<Longrightarrow> grows s (prepare_admin_response slot t)"
  by (auto simp: prepare_admin_response_def Let_def grows_admin_close split: prod.split)

lemma grows_admin_read: "admin_read K slot t = (over, u) \<Longrightarrow> grows s t \<Longrightarrow> grows s u"
  by (auto simp: admin_read_def Let_def grows_admin_close grows_admin_response split: prod.splits if_splits)

lemma grows_admin_write: "admin_write K slot t = (over, u) \<Longrightarrow> grows s t \<Longrightarrow> grows s u"
  by (auto simp: admin_write_def Let_def grows_admin_close split: prod.splits if_splits)

lemma grows_admin_dispatch:
  assumes "grows s t"
  shows "grows s (egress_admin_dispatch K slot flags t)"
proof -
  obtain over u where u: "(if admin_response (admin_conn t slot) = [] \<and> FLAG_READ \<in> flags then admin_read K slot t else (False, t)) = (over, u)"
    by fastforce
  obtain over' v where v: "(if admin_response (admin_conn u slot) \<noteq> [] \<and> FLAG_WRITE \<in> flags then admin_write K slot u else (False, u)) = (over', v)"
    by fastforce
  have gu: "grows s u" using u assms grows_admin_read[OF _ assms] by (auto split: if_splits)
  have gv: "grows s v" using v gu grows_admin_write[OF _ gu] by (auto split: if_splits)
  have "grows s (snd (admin_watch K slot i v))" for i using grows_admin_watch[OF _ gv] by (metis prod.collapse)
  then show ?thesis using gu gv unfolding egress_admin_dispatch_def Let_def u prod.case v by (simp add: grows_admin_close)
qed

lemma grows_open_native:
  assumes good: "good Ps t" and slot: "slot < length (connections t)" "conn_state (conn t slot) = CONNECTION_UNUSED" and "grows s t"
  shows "grows s (open_native K command c slot t)"
proof -
  define t0 where "t0 = t\<lparr>open_commands := (open_commands t)(command \<mapsto> c\<lparr>cmd_server_socket := None\<rparr>)\<rparr>"
  define prep :: "egress_connection \<Rightarrow> egress_connection" where "prep = (\<lambda>n. n\<lparr>conn_state := CONNECTION_HANDSHAKE,
      client_socket := cmd_server_socket c, client_fd := (case cmd_server_socket c of None \<Rightarrow> - 1 | Some h \<Rightarrow> k_fd K h),
      conn_principal_index := cmd_principal_index c, conn_protocol := PROTOCOL_CONNECTOR, open_command := Some command\<rparr>)"
  obtain allocated u where u: "open_slot K slot prep t0 = (allocated, u)" by fastforce
  define v where "v = on_metrics (\<lambda>m. m\<lparr>metric_accepted := metric_accepted m + 1, metric_active := metric_active m + 1\<rparr>)
    (u\<lparr>connection_count := connection_count u + 1\<rparr>)"
  obtain ok w where w: "egress_connection_begin_request K slot (command_request c) v = (ok, w)" by fastforce
  have gv: "grows s v" using grows_open_slot[OF u, of s] assms(4) by (simp add: v_def t0_def)
  have good0: "good Ps t0" by (rule good_inert[OF good]) (simp_all add: t0_def)
  have slot0: "slot < length (connections t0)" "conn_state (conn t0 slot) = CONNECTION_UNUSED" using slot by (simp_all add: t0_def)
  have st: "conn_state (prep (opened t0)) \<in> {CONNECTION_HANDSHAKE, CONNECTION_TLS_HANDSHAKE}" "pristine (prep (opened t0))"
    by (auto simp: prep_def opened_def connection_zero_def pristine_def)
  note new = open_almost[OF good0 slot0 u st, of "\<lambda>m. m\<lparr>metric_accepted := metric_accepted m + 1, metric_active := metric_active m + 1\<rparr>",
      folded v_def, simplified]
  have "request_protocol (command_request c) \<noteq> PROTOCOL_NONE" by (simp add: command_request_def)
  then have "lives K slot v w"
    using ends_begin_request(1)[OF rtranclp.rtrancl_refl _ _ new(4) _ w] new(2,3) slot0(1) by (simp add: prep_def)
  then have gw: "grows s w" using gv grows_lives grows_trans by blast
  show ?thesis
    using gv gw unfolding open_native_def Let_def t0_def[symmetric] prep_def[symmetric] u prod.case v_def[symmetric] w by (simp add: grows_close)
qed

lemma grows_process_command:
  assumes "kernel_ok K" "good Ps t" "grows s t"
  shows "grows s (process_command K command t)"
proof -
  define u where "u = ask (Call_cancelled command) t"
  obtain b v where v: "(if k_cancelled K (srv_trace u) then (True, u) else load_stopping K u) = (b, v)" by fastforce
  have gu: "good Ps u" "grows s u" unfolding u_def using assms(2,3) by (simp_all add: good_ask)
  then have gv: "good Ps v" "grows s v" using v good_load grows_load by (auto split: if_splits)
  have native: "grows s (open_native K command c (free_slot v) v)" if "free_slot v \<noteq> max_connections (srv_config v)" for c
  proof -
    have slot: "free_slot v < length (connections v)" using free_slot_le[of v] that good_length[OF gv(1)] by simp
    show ?thesis by (rule grows_open_native[OF gv(1) slot free_slot_unused[OF slot] gv(2)])
  qed
  show ?thesis
    using gv(2) native grows_complete[OF gv(2)] unfolding process_command_def Let_def u_def[symmetric] v prod.case by (auto split: option.split)
qed

lemma grows_commands:
  assumes "kernel_ok K" "good Ps s"
  shows "grows s (egress_open_commands_process K s)"
proof -
  have "good Ps t \<Longrightarrow> grows s t \<Longrightarrow> grows s (fold (process_command K) q t)" for q t
    by (induction q arbitrary: t) (simp_all add: grows_process_command[OF assms(1)] good_process_command[OF assms(1)])
  moreover have "good Ps (s\<lparr>command_queue := []\<rparr>)" by (rule good_inert[OF assms(2)]) simp_all
  ultimately show ?thesis by (simp add: egress_open_commands_process_def)
qed

lemma grows_cancel: "grows s t \<Longrightarrow> grows s (egress_open_commands_cancel K t)"
  unfolding egress_open_commands_cancel_def
  by (rule grows_fold) (auto simp: cancel_slot_def Let_def grows_close split: option.split)

lemma grows_expire: "grows s t \<Longrightarrow> grows s (expire_connections K t)"
  unfolding expire_connections_def monotonic_now_def Let_def prod.case
  by (intro grows_fold) (auto simp: expire_admin_def expire_slot_def Let_def grows_close grows_admin_close)

section \<open>The loops end\<close>

text \<open>Once so many calls were made, no client arrives any more; once so many calls were made, the stop is requested.\<close>

definition clients_end :: "kernel \<Rightarrow> nat \<Rightarrow> bool" where
  "clients_end K n \<longleftrightarrow> (\<forall>p tr. n \<le> length tr \<longrightarrow> fst (k_socket K (Call_accept p # tr)) \<noteq> SYS_OK)"

definition stop_comes :: "kernel \<Rightarrow> nat \<Rightarrow> bool" where
  "stop_comes K n \<longleftrightarrow> (\<forall>tr. n \<le> length tr \<longrightarrow> k_stopping K (Call_stopping # tr))"

text \<open>A loop that accepts clients of a listener and handles each of them before the next.\<close>

locale accept_loop =
  fixes accept_all :: "kernel \<Rightarrow> egress_server \<Rightarrow> egress_server option"
    and listener :: "egress_server \<Rightarrow> pointer"
    and handle :: "kernel \<Rightarrow> nat \<Rightarrow> egress_server \<Rightarrow> egress_server"
  assumes unfold: "accept_all K s =
      (let s = ask (Call_accept (listener s)) s; (result, client) = k_socket K (srv_trace s) in
       if result \<noteq> SYS_OK then Some s else accept_all K (handle K client s))"
    and handled: "grows s (handle K client s)"
    and induct: "(\<And>f K s t. (\<And>K s t. f K s = Some t \<Longrightarrow> P K s t) \<Longrightarrow>
      (let s = ask (Call_accept (listener s)) s; (result, client) = k_socket K (srv_trace s) in
       if result \<noteq> SYS_OK then Some s else f K (handle K client s)) = Some t \<Longrightarrow> P K s t) \<Longrightarrow>
      accept_all K s = Some t \<Longrightarrow> P K s t"
begin

lemma result_grows:
  assumes "accept_all K s = Some t"
  shows "grows s t"
proof (rule induct[OF _ assms])
  fix f K s t
  assume IH: "\<And>K s t. f K s = Some t \<Longrightarrow> grows s t"
    and run: "(let s = ask (Call_accept (listener s)) s; (result, client) = k_socket K (srv_trace s) in
       if result \<noteq> SYS_OK then Some s else f K (handle K client s)) = Some t"
  have "grows s (handle K client (ask (Call_accept (listener s)) s))" for client
    by (rule grows_trans[OF grows_ask[OF grows_refl] handled])
  then show "grows s t"
    using run by (auto simp: Let_def split: prod.splits if_splits intro: grows_trans dest!: IH)
qed

lemma returns:
  assumes "clients_end K n"
  shows "\<exists>t. accept_all K s = Some t \<and> grows s t"
proof (induction "n - length (srv_trace s)" arbitrary: s rule: less_induct)
  case less
  define u where "u = ask (Call_accept (listener s)) s"
  obtain r client where ans: "k_socket K (srv_trace u) = (r, client)" by fastforce
  have run: "accept_all K s = (if r \<noteq> SYS_OK then Some u else accept_all K (handle K client u))"
    using ans by (subst unfold) (simp add: u_def Let_def)
  have su: "length (srv_trace u) = Suc (length (srv_trace s))" by (simp add: u_def)
  show ?case
  proof (cases "r = SYS_OK")
    case True
    then have "length (srv_trace s) < n"
      using assms[unfolded clients_end_def, rule_format, of "srv_trace s" "listener s"] ans by (auto simp: u_def not_le[symmetric])
    then have "n - length (srv_trace (handle K client u)) < n - length (srv_trace s)"
      using grows_length[OF handled[of u K client]] su by simp
    then obtain t where "accept_all K (handle K client u) = Some t" "grows (handle K client u) t" using less by blast
    moreover have "grows s (handle K client u)" unfolding u_def by (rule grows_trans[OF grows_ask[OF grows_refl] handled])
    ultimately show ?thesis using True run grows_trans by auto
  qed (use run in \<open>simp add: u_def\<close>)
qed

end

interpretation clients: accept_loop egress_connection_accept_all listener_socket accept_round
  by unfold_locales (rule egress_connection_accept_all.simps, simp add: grows_accept_round, erule (1) egress_connection_accept_all.raw_induct)

interpretation admin_clients: accept_loop egress_admin_accept_all admin_listener_socket admin_accept
  by unfold_locales (rule egress_admin_accept_all.simps, simp add: grows_admin_accept, erule (1) egress_admin_accept_all.raw_induct)

lemma connection_event_returns:
  assumes "kernel_ok K" "good Ps s"
  shows "\<exists>t. connection_event K token flags s = Some t \<and> grows s t"
proof -
  obtain slot generation side where token: "decode_token token = (slot, generation, side)" by (metis prod_cases3)
  have "\<exists>t. egress_relay_dispatch K slot side flags s = Some t \<and> grows s t" if "slot < max_connections (srv_config s)"
    using dispatch_ends[OF assms(1), of slot s side flags] good_slot[OF assms(2), of slot] good_length[OF assms(2)] that grows_ends by metis
  then show ?thesis by (simp add: connection_event_def token not_le[symmetric])
qed

lemma event_grows:
  assumes "kernel_ok K" "good Ps s" "run_event K e s = Some t"
  shows "grows s t"
proof -
  have "connection_event K token flags s = Some t \<Longrightarrow> grows s t" for token flags
    using connection_event_returns[OF assms(1,2), of token flags] by auto
  then show ?thesis
    using assms(3) clients.result_grows admin_clients.result_grows
    by (cases e) (auto simp: run_event_def admin_event_def grows_admin_dispatch split: prod.splits if_splits)
qed

lemma event_returns:
  assumes "kernel_ok K" "clients_end K n" "good Ps s"
  shows "\<exists>t. run_event K e s = Some t \<and> grows s t"
  using clients.returns[OF assms(2), of s] admin_clients.returns[OF assms(2), of s] connection_event_returns[OF assms(1,3)]
  by (cases e) (auto simp: run_event_def admin_event_def grows_admin_dispatch split: prod.split)

lemma events_return:
  assumes "kernel_ok K" "clients_end K n"
  shows "good Ps s \<Longrightarrow> \<exists>t. run_events K es s = Some t \<and> grows s t"
proof (induction es arbitrary: s)
  case (Cons e es)
  obtain t where t: "run_event K e s = Some t" "grows s t" using event_returns[OF assms Cons.prems] by blast
  then show ?case using Cons.IH[OF good_event[OF assms(1) Cons.prems t(1)]] grows_trans by auto
qed simp

lemma round_returns:
  assumes "kernel_ok K" "clients_end K n" "good Ps s"
  shows "\<exists>r t. run_round K s = Some (r, t) \<and> grows s t"
proof -
  have handled: "good Ps (egress_open_commands_cancel K (egress_open_commands_process K x))"
    "grows x (egress_open_commands_cancel K (egress_open_commands_process K x))" if "good Ps x" for x
    using that by (auto intro!: good_cancel good_commands(1) assms(1) grows_cancel grows_commands)
  define u where "u = egress_open_commands_cancel K (egress_open_commands_process K s)"
  define v where "v = ask (Call_loop_step (next_deadline K u)) u"
  obtain result events stopped where ans: "k_step K (srv_trace v) = (result, events, stopped)" by (metis prod_cases3)
  have v: "good Ps v" "grows s v" unfolding v_def u_def using handled[OF assms(3)] by (simp_all add: good_ask)
  obtain w where w: "run_events K (take 128 events) v = Some w" "grows v w" using events_return[OF assms(1,2) v(1)] by blast
  have gw: "good Ps w" by (rule good_events[OF assms(1) v(1) w(1)])
  have "grows s (expire_connections K (egress_open_commands_cancel K (egress_open_commands_process K w)))"
    using grows_trans[OF v(2) w(2)] grows_trans[OF _ handled(2)[OF gw]] by (intro grows_expire) blast
  then show ?thesis
    using v(2) w(1) unfolding run_round_def Let_def u_def[symmetric] v_def[symmetric] ans prod.case by simp
qed

lemma run_loop_returns:
  assumes "kernel_ok K" "clients_end K n" "stop_comes K m" "good Ps s"
  shows "\<exists>r t. run_loop K s = Some (r, t)"
  using assms(4)
proof (induction "m - length (srv_trace s)" arbitrary: s rule: less_induct)
  case less
  obtain stopping t where t: "load_stopping K s = (stopping, t)" by fastforce
  have gt: "good Ps t" by (rule good_load[OF t less.prems])
  have len: "length (srv_trace t) = Suc (length (srv_trace s))" using t by (auto simp: load_stopping_def Let_def)
  obtain r u where u: "run_round K t = Some (r, u)" "grows t u" using round_returns[OF assms(1,2) gt] by blast
  show ?case
  proof (cases stopping)
    case False
    then have "length (srv_trace s) < m" using t assms(3) by (auto simp: load_stopping_def Let_def stop_comes_def not_le[symmetric])
    then have "\<exists>r' t'. run_loop K u = Some (r', t')" using less(1)[OF _ good_round[OF assms(1) gt u(1)]] len grows_length[OF u(2)] by simp
    then show ?thesis using False u(1) by (subst run_loop.simps) (auto simp: t split: option.split)
  qed (subst run_loop.simps, simp add: t)
qed

end
