(* ===== verification/Egress_Channel.thy ===== *)
theory Egress_Channel
  imports Egress_Prelude
begin

text \<open>
  The codecs of the mediated-connection channel: requests and responses of
  \<^verbatim>\<open>src/src/core/channel.c\<close>, and the bootstrap exchange and path check of
  \<^verbatim>\<open>src/src/core/bootstrap_codec.c\<close>. A message that a codec writes is the list of its bytes, empty when
  nothing is written; a decoder returns what it leaves in its output structure next to its result. An
  output buffer is its capacity, \<open>None\<close> for the null pointer.
\<close>

section \<open>Integers\<close>

definition channel_write_u16 :: "u16 \<Rightarrow> bytes" where
  "channel_write_u16 v = [ucast (drop_bit 8 v), ucast v]"

definition channel_write_u32 :: "u32 \<Rightarrow> bytes" where
  "channel_write_u32 v = [ucast (drop_bit 24 v), ucast (drop_bit 16 v), ucast (drop_bit 8 v), ucast v]"

definition channel_read_u16 :: "bytes \<Rightarrow> u16" where
  "channel_read_u16 bs = push_bit 8 (ucast (bs ! 0)) OR ucast (bs ! 1)"

definition channel_read_u32 :: "bytes \<Rightarrow> u32" where
  "channel_read_u32 bs =
     push_bit 24 (ucast (bs ! 0)) OR push_bit 16 (ucast (bs ! 1)) OR push_bit 8 (ucast (bs ! 2)) OR ucast (bs ! 3)"

section \<open>Requests and responses\<close>

definition MAELYS_EGRESS_CHANNEL_PROTOCOL_VERSION :: byte where "MAELYS_EGRESS_CHANNEL_PROTOCOL_VERSION = 1"
definition MAELYS_EGRESS_CHANNEL_REQUEST_MAGIC :: u32 where "MAELYS_EGRESS_CHANNEL_REQUEST_MAGIC = 0x4d454351"
definition MAELYS_EGRESS_CHANNEL_RESPONSE_MAGIC :: u32 where "MAELYS_EGRESS_CHANNEL_RESPONSE_MAGIC = 0x4d454350"
definition MAELYS_EGRESS_CHANNEL_PROTOCOL_TCP :: byte where "MAELYS_EGRESS_CHANNEL_PROTOCOL_TCP = 1"
definition MAELYS_EGRESS_CHANNEL_MAX_HOST :: nat where "MAELYS_EGRESS_CHANNEL_MAX_HOST = 253"
definition MAELYS_EGRESS_CHANNEL_REQUEST_HEADER_SIZE :: nat where "MAELYS_EGRESS_CHANNEL_REQUEST_HEADER_SIZE = 10"
definition MAELYS_EGRESS_CHANNEL_RESPONSE_SIZE :: nat where "MAELYS_EGRESS_CHANNEL_RESPONSE_SIZE = 8"

lemmas channel_constants =
  MAELYS_EGRESS_CHANNEL_PROTOCOL_VERSION_def MAELYS_EGRESS_CHANNEL_REQUEST_MAGIC_def MAELYS_EGRESS_CHANNEL_RESPONSE_MAGIC_def
  MAELYS_EGRESS_CHANNEL_PROTOCOL_TCP_def MAELYS_EGRESS_CHANNEL_MAX_HOST_def MAELYS_EGRESS_CHANNEL_REQUEST_HEADER_SIZE_def
  MAELYS_EGRESS_CHANNEL_RESPONSE_SIZE_def

datatype channel_status =
    CHANNEL_OK | CHANNEL_DENIED | CHANNEL_TIMEOUT | CHANNEL_CANCELLED | CHANNEL_MALFORMED | CHANNEL_UNSUPPORTED | CHANNEL_RESOURCE
  | CHANNEL_INTERNAL

fun channel_status_code :: "channel_status \<Rightarrow> u32" where
  "channel_status_code CHANNEL_OK = 0"
| "channel_status_code CHANNEL_DENIED = 1"
| "channel_status_code CHANNEL_TIMEOUT = 2"
| "channel_status_code CHANNEL_CANCELLED = 3"
| "channel_status_code CHANNEL_MALFORMED = 4"
| "channel_status_code CHANNEL_UNSUPPORTED = 5"
| "channel_status_code CHANNEL_RESOURCE = 6"
| "channel_status_code CHANNEL_INTERNAL = 7"

record channel_request =
  chreq_version :: byte
  chreq_protocol :: byte
  chreq_port :: u16
  chreq_host_length :: u16
  chreq_host :: bytes

record channel_response =
  chres_version :: byte
  chres_status :: byte
  chres_reserved :: u16

definition channel_request_zero :: channel_request where
  "channel_request_zero = \<lparr>chreq_version = 0, chreq_protocol = 0, chreq_port = 0, chreq_host_length = 0, chreq_host = []\<rparr>"

definition host_bytes_valid :: "bytes \<Rightarrow> bool" where
  "host_bytes_valid host \<longleftrightarrow> list_all (\<lambda>b. \<not> (b < 0x21 \<or> 0x7e < b)) host"

definition request_message :: "bytes \<Rightarrow> u16 \<Rightarrow> bytes" where
  "request_message host port =
     channel_write_u32 MAELYS_EGRESS_CHANNEL_REQUEST_MAGIC @
     [MAELYS_EGRESS_CHANNEL_PROTOCOL_VERSION, MAELYS_EGRESS_CHANNEL_PROTOCOL_TCP] @
     channel_write_u16 port @ channel_write_u16 (of_nat (length host)) @ host"

definition maelys_egress_channel_encode_request :: "bytes option \<Rightarrow> u16 \<Rightarrow> nat option \<Rightarrow> bytes" where
  "maelys_egress_channel_encode_request host port out =
     (case (host, out) of
        (Some h, Some capacity) \<Rightarrow>
          if port = 0 then []
          else if length h = 0 \<or> MAELYS_EGRESS_CHANNEL_MAX_HOST < length h \<or> \<not> host_bytes_valid h then []
          else if capacity < MAELYS_EGRESS_CHANNEL_REQUEST_HEADER_SIZE + length h then []
          else request_message h port
      | _ \<Rightarrow> [])"

text \<open>The checks of the fields after the header: status, output structure and reason.\<close>

definition request_fields :: "bytes \<Rightarrow> channel_request \<Rightarrow> channel_status \<times> channel_request \<times> string option" where
  "request_fields bs r =
     (let r = r\<lparr>chreq_port := channel_read_u16 (drop 6 bs), chreq_host_length := channel_read_u16 (drop 8 bs)\<rparr>;
          n = unat (chreq_host_length r); host = drop MAELYS_EGRESS_CHANNEL_REQUEST_HEADER_SIZE bs
      in if chreq_port r = 0 then (CHANNEL_MALFORMED, r, Some ''port is zero'')
         else if n = 0 then (CHANNEL_MALFORMED, r, Some ''host is empty'')
         else if MAELYS_EGRESS_CHANNEL_MAX_HOST < n then (CHANNEL_MALFORMED, r, Some ''host exceeds 253 bytes'')
         else if length bs \<noteq> MAELYS_EGRESS_CHANNEL_REQUEST_HEADER_SIZE + n then
           (CHANNEL_MALFORMED, r, Some ''datagram length is not 10 + host_length'')
         else if \<not> host_bytes_valid host then (CHANNEL_MALFORMED, r, Some ''host byte outside printable ASCII'')
         else (CHANNEL_OK, r\<lparr>chreq_host := host\<rparr>, None))"

text \<open>Status, output structure (when there is one) and reason.\<close>

definition maelys_egress_channel_decode_request ::
  "bytes option \<Rightarrow> bool \<Rightarrow> channel_status \<times> channel_request option \<times> string option" where
  "maelys_egress_channel_decode_request bytes out =
     (case bytes of
        None \<Rightarrow> (CHANNEL_MALFORMED, None, Some ''request decoder needs bytes and an output'')
      | Some bs \<Rightarrow>
          if \<not> out then (CHANNEL_MALFORMED, None, Some ''request decoder needs bytes and an output'')
          else
            let r = channel_request_zero in
            if length bs < MAELYS_EGRESS_CHANNEL_REQUEST_HEADER_SIZE then
              (CHANNEL_MALFORMED, Some r, Some ''datagram shorter than the request header'')
            else if channel_read_u32 bs \<noteq> MAELYS_EGRESS_CHANNEL_REQUEST_MAGIC then
              (CHANNEL_MALFORMED, Some r, Some ''request magic is not MECQ'')
            else
              let r = r\<lparr>chreq_version := bs ! 4, chreq_protocol := bs ! 5\<rparr> in
              if chreq_version r \<noteq> MAELYS_EGRESS_CHANNEL_PROTOCOL_VERSION then
                (CHANNEL_UNSUPPORTED, Some r, Some ''request version is not 1'')
              else if chreq_protocol r \<noteq> MAELYS_EGRESS_CHANNEL_PROTOCOL_TCP then
                (CHANNEL_UNSUPPORTED, Some r, Some ''request protocol is not TCP'')
              else let (status, r, reason) = request_fields bs r in (status, Some r, reason))"

text \<open>The status is an enumeration, which C lets hold any unsigned integer.\<close>

definition maelys_egress_channel_encode_response :: "u32 \<Rightarrow> nat option \<Rightarrow> bytes" where
  "maelys_egress_channel_encode_response status out =
     (case out of
        None \<Rightarrow> []
      | Some capacity \<Rightarrow>
          if capacity < MAELYS_EGRESS_CHANNEL_RESPONSE_SIZE \<or> 0xff < status then []
          else channel_write_u32 MAELYS_EGRESS_CHANNEL_RESPONSE_MAGIC @
            [MAELYS_EGRESS_CHANNEL_PROTOCOL_VERSION, ucast status, 0, 0])"

definition maelys_egress_channel_decode_response :: "bytes option \<Rightarrow> bool \<Rightarrow> (string + unit) \<times> channel_response option" where
  "maelys_egress_channel_decode_response bytes out =
     (case bytes of
        None \<Rightarrow> (Inl ''response decoder needs bytes and an output'', None)
      | Some bs \<Rightarrow>
          if \<not> out then (Inl ''response decoder needs bytes and an output'', None)
          else
            let r = \<lparr>chres_version = 0, chres_status = 0, chres_reserved = 0\<rparr> in
            if length bs \<noteq> MAELYS_EGRESS_CHANNEL_RESPONSE_SIZE then (Inl ''response is not 8 bytes'', Some r)
            else if channel_read_u32 bs \<noteq> MAELYS_EGRESS_CHANNEL_RESPONSE_MAGIC then
              (Inl ''response magic is not MECP'', Some r)
            else (Inr (), Some \<lparr>chres_version = bs ! 4, chres_status = bs ! 5, chres_reserved = channel_read_u16 (drop 6 bs)\<rparr>))"

fun maelys_egress_channel_status_string :: "channel_status \<Rightarrow> string" where
  "maelys_egress_channel_status_string CHANNEL_OK = ''ok''"
| "maelys_egress_channel_status_string CHANNEL_DENIED = ''denied''"
| "maelys_egress_channel_status_string CHANNEL_TIMEOUT = ''timeout''"
| "maelys_egress_channel_status_string CHANNEL_CANCELLED = ''cancelled''"
| "maelys_egress_channel_status_string CHANNEL_MALFORMED = ''malformed''"
| "maelys_egress_channel_status_string CHANNEL_UNSUPPORTED = ''unsupported''"
| "maelys_egress_channel_status_string CHANNEL_RESOURCE = ''resource''"
| "maelys_egress_channel_status_string CHANNEL_INTERNAL = ''internal''"

section \<open>The bootstrap exchange\<close>

definition EGRESS_BOOTSTRAP_OK :: u32 where "EGRESS_BOOTSTRAP_OK = 0"
definition EGRESS_BOOTSTRAP_MALFORMED :: u32 where "EGRESS_BOOTSTRAP_MALFORMED = 4"
definition EGRESS_BOOTSTRAP_UNSUPPORTED :: u32 where "EGRESS_BOOTSTRAP_UNSUPPORTED = 5"
definition EGRESS_BOOTSTRAP_INTERNAL :: u32 where "EGRESS_BOOTSTRAP_INTERNAL = 7"
definition EGRESS_BOOTSTRAP_REQUEST_SIZE :: nat where "EGRESS_BOOTSTRAP_REQUEST_SIZE = 8"
definition EGRESS_BOOTSTRAP_RESPONSE_SIZE :: nat where "EGRESS_BOOTSTRAP_RESPONSE_SIZE = 16"

lemmas bootstrap_constants =
  EGRESS_BOOTSTRAP_OK_def EGRESS_BOOTSTRAP_MALFORMED_def EGRESS_BOOTSTRAP_UNSUPPORTED_def EGRESS_BOOTSTRAP_INTERNAL_def
  EGRESS_BOOTSTRAP_REQUEST_SIZE_def EGRESS_BOOTSTRAP_RESPONSE_SIZE_def

definition egress_bootstrap_request :: bytes where
  "egress_bootstrap_request = cstr ''MEBQ'' @ [1, 1, 0, 0]"

definition egress_bootstrap_decode_request :: "bytes option \<Rightarrow> u32" where
  "egress_bootstrap_decode_request bytes =
     (case bytes of
        None \<Rightarrow> EGRESS_BOOTSTRAP_MALFORMED
      | Some bs \<Rightarrow>
          if length bs \<noteq> EGRESS_BOOTSTRAP_REQUEST_SIZE \<or> take 4 bs \<noteq> cstr ''MEBQ'' \<or> bs ! 6 \<noteq> 0 \<or> bs ! 7 \<noteq> 0
          then EGRESS_BOOTSTRAP_MALFORMED
          else if bs ! 4 = 1 \<and> bs ! 5 = 1 then EGRESS_BOOTSTRAP_OK else EGRESS_BOOTSTRAP_UNSUPPORTED)"

definition timeout_bytes :: "u64 \<Rightarrow> bytes" where
  "timeout_bytes timeout = map (\<lambda>i. ucast (drop_bit (56 - 8 * i) timeout)) [0..<8]"

definition egress_bootstrap_response :: "u32 \<Rightarrow> u64 \<Rightarrow> bytes" where
  "egress_bootstrap_response status timeout =
     cstr ''MEBP'' @ [1, ucast status, 1, 0] @ timeout_bytes (if status \<noteq> EGRESS_BOOTSTRAP_OK then 0 else timeout)"

definition timeout_value :: "bytes \<Rightarrow> u64" where
  "timeout_value bs = foldl (\<lambda>v b. push_bit 8 v OR ucast b) 0 bs"

text \<open>Whether the message is a response, then status and timeout as they are left, if they are written at all.\<close>

definition egress_bootstrap_decode_response :: "bytes option \<Rightarrow> bool \<Rightarrow> bool \<times> (u32 \<times> u64) option" where
  "egress_bootstrap_decode_response bytes outputs =
     (case bytes of
        None \<Rightarrow> (False, None)
      | Some bs \<Rightarrow>
          if \<not> outputs then (False, None)
          else if length bs \<noteq> EGRESS_BOOTSTRAP_RESPONSE_SIZE \<or> take 4 bs \<noteq> cstr ''MEBP'' \<or> bs ! 4 \<noteq> 1 \<or> bs ! 7 \<noteq> 0 \<or>
             ucast (bs ! 5) \<noteq> EGRESS_BOOTSTRAP_UNSUPPORTED \<and> bs ! 6 \<noteq> 1
          then (False, Some (EGRESS_BOOTSTRAP_INTERNAL, 0))
          else
            let v = timeout_value (drop 8 bs) in
            if (ucast (bs ! 5) = EGRESS_BOOTSTRAP_OK) \<noteq> (v \<noteq> 0) then (False, Some (EGRESS_BOOTSTRAP_INTERNAL, 0))
            else (True, Some (if ucast (bs ! 5) \<le> EGRESS_BOOTSTRAP_INTERNAL then ucast (bs ! 5) else EGRESS_BOOTSTRAP_INTERNAL, v)))"

definition bootstrap_part_valid :: "bytes \<Rightarrow> bool" where
  "bootstrap_part_valid part \<longleftrightarrow>
     \<not> (length part = 0 \<or> length part = 1 \<and> part ! 0 = ch (CHR ''.'') \<or>
        length part = 2 \<and> part ! 0 = ch (CHR ''.'') \<and> part ! 1 = ch (CHR ''.''))"

function bootstrap_path_loop :: "bytes \<Rightarrow> bool" where
  "bootstrap_path_loop part =
     (case split_first (ch (CHR ''/'')) part of
        None \<Rightarrow> bootstrap_part_valid part
      | Some (component, rest) \<Rightarrow> bootstrap_part_valid component \<and> bootstrap_path_loop rest)"
  by pat_completeness auto
termination
  by (relation "measure length") (auto simp: split_first_Some)

definition egress_bootstrap_path_valid :: "bytes option \<Rightarrow> bool" where
  "egress_bootstrap_path_valid path =
     (case path of
        Some (b # c # rest) \<Rightarrow> b = ch (CHR ''/'') \<and> bootstrap_path_loop (c # rest)
      | _ \<Rightarrow> False)"

declare bootstrap_path_loop.simps [simp del]

section \<open>What the codecs undo\<close>

lemma channel_u16 [codec_simps]: "channel_read_u16 (channel_write_u16 v @ rest) = v"
  by (rule bit_word_eqI) (auto simp: channel_read_u16_def channel_write_u16_def bit_simps)

lemma channel_u16_bytes: "channel_write_u16 (channel_read_u16 (a # b # rest)) = [a, b]"
proof -
  have "ucast (drop_bit 8 (channel_read_u16 (a # b # rest))) = a" "ucast (channel_read_u16 (a # b # rest)) = b"
    by (rule bit_word_eqI; auto simp: channel_read_u16_def bit_simps dest: bit_imp_le_length)+
  then show ?thesis by (simp add: channel_write_u16_def)
qed

lemma channel_u32 [codec_simps]: "channel_read_u32 (channel_write_u32 v @ rest) = v"
proof (rule bit_word_eqI)
  fix n assume "n < LENGTH(32)"
  then consider "n < 8" | "8 \<le> n" "n < 16" | "16 \<le> n" "n < 24" | "24 \<le> n" "n < 32" by fastforce
  then show "bit (channel_read_u32 (channel_write_u32 v @ rest)) n = bit v n"
    by cases (auto simp: channel_read_u32_def channel_write_u32_def bit_simps)
qed

lemma channel_u32_bytes: "channel_write_u32 (channel_read_u32 (a # b # c # d # rest)) = [a, b, c, d]"
proof -
  let ?v = "channel_read_u32 (a # b # c # d # rest)"
  have "ucast (drop_bit 24 ?v) = a" "ucast (drop_bit 16 ?v) = b" "ucast (drop_bit 8 ?v) = c" "ucast ?v = d"
    by (rule bit_word_eqI; auto simp: channel_read_u32_def bit_simps dest: bit_imp_le_length)+
  then show ?thesis by (simp add: channel_write_u32_def)
qed

lemma length_request_message: "length (request_message host port) = 10 + length host"
  by (simp add: request_message_def channel_write_u32_def channel_write_u16_def)

lemma decode_request_message:
  assumes "host \<noteq> []" "length host \<le> 253" "host_bytes_valid host" "port \<noteq> 0"
  shows "maelys_egress_channel_decode_request (Some (request_message host port)) True =
    (CHANNEL_OK, Some \<lparr>chreq_version = 1, chreq_protocol = 1, chreq_port = port, chreq_host_length = of_nat (length host),
       chreq_host = host\<rparr>, None)"
proof -
  let ?m = "request_message host port"
  have fields: "channel_read_u32 ?m = 0x4d454351" "?m ! 4 = 1" "?m ! 5 = 1" "channel_read_u16 (drop 6 ?m) = port"
    "channel_read_u16 (drop 8 ?m) = of_nat (length host)" "drop 10 ?m = host"
    using channel_u32[of "0x4d454351" "[1, 1] @ channel_write_u16 port @ channel_write_u16 (of_nat (length host)) @ host"]
      channel_u16[of port "channel_write_u16 (of_nat (length host)) @ host"] channel_u16[of "of_nat (length host)" host]
    by (simp_all add: request_message_def channel_constants) (simp_all add: channel_write_u32_def channel_write_u16_def)
  have n: "unat (of_nat (length host) :: u16) = length host" using assms(2) by (simp add: unat_of_nat)
  show ?thesis
    using assms fields n
    by (simp add: maelys_egress_channel_decode_request_def channel_constants length_request_message channel_request_zero_def request_fields_def Let_def)
qed

lemma request_fields_OK:
  assumes "fst (request_fields bs r1) = CHANNEL_OK" "unat (channel_read_u16 (drop 8 bs)) = n"
  shows "channel_read_u16 (drop 6 bs) \<noteq> 0 \<and> n \<noteq> 0 \<and> n \<le> 253 \<and> length bs = 10 + n \<and> host_bytes_valid (drop 10 bs)"
  using assms by (simp add: request_fields_def channel_constants Let_def split: if_splits)

lemma request_fields_result:
  assumes "fst (request_fields bs r1) = CHANNEL_OK" "unat (channel_read_u16 (drop 8 bs)) = n"
  shows "request_fields bs r1 = (CHANNEL_OK, r1\<lparr>chreq_port := channel_read_u16 (drop 6 bs),
    chreq_host_length := channel_read_u16 (drop 8 bs), chreq_host := drop 10 bs\<rparr>, None)"
  using request_fields_OK[OF assms] assms(2) by (simp add: request_fields_def channel_constants Let_def)

lemma decode_request_sound:
  assumes "maelys_egress_channel_decode_request (Some bs) True = (CHANNEL_OK, Some r, reason)"
  shows "bs = request_message (chreq_host r) (chreq_port r)" "chreq_host r \<noteq> []" "length (chreq_host r) \<le> 253"
    "host_bytes_valid (chreq_host r)" "chreq_port r \<noteq> 0"
proof -
  define r1 where "r1 = channel_request_zero\<lparr>chreq_version := bs ! 4, chreq_protocol := bs ! 5\<rparr>"
  obtain n where n: "unat (channel_read_u16 (drop 8 bs)) = n" by blast
  have len: "10 \<le> length bs" and magic: "channel_read_u32 bs = 0x4d454351" "bs ! 4 = 1" "bs ! 5 = 1"
    and fields: "request_fields bs r1 = (CHANNEL_OK, r, reason)"
    using assms by (auto simp: maelys_egress_channel_decode_request_def channel_constants r1_def Let_def split: if_splits prod.splits)
  have accepted: "fst (request_fields bs r1) = CHANNEL_OK" by (simp add: fields)
  note conditions = request_fields_OK[OF accepted n]
  have host: "chreq_port r = channel_read_u16 (drop 6 bs)" "chreq_host r = drop 10 bs"
    using fields request_fields_result[OF accepted n] by auto
  have len': "length (drop 10 bs) = n" using conditions by simp
  obtain a b c d e f g h i j rest where bs: "bs = a # b # c # d # e # f # g # h # i # j # rest"
    using len by (auto simp: numeral_eq_Suc Suc_le_length_iff)
  have "of_nat (length (drop 10 bs)) = channel_read_u16 (i # j # rest)"
    using len' n by (simp add: bs word_unat_eq_iff flip: n)
  then have "channel_write_u16 (of_nat (length (drop 10 bs))) = [i, j]" using channel_u16_bytes[of i j rest] by simp
  then show "bs = request_message (chreq_host r) (chreq_port r)"
    using magic host(1,2) channel_u32_bytes[of a b c d "e # f # g # h # i # j # rest"] channel_u16_bytes[of g h "i # j # rest"]
    by (simp add: request_message_def channel_constants bs)
  show "chreq_host r \<noteq> []" "length (chreq_host r) \<le> 253" "host_bytes_valid (chreq_host r)" "chreq_port r \<noteq> 0"
    using host conditions len' by auto
qed

text \<open>The eight bytes of a timeout.\<close>

lemma timeout_bytes_eq:
  "timeout_bytes t = [ucast (drop_bit 56 t), ucast (drop_bit 48 t), ucast (drop_bit 40 t), ucast (drop_bit 32 t),
     ucast (drop_bit 24 t), ucast (drop_bit 16 t), ucast (drop_bit 8 t), ucast t]"
  by (simp add: timeout_bytes_def upt_conv_Cons)

lemma timeout_step:
  fixes t :: u64
  shows "push_bit 8 (drop_bit (8 + n) t) OR ucast (ucast (drop_bit n t) :: byte) = drop_bit n t"
proof (rule bit_word_eqI)
  fix k assume "k < LENGTH(64)"
  then show "bit (push_bit 8 (drop_bit (8 + n) t) OR ucast (ucast (drop_bit n t) :: byte)) k = bit (drop_bit n t) k"
    by (cases "k < 8") (auto simp: bit_simps add_ac)
qed

lemma timeout_value_bytes [codec_simps]: "timeout_value (timeout_bytes t) = t"
proof -
  have start: "push_bit 8 (0 :: u64) OR ucast (ucast (drop_bit 56 t) :: byte) = drop_bit 56 t"
    by (rule bit_word_eqI) (auto simp: bit_simps dest: bit_imp_le_length)
  show ?thesis
    using timeout_step[of 48 t] timeout_step[of 40 t] timeout_step[of 32 t] timeout_step[of 24 t] timeout_step[of 16 t]
      timeout_step[of 8 t] timeout_step[of 0 t]
    by (simp add: timeout_value_def timeout_bytes_eq start[simplified])
qed

section \<open>Properties\<close>

text \<open>
  C39: The server's decoder of a channel request accepts exactly the messages that the client's encoder
  writes, with any buffer that is large enough, and reports the host and port that were encoded.
\<close>

theorem channel_request_exact:
  "(\<exists>reason. maelys_egress_channel_decode_request (Some bs) True = (CHANNEL_OK, Some r, reason)) \<longleftrightarrow>
   (\<exists>host port. bs \<noteq> [] \<and> bs = maelys_egress_channel_encode_request (Some host) port (Some (length bs)) \<and>
      r = \<lparr>chreq_version = 1, chreq_protocol = 1, chreq_port = port, chreq_host_length = of_nat (length host), chreq_host = host\<rparr>)"
  (is "?L \<longleftrightarrow> ?R")
proof
  assume ?L
  then obtain reason where run: "maelys_egress_channel_decode_request (Some bs) True = (CHANNEL_OK, Some r, reason)" ..
  note sound = decode_request_sound[OF run]
  have "bs = maelys_egress_channel_encode_request (Some (chreq_host r)) (chreq_port r) (Some (length bs))"
    using sound length_request_message[of "chreq_host r" "chreq_port r"]
    by (simp add: maelys_egress_channel_encode_request_def channel_constants)
  moreover have "bs \<noteq> []" using sound(1) length_request_message[of "chreq_host r" "chreq_port r"] by auto
  moreover have "r = \<lparr>chreq_version = 1, chreq_protocol = 1, chreq_port = chreq_port r, chreq_host_length = of_nat (length (chreq_host r)),
      chreq_host = chreq_host r\<rparr>"
    using run decode_request_message[OF sound(2-5)] sound(1) by simp
  ultimately show ?R by blast
next
  assume ?R
  then show ?L
    using decode_request_message
    by (force simp: maelys_egress_channel_encode_request_def channel_constants split: if_splits)
qed

text \<open>
  The client reads from a bootstrap response what the server wrote: every status of the protocol,
  and the timeout, which is non-zero exactly when the status is OK.
\<close>

theorem bootstrap_roundtrip:
  assumes "status \<le> EGRESS_BOOTSTRAP_INTERNAL" "status = EGRESS_BOOTSTRAP_OK \<Longrightarrow> timeout \<noteq> 0"
  shows "egress_bootstrap_decode_response (Some (egress_bootstrap_response status timeout)) True =
    (True, Some (status, if status = EGRESS_BOOTSTRAP_OK then timeout else 0))"
proof -
  have code: "ucast (ucast status :: byte) = status"
    using assms(1) by (simp add: bootstrap_constants word_le_nat_alt unat_ucast_mod word_unat_eq_iff)
  have "egress_bootstrap_response status timeout ! 5 = ucast status" "drop 8 (egress_bootstrap_response status timeout) =
      timeout_bytes (if status \<noteq> EGRESS_BOOTSTRAP_OK then 0 else timeout)"
    "length (egress_bootstrap_response status timeout) = 16"
    by (simp_all add: egress_bootstrap_response_def timeout_bytes_eq)
  then show ?thesis
    using assms code timeout_value_bytes
    by (simp add: egress_bootstrap_decode_response_def Let_def) (simp add: egress_bootstrap_response_def bootstrap_constants)
qed

theorem bootstrap_roundtrip_witness:
  "egress_bootstrap_decode_response (Some (egress_bootstrap_response EGRESS_BOOTSTRAP_OK 5000)) True =
     (True, Some (EGRESS_BOOTSTRAP_OK, 5000)) \<and>
   egress_bootstrap_decode_response (Some (egress_bootstrap_response EGRESS_BOOTSTRAP_UNSUPPORTED 0)) True =
     (True, Some (EGRESS_BOOTSTRAP_UNSUPPORTED, 0))"
  using bootstrap_roundtrip[of EGRESS_BOOTSTRAP_OK 5000] bootstrap_roundtrip[of EGRESS_BOOTSTRAP_UNSUPPORTED 0]
  by (simp add: bootstrap_constants)

end
