(* ===== verification/Egress_Session.thy ===== *)
theory Egress_Session
  imports Egress_Server
begin

text \<open>
  Native connectors and sessions, \<^verbatim>\<open>src/src/connector.c\<close>: the handles of an embedder on the server. A connector
  holds a reference to the server it belongs to, which is passed along; a session owns one descriptor.
  Opening a session waits for the loop of the server; what the other threads do meanwhile is an argument, as in
  \<open>Egress_Connector\<close>.
\<close>

section \<open>Connectors\<close>

record egress_connector =
  connector_references :: u32
  connector_principal_index :: nat
  connector_principal :: bytes
  connector_invocation_id :: bytes

definition egress_connector_is_running :: "kernel \<Rightarrow> egress_connector option \<Rightarrow> egress_server \<Rightarrow> bool \<times> egress_server" where
  "egress_connector_is_running K connector s =
     (if connector = None then (False, s) else maelys_egress_server_is_running K s)"

text \<open>The server is \<open>None\<close> for the null pointer.\<close>

definition connector_create ::
  "kernel \<Rightarrow> bool \<Rightarrow> bool \<Rightarrow> bool \<Rightarrow> bytes option \<Rightarrow> bytes option \<Rightarrow> egress_server option \<Rightarrow>
     egress_result \<times> egress_connector option \<times> egress_server option" where
  "connector_create K calloc_ok output native user key server =
     (case server of
        None \<Rightarrow> (ERR_ARGUMENT, None, None)
      | Some s \<Rightarrow>
          if \<not> native \<and> (user = None \<or> key = None) \<or> \<not> output then (ERR_ARGUMENT, None, server)
          else if \<not> calloc_ok then (ERR_MEMORY, None, server)
          else
            let (result, bound, s) = egress_server_connector_bind K native user key s in
            (case bound of
               Some (index, name, invocation) \<Rightarrow>
                 if result \<noteq> EGRESS_OK then (result, None, Some s)
                 else (EGRESS_OK, Some \<lparr>connector_references = 1, connector_principal_index = index, connector_principal = name,
                         connector_invocation_id = invocation\<rparr>, Some s)
             | None \<Rightarrow> (result, None, Some s)))"

definition maelys_egress_server_connector_create where
  "maelys_egress_server_connector_create K calloc_ok output user key server = connector_create K calloc_ok output False user key server"

definition maelys_egress_server_native_connector_create where
  "maelys_egress_server_native_connector_create K calloc_ok output server = connector_create K calloc_ok output True None None server"

definition maelys_egress_connector_retain :: "egress_connector option \<Rightarrow> egress_connector option" where
  "maelys_egress_connector_retain connector = map_option (\<lambda>c. c\<lparr>connector_references := connector_references c + 1\<rparr>) connector"

definition egress_server_connector_release :: "egress_server \<Rightarrow> egress_server option" where
  "egress_server_connector_release s = egress_server_control_release s"

text \<open>The last release of a connector releases its reference to the server.\<close>

definition maelys_egress_connector_release :: "egress_connector option \<Rightarrow> egress_server \<Rightarrow> egress_connector option \<times> egress_server option" where
  "maelys_egress_connector_release connector s =
     (case connector of
        None \<Rightarrow> (None, Some s)
      | Some c \<Rightarrow>
          if connector_references c \<noteq> 1 then (Some (c\<lparr>connector_references := connector_references c - 1\<rparr>), Some s)
          else (None, egress_server_connector_release s))"

section \<open>Sessions\<close>

record egress_session =
  session_descriptor :: int

text \<open>The session is returned when the call succeeds; \<open>others\<close> is what the other threads do while the call waits.\<close>

definition maelys_egress_connector_session_open ::
  "kernel \<Rightarrow> (egress_server \<Rightarrow> egress_server) \<Rightarrow> bool \<Rightarrow> bool \<Rightarrow> egress_connector option \<Rightarrow> bytes option \<Rightarrow> u16 \<Rightarrow> u64 \<Rightarrow>
     egress_server \<Rightarrow> (egress_result \<times> egress_session option \<times> egress_server) option" where
  "maelys_egress_connector_session_open K others malloc_ok output connector host port timeout s =
     (case (connector, host) of
        (Some c, Some h) \<Rightarrow>
          if h = [] \<or> port = 0 \<or> timeout = 0 \<or> \<not> output then Some (ERR_ARGUMENT, None, s)
          else if \<not> malloc_ok then Some (ERR_MEMORY, None, s)
          else
            (case egress_server_open_stream K others (Some (connector_principal_index c)) (Some (connector_principal c))
               (Some (connector_invocation_id c)) host port timeout s of
               None \<Rightarrow> None
             | Some (result, fd, s) \<Rightarrow>
                 if result \<noteq> EGRESS_OK then Some (result, None, s) else Some (EGRESS_OK, Some \<lparr>session_descriptor = fd\<rparr>, s))
      | _ \<Rightarrow> Some (ERR_ARGUMENT, None, s))"

definition maelys_egress_session_fd :: "egress_session option \<Rightarrow> int" where
  "maelys_egress_session_fd session = (case session of None \<Rightarrow> - 1 | Some x \<Rightarrow> session_descriptor x)"

text \<open>Result, the descriptor in the output, and the session.\<close>

definition maelys_egress_session_take_fd :: "egress_session option \<Rightarrow> bool \<Rightarrow> egress_result \<times> int \<times> egress_session option" where
  "maelys_egress_session_take_fd session output =
     (case session of
        None \<Rightarrow> (ERR_STATE, - 1, None)
      | Some x \<Rightarrow>
          if \<not> output \<or> session_descriptor x < 0 then (ERR_STATE, - 1, session)
          else (EGRESS_OK, session_descriptor x, Some (x\<lparr>session_descriptor := - 1\<rparr>)))"

text \<open>The descriptor that is closed, unless there is no session.\<close>

definition maelys_egress_session_release :: "egress_session option \<Rightarrow> int option" where
  "maelys_egress_session_release session = map_option session_descriptor session"

section \<open>References and descriptors\<close>

text \<open>A connector that was created holds one reference to the server, and its last release gives it back.\<close>

lemma connector_reference:
  assumes "connector_create K calloc_ok output native user key (Some s) = (EGRESS_OK, Some c, Some t)" "srv_references s \<noteq> 0"
  shows "\<exists>u. maelys_egress_connector_release (Some c) t = (None, Some u) \<and> srv_references u = srv_references s"
proof -
  obtain result index name invocation where bind: "egress_server_connector_bind K native user key s = (result, Some (index, name, invocation), t)"
    and c: "connector_references c = 1"
    using assms(1) by (auto simp: connector_create_def Let_def split: if_splits prod.splits option.splits)
  have "srv_references t = srv_references s + 1"
    using bind by (auto simp: egress_server_connector_bind_def load_stopping_def ask_def Let_def split: if_splits prod.splits)
  then show ?thesis
    using c assms(2) by (simp add: maelys_egress_connector_release_def egress_server_connector_release_def egress_server_control_release_def)
qed

text \<open>The descriptor of a session is handed out at most once, and then no longer closed by it.\<close>

lemma session_descriptor_once:
  assumes "maelys_egress_session_take_fd session True = (EGRESS_OK, fd, session')"
  shows "fst (maelys_egress_session_take_fd session' True) = ERR_STATE" "maelys_egress_session_fd session' = - 1"
  using assms by (auto simp: maelys_egress_session_take_fd_def maelys_egress_session_fd_def split: option.splits if_splits)

end
