(* ===== verification/Egress_Threads.thy ===== *)
theory Egress_Threads
  imports Egress_Progress
begin

text \<open>
  A thread of an embedder that opens a stream waits while the loop of the server and other threads work. What they do is a sequence
  of the steps of \<open>reach\<close>. They never take the command of the waiting thread away, and the wait ends at its deadline, so
  opening a stream returns.
\<close>

section \<open>The other threads\<close>

inductive works :: "kernel \<Rightarrow> egress_server \<Rightarrow> egress_server \<Rightarrow> bool" for K s where
  started: "works K s (s\<lparr>srv_started := True, srv_running := True\<rparr>)"
| asked_stopping: "load_stopping K s = (b, t) \<Longrightarrow> works K s t"
| waited: "works K s (ask (Call_loop_step deadline) s)"
| event: "run_event K e s = Some t \<Longrightarrow> works K s t"
| processed: "works K s (egress_open_commands_process K s)"
| cancelled: "works K s (egress_open_commands_cancel K s)"
| expired: "works K s (expire_connections K s)"
| ended: "works K s (end_run K result s)"
| replaced: "maelys_egress_server_replace_policy K clone_ok (Some (foldl policy_exec empty_policy ops)) s = (result, generation, t) \<Longrightarrow> works K s t"
| stopped: "maelys_egress_server_stop K s = (result, t) \<Longrightarrow> works K s t"
| bound: "egress_server_connector_bind K native user key s = (result, c, t) \<Longrightarrow> works K s t"
| submitted: "open_stream_submit K i who invocation host port timeout s = Some (queued, t) \<Longrightarrow> works K s t"
| wait_command: "works K s (ask (Call_wait command deadline) s)"
| finished: "open_stream_finish K command result s = Some (result', fd, t) \<Longrightarrow> works K s t"

abbreviation worked :: "kernel \<Rightarrow> egress_server \<Rightarrow> egress_server \<Rightarrow> bool" where
  "worked K \<equiv> (works K)\<^sup>*\<^sup>*"

lemma works_reach:
  assumes "works K s t" "reach K Ps s"
  shows "\<exists>Qs. Ps \<subseteq> Qs \<and> reach K Qs t"
  using assms(1)
proof cases
  case (replaced clone_ok ops result generation)
  have "reach K (insert (srv_policy t) Ps) t" by (rule reach.replaced[OF assms(2) replaced])
  then show ?thesis by blast
qed (auto intro!: exI[of _ Ps] intro: reach.started[OF assms(2)] reach.asked_stopping[OF assms(2)] reach.waited[OF assms(2)]
    reach.event[OF assms(2)] reach.processed[OF assms(2)] reach.cancelled[OF assms(2)] reach.expired[OF assms(2)] reach.ended[OF assms(2)]
    reach.stopped[OF assms(2)] reach.bound[OF assms(2)] reach.submitted[OF assms(2)] reach.wait_command[OF assms(2)] reach.finished[OF assms(2)])

lemma worked_reach:
  assumes "worked K s t" "reach K Ps s"
  shows "\<exists>Qs. Ps \<subseteq> Qs \<and> reach K Qs t"
  using assms
proof induction
  case (step t u)
  then obtain Qs where "Ps \<subseteq> Qs" "reach K Qs t" by blast
  then show ?case using works_reach[OF step(2)] by (meson subset_trans)
qed blast

lemma grows_release_command: "grows s t \<Longrightarrow> grows s (open_command_release p t)"
  by (auto simp: open_command_release_def Let_def split: option.split)

lemma grows_wake: "server_loop_wake_if_live K t = (b, u) \<Longrightarrow> grows s t \<Longrightarrow> grows s u"
  by (auto simp: server_loop_wake_if_live_def Let_def split: if_splits)

lemma grows_pair_accept:
  assumes "pair_accept K listener deadline t = Some (r, u)" "grows s t"
  shows "grows s u"
proof -
  have "grows s t \<longrightarrow> grows s (snd (r, u))"
  proof (rule pair_accept.raw_induct[OF _ assms(1)])
    fix f K listener deadline t y
    assume IH: "\<And>K listener deadline t y. f K listener deadline t = Some y \<Longrightarrow> grows s t \<longrightarrow> grows s (snd y)"
      and run: "(let s = ask (Call_fd_wait (k_fd K listener) {FLAG_READ} deadline) t in
      if k_result K (srv_trace s) \<noteq> SYS_OK then Some (None, s)
      else
        let s = ask (Call_accept (Some listener)) s; (accepted, socket) = k_socket K (srv_trace s) in
        if accepted = SYS_OK then Some (Some socket, s)
        else if accepted \<noteq> SYS_ERR_WOULD_BLOCK then Some (None, s)
        else f K listener deadline s) = Some y"
    show "grows s t \<longrightarrow> grows s (snd y)"
      using run by (auto simp: Let_def split: prod.splits if_splits dest!: IH[rule_format])
  qed
  then show ?thesis using assms(2) by simp
qed

lemma grows_pair_detach: "pair_detach K l c h t = (r, u) \<Longrightarrow> grows s t \<Longrightarrow> grows s u"
  by (auto simp: pair_detach_def pair_failed_def Let_def split: if_splits)

lemma grows_pair_connect: "pair_connect K l a t = Some (r, u) \<Longrightarrow> grows s t \<Longrightarrow> grows s u"
  by (auto simp: pair_connect_def pair_failed_def Let_def monotonic_now_def split: prod.splits if_splits option.splits
      dest!: grows_pair_detach[where s = s] grows_pair_accept[where s = s])

lemma grows_pair: "egress_listener_create_private_tcp_pair K t = Some (r, u) \<Longrightarrow> grows s t \<Longrightarrow> grows s u"
  by (auto simp: egress_listener_create_private_tcp_pair_def pair_failed_def Let_def split: prod.splits if_splits option.splits
      dest!: grows_pair_connect[where s = s])

lemma grows_queue_command: "queue_command K p c timeout t = (r, u) \<Longrightarrow> grows s t \<Longrightarrow> grows s u"
  by (auto simp: queue_command_def Let_def monotonic_now_def load_stopping_def split: prod.splits if_splits intro!: grows_release_command
      dest!: grows_wake[where s = s])

lemma grows_submit: "open_stream_submit K i who invocation host port timeout t = Some (r, u) \<Longrightarrow> grows s t \<Longrightarrow> grows s u"
  by (auto simp: open_stream_submit_def Let_def split: prod.splits if_splits option.splits
      dest!: grows_load[where s = s] grows_pair[where s = s] grows_queue_command[where s = s])

lemma grows_finish: "open_stream_finish K p result t = Some (r, fd, u) \<Longrightarrow> grows s t \<Longrightarrow> grows s u"
  by (auto simp: open_stream_finish_def Let_def split: prod.splits if_splits option.splits intro!: grows_release_command dest!: grows_wake[where s = s])

lemma grows_reject: "grows s t \<Longrightarrow> grows s (egress_open_commands_reject K r t)"
  unfolding egress_open_commands_reject_def by (rule grows_fold) (simp_all add: grows_complete)

lemma grows_end_run: "grows s t \<Longrightarrow> grows s (end_run K r t)"
  unfolding end_run_def Let_def grows_simps
  by (rule grows_fold) (auto simp: end_slot_def Let_def intro!: grows_close grows_reject)

lemma works_grows:
  assumes "works K s t" "kernel_ok K" "good Ps s"
  shows "grows s t"
  using assms(1)
proof cases
  case (replaced clone_ok ops result generation)
  then show ?thesis
    by (auto simp: maelys_egress_server_replace_policy_def load_stopping_def reload_failure_def Let_def split: if_splits option.splits)
next
  case (event e)
  then show ?thesis by (rule event_grows[OF assms(2,3)])
next
  case processed
  then show ?thesis using grows_commands[OF assms(2,3)] by simp
next
  case (bound native user key result c)
  then show ?thesis by (auto simp: egress_server_connector_bind_def load_stopping_def Let_def split: if_splits prod.splits)
next
  case (stopped result)
  then show ?thesis by (auto simp: maelys_egress_server_stop_def Let_def)
qed (auto intro: grows_load[OF _ grows_refl] grows_cancel grows_expire grows_end_run grows_submit[OF _ grows_refl] grows_finish[OF _ grows_refl])

lemma worked_grows:
  assumes "worked K s t" "kernel_ok K" "reach K Ps s"
  shows "grows s t"
  using assms(1)
proof induction
  case (step t u)
  obtain Qs where "reach K Qs t" using worked_reach[OF step(1) assms(3)] by blast
  then have "good Qs t" using reach_inv[OF _ assms(2)] by blast
  then show ?case using step(3) works_grows[OF step(2) assms(2)] grows_trans by blast
qed simp

section \<open>Deadlines\<close>

text \<open>
  Time passes: for every finite deadline, once so many calls were made, a wait with this deadline no longer reports that what it waits for is there.
  A deadline is finite when the clock plus the timeout is not the number that stands for no deadline.
\<close>

definition deadlines_pass :: "kernel \<Rightarrow> bool" where
  "deadlines_pass K \<longleftrightarrow> (\<forall>deadline. deadline \<noteq> k_infinite K \<longrightarrow> (\<exists>n. \<forall>tr. n \<le> length tr \<longrightarrow>
     (\<forall>p. k_result K (Call_wait p deadline # tr) \<noteq> SYS_OK) \<and> (\<forall>fd flags. k_result K (Call_fd_wait fd flags deadline # tr) \<noteq> SYS_OK)))"

definition finite_deadlines :: "kernel \<Rightarrow> u64 \<Rightarrow> bool" where
  "finite_deadlines K timeout \<longleftrightarrow> (\<forall>tr. add_saturating (k_clock K tr) timeout \<noteq> k_infinite K)"

lemma deadline_passes:
  assumes "deadlines_pass K" "deadline \<noteq> k_infinite K"
  shows "\<exists>n. \<forall>tr p. n \<le> length tr \<longrightarrow> k_result K (Call_wait p deadline # tr) \<noteq> SYS_OK"
    "\<exists>n. \<forall>tr fd flags. n \<le> length tr \<longrightarrow> k_result K (Call_fd_wait fd flags deadline # tr) \<noteq> SYS_OK"
  using assms unfolding deadlines_pass_def by blast+

lemma pair_accept_returns:
  assumes "deadlines_pass K" "deadline \<noteq> k_infinite K"
  shows "pair_accept K listener deadline s \<noteq> None"
proof -
  obtain n where n: "\<And>tr fd flags. n \<le> length tr \<Longrightarrow> k_result K (Call_fd_wait fd flags deadline # tr) \<noteq> SYS_OK"
    using deadline_passes(2)[OF assms] by blast
  show ?thesis
  proof (induction "n - length (srv_trace s)" arbitrary: s rule: less_induct)
    case less
    define u where "u = ask (Call_accept (Some listener)) (ask (Call_fd_wait (k_fd K listener) {FLAG_READ} deadline) s)"
    have "pair_accept K listener deadline u \<noteq> None" if "k_result K (Call_fd_wait (k_fd K listener) {FLAG_READ} deadline # srv_trace s) = SYS_OK"
    proof -
      have "length (srv_trace s) < n" using n[of "srv_trace s"] that by (metis not_le)
      then show ?thesis using less(1)[of u] by (simp add: u_def)
    qed
    then show ?case by (subst pair_accept.simps) (auto simp: Let_def u_def split: prod.split)
  qed
qed

lemma pair_returns:
  assumes "deadlines_pass K" "finite_deadlines K 5000"
  shows "egress_listener_create_private_tcp_pair K s \<noteq> None"
proof -
  have "pair_accept K listener (add_saturating (k_clock K tr) 5000) t \<noteq> None" for listener tr t
    using assms(2) by (intro pair_accept_returns[OF assms(1)]) (simp add: finite_deadlines_def)
  then have "pair_connect K listener address t \<noteq> None" for listener address t
    by (auto simp del: not_None_eq simp: pair_connect_def Let_def monotonic_now_def split: prod.split option.split)
  then show ?thesis by (auto simp del: not_None_eq simp: egress_listener_create_private_tcp_pair_def Let_def split: prod.split option.split)
qed

lemma queue_command_queued:
  assumes "queue_command K p c timeout s = (Inr (command, deadline), t)"
  shows "command = p" "\<exists>tr. deadline = add_saturating (k_clock K tr) timeout" "open_commands t p = Some (c\<lparr>cmd_references := cmd_references c + 1\<rparr>)"
  using assms
  by (auto simp: queue_command_def monotonic_now_def server_loop_wake_if_live_def load_stopping_def ask_def Let_def split: if_splits prod.splits)

text \<open>The first half returns; a command that it queued is for the destination, under the identity of the caller.\<close>

lemma submit_returns:
  assumes "deadlines_pass K" "finite_deadlines K 5000"
  shows "open_stream_submit K i who invocation host port timeout s \<noteq> None"
  using pair_returns[OF assms] by (auto simp del: not_None_eq simp: open_stream_submit_def Let_def split: prod.split option.split)

lemma submit_queued:
  assumes "open_stream_submit K i who invocation (Some host) port timeout s = Some (Inr (command, deadline), t)"
  shows "\<exists>tr. deadline = add_saturating (k_clock K tr) timeout"
    "\<exists>c. open_commands t command = Some c \<and> \<not> cmd_completed c \<and> cmd_host c = snprintf_s (EGRESS_MAX_HOST + 1) host \<and> cmd_port c = port \<and>
       cmd_principal_index c = i \<and> egress_canonical_host (Some host) = Some host"
proof -
  obtain p c u where q: "queue_command K p c timeout u = (Inr (command, deadline), t)" "\<not> cmd_completed c"
    "cmd_host c = snprintf_s (EGRESS_MAX_HOST + 1) host" "cmd_port c = port" "cmd_principal_index c = i" "egress_canonical_host (Some host) = Some host"
    using assms by (auto simp: open_stream_submit_def Let_def split: if_splits prod.splits option.splits)
  note queued = queue_command_queued[OF q(1)]
  show "\<exists>tr. deadline = add_saturating (k_clock K tr) timeout" by (rule queued(2))
  show "\<exists>c. open_commands t command = Some c \<and> \<not> cmd_completed c \<and> cmd_host c = snprintf_s (EGRESS_MAX_HOST + 1) host \<and> cmd_port c = port \<and>
       cmd_principal_index c = i \<and> egress_canonical_host (Some host) = Some host"
    using queued(1,3) q(2-6) by simp
qed

lemma wait_returns:
  assumes "deadlines_pass K" "deadline \<noteq> k_infinite K" "kernel_ok K" "\<And>s. worked K s (others s)"
    and "reach K Ps s" "open_commands s p \<noteq> None"
  shows "\<exists>result t Qs. open_stream_wait K others p deadline s = Some (result, t) \<and> Ps \<subseteq> Qs \<and> reach K Qs t \<and> open_commands t p \<noteq> None"
proof -
  obtain n where n: "\<And>tr p. n \<le> length tr \<Longrightarrow> k_result K (Call_wait p deadline # tr) \<noteq> SYS_OK"
    using deadline_passes(1)[OF assms(1,2)] by blast
  show ?thesis
    using assms(5,6)
  proof (induction "n - length (srv_trace s)" arbitrary: s Ps rule: less_induct)
    case less
    define u where "u = others (ask (Call_wait p deadline) s)"
    have asked: "reach K Ps (ask (Call_wait p deadline) s)" by (rule reach.wait_command[OF less.prems(1)])
    have grown: "grows s u" unfolding u_def
      by (rule grows_trans[OF grows_ask[OF grows_refl] worked_grows[OF assms(4,3) asked]])
    have longer: "length (srv_trace s) < length (srv_trace u)" unfolding u_def
      using grows_length[OF worked_grows[OF assms(4,3) asked]] by simp
    have p: "open_commands u p \<noteq> None" using grown less.prems(2) by (auto simp: grows_def)
    obtain Qs where Qs: "Ps \<subseteq> Qs" "reach K Qs u" using worked_reach[OF assms(4) asked] by (auto simp: u_def)
    obtain c where c: "open_commands s p = Some c" using less.prems(2) by blast
    have run: "open_stream_wait K others p deadline s =
        (if cmd_completed c then Some (ERR_IO, s)
         else if k_result K (Call_wait p deadline # srv_trace s) = SYS_ERR_TIMEOUT then Some (ERR_TIMEOUT, u)
         else if k_result K (Call_wait p deadline # srv_trace s) \<noteq> SYS_OK then Some (ERR_IO, u)
         else open_stream_wait K others p deadline u)"
      by (subst open_stream_wait.simps) (simp add: c u_def Let_def)
    have again: "\<exists>result t Rs. open_stream_wait K others p deadline u = Some (result, t) \<and> Ps \<subseteq> Rs \<and> reach K Rs t \<and> open_commands t p \<noteq> None"
      if "k_result K (Call_wait p deadline # srv_trace s) = SYS_OK"
    proof -
      have "length (srv_trace s) < n" using n[of "srv_trace s" p] that by (metis not_le)
      then have "n - length (srv_trace u) < n - length (srv_trace s)" using longer by simp
      from less.hyps[OF this Qs(2) p] obtain result t Rs
        where "open_stream_wait K others p deadline u = Some (result, t)" "Qs \<subseteq> Rs" "reach K Rs t" "open_commands t p \<noteq> None" by blast
      then show ?thesis using Qs(1) by blast
    qed
    show ?case
      using less.prems Qs p again unfolding run by auto
  qed
qed

lemma finish_returns: "open_commands t p \<noteq> None \<Longrightarrow> \<exists>result' fd v. open_stream_finish K p result t = Some (result', fd, v)"
  by (cases "server_loop_wake_if_live K t") (auto simp: open_stream_finish_def Let_def)

text \<open>Opening a stream returns.\<close>

lemma open_stream_returns:
  assumes "deadlines_pass K" "finite_deadlines K 5000" "finite_deadlines K timeout" "kernel_ok K" "\<And>s. worked K s (others s)" "reach K Ps s"
  shows "\<exists>result fd t Qs. egress_server_open_stream K others i who invocation host port timeout s = Some (result, fd, t) \<and> Ps \<subseteq> Qs \<and> reach K Qs t"
proof -
  obtain queued u where u: "open_stream_submit K i who invocation host port timeout s = Some (queued, u)"
    using submit_returns[OF assms(1,2), of i who invocation host port timeout s] by fastforce
  have ru: "reach K Ps u" by (rule reach.submitted[OF assms(6) u])
  show ?thesis
  proof (cases queued)
    case (Inl e)
    then show ?thesis using u ru by (auto simp: egress_server_open_stream_def)
  next
    case (Inr x)
    obtain p deadline where x: "x = (p, deadline)" by fastforce
    obtain h where h: "host = Some h" using u Inr by (auto simp: open_stream_submit_def split: if_splits)
    note q = submit_queued[OF u[unfolded Inr x h]]
    have finite: "deadline \<noteq> k_infinite K" using q(1) assms(3) by (auto simp: finite_deadlines_def)
    obtain Qs where Qs: "Ps \<subseteq> Qs" "reach K Qs (others u)" using worked_reach[OF assms(5) ru] by blast
    have "open_commands (others u) p \<noteq> None" using worked_grows[OF assms(5,4) ru] q(2) by (auto simp: grows_def)
    from wait_returns[OF assms(1) finite assms(4,5) Qs(2) this] obtain result t Rs
      where t: "open_stream_wait K others p deadline (others u) = Some (result, t)" "Qs \<subseteq> Rs" "reach K Rs t" "open_commands t p \<noteq> None" by blast
    obtain result' fd v where v: "open_stream_finish K p result t = Some (result', fd, v)"
      using t(4) finish_returns by blast
    have "reach K Rs v" by (rule reach.finished[OF t(3) v])
    moreover have "egress_server_open_stream K others i who invocation host port timeout s = Some (result', fd, v)"
      by (simp add: egress_server_open_stream_def u Inr x t(1) v)
    ultimately show ?thesis using Qs(1) t(2) by blast
  qed
qed

end
