(* ===== verification/Egress_Channel_Server.thy ===== *)
theory Egress_Channel_Server
  imports Egress_Channel Egress_Session Egress_Threads Egress_Example
begin

text \<open>
  The server side of the mediated-connection channel, \<^verbatim>\<open>src/src/channel_server.c\<close>. A channel has a thread of its
  own; its calls of the system library are events of the trace of the channel, newest first, answered
  by the environment as in \<open>Egress_Server_State\<close>. What the loop of the server and other threads do while the channel waits for a session
  is an answer too. The trace also records each stream that the channel takes over from a session.

  \<open>channel_apple\<close> tells on which system the code was compiled. The thread of the channel may wait for ever; \<open>None\<close> is the wait that does
  not end.
\<close>

section \<open>State\<close>

datatype channel_call =
    Chan_pair
  | Chan_nonblocking int
  | Chan_wakeup_create
  | Chan_mutex_create
  | Chan_condition_create
  | Chan_thread_create
  | Chan_loop_create
  | Chan_watch int u64
  | Chan_unwatch u64
  | Chan_loop_destroy
  | Chan_step u64
  | Chan_receive int nat
  | Chan_stream int
  | Chan_send int bytes int
  | Chan_close int
  | Chan_clock
  | Chan_usage int
  | Chan_wake
  | Chan_join

datatype receive_flag = RECEIVE_TRUNCATED | RECEIVE_CONTROL_TRUNCATED | RECEIVE_SURPLUS

type_synonym channel_trace = "channel_call list"

record channel_env =
  channel_apple :: bool
  channel_alloc :: "channel_trace \<Rightarrow> bool"
  channel_result :: "channel_trace \<Rightarrow> sys_result"
  channel_pair :: "channel_trace \<Rightarrow> sys_result \<times> int \<times> int"
  channel_watch :: "channel_trace \<Rightarrow> sys_result \<times> u64"
  channel_step :: "channel_trace \<Rightarrow> sys_result \<times> (u64 \<times> flag set) list"
  channel_receive :: "channel_trace \<Rightarrow> sys_result \<times> bytes \<times> receive_flag set"
  channel_clock :: "channel_trace \<Rightarrow> sys_result \<times> u64"
  channel_usage :: "channel_trace \<Rightarrow> (u64 \<times> u64 \<times> int) option"
  channel_wakeup_fd :: int
  channel_reactor :: "channel_trace \<Rightarrow> egress_server \<Rightarrow> egress_server"

definition CHANNEL_TOKEN_REQUESTS :: u64 where "CHANNEL_TOKEN_REQUESTS = 1"
definition CHANNEL_TOKEN_WAKEUP :: u64 where "CHANNEL_TOKEN_WAKEUP = 2"
definition CHANNEL_HOLD_MS :: u64 where "CHANNEL_HOLD_MS = 1000"
definition CHANNEL_HOLD_PAUSE_MAX_MS :: u64 where "CHANNEL_HOLD_PAUSE_MAX_MS = 8"
definition MAELYS_EGRESS_CHANNEL_REQUEST_MAX_SIZE :: nat where
  "MAELYS_EGRESS_CHANNEL_REQUEST_MAX_SIZE = MAELYS_EGRESS_CHANNEL_REQUEST_HEADER_SIZE + MAELYS_EGRESS_CHANNEL_MAX_HOST"

text \<open>The result of arming is \<open>None\<close> until it is reported; the watches are locals of the thread.\<close>

record egress_channel =
  chan_connector :: "egress_connector option"
  chan_timeout :: u64
  chan_server_fd :: int
  chan_thread :: bool
  chan_armed :: "sys_result option"
  chan_held_fd :: int
  chan_held_until :: u64
  chan_held_check :: u64
  chan_held_pause :: u64
  chan_loop :: bool
  chan_requests_watch :: u64
  chan_wakeup_watch :: u64
  chan_trace :: channel_trace

definition tell :: "channel_call \<Rightarrow> egress_channel \<Rightarrow> egress_channel" where
  "tell call c = c\<lparr>chan_trace := call # chan_trace c\<rparr>"

section \<open>Answering a request\<close>

fun status_of :: "egress_result \<Rightarrow> channel_status" where
  "status_of EGRESS_OK = CHANNEL_OK"
| "status_of ERR_DENIED = CHANNEL_DENIED"
| "status_of ERR_TIMEOUT = CHANNEL_TIMEOUT"
| "status_of ERR_CANCELLED = CHANNEL_CANCELLED"
| "status_of ERR_STATE = CHANNEL_CANCELLED"
| "status_of ERR_MEMORY = CHANNEL_RESOURCE"
| "status_of ERR_ARGUMENT = CHANNEL_MALFORMED"
| "status_of ERR_PROTOCOL = CHANNEL_MALFORMED"
| "status_of _ = CHANNEL_INTERNAL"

definition send_response :: "channel_env \<Rightarrow> channel_status \<Rightarrow> int \<Rightarrow> egress_channel \<Rightarrow> bool \<times> egress_channel" where
  "send_response E status fd c =
     (let response = maelys_egress_channel_encode_response (channel_status_code status) (Some MAELYS_EGRESS_CHANNEL_RESPONSE_SIZE) in
      if length response \<noteq> MAELYS_EGRESS_CHANNEL_RESPONSE_SIZE then (False, c)
      else let c = tell (Chan_send (chan_server_fd c) response fd) c in (channel_result E (chan_trace c) = SYS_OK, c))"

definition release_held :: "egress_channel \<Rightarrow> egress_channel" where
  "release_held c = (tell (Chan_close (chan_held_fd c)) c)\<lparr>chan_held_fd := - 1\<rparr>"

text \<open>Bytes sent, bytes received and bytes not yet read, unless the socket has no answer.\<close>

definition held_in_use :: "channel_env \<Rightarrow> egress_channel \<Rightarrow> bool \<times> egress_channel" where
  "held_in_use E c =
     (let c = tell (Chan_usage (chan_held_fd c)) c in
      (case channel_usage E (chan_trace c) of
         None \<Rightarrow> True
       | Some (sent, received, unread) \<Rightarrow> unread < 0 \<or> 0 < sent \<or> of_int unread < received, c))"

definition hold_stream :: "channel_env \<Rightarrow> int \<Rightarrow> egress_channel \<Rightarrow> int \<times> egress_channel" where
  "hold_stream E fd c =
     (let (fd, c) =
        (if channel_apple E \<and> 0 \<le> fd then
           let c = tell Chan_clock c; (result, now) = channel_clock E (chan_trace c) in
           if result = SYS_OK then
             (- 1, c\<lparr>chan_held_fd := fd, chan_held_until := now + CHANNEL_HOLD_MS, chan_held_pause := 1, chan_held_check := now + 1\<rparr>)
           else (fd, c)
         else (fd, c))
      in (- 1, tell (Chan_close fd) c))"

definition check_held :: "channel_env \<Rightarrow> egress_channel \<Rightarrow> egress_channel" where
  "check_held E c =
     (if \<not> channel_apple E \<or> chan_held_fd c < 0 then c
      else
        let c = tell Chan_clock c; (result, now) = channel_clock E (chan_trace c) in
        if result \<noteq> SYS_OK \<or> chan_held_until c \<le> now then release_held c
        else
          let (in_use, c) = held_in_use E c in
          if in_use then release_held c
          else if chan_held_check c \<le> now then
            let pause = (if chan_held_pause c < CHANNEL_HOLD_PAUSE_MAX_MS then chan_held_pause c * 2 else chan_held_pause c) in
            c\<lparr>chan_held_pause := pause,
              chan_held_check := (if chan_held_until c < now + pause then chan_held_until c else now + pause)\<rparr>
          else c)"

definition request_status :: "bytes \<Rightarrow> receive_flag set \<Rightarrow> channel_status \<times> channel_request option" where
  "request_status datagram flags =
     (if flags \<noteq> {} then (CHANNEL_MALFORMED, None)
      else let (status, decoded, reason) = maelys_egress_channel_decode_request (Some datagram) True in (status, decoded))"

text \<open>Status, stream and session.\<close>

definition open_request ::
  "channel_env \<Rightarrow> kernel \<Rightarrow> channel_request \<Rightarrow> egress_channel \<Rightarrow> egress_server \<Rightarrow>
     (channel_status \<times> int \<times> egress_session option \<times> egress_channel \<times> egress_server) option" where
  "open_request E K decoded c s =
     (case maelys_egress_connector_session_open K (channel_reactor E (chan_trace c)) (channel_alloc E (chan_trace c)) True
        (chan_connector c) (Some (chreq_host decoded)) (chreq_port decoded) (chan_timeout c) s of
        None \<Rightarrow> None
      | Some (result, session, s) \<Rightarrow>
          let (result, fd, session) = (if result = EGRESS_OK then maelys_egress_session_take_fd session True else (result, - 1, session))
          in Some (status_of result, fd, session, (if 0 \<le> fd then tell (Chan_stream fd) c else c), s))"

definition answer_request ::
  "channel_env \<Rightarrow> kernel \<Rightarrow> bytes \<Rightarrow> receive_flag set \<Rightarrow> egress_channel \<Rightarrow> egress_server \<Rightarrow>
     (channel_status \<times> int \<times> egress_session option \<times> egress_channel \<times> egress_server) option" where
  "answer_request E K datagram flags c s =
     (case request_status datagram flags of
        (CHANNEL_OK, Some decoded) \<Rightarrow> open_request E K decoded c s
      | (status, _) \<Rightarrow> Some (status, - 1, None, c, s))"

definition serve_one :: "channel_env \<Rightarrow> kernel \<Rightarrow> egress_channel \<Rightarrow> egress_server \<Rightarrow> (bool \<times> egress_channel \<times> egress_server) option" where
  "serve_one E K c s =
     (let c = tell (Chan_receive (chan_server_fd c) (MAELYS_EGRESS_CHANNEL_REQUEST_MAX_SIZE + 1)) c;
          (got, datagram, flags) = channel_receive E (chan_trace c)
      in if got = SYS_ERR_WOULD_BLOCK then Some (True, c, s)
         else if got \<noteq> SYS_OK then Some (False, c, s)
         else
           case answer_request E K (take (MAELYS_EGRESS_CHANNEL_REQUEST_MAX_SIZE + 1) datagram) flags (release_held c) s of
             None \<Rightarrow> None
           | Some (status, fd, session, c, s) \<Rightarrow>
               let (delivered, c) = send_response E status fd c;
                   (fd, c) = (if delivered then hold_stream E fd c else (fd, c));
                   c = tell (Chan_close fd) c;
                   c = (case maelys_egress_session_release session of None \<Rightarrow> c | Some fd \<Rightarrow> tell (Chan_close fd) c)
               in Some (delivered, c, s))"

section \<open>The thread\<close>

definition report_armed :: "sys_result \<Rightarrow> egress_channel \<Rightarrow> egress_channel" where
  "report_armed result c = c\<lparr>chan_armed := Some result\<rparr>"

text \<open>The part of \<^verbatim>\<open>channel_main\<close> before the loop.\<close>

definition channel_arm :: "channel_env \<Rightarrow> egress_channel \<Rightarrow> egress_channel" where
  "channel_arm E c =
     (let c = tell Chan_loop_create c; armed = channel_result E (chan_trace c);
          c = c\<lparr>chan_loop := (armed = SYS_OK)\<rparr>;
          (armed, c) = (if armed = SYS_OK then
              let c = tell (Chan_watch (chan_server_fd c) CHANNEL_TOKEN_REQUESTS) c; (result, watch) = channel_watch E (chan_trace c)
              in (result, c\<lparr>chan_requests_watch := watch\<rparr>)
            else (armed, c));
          (armed, c) = (if armed = SYS_OK then
              let c = tell (Chan_watch (channel_wakeup_fd E) CHANNEL_TOKEN_WAKEUP) c; (result, watch) = channel_watch E (chan_trace c)
              in (result, c\<lparr>chan_wakeup_watch := watch\<rparr>)
            else (armed, c))
      in report_armed armed c)"

definition channel_event ::
  "channel_env \<Rightarrow> kernel \<Rightarrow> u64 \<times> flag set \<Rightarrow> egress_channel \<Rightarrow> egress_server \<Rightarrow> (bool \<times> egress_channel \<times> egress_server) option" where
  "channel_event E K event c s =
     (let (token, flags) = event in
      if token = CHANNEL_TOKEN_WAKEUP then Some (False, c, s)
      else if token = CHANNEL_TOKEN_REQUESTS then
        (case (if FLAG_READ \<in> flags then serve_one E K c s else Some (True, c, s)) of
           None \<Rightarrow> None
         | Some (serving, c, s) \<Rightarrow> Some (serving \<and> FLAG_HUP \<notin> flags \<and> FLAG_ERROR \<notin> flags, c, s))
      else Some (True, c, s))"

fun channel_events ::
  "channel_env \<Rightarrow> kernel \<Rightarrow> (u64 \<times> flag set) list \<Rightarrow> egress_channel \<Rightarrow> egress_server \<Rightarrow> (bool \<times> egress_channel \<times> egress_server) option" where
  "channel_events E K [] c s = Some (True, c, s)"
| "channel_events E K (event # events) c s =
     (case channel_event E K event c s of
        None \<Rightarrow> None
      | Some (serving, c, s) \<Rightarrow> if serving then channel_events E K events c s else Some (False, c, s))"

partial_function (option) channel_loop ::
  "channel_env \<Rightarrow> kernel \<Rightarrow> egress_channel \<Rightarrow> egress_server \<Rightarrow> (egress_channel \<times> egress_server) option" where
  "channel_loop E K c s =
     (let c = check_held E c;
          c = tell (Chan_step (if 0 \<le> chan_held_fd c then chan_held_check c else k_infinite K)) c;
          (result, events) = channel_step E (chan_trace c)
      in if result \<noteq> SYS_OK then Some (c, s)
         else
           case channel_events E K (take 4 events) c s of
             None \<Rightarrow> None
           | Some (serving, c, s) \<Rightarrow> if serving then channel_loop E K c s else Some (c, s))"

text \<open>The rest of \<^verbatim>\<open>channel_main\<close>, from the loop on.\<close>

definition channel_close :: "egress_channel \<Rightarrow> egress_channel" where
  "channel_close c =
     (let c = (if chan_loop c then
            let c = (if chan_wakeup_watch c \<noteq> 0 then tell (Chan_unwatch (chan_wakeup_watch c)) c else c);
                c = (if chan_requests_watch c \<noteq> 0 then tell (Chan_unwatch (chan_requests_watch c)) c else c)
            in (tell Chan_loop_destroy c)\<lparr>chan_loop := False\<rparr>
          else c);
          c = release_held c
      in (tell (Chan_close (chan_server_fd c)) c)\<lparr>chan_server_fd := - 1\<rparr>)"

definition channel_serve :: "channel_env \<Rightarrow> kernel \<Rightarrow> egress_channel \<Rightarrow> egress_server \<Rightarrow> (egress_channel \<times> egress_server) option" where
  "channel_serve E K c s =
     (case (if chan_armed c = Some SYS_OK then channel_loop E K c s else Some (c, s)) of
        None \<Rightarrow> None
      | Some (c, s) \<Rightarrow> Some (channel_close c, s))"

section \<open>Creation and destruction\<close>

definition egress_channel_stop :: "egress_channel option \<Rightarrow> egress_channel option" where
  "egress_channel_stop channel = map_option (\<lambda>c. if chan_thread c then tell Chan_wake c else c) channel"

text \<open>
  Joining the thread lets it run to its end. The connector is released last; the server is \<open>None\<close> when
  that was its last reference.
\<close>

definition channel_join :: "channel_env \<Rightarrow> kernel \<Rightarrow> egress_channel \<Rightarrow> egress_server \<Rightarrow> (egress_channel \<times> egress_server) option" where
  "channel_join E K c s =
     (if chan_thread c then
        (case channel_serve E K (tell Chan_wake c) s of
           None \<Rightarrow> None
         | Some (c, s) \<Rightarrow> Some ((tell Chan_join c)\<lparr>chan_thread := False\<rparr>, s))
      else Some (c, s))"

definition maelys_egress_channel_destroy ::
  "channel_env \<Rightarrow> kernel \<Rightarrow> egress_channel \<Rightarrow> egress_server \<Rightarrow>
     (egress_channel \<times> egress_connector option \<times> egress_server option) option" where
  "maelys_egress_channel_destroy E K c s =
     (case channel_join E K c s of
        None \<Rightarrow> None
      | Some (c, s) \<Rightarrow>
          let c = release_held c;
              c = (tell (Chan_close (chan_server_fd c)) c)\<lparr>chan_server_fd := - 1\<rparr>
          in Some (c, maelys_egress_connector_release (chan_connector c) s))"

definition channel_zero :: "u64 \<Rightarrow> egress_channel" where
  "channel_zero timeout =
     \<lparr>chan_connector = None, chan_timeout = timeout, chan_server_fd = - 1, chan_thread = False, chan_armed = None, chan_held_fd = - 1,
      chan_held_until = 0, chan_held_check = 0, chan_held_pause = 0, chan_loop = False, chan_requests_watch = 0, chan_wakeup_watch = 0,
      chan_trace = []\<rparr>"

text \<open>The steps of the creation, each of which may fail: whether they succeeded, the two ends, and the channel.\<close>

definition channel_start :: "channel_env \<Rightarrow> egress_connector \<Rightarrow> egress_channel \<Rightarrow> bool \<times> int \<times> egress_channel" where
  "channel_start E connector c =
     (let c = tell Chan_pair c; (result, server_fd, peer_fd) = channel_pair E (chan_trace c) in
      if result \<noteq> SYS_OK then (False, - 1, c)
      else
        let c = tell (Chan_nonblocking server_fd) (c\<lparr>chan_server_fd := server_fd\<rparr>) in
        if channel_result E (chan_trace c) \<noteq> SYS_OK then (False, peer_fd, c)
        else
          let c = tell Chan_wakeup_create c in
          if channel_result E (chan_trace c) \<noteq> SYS_OK then (False, peer_fd, c)
          else
            let c = tell Chan_mutex_create c in
            if channel_result E (chan_trace c) \<noteq> SYS_OK then (False, peer_fd, c)
            else
              let c = tell Chan_condition_create c in
              if channel_result E (chan_trace c) \<noteq> SYS_OK then (False, peer_fd, c)
              else
                let c = tell Chan_thread_create (c\<lparr>chan_connector := maelys_egress_connector_retain (Some connector)\<rparr>) in
                if channel_result E (chan_trace c) \<noteq> SYS_OK then (False, peer_fd, c)
                else
                  let c = channel_arm E (c\<lparr>chan_thread := True\<rparr>) in
                  (chan_armed c = Some SYS_OK, peer_fd, c))"

text \<open>
  Result, channel, the descriptor of the client, and the server unless its last reference was released.
  The channel is returned with the thread at the start of its loop.
\<close>

definition maelys_egress_channel_create ::
  "channel_env \<Rightarrow> kernel \<Rightarrow> egress_connector option \<Rightarrow> u64 \<Rightarrow> bool \<Rightarrow> egress_server \<Rightarrow>
     (egress_result \<times> egress_channel option \<times> int \<times> egress_server option) option" where
  "maelys_egress_channel_create E K connector timeout outputs s =
     (case connector of
        None \<Rightarrow> Some (ERR_ARGUMENT, None, - 1, Some s)
      | Some n \<Rightarrow>
          if timeout = 0 \<or> \<not> outputs then Some (ERR_ARGUMENT, None, - 1, Some s)
          else if \<not> channel_alloc E [] then Some (ERR_MEMORY, None, - 1, Some s)
          else
            case channel_start E n (channel_zero timeout) of
              (True, peer_fd, c) \<Rightarrow> Some (EGRESS_OK, Some c, peer_fd, Some s)
            | (False, peer_fd, c) \<Rightarrow>
                (case maelys_egress_channel_destroy E K (tell (Chan_close peer_fd) c) s of
                   None \<Rightarrow> None
                 | Some (c, connector, server) \<Rightarrow> Some (ERR_IO, None, - 1, server)))"

section \<open>Descriptors\<close>

text \<open>
  The streams that a channel took over, and the descriptors that it closed: closing the descriptor \<open>-1\<close>
  has no effect.
\<close>

definition live_fd :: "int \<Rightarrow> int multiset" where
  "live_fd fd = (if 0 \<le> fd then {#fd#} else {#})"

fun streams_of :: "channel_trace \<Rightarrow> int multiset" where
  "streams_of [] = {#}"
| "streams_of (Chan_stream fd # tr) = {#fd#} + streams_of tr"
| "streams_of (_ # tr) = streams_of tr"

fun closed_of :: "channel_trace \<Rightarrow> int multiset" where
  "closed_of [] = {#}"
| "closed_of (Chan_close fd # tr) = live_fd fd + closed_of tr"
| "closed_of (_ # tr) = closed_of tr"

text \<open>What was taken over and is not closed yet is held, besides a set of descriptors known from elsewhere.\<close>

definition balanced :: "int multiset \<Rightarrow> egress_channel \<Rightarrow> bool" where
  "balanced F c \<longleftrightarrow>
     closed_of (chan_trace c) + live_fd (chan_held_fd c) + live_fd (chan_server_fd c) = streams_of (chan_trace c) + F"

lemma live_fd_none [simp]: "live_fd (- 1) = {#}"
  by (simp add: live_fd_def)

lemma tell_simps [simp]:
  "chan_trace (tell x c) = x # chan_trace c" "chan_held_fd (tell x c) = chan_held_fd c" "chan_server_fd (tell x c) = chan_server_fd c"
  "chan_connector (tell x c) = chan_connector c" "chan_armed (tell x c) = chan_armed c" "chan_thread (tell x c) = chan_thread c"
  "chan_timeout (tell x c) = chan_timeout c"
  by (simp_all add: tell_def)

text \<open>What the operations of the thread keep, while a descriptor is in a variable of the thread.\<close>

definition carried :: "int \<Rightarrow> egress_channel \<Rightarrow> egress_channel \<Rightarrow> bool" where
  "carried fd c d \<longleftrightarrow>
     chan_connector d = chan_connector c \<and> chan_server_fd d = chan_server_fd c \<and> chan_armed d = chan_armed c \<and>
     chan_thread d = chan_thread c \<and> chan_timeout d = chan_timeout c \<and> length (chan_trace c) \<le> length (chan_trace d) \<and>
     closed_of (chan_trace d) + live_fd (chan_held_fd d) + live_fd fd + streams_of (chan_trace c) =
     closed_of (chan_trace c) + live_fd (chan_held_fd c) + streams_of (chan_trace d)"

abbreviation kept :: "egress_channel \<Rightarrow> egress_channel \<Rightarrow> bool" where
  "kept \<equiv> carried (- 1)"

lemma kept_refl [simp]: "kept c c"
  by (simp add: carried_def)

lemma exchange:
  fixes A B C S T U :: "'a multiset"
  assumes "B + S = C + U" "A + U = B + T"
  shows "A + S = C + T"
proof -
  have "(A + S) + U = (A + U) + S" by (simp add: ac_simps)
  also have "\<dots> = (B + S) + T" using assms(2) by (simp add: ac_simps)
  also have "\<dots> = (C + T) + U" using assms(1) by (simp add: ac_simps)
  finally show ?thesis by simp
qed

lemma carried_trans: "kept c d \<Longrightarrow> carried fd d e \<Longrightarrow> carried fd c e"
  unfolding carried_def by (auto intro: exchange)

lemma kept_balanced:
  assumes "kept c d" "balanced F c"
  shows "balanced F d"
proof -
  let ?X = "\<lambda>c. closed_of (chan_trace c) + live_fd (chan_held_fd c)"
  have "?X d + streams_of (chan_trace c) = ?X c + streams_of (chan_trace d)" "chan_server_fd d = chan_server_fd c"
    using assms(1) by (simp_all add: carried_def)
  moreover have "?X c + live_fd (chan_server_fd c) = F + streams_of (chan_trace c)" using assms(2) by (simp add: balanced_def ac_simps)
  ultimately have "(?X d + live_fd (chan_server_fd d)) = F + streams_of (chan_trace d)"
    using exchange[of "?X c" "live_fd (chan_server_fd c)" F "streams_of (chan_trace c)" "?X d" "streams_of (chan_trace d)"] by simp
  then show ?thesis by (simp add: balanced_def ac_simps)
qed

lemma carried_tell:
  "carried fd c d \<Longrightarrow> carried fd c (tell (Chan_send x r y) d)" "carried fd c d \<Longrightarrow> carried fd c (tell (Chan_receive x n) d)"
  "carried fd c d \<Longrightarrow> carried fd c (tell Chan_clock d)" "carried fd c d \<Longrightarrow> carried fd c (tell (Chan_usage x) d)"
  "carried fd c d \<Longrightarrow> carried fd c (tell (Chan_step u) d)" "carried fd c d \<Longrightarrow> carried fd c (tell Chan_wake d)"
  by (simp_all add: carried_def)

lemma carried_stream: "kept c d \<Longrightarrow> 0 \<le> fd \<Longrightarrow> carried fd c (tell (Chan_stream fd) d)"
  by (simp add: carried_def live_fd_def)

lemma carried_close: "carried fd c d \<Longrightarrow> kept c (tell (Chan_close fd) d)" "carried fd c d \<Longrightarrow> x < 0 \<Longrightarrow> carried fd c (tell (Chan_close x) d)"
  by (simp_all add: carried_def live_fd_def ac_simps)

lemma carried_pause:
  "carried fd c (d\<lparr>chan_held_pause := p\<rparr>) = carried fd c d" "carried fd c (d\<lparr>chan_held_check := k\<rparr>) = carried fd c d"
  by (simp_all add: carried_def)

lemma carried_hold: "carried fd c d \<Longrightarrow> chan_held_fd d = - 1 \<Longrightarrow>
    kept c (d\<lparr>chan_held_fd := fd, chan_held_until := u, chan_held_pause := p, chan_held_check := k\<rparr>)"
  by (simp add: carried_def)

lemma kept_release_held: "kept c d \<Longrightarrow> kept c (release_held d)"
  by (simp add: carried_def release_held_def ac_simps)

lemma kept_check_held: "kept c d \<Longrightarrow> kept c (check_held E d)"
  by (auto simp: check_held_def held_in_use_def Let_def carried_pause split: prod.split intro!: kept_release_held carried_tell)

lemma carried_hold_stream:
  assumes "hold_stream E fd d = (fd', e)" "carried fd c d" "chan_held_fd d = - 1"
  shows "fd' = - 1 \<and> kept c e"
  using assms(1) carried_close[OF assms(2)] carried_close[OF carried_tell(3)[OF assms(2)]]
    carried_close(2)[OF carried_hold[OF carried_tell(3)[OF assms(2)]]] assms(3)
  by (auto simp: hold_stream_def Let_def split: if_splits prod.splits)

section \<open>Answers\<close>

lemma take_fd_cases:
  assumes "maelys_egress_session_take_fd session output = (result, fd, session')"
  shows "result = EGRESS_OK \<longleftrightarrow> 0 \<le> fd" "output \<Longrightarrow> maelys_egress_session_release session' = Some x \<Longrightarrow> x < 0"
  using assms by (auto simp: maelys_egress_session_take_fd_def maelys_egress_session_release_def split: option.splits if_splits)

lemma status_of_OK: "status_of result = CHANNEL_OK \<longleftrightarrow> result = EGRESS_OK"
  by (cases result) simp_all

lemma session_open_result:
  assumes "maelys_egress_connector_session_open K others malloc_ok True connector host port timeout s = Some (result, session, t)"
  shows "session \<noteq> None \<longleftrightarrow> result = EGRESS_OK"
  using assms by (auto simp: maelys_egress_connector_session_open_def split: option.splits if_splits)

lemma open_request_carried:
  assumes "open_request E K decoded c s = Some (status, fd, session, d, t)" "kept b c"
  shows "carried fd b d" "chan_held_fd d = chan_held_fd c" "status = CHANNEL_OK \<longleftrightarrow> 0 \<le> fd"
    "maelys_egress_session_release session = Some x \<Longrightarrow> x < 0"
proof -
  obtain result0 session0 result where opened: "maelys_egress_connector_session_open K (channel_reactor E (chan_trace c)) (channel_alloc E (chan_trace c)) True
      (chan_connector c) (Some (chreq_host decoded)) (chreq_port decoded) (chan_timeout c) s = Some (result0, session0, t)"
    and taken: "(if result0 = EGRESS_OK then maelys_egress_session_take_fd session0 True else (result0, - 1, session0)) = (result, fd, session)"
    and status: "status = status_of result" and d: "d = (if 0 \<le> fd then tell (Chan_stream fd) c else c)"
    using assms(1) by (auto simp: open_request_def Let_def split: option.splits prod.splits)
  show "carried fd b d" "chan_held_fd d = chan_held_fd c"
    using assms(2) carried_stream[OF assms(2)] by (auto simp: d carried_def live_fd_def)
  show "status = CHANNEL_OK \<longleftrightarrow> 0 \<le> fd"
    using taken take_fd_cases(1) by (auto simp: status status_of_OK split: if_splits)
  show "x < 0" if "maelys_egress_session_release session = Some x"
    using taken take_fd_cases(2)[of session0 True _ _ session x] that session_open_result[OF opened]
    by (auto simp: maelys_egress_session_release_def split: if_splits)
qed

lemma request_status_Some: "request_status datagram flags = (CHANNEL_OK, r) \<Longrightarrow> r \<noteq> None"
  by (auto simp: request_status_def maelys_egress_channel_decode_request_def Let_def split: if_splits prod.splits)

lemma answer_carried:
  assumes "answer_request E K datagram flags c s = Some (status, fd, session, d, t)" "kept b c" "chan_held_fd c = - 1"
  shows "carried fd b d" "chan_held_fd d = - 1" "status = CHANNEL_OK \<longleftrightarrow> 0 \<le> fd"
    "maelys_egress_session_release session = Some x \<Longrightarrow> x < 0"
  using assms(1,3) open_request_carried[OF _ assms(2)] assms(2) request_status_Some[of datagram flags]
  by (auto simp: answer_request_def maelys_egress_session_release_def split: prod.splits channel_status.splits option.splits)

lemma serve_one_kept:
  assumes "serve_one E K c s = Some (delivered, d, t)"
  shows "kept c d"
proof -
  define c1 where "c1 = tell (Chan_receive (chan_server_fd c) (MAELYS_EGRESS_CHANNEL_REQUEST_MAX_SIZE + 1)) c"
  have k1: "kept c c1" unfolding c1_def by (intro carried_tell kept_refl)
  obtain got datagram flags where got: "channel_receive E (chan_trace c1) = (got, datagram, flags)" by (metis prod_cases3)
  note run = assms[unfolded serve_one_def Let_def c1_def[symmetric] got prod.case]
  show ?thesis
  proof (cases "got = SYS_OK")
    case True
    obtain status fd session c2 s2 where answer: "answer_request E K (take (MAELYS_EGRESS_CHANNEL_REQUEST_MAX_SIZE + 1) datagram) flags
        (release_held c1) s = Some (status, fd, session, c2, s2)"
      using run True by (auto split: option.splits)
    note a = answer_carried[OF answer kept_release_held[OF k1]]
    have held: "chan_held_fd (release_held c1) = - 1" by (simp add: release_held_def)
    obtain c3 where c3: "send_response E status fd c2 = (delivered, c3)" using run True answer by (auto split: prod.splits)
    have k3: "carried fd c c3" "chan_held_fd c3 = - 1"
      using c3 a(1,2)[OF held] by (auto simp: send_response_def Let_def intro: carried_tell split: if_splits)
    obtain fd' c4 where c4: "(if delivered then hold_stream E fd c3 else (fd, c3)) = (fd', c4)" by fastforce
    have k4: "carried fd' c c4" using c4 k3(1) carried_hold_stream[OF _ k3] by (cases delivered) auto
    have "kept c (case maelys_egress_session_release session of None \<Rightarrow> tell (Chan_close fd') c4
        | Some x \<Rightarrow> tell (Chan_close x) (tell (Chan_close fd') c4))"
      using carried_close(1)[OF k4] carried_close(2)[OF carried_close(1)[OF k4]] a(4)[OF held] by (auto split: option.split)
    then show ?thesis using run unfolding answer by (simp add: True c3 c4)
  qed (use run k1 in \<open>auto split: if_splits\<close>)
qed

lemma channel_event_kept: "channel_event E K e c s = Some (serving, d, t) \<Longrightarrow> kept c d"
  by (auto simp: channel_event_def split: prod.splits if_splits option.splits intro: serve_one_kept)

lemma channel_events_kept: "channel_events E K es c s = Some (serving, d, t) \<Longrightarrow> kept c d"
  by (induction es arbitrary: c s) (auto split: option.splits if_splits intro: channel_event_kept carried_trans[OF channel_event_kept])

section \<open>The thread ends\<close>

text \<open>
  The environment of a channel: the laws of the kernel, deadlines that pass, and threads that do what the threads of a server do. The thread ends when the
  wakeup arrives, or the reactor of the channel fails, once so many calls were made.
\<close>

definition channel_env_ok :: "channel_env \<Rightarrow> kernel \<Rightarrow> u64 \<Rightarrow> bool" where
  "channel_env_ok E K timeout \<longleftrightarrow>
     kernel_ok K \<and> deadlines_pass K \<and> finite_deadlines K 5000 \<and> finite_deadlines K timeout \<and> (\<forall>tr s. worked K s (channel_reactor E tr s))"

definition wakeup_comes :: "channel_env \<Rightarrow> nat \<Rightarrow> bool" where
  "wakeup_comes E n \<longleftrightarrow> (\<forall>tr u result events. n \<le> length tr \<and> channel_step E (Chan_step u # tr) = (result, events) \<longrightarrow>
     result \<noteq> SYS_OK \<or> CHANNEL_TOKEN_WAKEUP \<in> fst ` set (take 4 events))"

text \<open>A state that is reached after another one; policies may have been replaced meanwhile.\<close>

definition reached :: "kernel \<Rightarrow> egress_policy set \<Rightarrow> egress_server \<Rightarrow> bool" where
  "reached K Ps t \<longleftrightarrow> (\<exists>Qs. Ps \<subseteq> Qs \<and> reach K Qs t)"

lemma reach_reached: "reach K Ps t \<Longrightarrow> reached K Ps t"
  by (auto simp: reached_def)

lemma session_open_returns:
  assumes "channel_env_ok E K timeout" "reached K Ps s"
  shows "\<exists>result session t. maelys_egress_connector_session_open K (channel_reactor E tr) malloc_ok True connector host port timeout s =
    Some (result, session, t) \<and> reached K Ps t"
proof -
  have env: "deadlines_pass K" "finite_deadlines K 5000" "finite_deadlines K timeout" "kernel_ok K" "\<And>s. worked K s (channel_reactor E tr s)"
    using assms(1) by (auto simp: channel_env_ok_def)
  obtain Qs where Qs: "Ps \<subseteq> Qs" "reach K Qs s" using assms(2) by (auto simp: reached_def)
  show ?thesis
  proof (cases "connector = None \<or> host = None")
    case True
    then show ?thesis using assms(2) by (auto simp: maelys_egress_connector_session_open_def split: option.split)
  next
    case False
    then obtain n h where nh: "connector = Some n" "host = Some h" by auto
    obtain result fd t Rs where t: "egress_server_open_stream K (channel_reactor E tr) (Some (connector_principal_index n)) (Some (connector_principal n))
        (Some (connector_invocation_id n)) host port timeout s = Some (result, fd, t)" "Qs \<subseteq> Rs" "reach K Rs t"
      using open_stream_returns[OF env Qs(2)] by blast
    have "reached K Ps t" using t(2,3) Qs(1) by (auto simp: reached_def)
    then show ?thesis using assms(2) t(1) by (simp add: maelys_egress_connector_session_open_def nh)
  qed
qed

lemma serve_one_returns:
  assumes "channel_env_ok E K (chan_timeout c)" "reached K Ps s"
  shows "\<exists>delivered d t. serve_one E K c s = Some (delivered, d, t) \<and> reached K Ps t"
proof -
  define c1 where "c1 = tell (Chan_receive (chan_server_fd c) (MAELYS_EGRESS_CHANNEL_REQUEST_MAX_SIZE + 1)) c"
  have env: "channel_env_ok E K (chan_timeout (release_held c1))" using assms(1) by (simp add: c1_def release_held_def)
  have opened: "\<exists>status fd session d t. open_request E K decoded (release_held c1) s = Some (status, fd, session, d, t) \<and> reached K Ps t" for decoded
    using session_open_returns[OF env assms(2), of "chan_trace (release_held c1)" "channel_alloc E (chan_trace (release_held c1))"
        "chan_connector (release_held c1)" "Some (chreq_host decoded)" "chreq_port decoded"]
    by (auto simp: open_request_def Let_def split: prod.split)
  have answered: "\<exists>status fd session d t. answer_request E K datagram flags (release_held c1) s = Some (status, fd, session, d, t) \<and> reached K Ps t"
    for datagram flags
    using opened assms(2) by (auto simp: answer_request_def split: prod.split channel_status.split option.split)
  obtain got datagram flags where got: "channel_receive E (chan_trace c1) = (got, datagram, flags)" by (metis prod_cases3)
  obtain status fd session d t where answer: "answer_request E K (take (MAELYS_EGRESS_CHANNEL_REQUEST_MAX_SIZE + 1) datagram) flags
      (release_held c1) s = Some (status, fd, session, d, t)" and t: "reached K Ps t" using answered by blast
  show ?thesis
    unfolding serve_one_def Let_def c1_def[symmetric] got prod.case answer option.case using assms(2) t by (auto split: prod.split)
qed

lemma channel_event_returns:
  assumes "channel_env_ok E K (chan_timeout c)" "reached K Ps s"
  shows "\<exists>serving d t. channel_event E K e c s = Some (serving, d, t) \<and> reached K Ps t"
  using serve_one_returns[OF assms] assms(2) by (auto simp: channel_event_def split: prod.split)

lemma channel_events_return:
  "channel_env_ok E K (chan_timeout c) \<Longrightarrow> reached K Ps s \<Longrightarrow> \<exists>serving d t. channel_events E K es c s = Some (serving, d, t) \<and> reached K Ps t \<and>
    (CHANNEL_TOKEN_WAKEUP \<in> fst ` set es \<longrightarrow> \<not> serving)"
proof (induction es arbitrary: c s)
  case (Cons e es)
  obtain serving d t where step: "channel_event E K e c s = Some (serving, d, t)" "reached K Ps t"
    using channel_event_returns[OF Cons.prems] by blast
  have "chan_timeout d = chan_timeout c" using channel_event_kept[OF step(1)] by (simp add: carried_def)
  moreover have "\<not> serving" if "fst e = CHANNEL_TOKEN_WAKEUP" using step(1) that by (auto simp: channel_event_def split: prod.splits)
  ultimately show ?case using Cons.IH[of d t] Cons.prems(1) step by auto
qed (auto intro: exI[of _ True])

lemma channel_loop_returns:
  assumes "wakeup_comes E n" "channel_env_ok E K (chan_timeout c)" "reached K Ps s"
  shows "\<exists>d t. channel_loop E K c s = Some (d, t) \<and> reached K Ps t \<and> kept c d"
  using assms(2,3)
proof (induction "n - length (chan_trace c)" arbitrary: c s rule: less_induct)
  case less
  define c1 where "c1 = check_held E c"
  define call where "call = Chan_step (if 0 \<le> chan_held_fd c1 then chan_held_check c1 else k_infinite K)"
  obtain result events where ans: "channel_step E (chan_trace (tell call c1)) = (result, events)" by fastforce
  have k: "kept c (tell call c1)" unfolding call_def c1_def by (intro carried_tell kept_check_held kept_refl)
  have k1: "kept c c1" unfolding c1_def by (intro kept_check_held kept_refl)
  have "channel_env_ok E K (chan_timeout (tell call c1))" using less.prems(1) k by (simp add: carried_def)
  then obtain serving d t where ev: "channel_events E K (take 4 events) (tell call c1) s = Some (serving, d, t)" "reached K Ps t"
    "CHANNEL_TOKEN_WAKEUP \<in> fst ` set (take 4 events) \<Longrightarrow> \<not> serving"
    using channel_events_return[OF _ less.prems(2), of E "tell call c1" "take 4 events"] by blast
  have kd: "kept c d" by (rule carried_trans[OF k channel_events_kept[OF ev(1)]])
  have run: "channel_loop E K c s = (if result \<noteq> SYS_OK then Some (tell call c1, s) else if serving then channel_loop E K d t else Some (d, t))"
    by (subst channel_loop.simps) (simp add: Let_def c1_def[symmetric] call_def[symmetric] ans[simplified] ev(1))
  show ?case
  proof (cases "result = SYS_OK \<and> serving")
    case True
    then have "length (chan_trace c1) < n"
      using assms(1) ans ev(3) by (auto simp: wakeup_comes_def call_def not_le[symmetric])
    moreover have "length (chan_trace c1) < length (chan_trace d)"
      using channel_events_kept[OF ev(1)] by (simp add: carried_def)
    ultimately have "n - length (chan_trace d) < n - length (chan_trace c)" using k1 by (auto simp: carried_def)
    moreover have "channel_env_ok E K (chan_timeout d)" using less.prems(1) kd by (simp add: carried_def)
    ultimately show ?thesis using less.hyps[OF _ _ ev(2)] run True carried_trans[OF kd] by fastforce
  qed (use run less.prems k kd ev(2) in auto)
qed

section \<open>Properties\<close>

lemma armed_channel:
  "chan_connector (channel_arm E c) = chan_connector c" "chan_thread (channel_arm E c) = chan_thread c"
  "chan_server_fd (channel_arm E c) = chan_server_fd c" "chan_held_fd (channel_arm E c) = chan_held_fd c" "chan_timeout (channel_arm E c) = chan_timeout c"
  "streams_of (chan_trace (channel_arm E c)) = streams_of (chan_trace c)" "closed_of (chan_trace (channel_arm E c)) = closed_of (chan_trace c)"
  by (auto simp: channel_arm_def report_armed_def Let_def split: prod.splits)

lemma started_channel:
  assumes "channel_start E n (channel_zero timeout) = (True, fd, c)"
  shows "chan_connector c = maelys_egress_connector_retain (Some n)" "chan_thread c" "chan_armed c = Some SYS_OK" "chan_timeout c = timeout"
    "balanced (live_fd (chan_server_fd c)) c"
  using assms by (auto simp: channel_start_def channel_zero_def balanced_def armed_channel Let_def split: prod.splits if_splits)

lemma closed_channel:
  assumes "balanced F c"
  shows "chan_held_fd (channel_close c) = - 1" "chan_server_fd (channel_close c) = - 1" "chan_connector (channel_close c) = chan_connector c"
    "closed_of (chan_trace (channel_close c)) = streams_of (chan_trace (channel_close c)) + F"
  using assms by (auto simp: channel_close_def release_held_def balanced_def Let_def ac_simps)

fun sent_of :: "channel_trace \<Rightarrow> (bytes \<times> int) list" where
  "sent_of [] = []"
| "sent_of (Chan_send x response fd # tr) = (response, fd) # sent_of tr"
| "sent_of (_ # tr) = sent_of tr"

abbreviation response_of :: "channel_status \<Rightarrow> bytes" where
  "response_of status \<equiv> maelys_egress_channel_encode_response (channel_status_code status) (Some MAELYS_EGRESS_CHANNEL_RESPONSE_SIZE)"

lemma response_length: "length (response_of status) = MAELYS_EGRESS_CHANNEL_RESPONSE_SIZE"
  by (cases status) (simp_all add: maelys_egress_channel_encode_response_def channel_constants channel_write_u32_def)

lemma sent_response: "send_response E status fd c = (delivered, d) \<Longrightarrow> sent_of (chan_trace d) = (response_of status, fd) # sent_of (chan_trace c)"
  by (auto simp: send_response_def response_length Let_def)

lemma sent_hold: "hold_stream E fd c = (fd', d) \<Longrightarrow> sent_of (chan_trace d) = sent_of (chan_trace c)"
  by (auto simp: hold_stream_def Let_def split: if_splits prod.splits)

text \<open>
  A stream that was opened for a destination: the connector submitted a command for the host and the port under its principal, and the call returned the stream after
  the loop of the server had worked on this command.
\<close>

definition stream_opened ::
  "kernel \<Rightarrow> (egress_server \<Rightarrow> egress_server) \<Rightarrow> egress_connector \<Rightarrow> bytes \<Rightarrow> u16 \<Rightarrow> u64 \<Rightarrow> egress_server \<Rightarrow> int \<Rightarrow> egress_server \<Rightarrow> bool" where
  "stream_opened K others n host port timeout s fd t \<longleftrightarrow>
     (\<exists>command deadline u cmd result v.
        open_stream_submit K (Some (connector_principal_index n)) (Some (connector_principal n)) (Some (connector_invocation_id n))
          (Some host) port timeout s = Some (Inr (command, deadline), u) \<and>
        open_commands u command = Some cmd \<and> \<not> cmd_completed cmd \<and> cmd_host cmd = host \<and> cmd_port cmd = port \<and>
        cmd_principal_index cmd = Some (connector_principal_index n) \<and>
        open_stream_wait K others command deadline (others u) = Some (result, v) \<and>
        open_stream_finish K command result v = Some (EGRESS_OK, fd, t))"

lemma open_stream_opened:
  assumes "egress_server_open_stream K others (Some (connector_principal_index n)) (Some (connector_principal n)) (Some (connector_invocation_id n))
      (Some host) port timeout s = Some (EGRESS_OK, fd, t)" "length host \<le> 253"
  shows "stream_opened K others n host port timeout s fd t"
proof -
  have "open_stream_submit K (Some (connector_principal_index n)) (Some (connector_principal n)) (Some (connector_invocation_id n))
      (Some host) port timeout s \<noteq> Some (Inl EGRESS_OK, u)" for u
    by (auto simp: open_stream_submit_def queue_command_def Let_def split: option.splits prod.splits if_splits)
  then obtain command deadline u result v where run:
      "open_stream_submit K (Some (connector_principal_index n)) (Some (connector_principal n)) (Some (connector_invocation_id n))
        (Some host) port timeout s = Some (Inr (command, deadline), u)"
      "open_stream_wait K others command deadline (others u) = Some (result, v)" "open_stream_finish K command result v = Some (EGRESS_OK, fd, t)"
    using assms(1) by (auto simp: egress_server_open_stream_def split: option.splits sum.splits prod.splits)
  then show ?thesis
    using submit_queued(2)[OF run(1)] assms(2) by (auto simp: stream_opened_def EGRESS_MAX_HOST_def)
qed

text \<open>An answer with a stream: the request was one that a client encodes, and the stream is for its destination.\<close>

lemma answer_opened:
  assumes "answer_request E K datagram flags c s = Some (CHANNEL_OK, fd, session, d, t)"
  shows "\<exists>n host port. chan_connector c = Some n \<and> flags = {} \<and> datagram = request_message host port \<and>
    stream_opened K (channel_reactor E (chan_trace c)) n host port (chan_timeout c) s fd t"
proof -
  obtain r where r: "request_status datagram flags = (CHANNEL_OK, Some r)" "open_request E K r c s = Some (CHANNEL_OK, fd, session, d, t)"
    using assms request_status_Some by (fastforce simp: answer_request_def split: prod.splits channel_status.splits option.splits)
  then obtain reason where flags: "flags = {}" and decoded: "maelys_egress_channel_decode_request (Some datagram) True = (CHANNEL_OK, Some r, reason)"
    by (auto simp: request_status_def split: if_splits prod.splits)
  have "maelys_egress_connector_session_open K (channel_reactor E (chan_trace c)) (channel_alloc E (chan_trace c)) True (chan_connector c)
      (Some (chreq_host r)) (chreq_port r) (chan_timeout c) s = Some (EGRESS_OK, Some \<lparr>session_descriptor = fd\<rparr>, t)"
    using r(2) by (auto simp: open_request_def maelys_egress_session_take_fd_def status_of_OK Let_def split: option.splits prod.splits if_splits)
  then obtain n where n: "chan_connector c = Some n" "egress_server_open_stream K (channel_reactor E (chan_trace c)) (Some (connector_principal_index n))
      (Some (connector_principal n)) (Some (connector_invocation_id n)) (Some (chreq_host r)) (chreq_port r) (chan_timeout c) s = Some (EGRESS_OK, fd, t)"
    by (auto simp: maelys_egress_connector_session_open_def split: option.splits if_splits)
  then show ?thesis using flags decode_request_sound(1,3)[OF decoded] open_stream_opened[OF n(2)] by blast
qed

lemma answer_refused:
  assumes "answer_request E K datagram flags c s = Some (status, fd, session, d, t)" "fst (request_status datagram flags) \<noteq> CHANNEL_OK"
  shows "status = fst (request_status datagram flags)" "t = s"
  using assms by (auto simp: answer_request_def split: prod.splits channel_status.splits)

lemma sent_answer:
  "answer_request E K datagram flags c s = Some (status, fd, session, d, t) \<Longrightarrow> sent_of (chan_trace d) = sent_of (chan_trace c)"
  by (auto simp: answer_request_def open_request_def Let_def split: prod.splits channel_status.splits option.splits if_splits)

text \<open>
  C10: Every datagram that the channel receives is answered by exactly one response. A stream is attached exactly when the status is OK;
  then the datagram is a request that a client encodes, without descriptors, and the stream is the one that the server opened for the connector of the channel: the
  command that the loop of the server was given names the host and the port of the request and the principal of the connector, and the server is left in the
  state that this call leaves. A datagram that is no request is answered by its reason, and the server is not involved.
\<close>

theorem channel_answers:
  assumes "serve_one E K c s = Some (delivered, d, t)"
    and "channel_receive E (Chan_receive (chan_server_fd c) (MAELYS_EGRESS_CHANNEL_REQUEST_MAX_SIZE + 1) # chan_trace c) = (SYS_OK, datagram, flags)"
    and "length datagram \<le> MAELYS_EGRESS_CHANNEL_REQUEST_MAX_SIZE + 1"
  shows "\<exists>status fd. sent_of (chan_trace d) = (response_of status, fd) # sent_of (chan_trace c) \<and> (status = CHANNEL_OK \<longleftrightarrow> 0 \<le> fd) \<and>
    (status = CHANNEL_OK \<longrightarrow> (\<exists>n host port. chan_connector c = Some n \<and> flags = {} \<and> datagram = request_message host port \<and>
       stream_opened K (channel_reactor E (Chan_close (chan_held_fd c) #
         Chan_receive (chan_server_fd c) (MAELYS_EGRESS_CHANNEL_REQUEST_MAX_SIZE + 1) # chan_trace c)) n host port (chan_timeout c) s fd t)) \<and>
    (fst (request_status datagram flags) \<noteq> CHANNEL_OK \<longrightarrow> status = fst (request_status datagram flags) \<and> t = s)"
proof -
  define c1 where "c1 = release_held (tell (Chan_receive (chan_server_fd c) (MAELYS_EGRESS_CHANNEL_REQUEST_MAX_SIZE + 1)) c)"
  have c1: "sent_of (chan_trace c1) = sent_of (chan_trace c)" "chan_connector c1 = chan_connector c" "chan_timeout c1 = chan_timeout c"
    "chan_held_fd c1 = - 1" "chan_trace c1 = Chan_close (chan_held_fd c) #
      Chan_receive (chan_server_fd c) (MAELYS_EGRESS_CHANNEL_REQUEST_MAX_SIZE + 1) # chan_trace c" by (simp_all add: c1_def release_held_def)
  note run = assms(1)[unfolded serve_one_def Let_def tell_simps(1) assms(2) prod.case take_all[OF assms(3)] c1_def[symmetric]]
  obtain status fd session c2 where answer: "answer_request E K datagram flags c1 s = Some (status, fd, session, c2, t)"
    using run by (auto split: option.splits prod.splits)
  obtain c3 where c3: "send_response E status fd c2 = (delivered, c3)" using run by (auto simp: answer split: prod.splits)
  obtain fd' c4 where c4: "(if delivered then hold_stream E fd c3 else (fd, c3)) = (fd', c4)" by fastforce
  have "d = (case maelys_egress_session_release session of None \<Rightarrow> tell (Chan_close fd') c4
        | Some x \<Rightarrow> tell (Chan_close x) (tell (Chan_close fd') c4))" using run by (simp add: answer c3 c4)
  then have "sent_of (chan_trace d) = sent_of (chan_trace c4)" by (simp split: option.split)
  also have "\<dots> = sent_of (chan_trace c3)" using c4 sent_hold by (cases delivered) auto
  also have "\<dots> = (response_of status, fd) # sent_of (chan_trace c)" using sent_response[OF c3] sent_answer[OF answer] c1(1) by simp
  finally have sent: "sent_of (chan_trace d) = (response_of status, fd) # sent_of (chan_trace c)" .
  have "\<exists>n host port. chan_connector c = Some n \<and> flags = {} \<and> datagram = request_message host port \<and>
       stream_opened K (channel_reactor E (chan_trace c1)) n host port (chan_timeout c) s fd t" if "status = CHANNEL_OK"
    using answer_opened[OF answer[unfolded that]] unfolding c1(2,3) .
  then show ?thesis
    using sent answer_carried(3)[OF answer kept_refl c1(4)] answer_refused[OF answer] unfolding c1(5) by blast
qed

text \<open>
  C11: A channel gives back all that it takes. Destroying a channel that was created returns, whatever requests arrive before the
  wakeup and whatever the other threads of the server do; every stream that it took over from a session and its end of the pair have then been closed exactly
  once, the connector has the references it had before, and the server is in a reachable state. It relies on the environment: the wakeup of the channel
  arrives at some time, the system keeps the contracts of its calls, time passes, so that a wait ends at a deadline that is finite, and the clock
  is so far from its end that the deadlines are finite. That opening a session returns is proved from these.
\<close>

theorem channel_lifecycle:
  assumes "maelys_egress_channel_create E K (Some n) timeout outputs s0 = Some (EGRESS_OK, Some c, fd, server)"
    and "connector_references n \<noteq> 0" and "channel_env_ok E K timeout" and "wakeup_comes E m" and "reach K Ps s"
  shows "\<exists>d t Qs. maelys_egress_channel_destroy E K c s = Some (d, Some n, Some t) \<and> Ps \<subseteq> Qs \<and> reach K Qs t \<and>
    closed_of (chan_trace d) = streams_of (chan_trace d) + live_fd (chan_server_fd c) \<and> chan_held_fd d = - 1 \<and> chan_server_fd d = - 1"
proof -
  have "channel_start E n (channel_zero timeout) = (True, fd, c)"
    using assms(1) by (auto simp: maelys_egress_channel_create_def split: if_splits prod.splits bool.splits option.splits)
  note c = started_channel[OF this]
  have "channel_env_ok E K (chan_timeout (tell Chan_wake c))" using assms(3) c(4) by simp
  then obtain d t where loop: "channel_loop E K (tell Chan_wake c) s = Some (d, t)" "reached K Ps t" "kept (tell Chan_wake c) d"
    using channel_loop_returns[OF assms(4) _ reach_reached[OF assms(5)]] by blast
  have kd: "kept c d" by (rule carried_trans[OF carried_tell(6)[OF kept_refl] loop(3)])
  note e = closed_channel[OF kept_balanced[OF kd c(5)]]
  have "chan_connector d = Some (n\<lparr>connector_references := connector_references n + 1\<rparr>)"
    using kd c(1) by (simp add: carried_def maelys_egress_connector_retain_def)
  then have "maelys_egress_connector_release (chan_connector d) t = (Some n, Some t)"
    using assms(2) by (simp add: maelys_egress_connector_release_def)
  moreover have "channel_join E K c s = Some ((tell Chan_join (channel_close d))\<lparr>chan_thread := False\<rparr>, t)"
    by (simp add: channel_join_def channel_serve_def c loop(1))
  ultimately show ?thesis
    using e loop(2) by (simp add: maelys_egress_channel_destroy_def release_held_def reached_def Let_def)
qed

text \<open>
  An example: requests for one host arrive until the wakeup, and the loop of the server opens the streams. Waits report a timeout once
  a hundred calls have been made.
\<close>

definition demo_waiter :: kernel where
  "demo_waiter = demo_kernel\<lparr>k_infinite := - 1, k_result := (\<lambda>tr. case tr of
       Call_wait _ _ # tr \<Rightarrow> if length tr < 100 then SYS_OK else SYS_ERR_TIMEOUT
     | Call_fd_wait _ _ _ # tr \<Rightarrow> if length tr < 100 then SYS_OK else SYS_ERR_TIMEOUT
     | _ \<Rightarrow> SYS_OK)\<rparr>"

definition demo_channel_env :: "kernel \<Rightarrow> channel_env" where
  "demo_channel_env K = \<lparr>channel_apple = True, channel_alloc = (\<lambda>_. True), channel_result = (\<lambda>_. SYS_OK), channel_pair = (\<lambda>_. (SYS_OK, 8, 9)),
     channel_watch = (\<lambda>_. (SYS_OK, 1)),
     channel_step = (\<lambda>tr. (SYS_OK, [if length tr < 40 then (CHANNEL_TOKEN_REQUESTS, {FLAG_READ}) else (CHANNEL_TOKEN_WAKEUP, {FLAG_READ})])),
     channel_receive = (\<lambda>_. (SYS_OK, request_message (cstr ''github.com'') 443, {})), channel_clock = (\<lambda>tr. (SYS_OK, of_nat (length tr))),
     channel_usage = (\<lambda>_. Some (0, 0, 0)), channel_wakeup_fd = 7, channel_reactor = (\<lambda>_. egress_open_commands_process K)\<rparr>"

definition demo_connector :: egress_connector where
  "demo_connector = \<lparr>connector_references = 1, connector_principal_index = 0, connector_principal = cstr ''agent'',
     connector_invocation_id = cstr ''run:1''\<rparr>"

lemma demo_waiter_ok: "kernel_ok demo_waiter"
  unfolding kernel_ok_def
proof
  fix tr
  show "call_ok demo_waiter tr" by (cases "(demo_waiter, tr)" rule: call_ok.cases) (simp_all add: demo_waiter_def demo_kernel_def)
qed

lemma demo_env_ok: "channel_env_ok (demo_channel_env demo_waiter) demo_waiter 1000"
proof -
  have "deadlines_pass demo_waiter"
    unfolding deadlines_pass_def by (intro allI impI exI[of _ 100]) (simp add: demo_waiter_def)
  moreover have "finite_deadlines demo_waiter 5000" "finite_deadlines demo_waiter 1000"
    by (simp_all add: finite_deadlines_def demo_waiter_def demo_kernel_def add_saturating_def)
  ultimately show ?thesis
    using demo_waiter_ok by (auto simp: channel_env_ok_def demo_channel_env_def intro: works.processed)
qed

lemma demo_channel:
  "\<exists>c. maelys_egress_channel_create (demo_channel_env K) K (Some demo_connector) 1000 True demo_server =
     Some (EGRESS_OK, Some c, 9, Some demo_server) \<and> chan_server_fd c = 8"
  by (simp add: maelys_egress_channel_create_def channel_start_def channel_arm_def report_armed_def channel_zero_def demo_channel_env_def Let_def)

theorem channel_lifecycle_witness:
  "\<exists>c d t. maelys_egress_channel_create (demo_channel_env demo_waiter) demo_waiter (Some demo_connector) 1000 True demo_server =
       Some (EGRESS_OK, Some c, 9, Some demo_server) \<and>
     maelys_egress_channel_destroy (demo_channel_env demo_waiter) demo_waiter c demo_server = Some (d, Some demo_connector, Some t) \<and>
     closed_of (chan_trace d) = streams_of (chan_trace d) + {#8#}"
proof -
  obtain c where c: "maelys_egress_channel_create (demo_channel_env demo_waiter) demo_waiter (Some demo_connector) 1000 True demo_server =
      Some (EGRESS_OK, Some c, 9, Some demo_server)" "chan_server_fd c = 8" using demo_channel by blast
  have "connector_references demo_connector \<noteq> 0" by (simp add: demo_connector_def)
  moreover have "wakeup_comes (demo_channel_env demo_waiter) 40"
    by (auto simp: wakeup_comes_def demo_channel_env_def)
  moreover have "reach demo_waiter {demo_clone} demo_server" by (rule demo_server_reach) (simp add: demo_waiter_def demo_kernel_def)
  ultimately obtain d t where "maelys_egress_channel_destroy (demo_channel_env demo_waiter) demo_waiter c demo_server = Some (d, Some demo_connector, Some t)"
    "closed_of (chan_trace d) = streams_of (chan_trace d) + live_fd (chan_server_fd c)"
    using channel_lifecycle[OF c(1) _ demo_env_ok] by blast
  then show ?thesis using c by (auto simp: live_fd_def)
qed

text \<open>The example answers its first request with the stream that the loop opened.\<close>

lemma demo_stream:
  "\<exists>t. egress_server_open_stream demo_kernel (egress_open_commands_process demo_kernel) (Some 0) (Some (cstr ''agent'')) (Some (cstr ''run:1''))
     (Some (cstr ''github.com'')) 443 1000 demo_server = Some (EGRESS_OK, 5, t)"
proof -
  let ?c = "demo_command\<lparr>cmd_references := 1, cmd_server_socket := None, cmd_completed := True\<rparr>"
  have c: "open_commands demo_open 0 = Some ?c" using demo_open_state by blast
  have "open_stream_wait demo_kernel others 0 deadline demo_open = Some (ERR_IO, demo_open)" for others deadline
    by (subst open_stream_wait.simps) (simp add: c)
  moreover have "\<exists>t. open_stream_finish demo_kernel 0 ERR_IO demo_open = Some (EGRESS_OK, 5, t)"
    by (simp add: open_stream_finish_def c demo_command_def Let_def)
  ultimately show ?thesis
    by (simp del: cstr_simps add: egress_server_open_stream_def demo_submit demo_open_def[symmetric])
qed

theorem channel_answers_witness:
  "\<exists>delivered d t n host port.
     serve_one (demo_channel_env demo_kernel) demo_kernel ((channel_zero 1000)\<lparr>chan_server_fd := 8, chan_connector := Some demo_connector\<rparr>) demo_server =
       Some (delivered, d, t) \<and>
     sent_of (chan_trace d) = [(response_of CHANNEL_OK, 5)] \<and> request_message (cstr ''github.com'') 443 = request_message host port \<and>
     stream_opened demo_kernel (egress_open_commands_process demo_kernel) n host port 1000 demo_server 5 t"
proof -
  let ?E = "demo_channel_env demo_kernel"
  let ?c = "(channel_zero 1000)\<lparr>chan_server_fd := 8, chan_connector := Some demo_connector\<rparr>"
  have received: "channel_receive ?E tr = (SYS_OK, request_message (cstr ''github.com'') 443, {})" for tr
    by (simp add: demo_channel_env_def del: cstr_simps)
  have len: "length (request_message (cstr ''github.com'') 443) \<le> MAELYS_EGRESS_CHANNEL_REQUEST_MAX_SIZE + 1"
    by (simp add: MAELYS_EGRESS_CHANNEL_REQUEST_MAX_SIZE_def length_request_message channel_constants)
  obtain t where t: "egress_server_open_stream demo_kernel (egress_open_commands_process demo_kernel) (Some 0) (Some (cstr ''agent''))
      (Some (cstr ''run:1'')) (Some (cstr ''github.com'')) 443 1000 demo_server = Some (EGRESS_OK, 5, t)" using demo_stream by blast
  define c1 where "c1 = release_held (tell (Chan_receive (chan_server_fd ?c) (MAELYS_EGRESS_CHANNEL_REQUEST_MAX_SIZE + 1)) ?c)"
  obtain r where r: "request_status (request_message (cstr ''github.com'') 443) {} = (CHANNEL_OK, Some r)" "chreq_host r = cstr ''github.com''" "chreq_port r = 443"
  proof -
    have "cstr ''github.com'' \<noteq> []" "length (cstr ''github.com'') \<le> 253" "host_bytes_valid (cstr ''github.com'')" by code_simp+
    from decode_request_message[OF this, of 443] show thesis
      by (intro that[of "\<lparr>chreq_version = 1, chreq_protocol = 1, chreq_port = 443, chreq_host_length = of_nat (length (cstr ''github.com'')),
        chreq_host = cstr ''github.com''\<rparr>"]) (simp_all add: request_status_def del: cstr_simps)
  qed
  have "maelys_egress_connector_session_open demo_kernel (channel_reactor ?E (chan_trace c1)) (channel_alloc ?E (chan_trace c1)) True (chan_connector c1)
      (Some (chreq_host r)) (chreq_port r) (chan_timeout c1) demo_server = Some (EGRESS_OK, Some \<lparr>session_descriptor = 5\<rparr>, t)"
    using t by (simp del: cstr_simps add: maelys_egress_connector_session_open_def c1_def release_held_def channel_zero_def demo_channel_env_def r(2,3) demo_connector_def)
      simp
  then have answer: "answer_request ?E demo_kernel (request_message (cstr ''github.com'') 443) {} c1 demo_server =
      Some (CHANNEL_OK, 5, Some \<lparr>session_descriptor = - 1\<rparr>, tell (Chan_stream 5) c1, t)"
    by (simp del: cstr_simps add: answer_request_def r(1) open_request_def maelys_egress_session_take_fd_def)
  obtain delivered c3 where c3: "send_response ?E CHANNEL_OK 5 (tell (Chan_stream 5) c1) = (delivered, c3)" by fastforce
  obtain fd' c4 where c4: "(if delivered then hold_stream ?E 5 c3 else (5, c3)) = (fd', c4)" by fastforce
  have run: "serve_one ?E demo_kernel ?c demo_server = Some (delivered, tell (Chan_close (- 1)) (tell (Chan_close fd') c4), t)"
    unfolding serve_one_def Let_def received prod.case take_all[OF len] c1_def[symmetric] answer
    by (simp add: c3 c4 maelys_egress_session_release_def)
  have "sent_of (chan_trace c4) = (response_of CHANNEL_OK, 5) # sent_of (chan_trace c1)"
    using c4 sent_hold sent_response[OF c3] by (cases delivered) auto
  then have sent: "sent_of (chan_trace (tell (Chan_close (- 1)) (tell (Chan_close fd') c4))) = [(response_of CHANNEL_OK, 5)]"
    by (simp add: c1_def release_held_def channel_zero_def)
  obtain status fd where answered: "sent_of (chan_trace (tell (Chan_close (- 1)) (tell (Chan_close fd') c4))) = (response_of status, fd) # sent_of (chan_trace ?c)"
    "status = CHANNEL_OK \<longleftrightarrow> 0 \<le> fd" "status = CHANNEL_OK \<Longrightarrow> \<exists>n host port. request_message (cstr ''github.com'') 443 = request_message host port \<and>
      stream_opened demo_kernel (channel_reactor ?E (Chan_close (chan_held_fd ?c) #
         Chan_receive (chan_server_fd ?c) (MAELYS_EGRESS_CHANNEL_REQUEST_MAX_SIZE + 1) # chan_trace ?c)) n host port (chan_timeout ?c) demo_server fd t"
    using channel_answers[OF run received len] by blast
  have "fd = 5" using answered(1) unfolding sent by simp
  then show ?thesis
    using answered(2,3) run sent by (auto simp del: cstr_simps simp: demo_channel_env_def channel_zero_def)
qed

end
