(* ===== verification/Egress_Settings.thy ===== *)
theory Egress_Settings
  imports Egress_Config Egress_Channel
begin

text \<open>
  The configuration file of the command line: the catalog of keys of \<^verbatim>\<open>src/cli/config_catalog.c\<close>, the strict loader
  of \<^verbatim>\<open>src/cli/config_file.c\<close> and its settings in \<^verbatim>\<open>src/cli/cli.h\<close>.

  The loader uses a library of the command line for the numbers, the choices and the trusted opening
  of the file. The record \<open>cli_library\<close> has its two parsers; what they promise is \<open>cli_library_ok\<close>. The file is
  given by the outcome of its opening. The mask of the keys seen so far is the set of these keys: the
  source asserts that it has a bit for each.
\<close>

section \<open>The catalog\<close>

datatype config_type =
    CONFIG_NONE | CONFIG_PATH | CONFIG_STRING | CONFIG_BOOLEAN | CONFIG_ENDPOINT | CONFIG_DESTINATION | CONFIG_INTEGER | CONFIG_ENUM

datatype config_key =
    KEY_SCHEMA_VERSION
  | KEY_LISTEN
  | KEY_LISTEN_UNIX
  | KEY_UNIX_PEER
  | KEY_ALLOW
  | KEY_ALLOW_PRIVATE
  | KEY_ALLOW_TLS_SNI
  | KEY_TOKEN_FILE
  | KEY_UNAUTHENTICATED_LOOPBACK
  | KEY_MAX_CONNECTIONS
  | KEY_QUOTA_CONNECTIONS
  | KEY_QUOTA_BYTES
  | KEY_QUOTA_TOTAL_BYTES
  | KEY_ADMIN_LISTEN
  | KEY_AUDIT_LOG
  | KEY_AUDIT_KEY_FILE
  | KEY_AUDIT_KEY_ID
  | KEY_TLS_CERT
  | KEY_TLS_KEY
  | KEY_TLS_CA
  | KEY_REQUIRE_CLIENT_CERT
  | KEY_CHANNEL_LISTEN_UNIX
  | KEY_CHANNEL_PRINCIPAL
  | KEY_CHANNEL_INVOCATION_ID
  | KEY_CHANNEL_CONNECT_TIMEOUT_MS
  | KEY_CHANNEL_HANDSHAKE_TIMEOUT_MS
  | KEY_CHANNEL_MAX_CLIENTS
  | KEY_CHANNEL_FD
  | KEY_CHANNEL_EXEC_BY_PATH

text \<open>The place of a key in the enumeration.\<close>

fun key_code :: "config_key \<Rightarrow> nat" where
  "key_code KEY_SCHEMA_VERSION = 0"
| "key_code KEY_LISTEN = 1"
| "key_code KEY_LISTEN_UNIX = 2"
| "key_code KEY_UNIX_PEER = 3"
| "key_code KEY_ALLOW = 4"
| "key_code KEY_ALLOW_PRIVATE = 5"
| "key_code KEY_ALLOW_TLS_SNI = 6"
| "key_code KEY_TOKEN_FILE = 7"
| "key_code KEY_UNAUTHENTICATED_LOOPBACK = 8"
| "key_code KEY_MAX_CONNECTIONS = 9"
| "key_code KEY_QUOTA_CONNECTIONS = 10"
| "key_code KEY_QUOTA_BYTES = 11"
| "key_code KEY_QUOTA_TOTAL_BYTES = 12"
| "key_code KEY_ADMIN_LISTEN = 13"
| "key_code KEY_AUDIT_LOG = 14"
| "key_code KEY_AUDIT_KEY_FILE = 15"
| "key_code KEY_AUDIT_KEY_ID = 16"
| "key_code KEY_TLS_CERT = 17"
| "key_code KEY_TLS_KEY = 18"
| "key_code KEY_TLS_CA = 19"
| "key_code KEY_REQUIRE_CLIENT_CERT = 20"
| "key_code KEY_CHANNEL_LISTEN_UNIX = 21"
| "key_code KEY_CHANNEL_PRINCIPAL = 22"
| "key_code KEY_CHANNEL_INVOCATION_ID = 23"
| "key_code KEY_CHANNEL_CONNECT_TIMEOUT_MS = 24"
| "key_code KEY_CHANNEL_HANDSHAKE_TIMEOUT_MS = 25"
| "key_code KEY_CHANNEL_MAX_CLIENTS = 26"
| "key_code KEY_CHANNEL_FD = 27"
| "key_code KEY_CHANNEL_EXEC_BY_PATH = 28"

record config_spec =
  spec_name :: bytes
  spec_key :: config_key
  spec_type :: config_type
  spec_required :: bool
  spec_repeatable :: bool
  spec_secret :: bool
  spec_tls_only :: bool
  spec_default :: "bytes option"

definition config_spec_of :: "string \<Rightarrow> config_key \<Rightarrow> config_type \<Rightarrow> bool \<Rightarrow> bool \<Rightarrow> bool \<Rightarrow> bool \<Rightarrow> bytes option \<Rightarrow> config_spec" where
  "config_spec_of name key kind required repeatable secret_value tls_only default_value =
     \<lparr>spec_name = cstr name, spec_key = key, spec_type = kind, spec_required = required, spec_repeatable = repeatable,
      spec_secret = secret_value, spec_tls_only = tls_only, spec_default = default_value\<rparr>"

text \<open>The texts of the catalog that only document a key are left out.\<close>

definition config_specs :: "config_spec list" where
  "config_specs = [
     config_spec_of ''schema_version'' KEY_SCHEMA_VERSION CONFIG_INTEGER True False False False None,
     config_spec_of ''listen'' KEY_LISTEN CONFIG_ENDPOINT False False False False (Some (cstr ''127.0.0.1:0'')),
     config_spec_of ''listen_unix'' KEY_LISTEN_UNIX CONFIG_PATH False False False False None,
     config_spec_of ''unix_peer'' KEY_UNIX_PEER CONFIG_ENUM False False False False (Some (cstr ''authenticated'')),
     config_spec_of ''allow'' KEY_ALLOW CONFIG_DESTINATION False True False False None,
     config_spec_of ''allow_private'' KEY_ALLOW_PRIVATE CONFIG_DESTINATION False True False False None,
     config_spec_of ''allow_tls_sni'' KEY_ALLOW_TLS_SNI CONFIG_DESTINATION False True False False None,
     config_spec_of ''token_file'' KEY_TOKEN_FILE CONFIG_PATH False False True False None,
     config_spec_of ''unauthenticated_loopback'' KEY_UNAUTHENTICATED_LOOPBACK CONFIG_BOOLEAN False False False False (Some (cstr ''false'')),
     config_spec_of ''max_connections'' KEY_MAX_CONNECTIONS CONFIG_INTEGER False False False False (Some (cstr ''128'')),
     config_spec_of ''quota_connections'' KEY_QUOTA_CONNECTIONS CONFIG_INTEGER False False False False (Some (cstr ''0'')),
     config_spec_of ''quota_bytes'' KEY_QUOTA_BYTES CONFIG_INTEGER False False False False (Some (cstr ''0'')),
     config_spec_of ''quota_total_bytes'' KEY_QUOTA_TOTAL_BYTES CONFIG_INTEGER False False False False (Some (cstr ''0'')),
     config_spec_of ''admin_listen'' KEY_ADMIN_LISTEN CONFIG_ENDPOINT False False False False None,
     config_spec_of ''audit_log'' KEY_AUDIT_LOG CONFIG_PATH False False False False None,
     config_spec_of ''audit_key_file'' KEY_AUDIT_KEY_FILE CONFIG_PATH False False True False None,
     config_spec_of ''audit_key_id'' KEY_AUDIT_KEY_ID CONFIG_STRING False False False False None,
     config_spec_of ''tls_cert'' KEY_TLS_CERT CONFIG_PATH False False False True None,
     config_spec_of ''tls_key'' KEY_TLS_KEY CONFIG_PATH False False True True None,
     config_spec_of ''tls_ca'' KEY_TLS_CA CONFIG_PATH False False False True None,
     config_spec_of ''require_client_cert'' KEY_REQUIRE_CLIENT_CERT CONFIG_BOOLEAN False False False True (Some (cstr ''false'')),
     config_spec_of ''channel_listen_unix'' KEY_CHANNEL_LISTEN_UNIX CONFIG_PATH False False False False None,
     config_spec_of ''channel_principal'' KEY_CHANNEL_PRINCIPAL CONFIG_STRING False False False False None,
     config_spec_of ''channel_invocation_id'' KEY_CHANNEL_INVOCATION_ID CONFIG_STRING False False False False None,
     config_spec_of ''channel_connect_timeout_ms'' KEY_CHANNEL_CONNECT_TIMEOUT_MS CONFIG_INTEGER False False False False (Some (cstr ''5000'')),
     config_spec_of ''channel_handshake_timeout_ms'' KEY_CHANNEL_HANDSHAKE_TIMEOUT_MS CONFIG_INTEGER False False False False (Some (cstr ''5000'')),
     config_spec_of ''channel_max_clients'' KEY_CHANNEL_MAX_CLIENTS CONFIG_INTEGER False False False False (Some (cstr ''128'')),
     config_spec_of ''channel_fd'' KEY_CHANNEL_FD CONFIG_INTEGER False False False False (Some (cstr ''4'')),
     config_spec_of ''channel_exec_by_path'' KEY_CHANNEL_EXEC_BY_PATH CONFIG_BOOLEAN False False False False (Some (cstr ''false''))]"

fun config_find :: "bytes \<Rightarrow> config_spec list \<Rightarrow> config_spec option" where
  "config_find name [] = None"
| "config_find name (spec # specs) = (if spec_name spec = name then Some spec else config_find name specs)"

definition egress_cli_config_find :: "bytes \<Rightarrow> config_spec option" where
  "egress_cli_config_find name = config_find name config_specs"

section \<open>Settings\<close>

definition EGRESS_CLI_MAX_DESTINATIONS :: nat where "EGRESS_CLI_MAX_DESTINATIONS = 256"

record cli_destination =
  clid_host :: bytes
  clid_port :: u16
  clid_allow_private :: bool
  clid_require_tls_sni :: bool

record cli_settings =
  cli_listen_host :: bytes
  cli_listen_port :: u16
  cli_listen_set :: bool
  cli_listen_unix :: "bytes option"
  cli_unix_peer :: unix_peer_policy
  cli_unix_peer_set :: bool
  cli_destinations :: "cli_destination list"
  cli_token_file :: "bytes option"
  cli_unauthenticated_loopback :: bool
  cli_max_connections :: nat
  cli_quota_connections :: nat
  cli_quota_bytes :: u64
  cli_quota_total_bytes :: u64
  cli_admin_host :: bytes
  cli_admin_port :: u16
  cli_admin_set :: bool
  cli_audit_log :: "bytes option"
  cli_audit_key_file :: "bytes option"
  cli_audit_key_id :: "bytes option"
  cli_tls_cert :: "bytes option"
  cli_tls_key :: "bytes option"
  cli_tls_ca :: "bytes option"
  cli_require_client_cert :: bool
  cli_channel_listen_unix :: "bytes option"
  cli_channel_principal :: "bytes option"
  cli_channel_invocation_id :: "bytes option"
  cli_channel_connect_timeout_ms :: u64
  cli_channel_handshake_timeout_ms :: u64
  cli_channel_max_clients :: nat
  cli_channel_fd :: nat
  cli_channel_exec_by_path :: bool

definition egress_cli_settings_control_equal :: "cli_settings \<Rightarrow> cli_settings \<Rightarrow> bool" where
  "egress_cli_settings_control_equal a b \<longleftrightarrow>
     cli_listen_host a = cli_listen_host b \<and> cli_listen_port a = cli_listen_port b \<and> cli_listen_set a = cli_listen_set b \<and>
     cli_listen_unix a = cli_listen_unix b \<and> cli_unix_peer a = cli_unix_peer b \<and> cli_unix_peer_set a = cli_unix_peer_set b \<and>
     cli_token_file a = cli_token_file b \<and> cli_unauthenticated_loopback a = cli_unauthenticated_loopback b \<and>
     cli_max_connections a = cli_max_connections b \<and> cli_quota_connections a = cli_quota_connections b \<and>
     cli_quota_bytes a = cli_quota_bytes b \<and> cli_quota_total_bytes a = cli_quota_total_bytes b \<and>
     cli_admin_host a = cli_admin_host b \<and> cli_admin_port a = cli_admin_port b \<and> cli_admin_set a = cli_admin_set b \<and>
     cli_audit_log a = cli_audit_log b \<and> cli_audit_key_file a = cli_audit_key_file b \<and> cli_audit_key_id a = cli_audit_key_id b \<and>
     cli_tls_cert a = cli_tls_cert b \<and> cli_tls_key a = cli_tls_key b \<and> cli_tls_ca a = cli_tls_ca b \<and>
     cli_require_client_cert a = cli_require_client_cert b \<and> cli_channel_listen_unix a = cli_channel_listen_unix b \<and>
     cli_channel_principal a = cli_channel_principal b \<and> cli_channel_invocation_id a = cli_channel_invocation_id b \<and>
     cli_channel_connect_timeout_ms a = cli_channel_connect_timeout_ms b \<and>
     cli_channel_handshake_timeout_ms a = cli_channel_handshake_timeout_ms b \<and>
     cli_channel_max_clients a = cli_channel_max_clients b \<and> cli_channel_fd a = cli_channel_fd b \<and>
     cli_channel_exec_by_path a = cli_channel_exec_by_path b"

datatype cli_mode = MODE_PROXY | MODE_BROKER | MODE_EXEC

definition egress_cli_settings_mode :: "cli_settings \<Rightarrow> cli_mode" where
  "egress_cli_settings_mode s =
     (if cli_channel_principal s = None then MODE_PROXY else if cli_channel_listen_unix s \<noteq> None then MODE_BROKER else MODE_EXEC)"

section \<open>Values\<close>

record cli_library =
  parse_u64_decimal :: "bytes \<Rightarrow> u64 \<Rightarrow> u64 \<Rightarrow> u64 option"
  parse_choice :: "bytes \<Rightarrow> bytes list \<Rightarrow> nat option"
  tls_listener_supported :: bool

definition cli_library_ok :: "cli_library \<Rightarrow> bool" where
  "cli_library_ok L \<longleftrightarrow>
     (\<forall>value low high n. parse_u64_decimal L value low high = Some n \<longrightarrow> low \<le> n \<and> n \<le> high) \<and>
     (\<forall>n low high. low \<le> n \<longrightarrow> n \<le> high \<longrightarrow> parse_u64_decimal L (dec (unat n)) low high = Some n) \<and>
     (\<forall>value choices i. parse_choice L value choices = Some i \<longrightarrow> i < length choices \<and> choices ! i = value)"

definition blank :: "byte \<Rightarrow> bool" where
  "blank b \<longleftrightarrow> b = ch (CHR '' '') \<or> b = 9"

definition trim_value :: "bytes \<Rightarrow> bytes" where
  "trim_value value = rev (dropWhile blank (rev (dropWhile blank value)))"

fun endpoint_port_loop :: "nat \<Rightarrow> bytes \<Rightarrow> nat option" where
  "endpoint_port_loop port [] = Some port"
| "endpoint_port_loop port (p # ps) =
     (if p < ch (CHR ''0'') \<or> ch (CHR ''9'') < p then None
      else let port = port * 10 + unat (p - ch (CHR ''0'')) in if 65535 < port then None else endpoint_port_loop port ps)"

definition endpoint_parts :: "bytes \<Rightarrow> (bytes \<times> bytes) option" where
  "endpoint_parts input =
     (if input \<noteq> [] \<and> hd input = ch (CHR ''['') then
        (case split_first (ch (CHR '']'')) input of
           None \<Rightarrow> None
         | Some (before, after) \<Rightarrow> if after \<noteq> [] \<and> hd after = ch (CHR '':'') then Some (tl before, tl after) else None)
      else
        (case split_first (ch (CHR '':'')) input of
           None \<Rightarrow> None
         | Some (before, after) \<Rightarrow> if ch (CHR '':'') \<in> set after then None else Some (before, after)))"

definition parse_endpoint :: "nat \<Rightarrow> bytes \<Rightarrow> (bytes \<times> u16) option" where
  "parse_endpoint host_capacity input =
     (case endpoint_parts input of
        None \<Rightarrow> None
      | Some (host, port_text) \<Rightarrow>
          if length host = 0 \<or> host_capacity \<le> length host \<or> port_text = [] then None
          else map_option (\<lambda>port. (host, of_nat port)) (endpoint_port_loop 0 port_text))"

function channel_path_loop :: "bytes \<Rightarrow> bool" where
  "channel_path_loop part =
     (let component = takeWhile (\<lambda>b. b \<noteq> ch (CHR ''/'')) part; rest = dropWhile (\<lambda>b. b \<noteq> ch (CHR ''/'')) part in
      if component = [] \<or> component = cstr ''.'' \<or> component = cstr ''..'' then False
      else if rest = [] then True
      else channel_path_loop (tl rest))"
  by pat_completeness auto

termination
proof (relation "measure length")
  fix part component rest :: bytes
  assume "rest = dropWhile (\<lambda>b. b \<noteq> ch (CHR ''/'')) part" "rest \<noteq> []"
  then have "length rest \<le> length part" "0 < length rest" using length_dropWhile_le by auto
  then show "(tl rest, part) \<in> measure length" by (cases rest) auto
qed simp

declare channel_path_loop.simps [simp del]

section \<open>Applying a line\<close>

text \<open>What is applied: the violation to report, whether memory ran out, and the settings.\<close>

type_synonym applied = "string option \<times> bool \<times> cli_settings"

definition own_text :: "bool \<Rightarrow> bytes \<Rightarrow> (bytes option \<Rightarrow> cli_settings \<Rightarrow> cli_settings) \<Rightarrow> cli_settings \<Rightarrow> applied" where
  "own_text strdup_ok value store s = (if strdup_ok then (None, False, store (Some value) s) else (None, True, s))"

definition apply_number ::
  "cli_library \<Rightarrow> bytes \<Rightarrow> u64 \<Rightarrow> u64 \<Rightarrow> string \<Rightarrow> (u64 \<Rightarrow> cli_settings \<Rightarrow> cli_settings) \<Rightarrow> cli_settings \<Rightarrow> applied" where
  "apply_number L value low high violation store s =
     (case parse_u64_decimal L value low high of None \<Rightarrow> (Some violation, False, s) | Some n \<Rightarrow> (None, False, store n s))"

definition apply_boolean :: "bytes \<Rightarrow> (bool \<Rightarrow> cli_settings \<Rightarrow> cli_settings) \<Rightarrow> cli_settings \<Rightarrow> applied" where
  "apply_boolean value store s =
     (if value = cstr ''true'' then (None, False, store True s)
      else if value = cstr ''false'' then (None, False, store False s)
      else (Some ''boolean must be true or false'', False, s))"

definition apply_destination :: "config_key \<Rightarrow> bytes \<Rightarrow> cli_settings \<Rightarrow> applied" where
  "apply_destination key value s =
     (if EGRESS_CLI_MAX_DESTINATIONS \<le> length (cli_destinations s) then (Some ''too many allowed destinations'', False, s)
      else
        case parse_endpoint 254 value of
          None \<Rightarrow> (Some ''invalid allowed destination'', False, s)
        | Some (host, port) \<Rightarrow>
            if port = 0 then (Some ''invalid allowed destination'', False, s)
            else (None, False, s\<lparr>cli_destinations := cli_destinations s @
              [\<lparr>clid_host = host, clid_port = port, clid_allow_private = (key = KEY_ALLOW_PRIVATE),
                clid_require_tls_sni = (key = KEY_ALLOW_TLS_SNI)\<rparr>]\<rparr>))"

definition apply_channel_path :: "bool \<Rightarrow> bytes \<Rightarrow> cli_settings \<Rightarrow> applied" where
  "apply_channel_path strdup_ok value s =
     (if value = [] \<or> hd value \<noteq> ch (CHR ''/'') \<or> SUN_PATH \<le> length value then
        (Some ''channel_listen_unix must be an absolute bounded Unix path'', False, s)
      else if \<not> channel_path_loop (tl value) then
        (Some ''channel_listen_unix must be canonical (no empty, dot or parent components)'', False, s)
      else own_text strdup_ok value (\<lambda>v s. s\<lparr>cli_channel_listen_unix := v\<rparr>) s)"

definition unix_peer_choices :: "bytes list" where
  "unix_peer_choices = [cstr ''authenticated'', cstr ''same-euid'']"

definition apply_unix_peer :: "cli_library \<Rightarrow> bytes \<Rightarrow> cli_settings \<Rightarrow> applied" where
  "apply_unix_peer L value s =
     (case parse_choice L value unix_peer_choices of
        None \<Rightarrow> (Some ''unix_peer must be authenticated or same-euid'', False, s)
      | Some index \<Rightarrow> (None, False, s\<lparr>cli_unix_peer := (if index = 0 then UNIX_PEER_AUTHENTICATED else UNIX_PEER_SAME_EUID),
            cli_unix_peer_set := True\<rparr>))"

fun apply_value :: "cli_library \<Rightarrow> bool \<Rightarrow> config_key \<Rightarrow> bytes \<Rightarrow> cli_settings \<Rightarrow> applied" where
  "apply_value L ok KEY_SCHEMA_VERSION value s =
     (if value = cstr ''1'' then None else Some ''schema_version must be 1'', False, s)"
| "apply_value L ok KEY_LISTEN value s =
     (case parse_endpoint 64 value of
        None \<Rightarrow> (Some ''invalid listen endpoint'', False, s)
      | Some (host, port) \<Rightarrow> (None, False, s\<lparr>cli_listen_host := host, cli_listen_port := port, cli_listen_set := True\<rparr>))"
| "apply_value L ok KEY_LISTEN_UNIX value s = own_text ok value (\<lambda>v s. s\<lparr>cli_listen_unix := v\<rparr>) s"
| "apply_value L ok KEY_UNIX_PEER value s = apply_unix_peer L value s"
| "apply_value L ok KEY_ALLOW value s = apply_destination KEY_ALLOW value s"
| "apply_value L ok KEY_ALLOW_PRIVATE value s = apply_destination KEY_ALLOW_PRIVATE value s"
| "apply_value L ok KEY_ALLOW_TLS_SNI value s = apply_destination KEY_ALLOW_TLS_SNI value s"
| "apply_value L ok KEY_TOKEN_FILE value s = own_text ok value (\<lambda>v s. s\<lparr>cli_token_file := v\<rparr>) s"
| "apply_value L ok KEY_UNAUTHENTICATED_LOOPBACK value s = apply_boolean value (\<lambda>v s. s\<lparr>cli_unauthenticated_loopback := v\<rparr>) s"
| "apply_value L ok KEY_MAX_CONNECTIONS value s =
     apply_number L value 1 4096 ''max_connections must be in 1..4096'' (\<lambda>n s. s\<lparr>cli_max_connections := unat n\<rparr>) s"
| "apply_value L ok KEY_QUOTA_CONNECTIONS value s =
     apply_number L value 0 4096 ''quota_connections must be in 0..4096'' (\<lambda>n s. s\<lparr>cli_quota_connections := unat n\<rparr>) s"
| "apply_value L ok KEY_QUOTA_BYTES value s =
     apply_number L value 0 (- 1) ''quota_bytes must be an unsigned integer'' (\<lambda>n s. s\<lparr>cli_quota_bytes := n\<rparr>) s"
| "apply_value L ok KEY_QUOTA_TOTAL_BYTES value s =
     apply_number L value 0 (- 1) ''quota_total_bytes must be an unsigned integer'' (\<lambda>n s. s\<lparr>cli_quota_total_bytes := n\<rparr>) s"
| "apply_value L ok KEY_ADMIN_LISTEN value s =
     (case parse_endpoint 64 value of
        None \<Rightarrow> (Some ''invalid admin_listen endpoint'', False, s)
      | Some (host, port) \<Rightarrow> (None, False, s\<lparr>cli_admin_host := host, cli_admin_port := port, cli_admin_set := True\<rparr>))"
| "apply_value L ok KEY_AUDIT_LOG value s = own_text ok value (\<lambda>v s. s\<lparr>cli_audit_log := v\<rparr>) s"
| "apply_value L ok KEY_AUDIT_KEY_FILE value s = own_text ok value (\<lambda>v s. s\<lparr>cli_audit_key_file := v\<rparr>) s"
| "apply_value L ok KEY_AUDIT_KEY_ID value s = own_text ok value (\<lambda>v s. s\<lparr>cli_audit_key_id := v\<rparr>) s"
| "apply_value L ok KEY_TLS_CERT value s = own_text ok value (\<lambda>v s. s\<lparr>cli_tls_cert := v\<rparr>) s"
| "apply_value L ok KEY_TLS_KEY value s = own_text ok value (\<lambda>v s. s\<lparr>cli_tls_key := v\<rparr>) s"
| "apply_value L ok KEY_TLS_CA value s = own_text ok value (\<lambda>v s. s\<lparr>cli_tls_ca := v\<rparr>) s"
| "apply_value L ok KEY_REQUIRE_CLIENT_CERT value s = apply_boolean value (\<lambda>v s. s\<lparr>cli_require_client_cert := v\<rparr>) s"
| "apply_value L ok KEY_CHANNEL_LISTEN_UNIX value s = apply_channel_path ok value s"
| "apply_value L ok KEY_CHANNEL_PRINCIPAL value s = own_text ok value (\<lambda>v s. s\<lparr>cli_channel_principal := v\<rparr>) s"
| "apply_value L ok KEY_CHANNEL_INVOCATION_ID value s = own_text ok value (\<lambda>v s. s\<lparr>cli_channel_invocation_id := v\<rparr>) s"
| "apply_value L ok KEY_CHANNEL_CONNECT_TIMEOUT_MS value s =
     apply_number L value 1 600000 ''channel_connect_timeout_ms must be in 1..600000'' (\<lambda>n s. s\<lparr>cli_channel_connect_timeout_ms := n\<rparr>) s"
| "apply_value L ok KEY_CHANNEL_HANDSHAKE_TIMEOUT_MS value s =
     apply_number L value 1 60000 ''channel_handshake_timeout_ms must be in 1..60000'' (\<lambda>n s. s\<lparr>cli_channel_handshake_timeout_ms := n\<rparr>) s"
| "apply_value L ok KEY_CHANNEL_MAX_CLIENTS value s =
     apply_number L value 1 4096 ''channel_max_clients must be in 1..4096'' (\<lambda>n s. s\<lparr>cli_channel_max_clients := unat n\<rparr>) s"
| "apply_value L ok KEY_CHANNEL_FD value s =
     apply_number L value 3 255 ''channel_fd must be in 3..255'' (\<lambda>n s. s\<lparr>cli_channel_fd := unat n\<rparr>) s"
| "apply_value L ok KEY_CHANNEL_EXEC_BY_PATH value s = apply_boolean value (\<lambda>v s. s\<lparr>cli_channel_exec_by_path := v\<rparr>) s"

section \<open>Constraints between keys\<close>

definition channel_keys :: "config_key set" where
  "channel_keys = {key. key_code KEY_CHANNEL_LISTEN_UNIX \<le> key_code key}"

definition broker_keys :: "config_key set" where
  "broker_keys = {KEY_CHANNEL_HANDSHAKE_TIMEOUT_MS, KEY_CHANNEL_MAX_CLIENTS}"

definition exec_keys :: "config_key set" where
  "exec_keys = {KEY_CHANNEL_FD, KEY_CHANNEL_EXEC_BY_PATH}"

definition proxy_keys :: "config_key set" where
  "proxy_keys = {KEY_LISTEN, KEY_LISTEN_UNIX, KEY_UNIX_PEER, KEY_TOKEN_FILE, KEY_UNAUTHENTICATED_LOOPBACK, KEY_TLS_CERT, KEY_TLS_KEY,
     KEY_TLS_CA, KEY_REQUIRE_CLIENT_CERT}"

definition check_constraints :: "cli_settings \<Rightarrow> config_key set \<Rightarrow> string option" where
  "check_constraints s seen =
     (let broker = (cli_channel_listen_unix s \<noteq> None); channel = (cli_channel_principal s \<noteq> None);
          audit_parts = length (filter (\<lambda>text. text \<noteq> None) [cli_audit_log s, cli_audit_key_file s, cli_audit_key_id s])
      in if seen \<inter> channel_keys \<noteq> {} \<and> \<not> channel then Some ''all channel keys require channel_principal''
         else if \<not> broker \<and> seen \<inter> broker_keys \<noteq> {} then
           Some ''channel_handshake_timeout_ms and channel_max_clients require channel_listen_unix''
         else if broker \<and> seen \<inter> exec_keys \<noteq> {} then
           Some ''channel_fd and channel_exec_by_path belong to channel exec and refuse channel_listen_unix''
         else if channel \<and> seen \<inter> proxy_keys \<noteq> {} then
           Some ''broker and exec modes refuse proxy listener, credential and TLS listener keys''
         else if cli_listen_unix s \<noteq> None \<and> cli_listen_set s \<or> cli_unix_peer_set s \<and> cli_listen_unix s = None then
           Some ''choose exactly one listener; unix_peer requires listen_unix''
         else if cli_destinations s = [] \<or> \<not> channel \<and> cli_token_file s = None \<and> \<not> cli_unauthenticated_loopback s then
           Some ''at least one destination and an explicit authentication mode are required''
         else if cli_token_file s \<noteq> None \<and> cli_unauthenticated_loopback s then
           Some ''choose token_file or unauthenticated_loopback, not both''
         else if cli_listen_unix s \<noteq> None \<and> cli_unauthenticated_loopback s then
           Some ''Unix listeners require token_file authentication''
         else if cli_unauthenticated_loopback s \<and>
             (cli_quota_connections s \<noteq> 0 \<or> cli_quota_bytes s \<noteq> 0 \<or> cli_quota_total_bytes s \<noteq> 0) then
           Some ''principal quotas require token_file authentication''
         else if audit_parts \<noteq> 0 \<and> audit_parts \<noteq> 3 then
           Some ''audit_log, audit_key_file and audit_key_id are all required together''
         else if (cli_tls_cert s \<noteq> None) \<noteq> (cli_tls_key s \<noteq> None) \<or> cli_require_client_cert s \<and> cli_tls_ca s = None then
           Some ''TLS requires tls_cert and tls_key; mutual TLS also requires tls_ca''
         else None)"

section \<open>Loading\<close>

datatype errno = EPERM | ELOOP | EMLINK | EFTYPE | EINVAL | EISDIR | Errno nat

datatype settings_error =
    Invalid_default
  | Access_denied errno
  | File_error errno
  | Io_failed
  | Out_of_memory
  | Violation nat string "bytes option"
  | Unsupported nat bytes
  | Missing_schema_version
  | Constraint string

text \<open>
  The opening of the file: refused, without a stream, or its content with whether reading it and
  closing it succeed.
\<close>

datatype opened_file = Refused errno | No_stream | Stream bytes bool bool

definition file_failure :: "errno \<Rightarrow> settings_error" where
  "file_failure saved = (if saved \<in> {EPERM, ELOOP, EMLINK, EFTYPE, EINVAL, EISDIR} then Access_denied saved else File_error saved)"

text \<open>The records that \<^verbatim>\<open>getline\<close> returns, each with its newline if it has one.\<close>

function getlines :: "bytes \<Rightarrow> bytes list" where
  "getlines content =
     (case split_first 10 content of
        None \<Rightarrow> if content = [] then [] else [content]
      | Some (line, rest) \<Rightarrow> (line @ [10]) # getlines rest)"
  by pat_completeness auto

termination by (relation "measure length") (auto simp: split_first_Some)

declare getlines.simps [simp del]

type_synonym load_state = "cli_settings \<times> config_key set"

definition strip_newline :: "bytes \<Rightarrow> bytes" where
  "strip_newline line = rev (dropWhile (\<lambda>b. b = 10 \<or> b = 13) (rev line))"

definition apply_entry :: "cli_library \<Rightarrow> bool \<Rightarrow> nat \<Rightarrow> bytes \<Rightarrow> bytes \<Rightarrow> load_state \<Rightarrow> settings_error + load_state" where
  "apply_entry L strdup_ok number name value st =
     (let (s, seen) = st in
      case egress_cli_config_find name of
        None \<Rightarrow> Inl (Violation number ''unknown key or empty value'' (Some name))
      | Some spec \<Rightarrow>
          if value = [] then Inl (Violation number ''unknown key or empty value'' (Some name))
          else if \<not> spec_repeatable spec \<and> spec_key spec \<in> seen then Inl (Violation number ''duplicate key'' (Some name))
          else if spec_tls_only spec \<and> \<not> tls_listener_supported L then Inl (Unsupported number name)
          else
            case apply_value L strdup_ok (spec_key spec) value s of
              (violation, memory, s) \<Rightarrow>
                if memory then Inl Out_of_memory
                else (case violation of
                        Some text \<Rightarrow> Inl (Violation number text None)
                      | None \<Rightarrow> Inr (s, insert (spec_key spec) seen)))"

definition load_line :: "cli_library \<Rightarrow> bool \<Rightarrow> nat \<Rightarrow> bytes \<Rightarrow> load_state \<Rightarrow> settings_error + load_state" where
  "load_line L strdup_ok number line st =
     (if 4096 < length line \<or> 0 \<in> set line then Inl (Violation number ''line is too long or contains NUL'' None)
      else
        let entry = trim_value (strip_newline line) in
        if entry = [] \<or> hd entry = ch (CHR ''#'') then Inr st
        else
          case split_first (ch (CHR ''='')) entry of
            None \<Rightarrow> Inl (Violation number ''expected key = value'' None)
          | Some (name, value) \<Rightarrow> apply_entry L strdup_ok number (trim_value name) (trim_value value) st)"

text \<open>The lines are numbered from 1; whether memory is left is a function of the line.\<close>

fun load_lines :: "cli_library \<Rightarrow> (nat \<Rightarrow> bool) \<Rightarrow> nat \<Rightarrow> bytes list \<Rightarrow> load_state \<Rightarrow> settings_error + load_state" where
  "load_lines L memory number [] st = Inr st"
| "load_lines L memory number (line # lines) st =
     (case load_line L (memory (Suc number)) (Suc number) line st of
        Inl error \<Rightarrow> Inl error
      | Inr st \<Rightarrow> load_lines L memory (Suc number) lines st)"

fun apply_defaults :: "cli_library \<Rightarrow> bool \<Rightarrow> config_spec list \<Rightarrow> cli_settings \<Rightarrow> cli_settings option" where
  "apply_defaults L strdup_ok [] s = Some s"
| "apply_defaults L strdup_ok (spec # specs) s =
     (case spec_default spec of
        Some value \<Rightarrow>
          if key_code KEY_CHANNEL_LISTEN_UNIX \<le> key_code (spec_key spec) then
            (case apply_value L strdup_ok (spec_key spec) value s of
               (violation, memory, s) \<Rightarrow> if violation \<noteq> None \<or> memory then None else apply_defaults L strdup_ok specs s)
          else apply_defaults L strdup_ok specs s
      | None \<Rightarrow> apply_defaults L strdup_ok specs s)"

definition settings_zero :: cli_settings where
  "settings_zero =
     \<lparr>cli_listen_host = cstr ''127.0.0.1'', cli_listen_port = 0, cli_listen_set = False, cli_listen_unix = None,
      cli_unix_peer = UNIX_PEER_AUTHENTICATED, cli_unix_peer_set = False, cli_destinations = [], cli_token_file = None,
      cli_unauthenticated_loopback = False, cli_max_connections = 128, cli_quota_connections = 0, cli_quota_bytes = 0,
      cli_quota_total_bytes = 0, cli_admin_host = [], cli_admin_port = 0, cli_admin_set = False, cli_audit_log = None,
      cli_audit_key_file = None, cli_audit_key_id = None, cli_tls_cert = None, cli_tls_key = None, cli_tls_ca = None,
      cli_require_client_cert = False, cli_channel_listen_unix = None, cli_channel_principal = None, cli_channel_invocation_id = None,
      cli_channel_connect_timeout_ms = 0, cli_channel_handshake_timeout_ms = 0, cli_channel_max_clients = 0, cli_channel_fd = 0,
      cli_channel_exec_by_path = False\<rparr>"

definition load_finish :: "bool \<Rightarrow> settings_error + load_state \<Rightarrow> settings_error + cli_settings" where
  "load_finish close_ok loaded =
     (case loaded of
        Inl error \<Rightarrow> Inl error
      | Inr (s, seen) \<Rightarrow>
          if \<not> close_ok then Inl Io_failed
          else if KEY_SCHEMA_VERSION \<notin> seen then Inl Missing_schema_version
          else case check_constraints s seen of Some violation \<Rightarrow> Inl (Constraint violation) | None \<Rightarrow> Inr s)"

definition egress_cli_settings_load :: "cli_library \<Rightarrow> (nat \<Rightarrow> bool) \<Rightarrow> bool \<Rightarrow> opened_file \<Rightarrow> settings_error + cli_settings" where
  "egress_cli_settings_load L memory calloc_ok opened =
     (case apply_defaults L (memory 0) config_specs settings_zero of
        None \<Rightarrow> Inl Invalid_default
      | Some s \<Rightarrow>
          (case opened of
             Refused saved \<Rightarrow> Inl (file_failure saved)
           | No_stream \<Rightarrow> Inl Io_failed
           | Stream content read_ok close_ok \<Rightarrow>
               if \<not> calloc_ok then Inl Out_of_memory
               else
                 load_finish close_ok
                   (case load_lines L memory 0 (getlines content) (s, {}) of
                      Inl error \<Rightarrow> Inl error
                    | Inr st \<Rightarrow> if read_ok then Inr st else Inl Io_failed)))"

section \<open>Endpoints\<close>

lemma endpoint_port_loop_Some:
  "endpoint_port_loop port ps = Some n \<longleftrightarrow> list_all is_digit ps \<and> foldl (\<lambda>v b. v * 10 + digit_value b) port ps = n \<and> (ps = [] \<or> n \<le> 65535)"
proof (induction ps arbitrary: port)
  case (Cons p ps)
  have mono: "v \<le> foldl (\<lambda>v b. v * 10 + digit_value b) v qs" for v qs
  proof (induction qs arbitrary: v)
    case (Cons q qs)
    show ?case using Cons.IH[of "v * 10 + digit_value q"] by simp
  qed simp
  have digit: "is_digit p \<longleftrightarrow> \<not> (p < ch (CHR ''0'') \<or> ch (CHR ''9'') < p)" by (auto simp: is_digit_def)
  show ?case
    using Cons.IH[of "port * 10 + digit_value p"] mono[of "port * 10 + digit_value p" ps]
    by (auto simp: digit digit_value_def Let_def)
qed simp

lemma endpoint_parts_Some:
  "endpoint_parts input = Some (host, port_text) \<longleftrightarrow>
     input = cstr ''['' @ host @ cstr '']:'' @ port_text \<and> ch (CHR '']'') \<notin> set host \<or>
     input = host @ cstr '':'' @ port_text \<and> ch (CHR '':'') \<notin> set host \<and> ch (CHR '':'') \<notin> set port_text \<and>
       (host = [] \<or> hd host \<noteq> ch (CHR ''[''))"
proof (cases "input \<noteq> [] \<and> hd input = ch (CHR ''['')")
  case True
  then obtain rest where input: "input = ch (CHR ''['') # rest" by (cases input) auto
  have "endpoint_parts input = Some (host, port_text) \<longleftrightarrow> split_first (ch (CHR '']'')) rest = Some (host, cstr '':'' @ port_text)"
    by (cases "split_first (ch (CHR '']'')) rest") (auto simp: endpoint_parts_def input neq_Nil_conv simp del: split_first_None split: prod.splits)
  also have "\<dots> \<longleftrightarrow> input = cstr ''['' @ host @ cstr '']:'' @ port_text \<and> ch (CHR '']'') \<notin> set host"
    by (simp add: split_first_Some input)
  finally show ?thesis by (auto simp: input Cons_eq_append_conv)
next
  case False
  have "endpoint_parts input = Some (host, port_text) \<longleftrightarrow>
      split_first (ch (CHR '':'')) input = Some (host, port_text) \<and> ch (CHR '':'') \<notin> set port_text"
    unfolding endpoint_parts_def if_not_P[OF False] by (cases "split_first (ch (CHR '':'')) input") (auto simp del: split_first_None split: if_splits)
  also have "\<dots> \<longleftrightarrow> input = host @ cstr '':'' @ port_text \<and> ch (CHR '':'') \<notin> set host \<and> ch (CHR '':'') \<notin> set port_text"
    by (auto simp: split_first_Some)
  finally show ?thesis using False by (cases host) auto
qed

text \<open>The two checks of the path of the broker, by the command line and by the library, agree.\<close>

lemma channel_path_loop_bootstrap: "channel_path_loop part = bootstrap_path_loop part"
proof (induction part rule: channel_path_loop.induct)
  case (1 part)
  let ?c = "takeWhile (\<lambda>b. b \<noteq> ch (CHR ''/'')) part" and ?r = "dropWhile (\<lambda>b. b \<noteq> ch (CHR ''/'')) part"
  have valid: "bootstrap_part_valid c \<longleftrightarrow> \<not> (c = [] \<or> c = cstr ''.'' \<or> c = cstr ''..'')" for c
    by (auto simp: bootstrap_part_valid_def length_Suc_conv numeral_2_eq_2)
  have split: "split_first (ch (CHR ''/'')) part = (if ?r = [] then None else Some (?c, tl ?r))"
    by (induction part) auto
  have left: "channel_path_loop part \<longleftrightarrow> bootstrap_part_valid ?c \<and> (?r = [] \<or> channel_path_loop (tl ?r))"
    by (subst channel_path_loop.simps) (simp only: Let_def valid, argo)
  show ?case
  proof (cases "?r = []")
    case True
    then have "?c = part" by (simp only: dropWhile_eq_Nil_conv takeWhile_eq_all_conv)
    then show ?thesis unfolding left by (subst bootstrap_path_loop.simps) (simp only: split True if_True option.case simp_thms)
  next
    case False
    have "bootstrap_part_valid ?c \<Longrightarrow> channel_path_loop (tl ?r) = bootstrap_path_loop (tl ?r)"
      using 1[OF HOL.refl HOL.refl _ False] by (simp only: valid simp_thms)
    then show ?thesis
      unfolding left by (subst bootstrap_path_loop.simps) (auto simp only: split False if_False option.case prod.case simp_thms)
  qed
qed

section \<open>What a loaded file satisfies\<close>

text \<open>The bounds of the values.\<close>

definition destination_bounds :: "cli_destination \<Rightarrow> bool" where
  "destination_bounds d \<longleftrightarrow> clid_host d \<noteq> [] \<and> length (clid_host d) < 254 \<and> clid_port d \<noteq> 0 \<and> \<not> (clid_allow_private d \<and> clid_require_tls_sni d)"

definition settings_bounds :: "cli_settings \<Rightarrow> bool" where
  "settings_bounds s \<longleftrightarrow>
     1 \<le> cli_max_connections s \<and> cli_max_connections s \<le> 4096 \<and> cli_quota_connections s \<le> 4096 \<and>
     1 \<le> cli_channel_connect_timeout_ms s \<and> cli_channel_connect_timeout_ms s \<le> 600000 \<and>
     1 \<le> cli_channel_handshake_timeout_ms s \<and> cli_channel_handshake_timeout_ms s \<le> 60000 \<and>
     1 \<le> cli_channel_max_clients s \<and> cli_channel_max_clients s \<le> 4096 \<and> 3 \<le> cli_channel_fd s \<and> cli_channel_fd s \<le> 255 \<and>
     length (cli_listen_host s) < 64 \<and> length (cli_admin_host s) < 64 \<and>
     length (cli_destinations s) \<le> EGRESS_CLI_MAX_DESTINATIONS \<and> list_all destination_bounds (cli_destinations s) \<and>
     (\<forall>path. cli_channel_listen_unix s = Some path \<longrightarrow> egress_bootstrap_path_valid (Some path) \<and> length path < SUN_PATH)"

text \<open>A setting differs from its default only if its key was seen.\<close>

definition tls_keys :: "config_key set" where
  "tls_keys = {KEY_TLS_CERT, KEY_TLS_KEY, KEY_TLS_CA, KEY_REQUIRE_CLIENT_CERT}"

definition settings_seen :: "config_key set \<Rightarrow> cli_settings \<Rightarrow> bool" where
  "settings_seen seen s \<longleftrightarrow>
     (cli_listen_set s \<longrightarrow> KEY_LISTEN \<in> seen) \<and> (cli_listen_unix s \<noteq> None \<longrightarrow> KEY_LISTEN_UNIX \<in> seen) \<and>
     (cli_unix_peer_set s \<longrightarrow> KEY_UNIX_PEER \<in> seen) \<and> (cli_token_file s \<noteq> None \<longrightarrow> KEY_TOKEN_FILE \<in> seen) \<and>
     (cli_unauthenticated_loopback s \<longrightarrow> KEY_UNAUTHENTICATED_LOOPBACK \<in> seen) \<and>
     (cli_tls_cert s \<noteq> None \<longrightarrow> KEY_TLS_CERT \<in> seen) \<and> (cli_tls_key s \<noteq> None \<longrightarrow> KEY_TLS_KEY \<in> seen) \<and>
     (cli_tls_ca s \<noteq> None \<longrightarrow> KEY_TLS_CA \<in> seen) \<and> (cli_require_client_cert s \<longrightarrow> KEY_REQUIRE_CLIENT_CERT \<in> seen) \<and>
     (cli_channel_listen_unix s \<noteq> None \<longrightarrow> KEY_CHANNEL_LISTEN_UNIX \<in> seen) \<and>
     (cli_channel_invocation_id s \<noteq> None \<longrightarrow> KEY_CHANNEL_INVOCATION_ID \<in> seen) \<and>
     (cli_channel_exec_by_path s \<longrightarrow> KEY_CHANNEL_EXEC_BY_PATH \<in> seen) \<and>
     (cli_channel_connect_timeout_ms s \<noteq> 5000 \<longrightarrow> KEY_CHANNEL_CONNECT_TIMEOUT_MS \<in> seen) \<and>
     (cli_channel_handshake_timeout_ms s \<noteq> 5000 \<longrightarrow> KEY_CHANNEL_HANDSHAKE_TIMEOUT_MS \<in> seen) \<and>
     (cli_channel_max_clients s \<noteq> 128 \<longrightarrow> KEY_CHANNEL_MAX_CLIENTS \<in> seen) \<and>
     (cli_channel_fd s \<noteq> 4 \<longrightarrow> KEY_CHANNEL_FD \<in> seen)"

lemma settings_seenD:
  assumes "settings_seen seen s"
  shows "cli_listen_set s \<Longrightarrow> KEY_LISTEN \<in> seen"
    "cli_listen_unix s \<noteq> None \<Longrightarrow> KEY_LISTEN_UNIX \<in> seen"
    "cli_unix_peer_set s \<Longrightarrow> KEY_UNIX_PEER \<in> seen"
    "cli_token_file s \<noteq> None \<Longrightarrow> KEY_TOKEN_FILE \<in> seen"
    "cli_unauthenticated_loopback s \<Longrightarrow> KEY_UNAUTHENTICATED_LOOPBACK \<in> seen"
    "cli_tls_cert s \<noteq> None \<Longrightarrow> KEY_TLS_CERT \<in> seen"
    "cli_tls_key s \<noteq> None \<Longrightarrow> KEY_TLS_KEY \<in> seen"
    "cli_tls_ca s \<noteq> None \<Longrightarrow> KEY_TLS_CA \<in> seen"
    "cli_require_client_cert s \<Longrightarrow> KEY_REQUIRE_CLIENT_CERT \<in> seen"
    "cli_channel_listen_unix s \<noteq> None \<Longrightarrow> KEY_CHANNEL_LISTEN_UNIX \<in> seen"
    "cli_channel_invocation_id s \<noteq> None \<Longrightarrow> KEY_CHANNEL_INVOCATION_ID \<in> seen"
    "cli_channel_exec_by_path s \<Longrightarrow> KEY_CHANNEL_EXEC_BY_PATH \<in> seen"
    "cli_channel_connect_timeout_ms s \<noteq> 5000 \<Longrightarrow> KEY_CHANNEL_CONNECT_TIMEOUT_MS \<in> seen"
    "cli_channel_handshake_timeout_ms s \<noteq> 5000 \<Longrightarrow> KEY_CHANNEL_HANDSHAKE_TIMEOUT_MS \<in> seen"
    "cli_channel_max_clients s \<noteq> 128 \<Longrightarrow> KEY_CHANNEL_MAX_CLIENTS \<in> seen"
    "cli_channel_fd s \<noteq> 4 \<Longrightarrow> KEY_CHANNEL_FD \<in> seen"
  using assms unfolding settings_seen_def by argo+

lemma settings_unseen:
  assumes "settings_seen seen s"
  shows "KEY_LISTEN \<notin> seen \<Longrightarrow> \<not> cli_listen_set s"
    "KEY_LISTEN_UNIX \<notin> seen \<Longrightarrow> cli_listen_unix s = None"
    "KEY_UNIX_PEER \<notin> seen \<Longrightarrow> \<not> cli_unix_peer_set s"
    "KEY_TOKEN_FILE \<notin> seen \<Longrightarrow> cli_token_file s = None"
    "KEY_UNAUTHENTICATED_LOOPBACK \<notin> seen \<Longrightarrow> \<not> cli_unauthenticated_loopback s"
    "KEY_TLS_CERT \<notin> seen \<Longrightarrow> cli_tls_cert s = None"
    "KEY_TLS_KEY \<notin> seen \<Longrightarrow> cli_tls_key s = None"
    "KEY_TLS_CA \<notin> seen \<Longrightarrow> cli_tls_ca s = None"
    "KEY_REQUIRE_CLIENT_CERT \<notin> seen \<Longrightarrow> \<not> cli_require_client_cert s"
    "KEY_CHANNEL_LISTEN_UNIX \<notin> seen \<Longrightarrow> cli_channel_listen_unix s = None"
    "KEY_CHANNEL_INVOCATION_ID \<notin> seen \<Longrightarrow> cli_channel_invocation_id s = None"
    "KEY_CHANNEL_EXEC_BY_PATH \<notin> seen \<Longrightarrow> \<not> cli_channel_exec_by_path s"
    "KEY_CHANNEL_CONNECT_TIMEOUT_MS \<notin> seen \<Longrightarrow> cli_channel_connect_timeout_ms s = 5000"
    "KEY_CHANNEL_HANDSHAKE_TIMEOUT_MS \<notin> seen \<Longrightarrow> cli_channel_handshake_timeout_ms s = 5000"
    "KEY_CHANNEL_MAX_CLIENTS \<notin> seen \<Longrightarrow> cli_channel_max_clients s = 128"
    "KEY_CHANNEL_FD \<notin> seen \<Longrightarrow> cli_channel_fd s = 4"
  using settings_seenD[OF assms] by argo+

lemmas applied_defs = own_text_def apply_number_def apply_boolean_def apply_destination_def apply_channel_path_def apply_unix_peer_def

lemma parse_endpoint_bounds: "parse_endpoint n v = Some (h, p) \<Longrightarrow> h \<noteq> [] \<and> length h < n"
  by (auto simp: parse_endpoint_def split: option.splits if_splits)

lemma own_text_applied: "own_text ok value store s = (None, False, t) \<Longrightarrow> t = store (Some value) s"
  by (simp add: own_text_def split: if_splits)

lemma apply_boolean_applied: "apply_boolean value store s = (None, False, t) \<Longrightarrow> \<exists>b. t = store b s"
  by (auto simp: apply_boolean_def split: if_splits)

lemma library_number: "cli_library_ok L \<Longrightarrow> parse_u64_decimal L v low high = Some n \<Longrightarrow> low \<le> n \<and> n \<le> high"
  by (simp add: cli_library_ok_def)

lemma apply_number_applied:
  assumes "apply_number L value low high violation store s = (None, False, t)" "cli_library_ok L"
  shows "\<exists>n. low \<le> n \<and> n \<le> high \<and> t = store n s"
proof -
  obtain n where "parse_u64_decimal L value low high = Some n" "t = store n s"
    using assms(1) by (auto simp: apply_number_def split: option.splits)
  then show ?thesis using library_number[OF assms(2)] by blast
qed

lemma apply_destination_applied:
  assumes "apply_destination key value s = (None, False, t)"
  shows "\<exists>d. destination_bounds d \<and> length (cli_destinations s) < EGRESS_CLI_MAX_DESTINATIONS \<and>
    t = s\<lparr>cli_destinations := cli_destinations s @ [d]\<rparr>"
proof -
  obtain host port where parsed: "parse_endpoint 254 value = Some (host, port)" "port \<noteq> 0"
    and t: "length (cli_destinations s) < EGRESS_CLI_MAX_DESTINATIONS" "t = s\<lparr>cli_destinations := cli_destinations s @
      [\<lparr>clid_host = host, clid_port = port, clid_allow_private = (key = KEY_ALLOW_PRIVATE), clid_require_tls_sni = (key = KEY_ALLOW_TLS_SNI)\<rparr>]\<rparr>"
    using assms by (auto simp: apply_destination_def split: if_splits option.splits)
  have "destination_bounds \<lparr>clid_host = host, clid_port = port, clid_allow_private = (key = KEY_ALLOW_PRIVATE),
      clid_require_tls_sni = (key = KEY_ALLOW_TLS_SNI)\<rparr>"
    using parsed(2) parse_endpoint_bounds[OF parsed(1)] by (simp add: destination_bounds_def)
  then show ?thesis using t by blast
qed

lemma apply_channel_path_applied:
  assumes "apply_channel_path ok value s = (None, False, t)"
  shows "egress_bootstrap_path_valid (Some value) \<and> length value < SUN_PATH \<and> t = s\<lparr>cli_channel_listen_unix := Some value\<rparr>"
proof -
  have "\<not> channel_path_loop []" by (subst channel_path_loop.simps) simp
  then have "channel_path_loop (tl value) \<Longrightarrow> hd value = ch (CHR ''/'') \<Longrightarrow> value \<noteq> [] \<Longrightarrow> egress_bootstrap_path_valid (Some value)"
    by (cases "value"; cases "tl value") (auto simp: egress_bootstrap_path_valid_def channel_path_loop_bootstrap)
  then show ?thesis using assms by (auto simp: apply_channel_path_def own_text_def split: if_splits)
qed

lemmas applied = own_text_applied apply_boolean_applied apply_number_applied apply_destination_applied apply_channel_path_applied

lemma apply_value_new:
  assumes "apply_value L ok key value s = (None, False, t)"
  shows "cli_listen_set t \<Longrightarrow> cli_listen_set s \<or> key = KEY_LISTEN"
    "cli_listen_unix t \<noteq> None \<Longrightarrow> cli_listen_unix s \<noteq> None \<or> key = KEY_LISTEN_UNIX"
    "cli_unix_peer_set t \<Longrightarrow> cli_unix_peer_set s \<or> key = KEY_UNIX_PEER"
    "cli_token_file t \<noteq> None \<Longrightarrow> cli_token_file s \<noteq> None \<or> key = KEY_TOKEN_FILE"
    "cli_unauthenticated_loopback t \<Longrightarrow> cli_unauthenticated_loopback s \<or> key = KEY_UNAUTHENTICATED_LOOPBACK"
    "cli_tls_cert t \<noteq> None \<Longrightarrow> cli_tls_cert s \<noteq> None \<or> key = KEY_TLS_CERT"
    "cli_tls_key t \<noteq> None \<Longrightarrow> cli_tls_key s \<noteq> None \<or> key = KEY_TLS_KEY"
    "cli_tls_ca t \<noteq> None \<Longrightarrow> cli_tls_ca s \<noteq> None \<or> key = KEY_TLS_CA"
    "cli_require_client_cert t \<Longrightarrow> cli_require_client_cert s \<or> key = KEY_REQUIRE_CLIENT_CERT"
    "cli_channel_listen_unix t \<noteq> None \<Longrightarrow> cli_channel_listen_unix s \<noteq> None \<or> key = KEY_CHANNEL_LISTEN_UNIX"
    "cli_channel_invocation_id t \<noteq> None \<Longrightarrow> cli_channel_invocation_id s \<noteq> None \<or> key = KEY_CHANNEL_INVOCATION_ID"
    "cli_channel_exec_by_path t \<Longrightarrow> cli_channel_exec_by_path s \<or> key = KEY_CHANNEL_EXEC_BY_PATH"
    "cli_channel_connect_timeout_ms t \<noteq> 5000 \<Longrightarrow> cli_channel_connect_timeout_ms s \<noteq> 5000 \<or> key = KEY_CHANNEL_CONNECT_TIMEOUT_MS"
    "cli_channel_handshake_timeout_ms t \<noteq> 5000 \<Longrightarrow> cli_channel_handshake_timeout_ms s \<noteq> 5000 \<or> key = KEY_CHANNEL_HANDSHAKE_TIMEOUT_MS"
    "cli_channel_max_clients t \<noteq> 128 \<Longrightarrow> cli_channel_max_clients s \<noteq> 128 \<or> key = KEY_CHANNEL_MAX_CLIENTS"
    "cli_channel_fd t \<noteq> 4 \<Longrightarrow> cli_channel_fd s \<noteq> 4 \<or> key = KEY_CHANNEL_FD"
  using assms by (cases key; auto simp: applied_defs split: if_splits option.splits)+

lemma apply_value_seen:
  assumes "apply_value L ok key value s = (None, False, t)" "settings_seen seen s"
  shows "settings_seen (insert key seen) t"
  unfolding settings_seen_def
  by (intro conjI impI; drule apply_value_new[OF assms(1)]; erule disjE; (drule settings_seenD[OF assms(2)])?; simp)

lemma apply_value_bounded:
  assumes "apply_value L ok key value s = (None, False, t)" "cli_library_ok L"
  shows "1 \<le> cli_max_connections s \<and> cli_max_connections s \<le> 4096 \<Longrightarrow> 1 \<le> cli_max_connections t \<and> cli_max_connections t \<le> 4096"
    "cli_quota_connections s \<le> 4096 \<Longrightarrow> cli_quota_connections t \<le> 4096"
    "1 \<le> cli_channel_connect_timeout_ms s \<and> cli_channel_connect_timeout_ms s \<le> 600000 \<Longrightarrow>
      1 \<le> cli_channel_connect_timeout_ms t \<and> cli_channel_connect_timeout_ms t \<le> 600000"
    "1 \<le> cli_channel_handshake_timeout_ms s \<and> cli_channel_handshake_timeout_ms s \<le> 60000 \<Longrightarrow>
      1 \<le> cli_channel_handshake_timeout_ms t \<and> cli_channel_handshake_timeout_ms t \<le> 60000"
    "1 \<le> cli_channel_max_clients s \<and> cli_channel_max_clients s \<le> 4096 \<Longrightarrow> 1 \<le> cli_channel_max_clients t \<and> cli_channel_max_clients t \<le> 4096"
    "3 \<le> cli_channel_fd s \<and> cli_channel_fd s \<le> 255 \<Longrightarrow> 3 \<le> cli_channel_fd t \<and> cli_channel_fd t \<le> 255"
    "length (cli_listen_host s) < 64 \<Longrightarrow> length (cli_listen_host t) < 64" "length (cli_admin_host s) < 64 \<Longrightarrow> length (cli_admin_host t) < 64"
    "length (cli_destinations s) \<le> EGRESS_CLI_MAX_DESTINATIONS \<and> list_all destination_bounds (cli_destinations s) \<Longrightarrow>
      length (cli_destinations t) \<le> EGRESS_CLI_MAX_DESTINATIONS \<and> list_all destination_bounds (cli_destinations t)"
    "\<forall>path. cli_channel_listen_unix s = Some path \<longrightarrow> egress_bootstrap_path_valid (Some path) \<and> length path < SUN_PATH \<Longrightarrow>
      \<forall>path. cli_channel_listen_unix t = Some path \<longrightarrow> egress_bootstrap_path_valid (Some path) \<and> length path < SUN_PATH"
  using assms
  by (cases key; auto simp: word_le_nat_alt apply_unix_peer_def dest!: applied parse_endpoint_bounds split: option.splits if_splits)+

lemma apply_value_bounds:
  "apply_value L ok key value s = (None, False, t) \<Longrightarrow> cli_library_ok L \<Longrightarrow> settings_bounds s \<Longrightarrow> settings_bounds t"
  unfolding settings_bounds_def using apply_value_bounded[of L ok key "value" s t] by argo

text \<open>The defaults of the channel keys are in the catalog as texts.\<close>

definition settings_default :: cli_settings where
  "settings_default = settings_zero\<lparr>cli_channel_connect_timeout_ms := 5000, cli_channel_handshake_timeout_ms := 5000,
     cli_channel_max_clients := 128, cli_channel_fd := 4\<rparr>"

lemma default_numbers:
  assumes "cli_library_ok L"
  shows "parse_u64_decimal L (cstr ''5000'') 1 600000 = Some 5000" "parse_u64_decimal L (cstr ''5000'') 1 60000 = Some 5000"
    "parse_u64_decimal L (cstr ''128'') 1 4096 = Some 128" "parse_u64_decimal L (cstr ''4'') 3 255 = Some 4"
proof -
  have printed: "cstr ''5000'' = dec (unat (5000 :: u64))" "cstr ''128'' = dec (unat (128 :: u64))" "cstr ''4'' = dec (unat (4 :: u64))"
    by (simp_all add: dec_step dec_small)
  have parse: "parse_u64_decimal L (dec (unat n)) low high = Some n" if "low \<le> n" "n \<le> high" for n low high
    using assms that by (simp add: cli_library_ok_def)
  show "parse_u64_decimal L (cstr ''5000'') 1 600000 = Some 5000" "parse_u64_decimal L (cstr ''5000'') 1 60000 = Some 5000"
    "parse_u64_decimal L (cstr ''128'') 1 4096 = Some 128" "parse_u64_decimal L (cstr ''4'') 3 255 = Some 4"
    unfolding printed by (rule parse; simp)+
qed

lemma defaults_applied:
  assumes "cli_library_ok L"
  shows "apply_defaults L ok config_specs settings_zero = Some settings_default"
  by (simp del: cstr_simps add: config_specs_def config_spec_of_def apply_number_def default_numbers[OF assms])
    (simp add: apply_boolean_def settings_default_def settings_zero_def)

lemma default_bounds: "settings_bounds settings_default" "settings_seen {} settings_default"
  by (simp_all add: settings_bounds_def settings_seen_def settings_default_def settings_zero_def EGRESS_CLI_MAX_DESTINATIONS_def)

text \<open>What holds after each line.\<close>

definition loading :: "cli_library \<Rightarrow> load_state \<Rightarrow> bool" where
  "loading L st \<longleftrightarrow> settings_bounds (fst st) \<and> settings_seen (snd st) (fst st) \<and> (snd st \<inter> tls_keys \<noteq> {} \<longrightarrow> tls_listener_supported L)"

lemma config_find_set: "config_find name specs = Some spec \<Longrightarrow> spec \<in> set specs"
  by (induction specs) (auto split: if_splits)

lemma tls_only_keys: "spec \<in> set config_specs \<Longrightarrow> spec_tls_only spec \<longleftrightarrow> spec_key spec \<in> tls_keys"
  by (auto simp del: cstr_simps simp: config_specs_def config_spec_of_def tls_keys_def)

lemma apply_entry_loading:
  assumes "cli_library_ok L" "loading L st" "apply_entry L ok number name v st = Inr st'"
  shows "loading L st'"
proof -
  obtain spec t where spec: "egress_cli_config_find name = Some spec" "spec_tls_only spec \<Longrightarrow> tls_listener_supported L"
    and run: "apply_value L ok (spec_key spec) v (fst st) = (None, False, t)" and st': "st' = (t, insert (spec_key spec) (snd st))"
    using assms(3) by (auto simp: apply_entry_def split: prod.splits option.splits if_splits)
  have "spec_tls_only spec \<longleftrightarrow> spec_key spec \<in> tls_keys"
    using spec(1) by (intro tls_only_keys config_find_set) (simp add: egress_cli_config_find_def)
  then show ?thesis
    using assms(2) spec(2) apply_value_bounds[OF run assms(1)] apply_value_seen[OF run] by (auto simp: loading_def st')
qed

lemma load_line_loading: "cli_library_ok L \<Longrightarrow> loading L st \<Longrightarrow> load_line L ok number line st = Inr st' \<Longrightarrow> loading L st'"
  by (auto simp: load_line_def Let_def split: if_splits option.splits intro: apply_entry_loading)

lemma load_lines_loading: "cli_library_ok L \<Longrightarrow> loading L st \<Longrightarrow> load_lines L memory number lines st = Inr st' \<Longrightarrow> loading L st'"
  by (induction lines arbitrary: number st) (auto split: sum.splits dest: load_line_loading)

lemma settings_loaded:
  assumes "cli_library_ok L" "egress_cli_settings_load L memory ok opened = Inr s"
  shows "\<exists>seen. loading L (s, seen) \<and> check_constraints s seen = None"
proof -
  obtain content seen where lines: "load_lines L memory 0 (getlines content) (settings_default, {}) = Inr (s, seen)"
    and check: "check_constraints s seen = None"
    using assms(2)
    by (auto simp: egress_cli_settings_load_def load_finish_def defaults_applied[OF assms(1)]
        split: opened_file.splits if_splits sum.splits prod.splits option.splits)
  have "loading L (settings_default, {})" using default_bounds by (simp add: loading_def)
  from load_lines_loading[OF assms(1) this lines] check show ?thesis by blast
qed

section \<open>Properties\<close>

text \<open>
  What the settings of a file satisfy, by the mode of the file. Keys that a mode refuses have left their defaults. Every constraint that the loader checks is here; the
  catalog lists one more that it does not check, that \<^verbatim>\<open>require_client_cert\<close> comes with \<^verbatim>\<open>tls_cert\<close> and \<^verbatim>\<open>tls_key\<close>
  (see \<open>client_certificate_without_listener\<close> below).
\<close>

definition settings_valid :: "cli_library \<Rightarrow> cli_settings \<Rightarrow> bool" where
  "settings_valid L s \<longleftrightarrow>
     settings_bounds s \<and> cli_destinations s \<noteq> [] \<and>
     (egress_cli_settings_mode s = MODE_PROXY \<longrightarrow>
        (cli_token_file s = None) = cli_unauthenticated_loopback s \<and> cli_channel_listen_unix s = None \<and>
        cli_channel_invocation_id s = None \<and> cli_channel_connect_timeout_ms s = 5000) \<and>
     (egress_cli_settings_mode s \<noteq> MODE_PROXY \<longrightarrow>
        \<not> cli_listen_set s \<and> cli_listen_unix s = None \<and> \<not> cli_unix_peer_set s \<and> cli_token_file s = None \<and>
        \<not> cli_unauthenticated_loopback s \<and> cli_tls_cert s = None \<and> cli_tls_key s = None \<and> cli_tls_ca s = None \<and> \<not> cli_require_client_cert s) \<and>
     (egress_cli_settings_mode s \<noteq> MODE_EXEC \<longrightarrow> \<not> cli_channel_exec_by_path s \<and> cli_channel_fd s = 4) \<and>
     (egress_cli_settings_mode s \<noteq> MODE_BROKER \<longrightarrow> cli_channel_handshake_timeout_ms s = 5000 \<and> cli_channel_max_clients s = 128) \<and>
     (cli_listen_unix s \<noteq> None \<longrightarrow> cli_token_file s \<noteq> None \<and> \<not> cli_listen_set s) \<and> (cli_unix_peer_set s \<longrightarrow> cli_listen_unix s \<noteq> None) \<and>
     (cli_unauthenticated_loopback s \<longrightarrow> cli_quota_connections s = 0 \<and> cli_quota_bytes s = 0 \<and> cli_quota_total_bytes s = 0) \<and>
     (cli_audit_log s = None) = (cli_audit_key_file s = None) \<and> (cli_audit_log s = None) = (cli_audit_key_id s = None) \<and>
     (cli_tls_cert s = None) = (cli_tls_key s = None) \<and> (cli_require_client_cert s \<longrightarrow> cli_tls_ca s \<noteq> None) \<and>
     (cli_tls_cert s \<noteq> None \<or> cli_tls_ca s \<noteq> None \<longrightarrow> tls_listener_supported L)"

lemma violation_None: "(if P then Some a else q) = None \<longleftrightarrow> \<not> P \<and> q = None"
  by simp

lemma constraints_checked:
  assumes "check_constraints s seen = None"
  shows "seen \<inter> channel_keys \<noteq> {} \<Longrightarrow> cli_channel_principal s \<noteq> None"
    "cli_channel_listen_unix s \<noteq> None \<Longrightarrow> seen \<inter> exec_keys = {}"
    "cli_channel_listen_unix s = None \<Longrightarrow> seen \<inter> broker_keys = {}"
    "cli_channel_principal s \<noteq> None \<Longrightarrow> seen \<inter> proxy_keys = {}"
    "cli_listen_unix s \<noteq> None \<Longrightarrow> \<not> cli_listen_set s" "cli_unix_peer_set s \<Longrightarrow> cli_listen_unix s \<noteq> None"
    "cli_destinations s \<noteq> []" "cli_channel_principal s = None \<Longrightarrow> cli_token_file s = None \<Longrightarrow> cli_unauthenticated_loopback s"
    "cli_unauthenticated_loopback s \<Longrightarrow> cli_token_file s = None \<and> cli_listen_unix s = None"
    "cli_unauthenticated_loopback s \<Longrightarrow> cli_quota_connections s = 0 \<and> cli_quota_bytes s = 0 \<and> cli_quota_total_bytes s = 0"
    "(cli_audit_log s = None) = (cli_audit_key_file s = None)" "(cli_audit_log s = None) = (cli_audit_key_id s = None)"
    "(cli_tls_cert s = None) = (cli_tls_key s = None)" "cli_require_client_cert s \<Longrightarrow> cli_tls_ca s \<noteq> None"
proof -
  note checks = assms[unfolded check_constraints_def Let_def violation_None]
  show "seen \<inter> channel_keys \<noteq> {} \<Longrightarrow> cli_channel_principal s \<noteq> None"
    "cli_channel_listen_unix s \<noteq> None \<Longrightarrow> seen \<inter> exec_keys = {}"
    "cli_channel_listen_unix s = None \<Longrightarrow> seen \<inter> broker_keys = {}"
    "cli_channel_principal s \<noteq> None \<Longrightarrow> seen \<inter> proxy_keys = {}"
    "cli_listen_unix s \<noteq> None \<Longrightarrow> \<not> cli_listen_set s" "cli_unix_peer_set s \<Longrightarrow> cli_listen_unix s \<noteq> None"
    "cli_destinations s \<noteq> []" "cli_channel_principal s = None \<Longrightarrow> cli_token_file s = None \<Longrightarrow> cli_unauthenticated_loopback s"
    "cli_unauthenticated_loopback s \<Longrightarrow> cli_token_file s = None \<and> cli_listen_unix s = None"
    "cli_unauthenticated_loopback s \<Longrightarrow> cli_quota_connections s = 0 \<and> cli_quota_bytes s = 0 \<and> cli_quota_total_bytes s = 0"
    "(cli_tls_cert s = None) = (cli_tls_key s = None)" "cli_require_client_cert s \<Longrightarrow> cli_tls_ca s \<noteq> None"
    using checks by argo+
  show "(cli_audit_log s = None) = (cli_audit_key_file s = None)" "(cli_audit_log s = None) = (cli_audit_key_id s = None)"
    using checks by (cases "cli_audit_log s"; cases "cli_audit_key_file s"; cases "cli_audit_key_id s"; simp)+
qed

lemma channel_key:
  "key \<in> {KEY_CHANNEL_LISTEN_UNIX, KEY_CHANNEL_INVOCATION_ID, KEY_CHANNEL_EXEC_BY_PATH, KEY_CHANNEL_CONNECT_TIMEOUT_MS, KEY_CHANNEL_FD} \<Longrightarrow>
     key \<in> channel_keys"
  by (auto simp: channel_keys_def)

text \<open>
  C9: A configuration file that loads is valid: every value is within its bounds and every constraint between keys that the loader checks holds.
  A proxy has exactly one authentication mode; the broker and the launcher of programs have no proxy listener, no credentials and no
  TLS listener; what belongs to the broker or to the launcher only keeps its default elsewhere; audit and TLS files come together; a listener has one
  endpoint. That required client certificates come with a certificate of the listener is not among the constraints.
\<close>

theorem settings_load_valid:
  assumes "cli_library_ok L" and "egress_cli_settings_load L memory ok opened = Inr s"
  shows "settings_valid L s"
proof -
  obtain seen where "loading L (s, seen)" and check: "check_constraints s seen = None" using settings_loaded[OF assms] by blast
  then have bounds: "settings_bounds s" and seen: "settings_seen seen s" and tls: "seen \<inter> tls_keys \<noteq> {} \<Longrightarrow> tls_listener_supported L"
    by (auto simp: loading_def)
  note c = constraints_checked[OF check]
  have channel: "cli_channel_principal s = None \<Longrightarrow> cli_channel_listen_unix s = None \<and> cli_channel_invocation_id s = None \<and>
      \<not> cli_channel_exec_by_path s \<and> cli_channel_connect_timeout_ms s = 5000 \<and> cli_channel_fd s = 4"
  proof -
    assume "cli_channel_principal s = None"
    then have "seen \<inter> channel_keys = {}" using c(1) by blast
    then have "KEY_CHANNEL_LISTEN_UNIX \<notin> seen" "KEY_CHANNEL_INVOCATION_ID \<notin> seen" "KEY_CHANNEL_EXEC_BY_PATH \<notin> seen"
      "KEY_CHANNEL_CONNECT_TIMEOUT_MS \<notin> seen" "KEY_CHANNEL_FD \<notin> seen" using channel_key by blast+
    then show ?thesis by (simp add: settings_unseen[OF seen])
  qed
  have proxy: "\<not> cli_listen_set s \<and> cli_listen_unix s = None \<and> \<not> cli_unix_peer_set s \<and> cli_token_file s = None \<and>
      \<not> cli_unauthenticated_loopback s \<and> cli_tls_cert s = None \<and> cli_tls_key s = None \<and> cli_tls_ca s = None \<and> \<not> cli_require_client_cert s"
    if "cli_channel_principal s \<noteq> None"
  proof -
    have "KEY_LISTEN \<notin> seen" "KEY_LISTEN_UNIX \<notin> seen" "KEY_UNIX_PEER \<notin> seen" "KEY_TOKEN_FILE \<notin> seen"
      "KEY_UNAUTHENTICATED_LOOPBACK \<notin> seen" "KEY_TLS_CERT \<notin> seen" "KEY_TLS_KEY \<notin> seen" "KEY_TLS_CA \<notin> seen" "KEY_REQUIRE_CLIENT_CERT \<notin> seen"
      using c(4)[OF that] unfolding proxy_keys_def by simp_all
    then show ?thesis by (simp add: settings_unseen[OF seen])
  qed
  have exec: "cli_channel_listen_unix s \<noteq> None \<Longrightarrow> \<not> cli_channel_exec_by_path s \<and> cli_channel_fd s = 4"
    using c(2) by (simp add: exec_keys_def settings_unseen[OF seen])
  have broker: "cli_channel_listen_unix s = None \<Longrightarrow> cli_channel_handshake_timeout_ms s = 5000 \<and> cli_channel_max_clients s = 128"
    using c(3) by (simp add: broker_keys_def settings_unseen[OF seen])
  have listener: "cli_tls_cert s \<noteq> None \<or> cli_tls_ca s \<noteq> None \<Longrightarrow> tls_listener_supported L"
    using tls settings_seenD(6,8)[OF seen] unfolding tls_keys_def by blast
  have mode: "egress_cli_settings_mode s = MODE_PROXY \<longleftrightarrow> cli_channel_principal s = None"
    "egress_cli_settings_mode s = MODE_BROKER \<longleftrightarrow> cli_channel_principal s \<noteq> None \<and> cli_channel_listen_unix s \<noteq> None"
    "egress_cli_settings_mode s = MODE_EXEC \<longleftrightarrow> cli_channel_principal s \<noteq> None \<and> cli_channel_listen_unix s = None"
    by (simp_all add: egress_cli_settings_mode_def)
  show ?thesis using bounds channel proxy exec broker listener c(5-14) unfolding settings_valid_def mode by argo
qed

text \<open>A library with plain parsers, and a file of a proxy.\<close>

definition demo_library :: cli_library where
  "demo_library = \<lparr>
     parse_u64_decimal = (\<lambda>v low high. if v \<noteq> [] \<and> list_all is_digit v \<and> unat low \<le> dec_value v \<and> dec_value v \<le> unat high
       then Some (of_nat (dec_value v)) else None),
     parse_choice = (\<lambda>v choices. find_index (\<lambda>c. c = v) choices), tls_listener_supported = False\<rparr>"

lemma demo_library_ok: "cli_library_ok demo_library"
proof -
  have word: "low \<le> (of_nat n :: u64) \<and> of_nat n \<le> high" if "unat low \<le> n" "n \<le> unat high" for low high :: u64 and n
  proof -
    have "n < 2 ^ 64" using that(2) unsigned_less[of high, where 'a = nat] by simp
    then show ?thesis using that by (simp add: word_le_nat_alt unat_of_nat)
  qed
  show ?thesis
    by (auto simp: cli_library_ok_def demo_library_def dec_digits find_index_Some word_le_nat_alt split: if_splits dest: word[unfolded word_le_nat_alt])
qed

definition demo_file :: bytes where
  "demo_file = cstr ''schema_version = 1'' @ [10] @ cstr ''allow = github.com:443'' @ [10] @ cstr ''token_file = /t'' @ [10]"

definition demo_settings :: cli_settings where
  "demo_settings = settings_default\<lparr>cli_token_file := Some (cstr ''/t''), cli_destinations :=
     [\<lparr>clid_host = cstr ''github.com'', clid_port = 443, clid_allow_private = False, clid_require_tls_sni = False\<rparr>]\<rparr>"

lemma getlines_step: "10 \<notin> set line \<Longrightarrow> getlines (line @ [10] @ rest) = (line @ [10]) # getlines rest"
  by (subst getlines.simps) simp

lemma getlines_last: "10 \<notin> set line \<Longrightarrow> getlines (line @ [10]) = [line @ [10]]"
  using getlines_step[of line "[]"] by (simp add: getlines.simps[of "[]"])

lemma demo_lines: "getlines demo_file =
    [cstr ''schema_version = 1'' @ [10], cstr ''allow = github.com:443'' @ [10], cstr ''token_file = /t'' @ [10]]"
proof -
  have "10 \<notin> set (cstr ''schema_version = 1'')" "10 \<notin> set (cstr ''allow = github.com:443'')" "10 \<notin> set (cstr ''token_file = /t'')" by simp_all
  then show ?thesis by (simp only: demo_file_def getlines_step getlines_last not_False_eq_True)
qed

lemma demo_load_lines:
  "load_lines demo_library (\<lambda>_. True) 0 (getlines demo_file) (settings_default, {}) =
     Inr (demo_settings, {KEY_TOKEN_FILE, KEY_ALLOW, KEY_SCHEMA_VERSION})"
proof -
  have entries: "load_line L True n (cstr ''schema_version = 1'' @ [10]) st = apply_entry L True n (cstr ''schema_version'') (cstr ''1'') st"
    "load_line L True n (cstr ''allow = github.com:443'' @ [10]) st = apply_entry L True n (cstr ''allow'') (cstr ''github.com:443'') st"
    "load_line L True n (cstr ''token_file = /t'' @ [10]) st = apply_entry L True n (cstr ''token_file'') (cstr ''/t'') st" for L n st
    by (simp_all add: load_line_def strip_newline_def trim_value_def blank_def)
  have specs: "egress_cli_config_find (cstr ''schema_version'') = Some (config_spec_of ''schema_version'' KEY_SCHEMA_VERSION CONFIG_INTEGER True False False False None)"
    "egress_cli_config_find (cstr ''allow'') = Some (config_spec_of ''allow'' KEY_ALLOW CONFIG_DESTINATION False True False False None)"
    "egress_cli_config_find (cstr ''token_file'') = Some (config_spec_of ''token_file'' KEY_TOKEN_FILE CONFIG_PATH False False True False None)"
    by (simp_all add: egress_cli_config_find_def config_specs_def config_spec_of_def)
  have endpoint: "parse_endpoint 254 (cstr ''github.com:443'') = Some (cstr ''github.com'', 443)"
    by (simp add: parse_endpoint_def endpoint_parts_def Let_def)
  have nonempty: "cstr ''1'' \<noteq> []" "cstr ''github.com:443'' \<noteq> []" "cstr ''/t'' \<noteq> []" by simp_all
  show ?thesis
    unfolding demo_lines
    by (simp del: cstr_simps add: entries apply_entry_def specs config_spec_of_def nonempty apply_destination_def own_text_def endpoint
        settings_default_def settings_zero_def EGRESS_CLI_MAX_DESTINATIONS_def demo_settings_def)
qed

lemma demo_loaded: "egress_cli_settings_load demo_library (\<lambda>_. True) True (Stream demo_file True True) = Inr demo_settings"
proof -
  have "check_constraints demo_settings {KEY_TOKEN_FILE, KEY_ALLOW, KEY_SCHEMA_VERSION} = None"
    by (simp add: check_constraints_def channel_keys_def broker_keys_def exec_keys_def proxy_keys_def demo_settings_def settings_default_def settings_zero_def)
  then show ?thesis
    by (simp add: egress_cli_settings_load_def load_finish_def defaults_applied[OF demo_library_ok] demo_load_lines)
qed

theorem settings_load_valid_witness:
  "egress_cli_settings_load demo_library (\<lambda>_. True) True (Stream demo_file True True) = Inr demo_settings \<and>
   settings_valid demo_library demo_settings"
  using demo_loaded settings_load_valid[OF demo_library_ok demo_loaded] by simp

text \<open>
  The reload boundary: two settings have the same control part exactly when they differ at most in their destinations.
\<close>

lemma control_equal_destinations:
  "egress_cli_settings_control_equal a b \<longleftrightarrow> b = a\<lparr>cli_destinations := cli_destinations b\<rparr>"
  by (cases a; cases b) (auto simp: egress_cli_settings_control_equal_def)

text \<open>
  An endpoint is a host and a decimal port. A host in brackets is any text without a closing bracket; another host has no colon.
\<close>

lemma parse_endpoint_exact:
  "parse_endpoint n input = Some (host, port) \<longleftrightarrow>
     host \<noteq> [] \<and> length host < n \<and>
     (\<exists>ps. ps \<noteq> [] \<and> list_all is_digit ps \<and> dec_value ps = unat port \<and> endpoint_parts input = Some (host, ps))"
proof -
  have port: "of_nat v = port \<longleftrightarrow> v = unat port" if "v \<le> 65535" for v
    using that by (auto simp: unat_of_nat)
  have bound: "unat port \<le> 65535" using unsigned_less[of port, where 'a = nat] by simp
  show ?thesis
    using port bound by (auto simp: parse_endpoint_def endpoint_port_loop_Some dec_value_def split: option.splits prod.splits if_splits)
qed

text \<open>
  The catalog says that \<^verbatim>\<open>require_client_cert\<close> requires \<^verbatim>\<open>tls_cert\<close> and \<^verbatim>\<open>tls_key\<close>; the check asks for \<^verbatim>\<open>tls_ca\<close> only. Settings
  that require a client certificate but configure no TLS listener pass.
\<close>

lemma client_certificate_without_listener:
  "check_constraints (demo_settings\<lparr>cli_require_client_cert := True, cli_tls_ca := Some (cstr ''/ca'')\<rparr>)
     {KEY_TOKEN_FILE, KEY_ALLOW, KEY_SCHEMA_VERSION, KEY_TLS_CA, KEY_REQUIRE_CLIENT_CERT} = None"
  by (simp add: check_constraints_def channel_keys_def broker_keys_def exec_keys_def proxy_keys_def demo_settings_def settings_default_def settings_zero_def)

end
