(* ===== verification/Egress_Reload.thy ===== *)
theory Egress_Reload
  imports Egress_Settings Egress_Example
begin

text \<open>
  The policy of the settings, \<^verbatim>\<open>egress_cli_build_policy\<close> of \<^verbatim>\<open>src/cli/serve.c\<close>, and the thread that waits for signals,
  \<^verbatim>\<open>src/cli/reload.c\<close>: a hangup loads the configuration file again and replaces the policy of the server; other signals stop the
  server or go to the program that it was started for. What only reports the outcome is left out.
\<close>

section \<open>The policy of the settings\<close>

fun build_destinations ::
  "(nat \<Rightarrow> bool \<times> bool) \<Rightarrow> nat \<Rightarrow> egress_policy \<Rightarrow> cli_destination list \<Rightarrow> egress_result \<times> egress_policy" where
  "build_destinations mem i policy [] = (EGRESS_OK, policy)"
| "build_destinations mem i policy (d # rest) =
     (case maelys_egress_policy_allow_tcp (fst (mem i)) (snd (mem i)) policy (Some (clid_host d)) (clid_port d) (clid_allow_private d) of
        (result, policy) \<Rightarrow>
          if result \<noteq> EGRESS_OK then (result, policy)
          else
            case (if clid_require_tls_sni d then maelys_egress_policy_require_tls_sni policy (Some (clid_host d)) (clid_port d)
                  else (EGRESS_OK, policy)) of
              (result, policy) \<Rightarrow> if result \<noteq> EGRESS_OK then (result, policy) else build_destinations mem (Suc i) policy rest)"

definition egress_cli_build_policy ::
  "resolver \<Rightarrow> bool \<Rightarrow> (nat \<Rightarrow> bool \<times> bool) \<Rightarrow> bool \<Rightarrow> cli_settings option \<Rightarrow> egress_result \<times> egress_policy option" where
  "egress_cli_build_policy getaddrinfo create_ok mem alloc_ok settings =
     (case settings of
        None \<Rightarrow> (ERR_ARGUMENT, None)
      | Some s \<Rightarrow>
          (case maelys_egress_policy_create create_ok of
             (result, None) \<Rightarrow> (result, None)
           | (result, Some policy) \<Rightarrow>
               (case build_destinations mem 0 policy (cli_destinations s) of
                  (result, policy) \<Rightarrow>
                    if result \<noteq> EGRESS_OK then (result, None)
                    else if cli_destinations s = [] then (ERR_ARGUMENT, None)
                    else
                      case maelys_egress_policy_seal getaddrinfo alloc_ok policy of
                        (result, policy) \<Rightarrow> if result \<noteq> EGRESS_OK then (result, None) else (EGRESS_OK, Some policy))))"

section \<open>Signals\<close>

text \<open>What a reload needs of the environment: the library, memory, the file as it is opened, and the resolver.\<close>

record reload_env =
  reload_library :: cli_library
  reload_memory :: "nat \<Rightarrow> bool"
  reload_calloc :: bool
  reload_file :: opened_file
  reload_resolver :: resolver
  reload_create :: bool
  reload_mem :: "nat \<Rightarrow> bool \<times> bool"
  reload_alloc :: bool
  reload_clone :: bool

definition reload_policy :: "kernel \<Rightarrow> reload_env \<Rightarrow> cli_settings \<Rightarrow> egress_server \<Rightarrow> egress_result \<times> u64 \<times> egress_server" where
  "reload_policy K R baseline s =
     (case egress_cli_settings_load (reload_library R) (reload_memory R) (reload_calloc R) (reload_file R) of
        Inl error \<Rightarrow> (ERR_STATE, 0, s)
      | Inr loaded \<Rightarrow>
          if \<not> egress_cli_settings_control_equal baseline loaded then (ERR_STATE, 0, s)
          else
            case egress_cli_build_policy (reload_resolver R) (reload_create R) (reload_mem R) (reload_alloc R) (Some loaded) of
              (result, replacement) \<Rightarrow>
                if result \<noteq> EGRESS_OK then (result, 0, s) else maelys_egress_server_replace_policy K (reload_clone R) replacement s)"

datatype signal = SIGHUP | Signal_other nat

text \<open>The context of the thread: whether a program was started, and whether a file can be loaded again.\<close>

record signal_context =
  signal_program :: bool
  signal_config_path :: bool
  signal_baseline :: cli_settings

text \<open>What a signal does: the thread ends, the signal is forwarded, or the policy is reloaded.\<close>

datatype signal_outcome = Thread_ends | Forwarded nat | Reloaded egress_result u64

definition signal_step ::
  "kernel \<Rightarrow> reload_env \<Rightarrow> signal_context \<Rightarrow> bool \<Rightarrow> signal \<Rightarrow> egress_server \<Rightarrow> signal_outcome \<times> egress_server" where
  "signal_step K R context stopping number s =
     (if signal_program context \<and> stopping then (Thread_ends, s)
      else
        case (number, signal_program context) of
          (Signal_other n, True) \<Rightarrow> (Forwarded n, s)
        | (Signal_other n, False) \<Rightarrow> (Thread_ends, snd (maelys_egress_server_stop K s))
        | (SIGHUP, program) \<Rightarrow>
            if \<not> program \<and> \<not> signal_config_path context then (Thread_ends, snd (maelys_egress_server_stop K s))
            else
              case reload_policy K R (signal_baseline context) s of
                (result, generation, s) \<Rightarrow> (Reloaded result generation, s))"

text \<open>The thread on a sequence of signals, each with its environment and whether the stop flag is set by then.\<close>

fun egress_cli_signal_main ::
  "kernel \<Rightarrow> signal_context \<Rightarrow> (reload_env \<times> bool \<times> signal) list \<Rightarrow> egress_server \<Rightarrow> signal_outcome list \<times> egress_server" where
  "egress_cli_signal_main K context [] s = ([], s)"
| "egress_cli_signal_main K context ((R, stopping, number) # signals) s =
     (case signal_step K R context stopping number s of
        (Thread_ends, s) \<Rightarrow> ([Thread_ends], s)
      | (outcome, s) \<Rightarrow> let (outcomes, s) = egress_cli_signal_main K context signals s in (outcome # outcomes, s))"

section \<open>The rules of the policy\<close>

definition policy_rule :: "egress_destination \<Rightarrow> bytes \<times> u16 \<times> bool \<times> bool" where
  "policy_rule d = (dest_host d, dest_port d, allow_private d, require_tls_sni d)"

text \<open>The rule that a line of the file means: its host in canonical form.\<close>

definition settings_rule :: "cli_destination \<Rightarrow> bytes \<times> u16 \<times> bool \<times> bool" where
  "settings_rule d = (the (egress_canonical_host (Some (clid_host d))), clid_port d, clid_allow_private d, clid_require_tls_sni d)"

lemma allow_tcp_rule:
  assumes "maelys_egress_policy_allow_tcp ra sd p (Some host) port private = (EGRESS_OK, q)"
  obtains h where "egress_canonical_host (Some host) = Some h" "\<not> list_ex (dest_matches h port) (destinations p)"
    "destinations q = destinations p @ [\<lparr>dest_host = h, dest_port = port, allow_private = private, require_tls_sni = False, addresses = []\<rparr>]"
  using assms by (auto simp: maelys_egress_policy_allow_tcp_def Let_def split: if_splits option.splits)

lemma require_sni_rule:
  assumes "maelys_egress_policy_require_tls_sni p (Some host) port = (EGRESS_OK, q)" "egress_canonical_host (Some host) = Some h"
    "destinations p = ds @ [d]" "\<not> list_ex (dest_matches h port) ds" "dest_matches h port d"
  shows "destinations q = ds @ [d\<lparr>require_tls_sni := True\<rparr>]"
proof -
  have "find_index (dest_matches h port) (ds @ [d]) = Some (length ds)"
    using assms(4,5) by (auto simp: find_index_Some nth_append list_ex_length)
  then show ?thesis
    using assms(1-3) by (auto simp: maelys_egress_policy_require_tls_sni_def find_mutable_destination_def split: if_splits)
qed

text \<open>One round of the loop: a history of the policy that adds exactly the rule of the line.\<close>

lemma build_round:
  assumes "build_destinations mem i p (d # ds) = (EGRESS_OK, q)"
  obtains u ops where "build_destinations mem (Suc i) u ds = (EGRESS_OK, q)" "u = foldl policy_exec p ops"
    "map policy_rule (destinations u) = map policy_rule (destinations p) @ [settings_rule d]"
proof -
  let ?allow = "Op_allow (fst (mem i)) (snd (mem i)) (Some (clid_host d)) (clid_port d) (clid_allow_private d)"
  obtain a t where allow: "maelys_egress_policy_allow_tcp (fst (mem i)) (snd (mem i)) p (Some (clid_host d)) (clid_port d) (clid_allow_private d) = (a, t)"
    by fastforce
  with assms have a: "a = EGRESS_OK" by (auto split: if_splits)
  obtain h where h: "egress_canonical_host (Some (clid_host d)) = Some h" "\<not> list_ex (dest_matches h (clid_port d)) (destinations p)"
    "destinations t = destinations p @ [\<lparr>dest_host = h, dest_port = clid_port d, allow_private = clid_allow_private d, require_tls_sni = False, addresses = []\<rparr>]"
    using allow_tcp_rule[OF allow[unfolded a]] by blast
  show thesis
  proof (cases "clid_require_tls_sni d")
    case False
    show thesis
      using assms allow a h False by (intro that[of t "[?allow]"]) (simp_all add: policy_rule_def settings_rule_def)
  next
    case True
    obtain r u where sni: "maelys_egress_policy_require_tls_sni t (Some (clid_host d)) (clid_port d) = (r, u)" by fastforce
    with assms allow a True have r: "r = EGRESS_OK" by (auto split: if_splits)
    note rule = require_sni_rule[OF sni[unfolded r] h(1,3,2)]
    show thesis
      using assms allow a h(1) True sni r rule
      by (intro that[of u "[?allow, Op_require_sni (Some (clid_host d)) (clid_port d)]"]) (simp_all add: policy_rule_def settings_rule_def dest_matches_def)
  qed
qed

lemma build_destinations_rules:
  assumes "build_destinations mem i p ds = (EGRESS_OK, q)"
  shows "(\<exists>ops. q = foldl policy_exec p ops) \<and> map policy_rule (destinations q) = map policy_rule (destinations p) @ map settings_rule ds"
  using assms
proof (induction ds arbitrary: i p)
  case Nil
  then have "q = foldl policy_exec p []" by simp
  then show ?case by (metis append_Nil2 foldl_Nil list.map(1))
next
  case (Cons d ds)
  obtain u ops where u: "build_destinations mem (Suc i) u ds = (EGRESS_OK, q)" "u = foldl policy_exec p ops"
    "map policy_rule (destinations u) = map policy_rule (destinations p) @ [settings_rule d]"
    using build_round[OF Cons.prems] by blast
  have "\<exists>ops. q = foldl policy_exec p ops" using Cons.IH[OF u(1)] u(2) by (metis foldl_append)
  then show ?case using Cons.IH[OF u(1)] u(3) by simp
qed

lemma same_rules_policy_rule: "list_all2 same_rules xs ys \<Longrightarrow> map policy_rule xs = map policy_rule ys"
  by (induction rule: list_all2_induct) (auto simp: same_rules_def policy_rule_def destination_key_def word_unat_eq_iff)

lemma build_policy_rules:
  assumes "egress_cli_build_policy ga create_ok mem alloc_ok (Some s) = (EGRESS_OK, replacement)"
  obtains ops where "replacement = Some (foldl policy_exec empty_policy ops)"
    "mset (map policy_rule (destinations (foldl policy_exec empty_policy ops))) = mset (map settings_rule (cli_destinations s))"
proof -
  obtain r p where loop: "build_destinations mem 0 empty_policy (cli_destinations s) = (r, p)" by fastforce
  obtain r' q where seal: "maelys_egress_policy_seal ga alloc_ok p = (r', q)" by fastforce
  have ok: "r = EGRESS_OK" "r' = EGRESS_OK" "replacement = Some q"
    using assms loop seal
    by (auto simp: egress_cli_build_policy_def maelys_egress_policy_create_def empty_policy_def split: if_splits)
  obtain ops where ops: "p = foldl policy_exec empty_policy ops" "map policy_rule (destinations p) = map settings_rule (cli_destinations s)"
    using build_destinations_rules[OF loop[unfolded ok]] by (auto simp: empty_policy_def)
  have "policy_inv p" using policy_history_inv create_inv[of True] by (auto simp: ops(1) maelys_egress_policy_create_def empty_policy_def)
  then have "map policy_rule (destinations q) = map policy_rule (sort_key destination_key (destinations p))"
    using seal_OK_rules(2) seal ok(2) same_rules_policy_rule by blast
  then have "mset (map policy_rule (destinations q)) = mset (map settings_rule (cli_destinations s))"
    using ops(2) by (metis mset_map mset_sort)
  moreover have "q = foldl policy_exec empty_policy (ops @ [Op_seal ga alloc_ok])" using seal ops(1) by simp
  ultimately show thesis using that ok(3) by blast
qed

section \<open>Reloading\<close>

lemma replace_policy_outcome:
  assumes "maelys_egress_server_replace_policy K clone_ok (Some p) s = (result, generation, t)"
  shows "srv_config t = srv_config s \<and> connections t = connections s \<and>
    (result \<noteq> EGRESS_OK \<longrightarrow> srv_policy t = srv_policy s \<and> generation = 0) \<and>
    (result = EGRESS_OK \<longrightarrow> destinations (srv_policy t) = destinations p \<and> digest_hex (srv_policy t) = digest_hex p \<and>
       generation = metric_policy_generation (srv_metrics s) + 1 \<and> metric_policy_generation (srv_metrics t) = generation)"
  using assms
  by (auto simp: maelys_egress_server_replace_policy_def load_stopping_def ask_def reload_failure_def on_metrics_def clone_policy_def Let_def
      split: if_splits)

lemma reload_cases:
  assumes "reload_policy K R baseline s = (result, generation, t)"
  obtains (refused) "result \<noteq> EGRESS_OK" "generation = 0" "t = s"
  | (replaced) loaded ops where
      "egress_cli_settings_load (reload_library R) (reload_memory R) (reload_calloc R) (reload_file R) = Inr loaded"
      "egress_cli_settings_control_equal baseline loaded"
      "mset (map policy_rule (destinations (foldl policy_exec empty_policy ops))) = mset (map settings_rule (cli_destinations loaded))"
      "maelys_egress_server_replace_policy K (reload_clone R) (Some (foldl policy_exec empty_policy ops)) s = (result, generation, t)"
proof (cases "egress_cli_settings_load (reload_library R) (reload_memory R) (reload_calloc R) (reload_file R)")
  case (Inl e)
  then show thesis using assms refused by (simp add: reload_policy_def)
next
  case (Inr loaded)
  obtain r replacement where build:
      "egress_cli_build_policy (reload_resolver R) (reload_create R) (reload_mem R) (reload_alloc R) (Some loaded) = (r, replacement)"
    by fastforce
  show thesis
  proof (cases "egress_cli_settings_control_equal baseline loaded \<and> r = EGRESS_OK")
    case True
    then have "maelys_egress_server_replace_policy K (reload_clone R) replacement s = (result, generation, t)"
      using assms Inr build by (simp add: reload_policy_def)
    then show thesis using True Inr build replaced build_policy_rules[of _ _ _ _ loaded replacement] by metis
  next
    case False
    then show thesis using assms Inr build refused by (auto simp: reload_policy_def split: if_splits)
  qed
qed

lemma reload_kept:
  assumes "kernel_ok K" and "reach K Ps s" and "reload_policy K R baseline s = (result, generation, t)"
  shows "reach K (insert (srv_policy t) Ps) t \<and> srv_config t = srv_config s \<and> connections t = connections s"
  using assms(3)
proof (cases rule: reload_cases)
  case refused
  have "srv_policy s \<in> Ps" using reach_inv[OF assms(2,1)] by (simp add: good_def server_inv_def)
  then show ?thesis using refused assms(2) by (simp add: insert_absorb)
next
  case (replaced loaded ops)
  have "reach K (insert (srv_policy t) Ps) t" using assms(2) replaced(4) by (rule reach.replaced)
  then show ?thesis using replace_policy_outcome[OF replaced(4)] by simp
qed

text \<open>
  C8: a hangup changes nothing but the destinations. Whatever the file now holds, the configuration of the server and its
  connections stay as they are. If the reload fails at any step, so does the policy. If it succeeds, the file was accepted, its
  settings differ from those that the server was started with at most in the destinations, the rules of the new policy are exactly
  the canonical rules of the file, and the generation advances by one. The server stays in the reachable states, so everything
  shown of them holds across reloads.
\<close>

theorem reload_exact:
  assumes "kernel_ok K" and "reach K Ps s" and "reload_policy K R baseline s = (result, generation, t)"
  shows "reach K (insert (srv_policy t) Ps) t \<and> srv_config t = srv_config s \<and> connections t = connections s \<and>
    (if result \<noteq> EGRESS_OK then srv_policy t = srv_policy s \<and> generation = 0
     else generation = metric_policy_generation (srv_metrics s) + 1 \<and> metric_policy_generation (srv_metrics t) = generation \<and>
       (\<exists>loaded. egress_cli_settings_load (reload_library R) (reload_memory R) (reload_calloc R) (reload_file R) = Inr loaded \<and>
          loaded = baseline\<lparr>cli_destinations := cli_destinations loaded\<rparr> \<and>
          mset (map policy_rule (destinations (srv_policy t))) = mset (map settings_rule (cli_destinations loaded))))"
  using assms(3)
proof (cases rule: reload_cases)
  case refused
  then show ?thesis using reload_kept[OF assms] by simp
next
  case (replaced loaded ops)
  have "loaded = baseline\<lparr>cli_destinations := cli_destinations loaded\<rparr>"
    using replaced(2) unfolding control_equal_destinations .
  then show ?thesis
    using reload_kept[OF assms] replace_policy_outcome[OF replaced(4)] replaced(1,3) by (cases "result = EGRESS_OK") auto
qed

text \<open>
  So it is for every sequence of signals: the server stays reachable, and the thread touches neither its configuration nor a
  connection. Signals other than a hangup leave the server of a started program alone.
\<close>

lemma signal_step_reach:
  assumes "kernel_ok K" "reach K Ps s" "signal_step K R context stopping number s = (outcome, t)"
  shows "\<exists>Qs. Ps \<subseteq> Qs \<and> reach K Qs t \<and> srv_config t = srv_config s \<and> connections t = connections s"
proof -
  have stop: ?thesis if "t = snd (maelys_egress_server_stop K s)"
  proof -
    have "reach K Ps t" using reach.stopped[OF assms(2)] that by (metis prod.collapse)
    moreover have "srv_config t = srv_config s \<and> connections t = connections s" using that by (simp add: maelys_egress_server_stop_def ask_def Let_def)
    ultimately show ?thesis by blast
  qed
  have reload: ?thesis if "reload_policy K R baseline s = (result, generation, t)" for baseline result generation
  proof -
    obtain Qs where "Qs = insert (srv_policy t) Ps" by simp
    then have "Ps \<subseteq> Qs \<and> reach K Qs t \<and> srv_config t = srv_config s \<and> connections t = connections s" using reload_kept[OF assms(1,2) that] by blast
    then show ?thesis by blast
  qed
  show ?thesis
    using assms(2,3) stop reload by (auto simp: signal_step_def split: if_splits signal.splits bool.splits prod.splits)
qed

lemma signal_main_reach:
  assumes "kernel_ok K" "reach K Ps s" "egress_cli_signal_main K context signals s = (outcomes, t)"
  shows "\<exists>Qs. Ps \<subseteq> Qs \<and> reach K Qs t \<and> srv_config t = srv_config s \<and> connections t = connections s"
  using assms(2,3)
proof (induction signals arbitrary: Ps s outcomes)
  case (Cons x signals)
  obtain R stopping number where x: "x = (R, stopping, number)" by (cases x) auto
  obtain outcome u where step: "signal_step K R context stopping number s = (outcome, u)" by fastforce
  obtain Qs where Qs: "Ps \<subseteq> Qs" "reach K Qs u" "srv_config u = srv_config s" "connections u = connections s"
    using signal_step_reach[OF assms(1) Cons.prems(1) step] by blast
  consider "t = u" | rest where "egress_cli_signal_main K context signals u = (rest, t)"
    using Cons.prems(2) step by (cases outcome) (auto simp: x split: prod.splits)
  then show ?case
  proof cases
    case 1
    then show ?thesis using Qs by blast
  next
    case 2
    then obtain Rs where "Qs \<subseteq> Rs" "reach K Rs t" "srv_config t = srv_config u" "connections t = connections u"
      using Cons.IH[OF Qs(2)] by blast
    then show ?thesis using Qs by (metis order_trans)
  qed
qed auto

lemma program_signal_forwarded:
  assumes "signal_program context" "\<not> stopping"
  shows "signal_step K R context stopping (Signal_other n) s = (Forwarded n, s)"
  using assms by (simp add: signal_step_def)

text \<open>The example: a server reloads the file of \<^const>\<open>demo_settings\<close>.\<close>

definition demo_reload :: reload_env where
  "demo_reload = \<lparr>reload_library = demo_library, reload_memory = (\<lambda>_. True), reload_calloc = True, reload_file = Stream demo_file True True,
     reload_resolver = demo_resolver, reload_create = True, reload_mem = (\<lambda>_. (True, True)), reload_alloc = True, reload_clone = True\<rparr>"

lemma demo_build: "egress_cli_build_policy demo_resolver True (\<lambda>_. (True, True)) True (Some demo_settings) = (EGRESS_OK, Some demo_policy)"
proof -
  have allow: "maelys_egress_policy_allow_tcp True True \<lparr>destinations = [], pol_capacity = 0, sealed = False, digest_hex = []\<rparr>
      (Some (cstr ''github.com'')) 443 False =
    (EGRESS_OK, \<lparr>destinations = [demo_destination\<lparr>addresses := []\<rparr>], pol_capacity = 8, sealed = False, digest_hex = []\<rparr>)"
    by (simp add: maelys_egress_policy_allow_tcp_def demo_facts EGRESS_MAX_DESTINATIONS_def demo_destination_def Let_def del: cstr_simps)
  then show ?thesis
    by (simp add: egress_cli_build_policy_def demo_settings_def maelys_egress_policy_create_def demo_seal del: cstr_simps)
qed

theorem reload_exact_witness:
  "\<exists>t. reload_policy demo_kernel demo_reload (demo_settings\<lparr>cli_destinations := []\<rparr>) demo_server = (EGRESS_OK, 2, t) \<and>
     reach demo_kernel {srv_policy t, demo_clone} t \<and> mset (map policy_rule (destinations (srv_policy t))) = mset (map settings_rule (cli_destinations demo_settings))"
proof -
  let ?baseline = "demo_settings\<lparr>cli_destinations := []\<rparr>"
  have equal: "egress_cli_settings_control_equal ?baseline demo_settings" by (simp add: control_equal_destinations)
  have "sealed demo_policy" "metric_policy_generation (srv_metrics demo_server) = 1"
    by (simp_all add: demo_policy_def demo_server_def server_zero_def ask_def)
  then obtain t where run: "reload_policy demo_kernel demo_reload ?baseline demo_server = (EGRESS_OK, 2, t)"
    using equal demo_loaded demo_build
    by (simp add: reload_policy_def demo_reload_def maelys_egress_server_replace_policy_def clone_policy_def load_stopping_def Let_def
        ask_def on_metrics_def demo_server_def server_zero_def demo_kernel_def)
  have "reach demo_kernel {demo_clone} demo_server" by (rule demo_server_reach) (simp add: demo_fields)
  from reload_exact[OF demo_kernel_ok this run] run show ?thesis
    using demo_loaded by (auto simp: demo_reload_def)
qed

end
