(* ===== verification/Spec2Isabelle.thy ===== *)
theory Spec2Isabelle
  imports Egress_Http_Request Egress_Example Egress_Progress Egress_Channel_Server Egress_Profile Egress_Reload
begin

text \<open>
  \<^bold>\<open>Verification of maelys-egress\<close>

  maelys-egress is an egress proxy. A process that may not open connections itself asks the server for
  one, by HTTP, by SOCKS5, through a native connector or through a datagram channel; the server connects
  to the destination if its sealed policy names it, relays the bytes within the quotas of the principal,
  and writes a receipt for every connection. This development models the server and the libraries
  around it as HOL functions and proves what makes them correct. The properties are the theorems whose text
  begins with a \<open>C\<close> and a number; those of the whole server are in this theory, the others are at the end of the theory of their
  component.

  \<^bold>\<open>Conventions.\<close> A C string is the list of its bytes before the terminator, a buffer the list of its valid bytes, a
  pointer that the code tests an \<open>option\<close>. Integers that may wrap or saturate are words of their width,
  sizes that index a buffer are natural numbers. Structures are records and enumerations datatypes, with
  one definition for each C function; where a function is long, its parts have definitions of their
  own and the function is their composition. An error is a value of the result. Failure of an
  allocation is an argument or an answer of the environment, so every error path of the code is a branch of the model.

  \<^bold>\<open>The environment.\<close> The system library, the TLS providers, the attestors, the receipt sink, the resolver and the library of
  the command line are not part of the repository. A call of the server is an event of its trace, and
  its answer is a function of the trace (record \<open>kernel\<close>); the theorems hold for all such functions. What they assume
  of the environment is \<open>kernel_ok\<close>: a receive or read fits the space offered, a send or write takes no
  more than it was given, and a block has the size asked for. Channels have an environment of the same kind (\<open>channel_env\<close>), and the loader
  of the configuration file uses two parsers with the contract \<open>cli_library_ok\<close>. The resolver is an argument of sealing.

  \<^bold>\<open>Loops.\<close> Loops over data are recursive functions with a termination proof. Loops around calls of the environment may run for
  ever and are partial functions into \<open>option\<close>; that they return is proved: \<open>Egress_Dispatch\<close> and
  \<open>Egress_Progress\<close> do it for the handlers and the loop of the server, under \<open>clients_end\<close> (from some call on, no further client is accepted)
  and \<open>stop_comes\<close> (from some call on, the stop has been requested); \<open>Egress_Threads\<close> for the opening of a stream, under \<open>deadlines_pass\<close> (from some
  call on, a wait with a given finite deadline no longer succeeds) and \<open>finite_deadlines\<close> (the clock plus the timeout is a finite deadline); \<open>Egress_Channel_Server\<close> for the
  thread of a channel, under these and \<open>wakeup_comes\<close>. No model uses fuel.

  \<^bold>\<open>Interleaving.\<close> The code serialises its threads by locks and atomic variables. The model has no locks: a
  handler of the loop, or a call of another thread, is one step, and \<open>reach\<close> of \<open>Egress_System\<close> lets the steps follow one another in any order. A call that
  waits for the loop takes what the other threads do meanwhile as an argument; where it matters, that is a sequence of the steps \<open>works\<close> of \<open>Egress_Threads\<close>.

  \<^bold>\<open>Theories.\<close>

  \<^item> \<open>Egress_Prelude\<close>: integers, bytes, the string library, decimal printing, result codes, shared lemmas.
  \<^item> \<open>Egress_Host\<close> (\<^verbatim>\<open>src/src/core/common.c\<close>): canonical hosts, constant-time comparison, private addresses. The accepted hosts are exactly
    those of a grammar, canonical hosts are fixed points, the classification of addresses is
    membership in listed blocks.
  \<^item> \<open>Egress_Sha256\<close> (\<^verbatim>\<open>sha256.c\<close>, and the MAC of \<^verbatim>\<open>audit.c\<close>): the streaming hash is the one of FIPS 180-4.
  \<^item> \<open>Egress_Policy\<close> (\<^verbatim>\<open>policy.c\<close>): histories of a policy keep its invariant, the lookup is exact, sealing succeeds when the
    destinations resolve, resealing keeps the rules, the digest binds rules and addresses.
  \<^item> \<open>Egress_ClientHello\<close> (\<^verbatim>\<open>clienthello.c\<close>): what passes is a well-formed first flight for the sealed host, every
    such flight passes, and segmentation does not matter (locale \<open>incremental_parser\<close>).
  \<^item> \<open>Egress_Shared\<close> (\<^verbatim>\<open>tls.c\<close>, \<^verbatim>\<open>attestor.c\<close>): reference counts, as a locale over the operations of an object.
  \<^item> \<open>Egress_Receipt\<close> (\<^verbatim>\<open>receipt.c\<close>, accessors of \<^verbatim>\<open>config.c\<close>), \<open>Egress_Audit\<close> (\<^verbatim>\<open>audit.c\<close>): the encoding of receipts is injective and fits; a
    journal is accepted on reopening exactly when it is chained, and what was appended is accepted.
  \<^item> \<open>Egress_Config\<close> (\<^verbatim>\<open>config.c\<close>), \<open>Egress_Credentials\<close> (lookup of \<^verbatim>\<open>http.c\<close>), \<open>Egress_Profile\<close> (\<^verbatim>\<open>profile.c\<close>): the invariant of
    configurations, errors change nothing, bound endpoints are immutable, Unix listeners are private,
    profiles carry credentials that the server accepts.
  \<^item> \<open>Egress_Socks\<close> (\<^verbatim>\<open>socks.c\<close>), \<open>Egress_Http\<close> and \<open>Egress_Http_Request\<close> (\<^verbatim>\<open>http.c\<close>): requests are authenticated and are what
    the grammar says; Base64 is canonical.
  \<^item> \<open>Egress_Buffer\<close>, \<open>Egress_Server_State\<close> (\<^verbatim>\<open>server/internal.h\<close>, \<^verbatim>\<open>quota.c\<close>, \<^verbatim>\<open>server/receipt.c\<close>): the buffer refines a bounded queue; the state
    of the server, calls and answers, quotas, receipts.
  \<^item> \<open>Egress_Connection\<close>, \<open>Egress_Relay\<close>, \<open>Egress_Admin\<close>, \<open>Egress_Connector\<close>, \<open>Egress_Server\<close> (\<^verbatim>\<open>connection.c\<close>, \<^verbatim>\<open>relay.c\<close>, \<^verbatim>\<open>admin.c\<close>, \<^verbatim>\<open>listener.c\<close>,
    \<^verbatim>\<open>server/connector.c\<close>, \<^verbatim>\<open>server.c\<close>): every operation of the server.
  \<^item> \<open>Egress_Lifecycle\<close>, \<open>Egress_Conduct\<close>, \<open>Egress_Dispatch\<close>: the life of a connection as an abstract step relation \<open>life\<close>, and that the
    operations of a connection are sequences of its steps.
  \<^item> \<open>Egress_Service\<close>, \<open>Egress_System\<close>, \<open>Egress_Progress\<close>: the invariant \<open>good\<close> of the server, that every handler and call keeps it, the reachable
    states \<open>reach\<close>, and that the loop returns. \<open>Egress_Threads\<close>: opening a stream returns, whatever the other threads do. \<open>Egress_Example\<close> is the run that the witnesses use.
  \<^item> \<open>Egress_Session\<close> (\<^verbatim>\<open>src/src/connector.c\<close>), \<open>Egress_Channel\<close> (\<^verbatim>\<open>channel.c\<close>, \<^verbatim>\<open>bootstrap_codec.c\<close>), \<open>Egress_Channel_Server\<close> (\<^verbatim>\<open>channel_server.c\<close>): the
    codecs are inverse to each other, every datagram is answered once, and a channel closes each stream exactly once.
  \<^item> \<open>Egress_Settings\<close> (\<^verbatim>\<open>src/cli/config_catalog.c\<close>, \<^verbatim>\<open>config_file.c\<close>) and \<open>Egress_Reload\<close> (\<^verbatim>\<open>serve.c\<close>, \<^verbatim>\<open>reload.c\<close>): a configuration file that loads satisfies the
    bounds and the constraints between its keys, and a reload changes nothing but the policy.

  \<^bold>\<open>Not modelled.\<close> The channel broker (\<^verbatim>\<open>src/src/channel_broker.c\<close>) and the client library (\<^verbatim>\<open>src/client\<close>) are socket and thread
  plumbing around the codecs and the channel modelled here; the TLS modules (\<^verbatim>\<open>src/providers\<close>) are glue to
  third-party TLS libraries, whose behaviour they would have to assume. Of the command line, the commands
  (\<^verbatim>\<open>commands.c\<close>, \<^verbatim>\<open>main.c\<close>, \<^verbatim>\<open>output.c\<close>), the start of the daemon and of programs (\<^verbatim>\<open>serve.c\<close> but for the policy, \<^verbatim>\<open>channel_exec.c\<close>, \<^verbatim>\<open>channel_broker.c\<close>),
  the reading of secrets and the translations are calls of its library and output.
  Locks, memory management, the texts of error messages and the wiping of secrets have no counterpart. The public headers
  declare what the sources define; their types and constants are modelled with the component that uses them.
\<close>

section \<open>Properties of the whole server\<close>

text \<open>
  C1: In every reachable state, every upstream connection the server ever started went to an address
  that some policy installed since its creation pins for a host and a port: the address is one of the
  destination's, and it is public unless that destination explicitly allows private addresses.
\<close>

theorem connects_pinned:
  assumes "kernel_ok K" "reach K Ps s" "Call_connect h a \<in> set (srv_trace s)"
  shows "\<exists>p\<in>Ps. \<exists>host port d. egress_policy_find p (Some host) port = Some d \<and> port \<noteq> 0 \<and> a \<in> set (addresses d) \<and>
    (allow_private d \<or> \<not> egress_address_is_private (Some (addr_storage a)))"
proof -
  have inv: "good Ps s" "\<forall>p\<in>Ps. policy_inv p" using reach_inv[OF assms(2,1)] by auto
  obtain p host port d where d: "p \<in> Ps" "egress_policy_find p (Some host) port = Some d" "a \<in> set (addresses d)"
    using good_connect[OF inv(1) assms(3)] .
  have "port \<noteq> 0 \<and> (allow_private d \<or> \<not> egress_address_is_private (Some (addr_storage a)))"
    using policy_find_ok[OF inv(2)[rule_format, OF d(1)] d(2)] d(3) by (auto simp: destination_ok_def list_all_iff)
  with d show ?thesis by blast
qed

theorem connects_pinned_witness:
  "Call_connect 5 demo_address_of \<in> set (srv_trace demo_open) \<and>
   (\<exists>host port d. egress_policy_find demo_clone (Some host) port = Some d \<and> port \<noteq> 0 \<and> demo_address_of \<in> set (addresses d) \<and>
     (allow_private d \<or> \<not> egress_address_is_private (Some (addr_storage demo_address_of))))"
  using connects_pinned[OF demo_kernel_ok demo_open_reach, of 5 demo_address_of] demo_open_state by simp

text \<open>
  C2: In every reachable state the limits of every principal hold: the bytes charged to it are at most
  its total, its admitted connections are at most its maximum and equal the counter the server keeps,
  and no connection admitted for it has used more than its limit per connection. A limit of 0 is no limit.
\<close>

theorem principal_limits:
  assumes "kernel_ok K" "reach K Ps s" "i < length (principals (srv_config s))" "p = principals (srv_config s) ! i"
  shows "(max_bytes_total p = 0 \<or> principal_bytes_total s ! i \<le> max_bytes_total p) \<and>
    principal_active s ! i = count_if (admitted_as i) (connections s) \<and>
    (max_active_connections p = 0 \<or> count_if (admitted_as i) (connections s) \<le> max_active_connections p) \<and>
    (\<forall>c\<in>set (connections s). admitted_as i c \<longrightarrow> max_bytes_per_connection p = 0 \<or> quota_stream_used c \<le> max_bytes_per_connection p)"
  using good_account[of Ps s i] reach_inv[OF assms(2,1)] assms(3,4) by (auto simp: account_ok_def)

theorem principal_limits_witness:
  "principals (srv_config demo_open) ! 0 = principals demo_native ! 0 \<and> max_active_connections (principals demo_native ! 0) = 2 \<and>
   count_if (admitted_as 0) (connections demo_open) \<le> 2 \<and> principal_bytes_total demo_open ! 0 \<le> 5000"
  using principal_limits[OF demo_kernel_ok demo_open_reach, of 0, OF _ HOL.refl] demo_open_state by (simp add: demo_native_eq)

text \<open>
  C3: A connection in relay has a destination that an installed policy pins, and when that destination
  requires a TLS server name, the name of the client's first flight has been verified.
\<close>

theorem sni_before_relay:
  assumes "kernel_ok K" "reach K Ps s" "c \<in> set (connections s)" "conn_state c = CONNECTION_RELAY"
  shows "\<exists>d. conn_destination c = Some d \<and> pinned Ps d \<and> (require_tls_sni d \<longrightarrow> conn_tls_sni_verified c)"
  using good_relay[OF _ assms(3,4)] reach_inv[OF assms(2,1)] by blast

theorem sni_before_relay_witness:
  "conn_state (hd (connections demo_open)) = CONNECTION_RELAY \<and>
   (\<exists>d. conn_destination (hd (connections demo_open)) = Some d \<and> pinned {demo_clone} d \<and>
     (require_tls_sni d \<longrightarrow> conn_tls_sni_verified (hd (connections demo_open))))"
proof -
  have c: "hd (connections demo_open) \<in> set (connections demo_open)" "conn_state (hd (connections demo_open)) = CONNECTION_RELAY"
    using demo_open_state by (cases "connections demo_open"; simp)+
  from sni_before_relay[OF demo_kernel_ok demo_open_reach c] c(2) show ?thesis by blast
qed

text \<open>
  C7: The guard of a tunnel to a destination that requires a TLS server name: it lets a connection
  into the relay only when the bytes the client has sent are TLS handshake records whose handshake
  messages start with a well-formed ClientHello, without Encrypted ClientHello, whose only server name
  is the host of the request; and it records the check.
\<close>

theorem tunnel_identity_gate:
  assumes "egress_connection_enforce_tunnel_identity K slot s = (ok, t)" "slot < length (connections s)"
    "conn_state (conn s slot) = CONNECTION_IDENTITY" "conn_state (conn t slot) = CONNECTION_RELAY"
  shows "conn_tls_sni_verified (conn t slot) \<and>
    (\<exists>rs rest c trailing. buffer_content (client_to_upstream (conn s slot)) = encode_records rs @ rest \<and>
       fragments rs = hello_message c @ trailing \<and> hello_wf (conn_host (conn s slot)) c)"
  using identity_relay[OF assms] hello_match_sound by blast

theorem tunnel_identity_gate_witness:
  "\<exists>s ok t. egress_connection_enforce_tunnel_identity demo_kernel 0 s = (ok, t) \<and> conn_state (conn s 0) = CONNECTION_IDENTITY \<and>
     conn_state (conn t 0) = CONNECTION_RELAY \<and> conn_tls_sni_verified (conn t 0)"
proof -
  define s where "s = demo_open\<lparr>connections := [connection_zero\<lparr>conn_state := CONNECTION_IDENTITY, conn_host := demo_hello_host,
    client_to_upstream := \<lparr>buf_data = encode_records demo_records, buf_capacity = length (encode_records demo_records), buf_offset = 0,
      buf_length = length (encode_records demo_records)\<rparr>\<rparr>]\<rparr>"
  obtain ok t where t: "egress_connection_enforce_tunnel_identity demo_kernel 0 s = (ok, t)" by fastforce
  have m: "egress_tls_client_hello_matches (Some (encode_records demo_records)) (Some demo_hello_host) = Hello_match"
    using encoded_records_match[OF demo_hello_wf demo_records_fragments(3,1,2), of "[]"] by simp
  have "encode_records demo_records \<noteq> []" by (simp add: demo_records_def encode_records_def encode_record_def)
  then have "egress_connection_update_watches demo_kernel 0 (touch demo_kernel 0
      (on_conn 0 (\<lambda>c. c\<lparr>conn_tls_sni_verified := True, conn_state := CONNECTION_RELAY\<rparr>) s)) = (ok, t)"
    using t m by (simp add: egress_connection_enforce_tunnel_identity_def s_def conn_def buffer_content_def read_at_def)
  from quiet_core(1)[OF quiet_update_watches[OF this quiet.refl]] have relay: "conn_state (conn t 0) = CONNECTION_RELAY"
    by (simp add: touch_def monotonic_now_def s_def)
  have start: "0 < length (connections s)" "conn_state (conn s 0) = CONNECTION_IDENTITY" by (simp_all add: s_def conn_def)
  from tunnel_identity_gate[OF t start relay] t start(2) relay show ?thesis by blast
qed

text \<open>
  C5: When the loop of a server has run and returned, every connection it opened has been closed: all
  slots are unused, no connection counts as active, and as many receipts were emitted as connections
  were opened.
\<close>

theorem run_settles_accounts:
  assumes "kernel_ok K" "reach K Ps s" "maelys_egress_server_run K s = Some (r, t)" "r \<noteq> ERR_STATE"
  shows "(\<forall>c\<in>set (connections t). conn_state c = CONNECTION_UNUSED) \<and> connection_count t = 0 \<and>
    metric_active (srv_metrics t) = 0 \<and> metric_receipts (srv_metrics t) = next_id t"
proof -
  note t = good_run[OF assms(3,4,1)]
  have good: "good Ps s" using reach_inv[OF assms(2,1)] by blast
  have "count_if in_use (connections t) = 0" using t(2)[OF good] by (auto simp: count_if_def in_use_def)
  then show ?thesis using t[OF good] by (simp add: good_def server_inv_def ledger_inv_def)
qed

theorem run_settles_accounts_witness:
  "next_id demo_open = 1 \<and> (\<exists>t. maelys_egress_server_run demo_kernel demo_open = Some (EGRESS_OK, t) \<and>
     connection_count t = 0 \<and> metric_receipts (srv_metrics t) = next_id t)"
proof -
  obtain t where t: "maelys_egress_server_run demo_kernel demo_open = Some (EGRESS_OK, t)" using demo_run by blast
  from run_settles_accounts[OF demo_kernel_ok demo_open_reach t] t demo_open_state show ?thesis by blast
qed

text \<open>
  C4: The loop returns: when at some point clients stop arriving and at some point the stop is requested,
  \<^verbatim>\<open>maelys_egress_server_run\<close> returns, and the state it leaves is reachable. In particular every handler
  returns, and so do the loops that accept clients.
\<close>

theorem run_returns:
  assumes "kernel_ok K" "clients_end K n" "stop_comes K m" "reach K Ps s"
  shows "\<exists>r t. maelys_egress_server_run K s = Some (r, t) \<and> reach K Ps t"
proof -
  obtain b u where u: "load_stopping K s = (b, u)" by fastforce
  have "good Ps (u\<lparr>srv_started := True, srv_running := True\<rparr>)"
    using reach_inv[OF reach.started[OF reach.asked_stopping[OF assms(4) u]] assms(1)] by blast
  from run_loop_returns[OF assms(1-3) this] have "\<exists>r t. maelys_egress_server_run K s = Some (r, t)"
    by (auto simp: maelys_egress_server_run_def u)
  then show ?thesis using reach_run assms(4) by blast
qed

theorem run_returns_witness:
  "clients_end demo_stopper 0 \<and> stop_comes demo_stopper 5 \<and> (\<exists>r t. maelys_egress_server_run demo_stopper demo_server = Some (r, t))"
proof -
  have "clients_end demo_stopper 0" "stop_comes demo_stopper 5" by (simp_all add: clients_end_def stop_comes_def demo_stopper_def)
  moreover have "reach demo_stopper {demo_clone} demo_server" by (rule demo_server_reach) (simp add: demo_stopper_def demo_fields)
  ultimately show ?thesis using run_returns[OF demo_stopper_ok] by blast
qed

text \<open>
  C6: In every reachable state the table of connections is consistent: the number of used slots is the
  connection count and the active gauge, at most the configured maximum; every connection that was
  opened is either in a slot or has its receipt; the bytes of every buffer lie inside its block; and
  there are 16 administration connections whose request and response fit their arrays.
\<close>

theorem server_consistent:
  assumes "kernel_ok K" "reach K Ps s"
  shows "connection_count s = count_if in_use (connections s) \<and> connection_count s \<le> max_connections (srv_config s) \<and>
    metric_active (srv_metrics s) = of_nat (connection_count s) \<and>
    next_id s = metric_receipts (srv_metrics s) + of_nat (connection_count s) \<and>
    list_all buffers_ok (connections s) \<and>
    length (admin_connections s) = EGRESS_MAX_ADMIN_CONNECTIONS \<and> list_all admin_ok (admin_connections s)"
proof -
  have inv: "good Ps s" using reach_inv[OF assms(2,1)] by blast
  have "count_if in_use (connections s) \<le> length (connections s)" by (simp add: count_if_def)
  then show ?thesis using inv by (simp add: good_def server_inv_def ledger_inv_def list_all_iff)
qed

theorem server_consistent_witness:
  "count_if in_use (connections demo_open) = 1 \<and> metric_receipts (srv_metrics demo_open) = 0 \<and> list_all buffers_ok (connections demo_open)"
  using server_consistent[OF demo_kernel_ok demo_open_reach] demo_open_state by simp

end
